(* ===== verification/Prelude.thy ===== *)
theory Prelude
  imports Main "HOL-Library.Word"
begin

text \<open>
  Shared vocabulary of the development: the machine types of the C sources (the tunnel is built
  for 64-bit little-endian Android targets), byte buffers and the fragments of the C library that
  the modelled code calls (\<^verbatim>\<open>memcpy\<close>, \<^verbatim>\<open>memcmp\<close>, \<^verbatim>\<open>strcmp\<close>, \<^verbatim>\<open>strlen\<close>, \<^verbatim>\<open>htons\<close>), and the
  lemma collections the component theories extend.
\<close>

unbundle bit_operations_syntax

named_theorems wire_simps \<open>byte-level layout of the protocol structures\<close>
named_theorems heap_simps \<open>reads after writes in the pointer heaps\<close>
named_theorems env_simps \<open>the scripted system environment\<close>

section \<open>Machine types\<close>

type_synonym byte = "8 word"
type_synonym u16 = "16 word"
type_synonym u32 = "32 word"
type_synonym u64 = "64 word"
type_synonym ptr = "64 word"
type_synonym bytes = "byte list"

abbreviation NULL :: ptr where "NULL \<equiv> 0"

section \<open>Byte buffers\<close>

text \<open>\<^verbatim>\<open>memcpy (buf + i, bs, length bs)\<close> on a buffer given by its contents.\<close>

definition mem_put :: "'a list \<Rightarrow> nat \<Rightarrow> 'a list \<Rightarrow> 'a list" where
  "mem_put xs i bs = take i xs @ bs @ drop (i + length bs) xs"

text \<open>The \<open>n\<close> bytes at offset \<open>i\<close>.\<close>

definition mem_get :: "'a list \<Rightarrow> nat \<Rightarrow> nat \<Rightarrow> 'a list" where
  "mem_get xs i n = take n (drop i xs)"

lemma length_mem_put [simp]:
  "i + length bs \<le> length xs \<Longrightarrow> length (mem_put xs i bs) = length xs"
  by (simp add: mem_put_def)

lemma length_mem_get [simp]: "i + n \<le> length xs \<Longrightarrow> length (mem_get xs i n) = n"
  by (simp add: mem_get_def)

lemma mem_get_put_same [simp]:
  "i + length bs \<le> length xs \<Longrightarrow> n = length bs \<Longrightarrow> mem_get (mem_put xs i bs) i n = bs"
  by (simp add: mem_get_def mem_put_def)

lemma mem_get_put_disjoint:
  "i + length bs \<le> length xs \<Longrightarrow> j + n \<le> i \<or> i + length bs \<le> j \<Longrightarrow>
     mem_get (mem_put xs i bs) j n = mem_get xs j n"
  by (auto simp: mem_get_def mem_put_def take_drop min_def)

lemma nth_mem_put:
  "i + length bs \<le> length xs \<Longrightarrow> k < length xs \<Longrightarrow>
     mem_put xs i bs ! k = (if i \<le> k \<and> k < i + length bs then bs ! (k - i) else xs ! k)"
  by (auto simp: mem_put_def nth_append)

section \<open>Integers in memory\<close>

text \<open>A 16-bit or 32-bit value stored in memory on a little-endian machine, and read back.\<close>

definition le16 :: "u16 \<Rightarrow> bytes" where
  "le16 v = [ucast v, ucast (drop_bit 8 v)]"

fun of_le16 :: "bytes \<Rightarrow> u16" where
  "of_le16 (a # b # _) = ucast a OR push_bit 8 (ucast b)"
| "of_le16 _ = 0"

text \<open>\<^verbatim>\<open>htons\<close> and \<^verbatim>\<open>ntohs\<close>: a byte swap on this machine.\<close>

definition htons :: "u16 \<Rightarrow> u16" where
  "htons v = push_bit 8 v OR drop_bit 8 v"

abbreviation ntohs :: "u16 \<Rightarrow> u16" where "ntohs \<equiv> htons"

lemma length_le16 [simp]: "length (le16 v) = 2"
  by (simp add: le16_def)

lemma of_le16_le16 [simp]: "of_le16 (le16 v @ xs) = v"
  by (rule bit_word_eqI)
     (auto simp: le16_def bit_or_iff bit_push_bit_iff bit_ucast_iff bit_drop_bit_eq)

lemma of_le16_le16' [simp]: "of_le16 (le16 v) = v"
  using of_le16_le16 [of v "[]"] by simp

lemma le16_of_le16 [simp]: "length bs = 2 \<Longrightarrow> le16 (of_le16 bs) = bs"
proof -
  assume "length bs = 2"
  then obtain a b where bs: "bs = [a, b]"
    by (auto simp: length_Suc_conv numeral_2_eq_2)
  have "ucast (ucast a OR push_bit 8 (ucast b) :: u16) = a"
    by (rule bit_word_eqI) (auto simp: bit_or_iff bit_push_bit_iff bit_ucast_iff)
  moreover have "ucast (drop_bit 8 (ucast a OR push_bit 8 (ucast b) :: u16)) = b"
    by (rule bit_word_eqI)
       (auto simp: bit_or_iff bit_push_bit_iff bit_ucast_iff bit_drop_bit_eq
             dest: bit_imp_le_length)
  ultimately show ?thesis by (simp add: bs le16_def)
qed

lemma htons_htons [simp]: "htons (htons v) = v"
  by (rule bit_word_eqI)
     (auto simp: htons_def bit_or_iff bit_push_bit_iff bit_drop_bit_eq dest: bit_imp_le_length)

section \<open>C strings and memory comparison\<close>

text \<open>
  A C string is the list of its bytes before the terminating NUL; \<open>cstr\<close> is the string a pointer
  into a buffer denotes (\<open>None\<close> when the buffer holds no NUL, so that reading it would run past
  the end).
\<close>

fun cstr :: "bytes \<Rightarrow> bytes option" where
  "cstr [] = None"
| "cstr (b # bs) = (if b = 0 then Some [] else map_option (Cons b) (cstr bs))"

text \<open>\<^verbatim>\<open>strcmp\<close>: the difference of the first bytes that differ, a shorter string ending in NUL.\<close>

fun strcmp :: "bytes \<Rightarrow> bytes \<Rightarrow> int" where
  "strcmp [] [] = 0"
| "strcmp [] (b # bs) = - uint b"
| "strcmp (a # as) [] = uint a"
| "strcmp (a # as) (b # bs) = (if a = b then strcmp as bs else uint a - uint b)"

text \<open>\<^verbatim>\<open>memcmp (p, q, n)\<close> on two regions of the same length.\<close>

fun memcmp :: "bytes \<Rightarrow> bytes \<Rightarrow> int" where
  "memcmp (a # as) (b # bs) = (if a = b then memcmp as bs else uint a - uint b)"
| "memcmp _ _ = 0"

definition cstring :: "bytes \<Rightarrow> bool" where
  "cstring s \<longleftrightarrow> 0 \<notin> set s"

lemma cstring_simps [simp]:
  "cstring []"
  "cstring (b # bs) \<longleftrightarrow> b \<noteq> 0 \<and> cstring bs"
  "cstring (as @ bs) \<longleftrightarrow> cstring as \<and> cstring bs"
  by (auto simp: cstring_def)

lemma cstr_cstring: "cstr bs = Some s \<Longrightarrow> cstring s"
  by (induction bs arbitrary: s) (auto split: if_splits)

lemma cstr_terminated: "cstring s \<Longrightarrow> cstr (s @ 0 # xs) = Some s"
  by (induction s) auto

lemma cstr_SomeD: "cstr bs = Some s \<Longrightarrow> \<exists>xs. bs = s @ 0 # xs"
  by (induction bs arbitrary: s) (auto split: if_splits)

lemma uint_byte_pos: "b \<noteq> (0 :: byte) \<Longrightarrow> 0 < uint b"
  by (metis uint_0_iff uint_nonnegative order_le_less)

lemma strcmp_eq_0: "cstring s \<Longrightarrow> cstring t \<Longrightarrow> strcmp s t = 0 \<longleftrightarrow> s = t"
  by (induction s t rule: strcmp.induct) (auto dest!: uint_byte_pos simp: word_uint_eq_iff)

lemma strcmp_antisym: "strcmp s t = - strcmp t s"
  by (induction s t rule: strcmp.induct) auto

lemma strcmp_trans:
  "cstring s \<Longrightarrow> cstring t \<Longrightarrow> cstring u \<Longrightarrow> strcmp s t < 0 \<Longrightarrow> strcmp t u < 0 \<Longrightarrow> strcmp s u < 0"
proof (induction s t arbitrary: u rule: strcmp.induct)
  case (2 b bs)
  then show ?case by (cases u) (auto dest!: uint_byte_pos split: if_splits)
next
  case (4 a as b bs)
  then show ?case by (cases u) (auto dest!: uint_byte_pos split: if_splits)
qed (auto dest!: uint_byte_pos)

lemma memcmp_eq_0: "length s = length t \<Longrightarrow> memcmp s t = 0 \<longleftrightarrow> s = t"
  by (induction s t rule: memcmp.induct) (auto simp: word_uint_eq_iff)

lemma memcmp_antisym: "memcmp s t = - memcmp t s"
  by (induction s t rule: memcmp.induct) (auto simp: word_uint_eq_iff)

lemma memcmp_trans:
  "length s = length t \<Longrightarrow> length t = length u \<Longrightarrow> memcmp s t < 0 \<Longrightarrow> memcmp t u < 0 \<Longrightarrow>
     memcmp s u < 0"
proof (induction s t arbitrary: u rule: memcmp.induct)
  case (1 a as b bs)
  then show ?case by (cases u) (auto split: if_splits)
qed auto

end
