(* ===== verification/HevList.thy ===== *)
theory HevList
  imports Prelude
begin

text \<open>
  The intrusive doubly linked list of \<^verbatim>\<open>misc/hev-list.c\<close> and \<^verbatim>\<open>misc/hev-list.h\<close>: the list head is a
  record of two pointers, the nodes live in a heap from addresses to \<open>next\<close>/\<open>prev\<close> pairs, and every
  operation passes that heap explicitly. The abstraction \<open>list_at\<close> says that a head and a heap
  hold a given sequence of nodes; the operations are shown to append and to remove.
\<close>

section \<open>Definitions\<close>

record HevListNode =
  ln_next :: ptr
  ln_prev :: ptr

record HevList =
  head :: ptr
  tail :: ptr

type_synonym lheap = "ptr \<Rightarrow> HevListNode"

definition hev_list_node_prev :: "lheap \<Rightarrow> ptr \<Rightarrow> ptr" where
  "hev_list_node_prev h node = ln_prev (h node)"

definition hev_list_node_next :: "lheap \<Rightarrow> ptr \<Rightarrow> ptr" where
  "hev_list_node_next h node = ln_next (h node)"

definition hev_list_first :: "HevList \<Rightarrow> ptr" where
  "hev_list_first self = head self"

definition hev_list_last :: "HevList \<Rightarrow> ptr" where
  "hev_list_last self = tail self"

definition set_next :: "ptr \<Rightarrow> ptr \<Rightarrow> lheap \<Rightarrow> lheap" where
  "set_next p v h = h(p := (h p)\<lparr>ln_next := v\<rparr>)"

definition set_prev :: "ptr \<Rightarrow> ptr \<Rightarrow> lheap \<Rightarrow> lheap" where
  "set_prev p v h = h(p := (h p)\<lparr>ln_prev := v\<rparr>)"

definition hev_list_add_tail :: "HevList \<Rightarrow> ptr \<Rightarrow> lheap \<Rightarrow> HevList \<times> lheap" where
  "hev_list_add_tail self new h =
     (let h = set_prev new (tail self) h;
          h = set_next new NULL h;
          (self, h) = (if tail self \<noteq> NULL then (self, set_next (tail self) new h)
                       else (self\<lparr>head := new\<rparr>, h))
      in (self\<lparr>tail := new\<rparr>, h))"

definition hev_list_del :: "HevList \<Rightarrow> ptr \<Rightarrow> lheap \<Rightarrow> HevList \<times> lheap" where
  "hev_list_del self node h =
     (let (self, h) =
            (if ln_prev (h node) \<noteq> NULL
             then (self, set_next (ln_prev (h node)) (ln_next (h node)) h)
             else (self\<lparr>head := ln_next (h node)\<rparr>, h))
      in if ln_next (h node) \<noteq> NULL
         then (self, set_prev (ln_next (h node)) (ln_prev (h node)) h)
         else (self\<lparr>tail := ln_prev (h node)\<rparr>, h))"

section \<open>Abstraction\<close>

text \<open>
  \<open>dseg h p x xs l n\<close>: from node \<open>x\<close>, whose predecessor is \<open>p\<close>, the \<open>next\<close> pointers run through
  \<open>xs\<close> to \<open>n\<close>, the \<open>prev\<close> pointers agree, and \<open>l\<close> is the last node (\<open>p\<close> when \<open>xs\<close> is empty).
\<close>

fun dseg :: "lheap \<Rightarrow> ptr \<Rightarrow> ptr \<Rightarrow> ptr list \<Rightarrow> ptr \<Rightarrow> ptr \<Rightarrow> bool" where
  "dseg h p x [] l n \<longleftrightarrow> x = n \<and> l = p"
| "dseg h p x (a # as) l n \<longleftrightarrow>
     x = a \<and> a \<noteq> NULL \<and> ln_prev (h a) = p \<and> dseg h a (ln_next (h a)) as l n"

definition list_at :: "lheap \<Rightarrow> HevList \<Rightarrow> ptr list \<Rightarrow> bool" where
  "list_at h self xs \<longleftrightarrow> dseg h NULL (head self) xs (tail self) NULL \<and> distinct xs"

lemma dseg_append:
  "dseg h p x (as @ bs) l n \<longleftrightarrow> (\<exists>m y. dseg h p x as m y \<and> dseg h m y bs l n)"
  by (induction as arbitrary: p x) auto

lemma dseg_frame_next [simp]: "a \<notin> set xs \<Longrightarrow> dseg (set_next a v h) p x xs l n = dseg h p x xs l n"
  by (induction xs arbitrary: p x) (auto simp: set_next_def)

lemma dseg_frame_prev [simp]: "a \<notin> set xs \<Longrightarrow> dseg (set_prev a v h) p x xs l n = dseg h p x xs l n"
  by (induction xs arbitrary: p x) (auto simp: set_prev_def)

lemma dseg_last: "dseg h p x xs l n \<Longrightarrow> l = (if xs = [] then p else last xs)"
  by (induction xs arbitrary: p x) auto

lemma dseg_nonnull: "dseg h p x xs l n \<Longrightarrow> NULL \<notin> set xs"
  by (induction xs arbitrary: p x) auto

lemma set_fields [heap_simps]:
  "ln_next (set_next a v h b) = (if a = b then v else ln_next (h b))"
  "ln_prev (set_next a v h b) = ln_prev (h b)"
  "ln_next (set_prev a v h b) = ln_next (h b)"
  "ln_prev (set_prev a v h b) = (if a = b then v else ln_prev (h b))"
  by (auto simp: set_next_def set_prev_def)

lemma list_at_first: "list_at h self xs \<Longrightarrow> hev_list_first self = (case xs of [] \<Rightarrow> NULL | a # _ \<Rightarrow> a)"
  by (cases xs) (auto simp: list_at_def hev_list_first_def)

lemma list_at_last: "list_at h self xs \<Longrightarrow> hev_list_last self = (if xs = [] then NULL else last xs)"
  by (auto simp: list_at_def hev_list_last_def dest: dseg_last)

lemma list_at_nonnull: "list_at h self xs \<Longrightarrow> a \<in> set xs \<Longrightarrow> a \<noteq> NULL"
  by (auto simp: list_at_def dest: dseg_nonnull)

lemma list_at_distinct: "list_at h self xs \<Longrightarrow> distinct xs"
  by (simp add: list_at_def)

lemma list_at_next:
  assumes "list_at h self (as @ a # bs)"
  shows "hev_list_node_next h a = (case bs of [] \<Rightarrow> NULL | b # _ \<Rightarrow> b)"
  using assms by (cases bs) (auto simp: list_at_def dseg_append hev_list_node_next_def)

lemma list_at_empty: "list_at h \<lparr>head = NULL, tail = NULL\<rparr> []"
  by (simp add: list_at_def)

section \<open>Refinement\<close>

lemma add_tail_list_at:
  assumes l: "list_at h self xs" and new: "new \<noteq> NULL" "new \<notin> set xs"
    and res: "hev_list_add_tail self new h = (self', h')"
  shows "list_at h' self' (xs @ [new])"
proof (cases xs rule: rev_cases)
  case Nil
  with l new res show ?thesis
    by (auto simp: list_at_def hev_list_add_tail_def heap_simps)
next
  case (snoc ys y)
  with l have "tail self = y" "y \<noteq> NULL" "y \<notin> set ys"
    by (auto simp: list_at_def dseg_append)
  with snoc l new res show ?thesis
    by (auto simp: list_at_def hev_list_add_tail_def dseg_append heap_simps)
qed


lemma del_list_at:
  assumes l: "list_at h self (as @ a # bs)"
    and res: "hev_list_del self a h = (self', h')"
  shows "list_at h' self' (as @ bs)"
proof -
  from l obtain m where
    seg: "dseg h NULL (head self) as m a" "dseg h a (ln_next (h a)) bs (tail self) NULL"
    and a: "a \<noteq> NULL" "ln_prev (h a) = m" and d: "distinct (as @ a # bs)"
    by (auto simp: list_at_def dseg_append)
  have m: "m = (if as = [] then NULL else last as)"
    using seg(1) by (rule dseg_last)
  have nn: "NULL \<notin> set as" "NULL \<notin> set bs"
    using seg by (auto dest: dseg_nonnull)
  show ?thesis
  proof (cases as rule: rev_cases)
    case Nil
    with seg a d m nn res show ?thesis
      by (cases bs) (auto simp: list_at_def hev_list_del_def heap_simps)
  next
    case (snoc cs c)
    with seg a d m nn res show ?thesis
      by (cases bs) (auto simp: list_at_def hev_list_del_def heap_simps dseg_append)
  qed
qed

lemma del_frame:
  assumes "list_at h self xs" "a \<in> set xs" "hev_list_del self a h = (self', h')" "b \<notin> set xs"
  shows "h' b = h b"
proof -
  from \<open>a \<in> set xs\<close> obtain as bs where xs: "xs = as @ a # bs" by (auto dest: split_list)
  have p: "ln_prev (h a) = NULL \<or> ln_prev (h a) \<in> set xs"
    using assms(1) unfolding xs list_at_def dseg_append
    by (auto dest!: dseg_last split: if_splits)
  have n: "ln_next (h a) = NULL \<or> ln_next (h a) \<in> set xs"
    using assms(1) unfolding xs list_at_def dseg_append by (cases bs) auto
  from assms p n show ?thesis
    by (auto simp: hev_list_del_def set_next_def set_prev_def split: if_splits)
qed

lemma add_tail_frame:
  assumes "list_at h self xs" "hev_list_add_tail self a h = (self', h')" "b \<notin> set xs" "b \<noteq> a"
  shows "h' b = h b"
proof -
  have "tail self = NULL \<or> tail self \<in> set xs"
    using assms(1) unfolding list_at_def by (auto dest!: dseg_last split: if_splits)
  with assms show ?thesis
    by (auto simp: hev_list_add_tail_def set_next_def set_prev_def Let_def list_at_nonnull
             split: if_splits)
qed

section \<open>The list interface its clients rely on\<close>

text \<open>
  The name cache, the session set and the datagram queue use the list through four facts only:
  what a representation of \<open>xs\<close> becomes after an append and after a deletion, and that a
  representation never repeats a node or holds an invalid one.
\<close>

locale intrusive_list =
  fixes repr :: "'h \<Rightarrow> 'l \<Rightarrow> 'n list \<Rightarrow> bool"
    and add :: "'l \<Rightarrow> 'n \<Rightarrow> 'h \<Rightarrow> 'l \<times> 'h"
    and del :: "'l \<Rightarrow> 'n \<Rightarrow> 'h \<Rightarrow> 'l \<times> 'h"
    and valid :: "'n \<Rightarrow> bool"
  assumes add_repr: "repr h l xs \<Longrightarrow> valid n \<Longrightarrow> n \<notin> set xs \<Longrightarrow> add l n h = (l', h') \<Longrightarrow>
      repr h' l' (xs @ [n])"
    and del_repr: "repr h l (as @ n # bs) \<Longrightarrow> del l n h = (l', h') \<Longrightarrow> repr h' l' (as @ bs)"
    and repr_distinct: "repr h l xs \<Longrightarrow> distinct xs"
    and repr_valid: "repr h l xs \<Longrightarrow> n \<in> set xs \<Longrightarrow> valid n"
begin

lemma del_remove1:
  assumes "repr h l xs" "n \<in> set xs" "del l n h = (l', h')"
  shows "repr h' l' (remove1 n xs)"
proof -
  from \<open>n \<in> set xs\<close> obtain as bs where xs: "xs = as @ n # bs" and n: "n \<notin> set as"
    by (meson split_list_first)
  from assms(1,3) have "repr h' l' (as @ bs)"
    unfolding xs by (rule del_repr)
  with n show ?thesis by (simp add: xs remove1_append)
qed

lemma touch_repr:
  assumes "repr h l xs" "n \<in> set xs" "del l n h = (l1, h1)" "add l1 n h1 = (l2, h2)"
  shows "repr h2 l2 (remove1 n xs @ [n])"
proof -
  have "repr h1 l1 (remove1 n xs)"
    using assms(1-3) by (rule del_remove1)
  moreover have "n \<notin> set (remove1 n xs)"
    using repr_distinct [OF assms(1)] by simp
  ultimately show ?thesis
    using repr_valid [OF assms(1,2)] assms(4) by (blast intro: add_repr)
qed

end

interpretation hl: intrusive_list list_at hev_list_add_tail hev_list_del "\<lambda>n. n \<noteq> NULL"
proof unfold_locales
  show "list_at h l xs \<Longrightarrow> n \<noteq> NULL \<Longrightarrow> n \<notin> set xs \<Longrightarrow> hev_list_add_tail l n h = (l', h') \<Longrightarrow>
      list_at h' l' (xs @ [n])" for h l xs n l' h'
    by (rule add_tail_list_at)
  show "list_at h l (as @ n # bs) \<Longrightarrow> hev_list_del l n h = (l', h') \<Longrightarrow> list_at h' l' (as @ bs)"
    for h l as n bs l' h'
    by (rule del_list_at)
qed (auto dest: list_at_distinct list_at_nonnull)

section \<open>Properties\<close>

text \<open>
  C4. The list operations: on a head and heap that hold \<open>xs\<close>, \<^verbatim>\<open>hev_list_add_tail\<close> of a new node leaves
  them holding \<open>xs\<close> followed by it, \<^verbatim>\<open>hev_list_del\<close> of a member leaves them holding \<open>xs\<close> without it,
  and neither touches a node outside the list; \<^verbatim>\<open>hev_list_first\<close> and \<^verbatim>\<open>hev_list_last\<close> are the ends.
\<close>

theorem list_ops_ok:
  assumes "list_at h self xs"
  shows "(new \<noteq> NULL \<longrightarrow> new \<notin> set xs \<longrightarrow>
      (let (self', h') = hev_list_add_tail self new h
       in list_at h' self' (xs @ [new]) \<and> (\<forall>b. b \<notin> set xs \<longrightarrow> b \<noteq> new \<longrightarrow> h' b = h b))) \<and>
    (a \<in> set xs \<longrightarrow>
      (let (self', h') = hev_list_del self a h
       in list_at h' self' (remove1 a xs) \<and> (\<forall>b. b \<notin> set xs \<longrightarrow> h' b = h b))) \<and>
    hev_list_first self = (if xs = [] then NULL else hd xs) \<and>
    hev_list_last self = (if xs = [] then NULL else last xs)"
proof -
  have "hev_list_first self = (if xs = [] then NULL else hd xs)"
    using list_at_first [OF assms] by (cases xs) auto
  then show ?thesis
    using hl.add_repr [OF assms] hl.del_remove1 [OF assms] add_tail_frame [OF assms]
      del_frame [OF assms] list_at_last [OF assms] by auto
qed

theorem list_ops_ok_witness:
  "let h = (\<lambda>_. \<lparr>ln_next = NULL, ln_prev = NULL\<rparr>); (self', h') = hev_list_add_tail \<lparr>head = 8, tail = 8\<rparr> 16 h
   in list_at h' self' [8, 16]"
  using list_ops_ok [of "\<lambda>_. \<lparr>ln_next = NULL, ln_prev = NULL\<rparr>" "\<lparr>head = 8, tail = 8\<rparr>" "[8]" 16]
  by (auto simp: list_at_def Let_def split: prod.splits)

end
