(* ===== verification/HevRBTree.thy ===== *)
theory HevRBTree
  imports Prelude
begin

text \<open>
  The intrusive red-black tree of \<^verbatim>\<open>core/src/hev-rbtree.c\<close> and \<^verbatim>\<open>core/src/hev-rbtree.h\<close>, translated
  statement by statement over an explicit store: a node is the record of its three words, the
  parent pointer and the colour share the word \<^verbatim>\<open>__parent_color\<close>, and \<^verbatim>\<open>while (1)\<close> loops are
  \<^theory_text>\<open>partial_function (option)\<close>s, whose value \<open>None\<close> is a loop that does not return. The next
  theories prove that the loops return and what they compute.
\<close>

section \<open>State\<close>

record HevRBTreeNode =
  rb_parent_color :: u64
  rb_right :: ptr
  rb_left :: ptr

text \<open>A tree together with the memory its nodes live in (\<^verbatim>\<open>self\<close> is the field \<open>rb_root\<close>).\<close>

record HevRBTree =
  rb_root :: ptr
  rb_mem :: "ptr \<Rightarrow> HevRBTreeNode"

abbreviation (input) HEV_RBTREE_RED :: u64 where "HEV_RBTREE_RED \<equiv> 0"
abbreviation (input) HEV_RBTREE_BLACK :: u64 where "HEV_RBTREE_BLACK \<equiv> 1"

definition get_pc :: "HevRBTree \<Rightarrow> ptr \<Rightarrow> u64" where
  "get_pc s a = rb_parent_color (rb_mem s a)"

definition get_left :: "HevRBTree \<Rightarrow> ptr \<Rightarrow> ptr" where
  "get_left s a = rb_left (rb_mem s a)"

definition get_right :: "HevRBTree \<Rightarrow> ptr \<Rightarrow> ptr" where
  "get_right s a = rb_right (rb_mem s a)"

definition set_pc :: "ptr \<Rightarrow> u64 \<Rightarrow> HevRBTree \<Rightarrow> HevRBTree" where
  "set_pc a v s = s\<lparr>rb_mem := (rb_mem s)(a := (rb_mem s a)\<lparr>rb_parent_color := v\<rparr>)\<rparr>"

definition set_left :: "ptr \<Rightarrow> ptr \<Rightarrow> HevRBTree \<Rightarrow> HevRBTree" where
  "set_left a v s = s\<lparr>rb_mem := (rb_mem s)(a := (rb_mem s a)\<lparr>rb_left := v\<rparr>)\<rparr>"

definition set_right :: "ptr \<Rightarrow> ptr \<Rightarrow> HevRBTree \<Rightarrow> HevRBTree" where
  "set_right a v s = s\<lparr>rb_mem := (rb_mem s)(a := (rb_mem s a)\<lparr>rb_right := v\<rparr>)\<rparr>"

definition set_root :: "ptr \<Rightarrow> HevRBTree \<Rightarrow> HevRBTree" where
  "set_root v s = s\<lparr>rb_root := v\<rparr>"

section \<open>Node accessors\<close>

definition hev_rbtree_node_empty :: "HevRBTree \<Rightarrow> ptr \<Rightarrow> bool" where
  "hev_rbtree_node_empty s node \<longleftrightarrow> get_pc s node = node"

definition hev_rbtree_node_parent :: "HevRBTree \<Rightarrow> ptr \<Rightarrow> ptr" where
  "hev_rbtree_node_parent s node = get_pc s node AND NOT 3"

definition hev_rbtree_node_color :: "HevRBTree \<Rightarrow> ptr \<Rightarrow> u64" where
  "hev_rbtree_node_color s node = get_pc s node AND 1"

definition hev_rbtree_node_is_red :: "HevRBTree \<Rightarrow> ptr \<Rightarrow> bool" where
  "hev_rbtree_node_is_red s node \<longleftrightarrow> hev_rbtree_node_color s node AND HEV_RBTREE_BLACK = 0"

definition hev_rbtree_node_is_black :: "HevRBTree \<Rightarrow> ptr \<Rightarrow> bool" where
  "hev_rbtree_node_is_black s node \<longleftrightarrow> hev_rbtree_node_color s node AND HEV_RBTREE_BLACK \<noteq> 0"

definition pc_is_black :: "u64 \<Rightarrow> bool" where
  "pc_is_black pc \<longleftrightarrow> pc AND HEV_RBTREE_BLACK \<noteq> 0"

definition pc_parent :: "u64 \<Rightarrow> ptr" where
  "pc_parent pc = pc AND NOT 3"

definition hev_rbtree_node_red_parent :: "HevRBTree \<Rightarrow> ptr \<Rightarrow> ptr" where
  "hev_rbtree_node_red_parent s node = get_pc s node"

definition hev_rbtree_node_set_black :: "ptr \<Rightarrow> HevRBTree \<Rightarrow> HevRBTree" where
  "hev_rbtree_node_set_black node s = set_pc node (get_pc s node OR HEV_RBTREE_BLACK) s"

definition hev_rbtree_node_set_parent :: "ptr \<Rightarrow> ptr \<Rightarrow> HevRBTree \<Rightarrow> HevRBTree" where
  "hev_rbtree_node_set_parent node parent s =
     set_pc node (hev_rbtree_node_color s node OR parent) s"

definition hev_rbtree_node_set_parent_color :: "ptr \<Rightarrow> ptr \<Rightarrow> u64 \<Rightarrow> HevRBTree \<Rightarrow> HevRBTree" where
  "hev_rbtree_node_set_parent_color node parent color s = set_pc node (parent OR color) s"

definition hev_rbtree_change_child :: "ptr \<Rightarrow> ptr \<Rightarrow> ptr \<Rightarrow> HevRBTree \<Rightarrow> HevRBTree" where
  "hev_rbtree_change_child old new parent s =
     (if parent \<noteq> NULL then
        if get_left s parent = old then set_left parent new s else set_right parent new s
      else set_root new s)"

definition hev_rbtree_rotate_set_parents :: "ptr \<Rightarrow> ptr \<Rightarrow> u64 \<Rightarrow> HevRBTree \<Rightarrow> HevRBTree" where
  "hev_rbtree_rotate_set_parents old new color s =
     (let parent = hev_rbtree_node_parent s old;
          s = set_pc new (get_pc s old) s;
          s = hev_rbtree_node_set_parent_color old new color s
      in hev_rbtree_change_child old new parent s)"

text \<open>
  The third argument of \<^verbatim>\<open>hev_rbtree_node_link\<close> is the address of the pointer to fill in: the root
  field or a child field of some node.
\<close>

datatype rb_link = Root | LeftOf ptr | RightOf ptr

fun write_link :: "rb_link \<Rightarrow> ptr \<Rightarrow> HevRBTree \<Rightarrow> HevRBTree" where
  "write_link Root v s = set_root v s"
| "write_link (LeftOf a) v s = set_left a v s"
| "write_link (RightOf a) v s = set_right a v s"

fun read_link :: "rb_link \<Rightarrow> HevRBTree \<Rightarrow> ptr" where
  "read_link Root s = rb_root s"
| "read_link (LeftOf a) s = get_left s a"
| "read_link (RightOf a) s = get_right s a"

definition hev_rbtree_node_link :: "ptr \<Rightarrow> ptr \<Rightarrow> rb_link \<Rightarrow> HevRBTree \<Rightarrow> HevRBTree" where
  "hev_rbtree_node_link node parent link s =
     write_link link node (set_left node NULL (set_right node NULL (set_pc node parent s)))"

section \<open>Traversal\<close>

partial_function (option) rb_leftmost :: "HevRBTree \<Rightarrow> ptr \<Rightarrow> ptr option" where
  "rb_leftmost s n = (if get_left s n \<noteq> NULL then rb_leftmost s (get_left s n) else Some n)"

partial_function (option) rb_rightmost :: "HevRBTree \<Rightarrow> ptr \<Rightarrow> ptr option" where
  "rb_rightmost s n = (if get_right s n \<noteq> NULL then rb_rightmost s (get_right s n) else Some n)"

partial_function (option) rb_up_from_right :: "HevRBTree \<Rightarrow> ptr \<Rightarrow> ptr option" where
  "rb_up_from_right s node =
     (let parent = hev_rbtree_node_parent s node
      in if parent \<noteq> NULL \<and> node = get_right s parent then rb_up_from_right s parent
         else Some parent)"

partial_function (option) rb_up_from_left :: "HevRBTree \<Rightarrow> ptr \<Rightarrow> ptr option" where
  "rb_up_from_left s node =
     (let parent = hev_rbtree_node_parent s node
      in if parent \<noteq> NULL \<and> node = get_left s parent then rb_up_from_left s parent
         else Some parent)"

definition hev_rbtree_node_prev :: "HevRBTree \<Rightarrow> ptr \<Rightarrow> ptr option" where
  "hev_rbtree_node_prev s node =
     (if hev_rbtree_node_empty s node then Some NULL
      else if get_left s node \<noteq> NULL then rb_rightmost s (get_left s node)
      else rb_up_from_left s node)"

definition hev_rbtree_node_next :: "HevRBTree \<Rightarrow> ptr \<Rightarrow> ptr option" where
  "hev_rbtree_node_next s node =
     (if hev_rbtree_node_empty s node then Some NULL
      else if get_right s node \<noteq> NULL then rb_leftmost s (get_right s node)
      else rb_up_from_right s node)"

definition hev_rbtree_first :: "HevRBTree \<Rightarrow> ptr option" where
  "hev_rbtree_first s = (if rb_root s = NULL then Some NULL else rb_leftmost s (rb_root s))"

definition hev_rbtree_last :: "HevRBTree \<Rightarrow> ptr option" where
  "hev_rbtree_last s = (if rb_root s = NULL then Some NULL else rb_rightmost s (rb_root s))"

section \<open>Insertion\<close>

text \<open>
  One pass of the loop of \<^verbatim>\<open>hev_rbtree_insert_color\<close>: \<open>Inl\<close> is \<^verbatim>\<open>break\<close>, \<open>Inr\<close> is \<^verbatim>\<open>continue\<close>
  with the new \<^verbatim>\<open>node\<close> and \<^verbatim>\<open>parent\<close>.
\<close>

definition insert_color_body ::
    "ptr \<Rightarrow> ptr \<Rightarrow> HevRBTree \<Rightarrow> HevRBTree + (ptr \<times> ptr \<times> HevRBTree)" where
  "insert_color_body node parent s =
     (if parent = NULL then
        Inl (hev_rbtree_node_set_parent_color node NULL HEV_RBTREE_BLACK s)
      else if hev_rbtree_node_is_black s parent then Inl s
      else
        let gparent = hev_rbtree_node_red_parent s parent;
            tmp = get_right s gparent
        in if parent \<noteq> tmp then
             if tmp \<noteq> NULL \<and> hev_rbtree_node_is_red s tmp then
               let s = hev_rbtree_node_set_parent_color tmp gparent HEV_RBTREE_BLACK s;
                   s = hev_rbtree_node_set_parent_color parent gparent HEV_RBTREE_BLACK s;
                   node = gparent;
                   parent = hev_rbtree_node_parent s node;
                   s = hev_rbtree_node_set_parent_color node parent HEV_RBTREE_RED s
               in Inr (node, parent, s)
             else
               let tmp = get_right s parent;
                   (parent, tmp, s) =
                     (if node = tmp then
                        let tmp = get_left s node;
                            s = set_right parent tmp s;
                            s = set_left node parent s;
                            s = (if tmp \<noteq> NULL
                                 then hev_rbtree_node_set_parent_color tmp parent HEV_RBTREE_BLACK s
                                 else s);
                            s = hev_rbtree_node_set_parent_color parent node HEV_RBTREE_RED s
                        in (node, get_right s node, s)
                      else (parent, tmp, s));
                   s = set_left gparent tmp s;
                   s = set_right parent gparent s;
                   s = (if tmp \<noteq> NULL
                        then hev_rbtree_node_set_parent_color tmp gparent HEV_RBTREE_BLACK s
                        else s)
               in Inl (hev_rbtree_rotate_set_parents gparent parent HEV_RBTREE_RED s)
           else
             let tmp = get_left s gparent
             in if tmp \<noteq> NULL \<and> hev_rbtree_node_is_red s tmp then
                  let s = hev_rbtree_node_set_parent_color tmp gparent HEV_RBTREE_BLACK s;
                      s = hev_rbtree_node_set_parent_color parent gparent HEV_RBTREE_BLACK s;
                      node = gparent;
                      parent = hev_rbtree_node_parent s node;
                      s = hev_rbtree_node_set_parent_color node parent HEV_RBTREE_RED s
                  in Inr (node, parent, s)
                else
                  let tmp = get_left s parent;
                      (parent, tmp, s) =
                        (if node = tmp then
                           let tmp = get_right s node;
                               s = set_left parent tmp s;
                               s = set_right node parent s;
                               s = (if tmp \<noteq> NULL
                                    then hev_rbtree_node_set_parent_color tmp parent HEV_RBTREE_BLACK s
                                    else s);
                               s = hev_rbtree_node_set_parent_color parent node HEV_RBTREE_RED s
                           in (node, get_left s node, s)
                         else (parent, tmp, s));
                      s = set_right gparent tmp s;
                      s = set_left parent gparent s;
                      s = (if tmp \<noteq> NULL
                           then hev_rbtree_node_set_parent_color tmp gparent HEV_RBTREE_BLACK s
                           else s)
                  in Inl (hev_rbtree_rotate_set_parents gparent parent HEV_RBTREE_RED s))"

partial_function (option) insert_color_loop :: "ptr \<Rightarrow> ptr \<Rightarrow> HevRBTree \<Rightarrow> HevRBTree option" where
  "insert_color_loop node parent s =
     (case insert_color_body node parent s of
        Inl s \<Rightarrow> Some s
      | Inr x \<Rightarrow> insert_color_loop (fst x) (fst (snd x)) (snd (snd x)))"

definition hev_rbtree_insert_color :: "ptr \<Rightarrow> HevRBTree \<Rightarrow> HevRBTree option" where
  "hev_rbtree_insert_color node s =
     insert_color_loop node (hev_rbtree_node_red_parent s node) s"

section \<open>Replacement\<close>

definition hev_rbtree_replace :: "ptr \<Rightarrow> ptr \<Rightarrow> HevRBTree \<Rightarrow> HevRBTree" where
  "hev_rbtree_replace victim new s =
     (let parent = hev_rbtree_node_parent s victim;
          s = s\<lparr>rb_mem := (rb_mem s)(new := rb_mem s victim)\<rparr>;
          s = (if get_left s victim \<noteq> NULL
               then hev_rbtree_node_set_parent (get_left s victim) new s else s);
          s = (if get_right s victim \<noteq> NULL
               then hev_rbtree_node_set_parent (get_right s victim) new s else s)
      in hev_rbtree_change_child victim new parent s)"

section \<open>Deletion\<close>

text \<open>The \<^verbatim>\<open>do ... while (tmp)\<close> walk to the in-order successor: the final \<^verbatim>\<open>parent\<close> and \<^verbatim>\<open>successor\<close>.\<close>

partial_function (option) erase_successor ::
    "HevRBTree \<Rightarrow> ptr \<Rightarrow> ptr \<Rightarrow> (ptr \<times> ptr) option" where
  "erase_successor s successor tmp =
     (let parent = successor;
          successor = tmp;
          tmp = get_left s tmp
      in if tmp \<noteq> NULL then erase_successor s successor tmp else Some (parent, successor))"

text \<open>\<^verbatim>\<open>_hev_rbtree_erase\<close>: unlink the node; the result is the node to rebalance from, or NULL.\<close>

definition erase_unlink :: "ptr \<Rightarrow> HevRBTree \<Rightarrow> (ptr \<times> HevRBTree) option" where
  "erase_unlink node s =
     (let child = get_right s node;
          tmp = get_left s node
      in if tmp = NULL then
           let pc = get_pc s node;
               parent = pc_parent pc;
               s = hev_rbtree_change_child node child parent s
           in if child \<noteq> NULL then Some (NULL, set_pc child pc s)
              else Some (if pc_is_black pc then parent else NULL, s)
         else if child = NULL then
           let pc = get_pc s node;
               s = set_pc tmp pc s;
               parent = pc_parent pc;
               s = hev_rbtree_change_child node tmp parent s
           in Some (NULL, s)
         else
           case (if get_left s child = NULL
                 then Some (child, child, get_right s child, s)
                 else map_option (\<lambda>(parent, successor).
                        let child2 = get_right s successor;
                            s = set_left parent child2 s;
                            s = set_right successor child s;
                            s = hev_rbtree_node_set_parent child successor s
                        in (parent, successor, child2, s))
                      (erase_successor s child (get_left s child)))
           of None \<Rightarrow> None
            | Some (parent, successor, child2, s) \<Rightarrow>
                let tmp = get_left s node;
                    s = set_left successor tmp s;
                    s = hev_rbtree_node_set_parent tmp successor s;
                    pc = get_pc s node;
                    tmp = pc_parent pc;
                    s = hev_rbtree_change_child node successor tmp s;
                    (rebalance, s) =
                      (if child2 \<noteq> NULL
                       then (NULL, hev_rbtree_node_set_parent_color child2 parent HEV_RBTREE_BLACK s)
                       else (if hev_rbtree_node_is_black s successor then parent else NULL, s))
                in Some (rebalance, set_pc successor pc s))"

text \<open>
  Cases 2, 3 and 4 of a pass of \<^verbatim>\<open>_hev_rbtree_erase_color\<close>, for a node that is a left child and for
  one that is a right child: \<open>Inl\<close> is \<^verbatim>\<open>break\<close>, \<open>Inr\<close> is \<^verbatim>\<open>continue\<close> with the new \<^verbatim>\<open>node\<close> and
  \<^verbatim>\<open>parent\<close>.
\<close>

definition erase_cases_left ::
    "ptr \<Rightarrow> ptr \<Rightarrow> HevRBTree \<Rightarrow> HevRBTree + (ptr \<times> ptr \<times> HevRBTree)" where
  "erase_cases_left parent sibling s =
     (let tmp1 = get_right s sibling;
          tmp2 = get_left s sibling
      in if (tmp1 = NULL \<or> hev_rbtree_node_is_black s tmp1) \<and>
            (tmp2 = NULL \<or> hev_rbtree_node_is_black s tmp2) then
           let s = hev_rbtree_node_set_parent_color sibling parent HEV_RBTREE_RED s
           in if hev_rbtree_node_is_red s parent
              then Inl (hev_rbtree_node_set_black parent s)
              else let node = parent; parent = hev_rbtree_node_parent s node
                   in if parent \<noteq> NULL then Inr (node, parent, s) else Inl s
         else
           let (tmp1, sibling, s) =
                 (if tmp1 = NULL \<or> hev_rbtree_node_is_black s tmp1 then
                    let tmp1 = get_right s tmp2;
                        s = set_left sibling tmp1 s;
                        s = set_right tmp2 sibling s;
                        s = set_right parent tmp2 s;
                        s = (if tmp1 \<noteq> NULL
                             then hev_rbtree_node_set_parent_color tmp1 sibling HEV_RBTREE_BLACK s
                             else s)
                    in (sibling, tmp2, s)
                  else (tmp1, sibling, s));
               tmp2 = get_left s sibling;
               s = set_right parent tmp2 s;
               s = set_left sibling parent s;
               s = hev_rbtree_node_set_parent_color tmp1 sibling HEV_RBTREE_BLACK s;
               s = (if tmp2 \<noteq> NULL then hev_rbtree_node_set_parent tmp2 parent s else s)
           in Inl (hev_rbtree_rotate_set_parents parent sibling HEV_RBTREE_BLACK s))"

definition erase_cases_right ::
    "ptr \<Rightarrow> ptr \<Rightarrow> HevRBTree \<Rightarrow> HevRBTree + (ptr \<times> ptr \<times> HevRBTree)" where
  "erase_cases_right parent sibling s =
     (let tmp1 = get_left s sibling;
          tmp2 = get_right s sibling
      in if (tmp1 = NULL \<or> hev_rbtree_node_is_black s tmp1) \<and>
            (tmp2 = NULL \<or> hev_rbtree_node_is_black s tmp2) then
           let s = hev_rbtree_node_set_parent_color sibling parent HEV_RBTREE_RED s
           in if hev_rbtree_node_is_red s parent
              then Inl (hev_rbtree_node_set_black parent s)
              else let node = parent; parent = hev_rbtree_node_parent s node
                   in if parent \<noteq> NULL then Inr (node, parent, s) else Inl s
         else
           let (tmp1, sibling, s) =
                 (if tmp1 = NULL \<or> hev_rbtree_node_is_black s tmp1 then
                    let tmp1 = get_left s tmp2;
                        s = set_right sibling tmp1 s;
                        s = set_left tmp2 sibling s;
                        s = set_left parent tmp2 s;
                        s = (if tmp1 \<noteq> NULL
                             then hev_rbtree_node_set_parent_color tmp1 sibling HEV_RBTREE_BLACK s
                             else s)
                    in (sibling, tmp2, s)
                  else (tmp1, sibling, s));
               tmp2 = get_right s sibling;
               s = set_left parent tmp2 s;
               s = set_right sibling parent s;
               s = hev_rbtree_node_set_parent_color tmp1 sibling HEV_RBTREE_BLACK s;
               s = (if tmp2 \<noteq> NULL then hev_rbtree_node_set_parent tmp2 parent s else s)
           in Inl (hev_rbtree_rotate_set_parents parent sibling HEV_RBTREE_BLACK s))"

text \<open>One pass of the loop: Case 1 (a red sibling is rotated up) and then Cases 2 to 4.\<close>

definition erase_color_body ::
    "ptr \<Rightarrow> ptr \<Rightarrow> HevRBTree \<Rightarrow> HevRBTree + (ptr \<times> ptr \<times> HevRBTree)" where
  "erase_color_body node parent s =
     (let sibling = get_right s parent
      in if node \<noteq> sibling then
           if hev_rbtree_node_is_red s sibling then
             let tmp1 = get_left s sibling;
                 s = set_right parent tmp1 s;
                 s = set_left sibling parent s;
                 s = hev_rbtree_node_set_parent_color tmp1 parent HEV_RBTREE_BLACK s;
                 s = hev_rbtree_rotate_set_parents parent sibling HEV_RBTREE_RED s
             in erase_cases_left parent tmp1 s
           else erase_cases_left parent sibling s
         else
           let sibling = get_left s parent
           in if hev_rbtree_node_is_red s sibling then
                let tmp1 = get_right s sibling;
                    s = set_left parent tmp1 s;
                    s = set_right sibling parent s;
                    s = hev_rbtree_node_set_parent_color tmp1 parent HEV_RBTREE_BLACK s;
                    s = hev_rbtree_rotate_set_parents parent sibling HEV_RBTREE_RED s
                in erase_cases_right parent tmp1 s
              else erase_cases_right parent sibling s)"

partial_function (option) erase_color_loop :: "ptr \<Rightarrow> ptr \<Rightarrow> HevRBTree \<Rightarrow> HevRBTree option" where
  "erase_color_loop node parent s =
     (case erase_color_body node parent s of
        Inl s \<Rightarrow> Some s
      | Inr x \<Rightarrow> erase_color_loop (fst x) (fst (snd x)) (snd (snd x)))"

definition erase_color :: "ptr \<Rightarrow> HevRBTree \<Rightarrow> HevRBTree option" where
  "erase_color parent s = erase_color_loop NULL parent s"

definition hev_rbtree_erase :: "ptr \<Rightarrow> HevRBTree \<Rightarrow> HevRBTree option" where
  "hev_rbtree_erase node s =
     (case erase_unlink node s of
        None \<Rightarrow> None
      | Some (rebalance, s) \<Rightarrow> if rebalance \<noteq> NULL then erase_color rebalance s else Some s)"

end
