(* ===== verification/RBZipper.thy ===== *)
theory RBZipper
  imports Prelude
begin

text \<open>
  The abstract level of the red-black tree: trees of node addresses with colours, a zipper (the
  path from a node to the root), and the two repair procedures of the C code as functions on the
  zipper. Here they are shown to keep the in-order sequence and to restore the red-black
  invariant; the pointer code is related to them in \<^verbatim>\<open>HevRBTreeRefine\<close>.
\<close>

section \<open>Trees and zippers\<close>

datatype rbcolor = Red | Black

datatype rbt = Leaf | Node rbt ptr rbcolor rbt

datatype frame = LF ptr rbcolor rbt | RF rbt ptr rbcolor

fun inorder :: "rbt \<Rightarrow> ptr list" where
  "inorder Leaf = []"
| "inorder (Node l a c r) = inorder l @ a # inorder r"

fun color :: "rbt \<Rightarrow> rbcolor" where
  "color Leaf = Black"
| "color (Node l a c r) = c"

fun paint :: "rbcolor \<Rightarrow> rbt \<Rightarrow> rbt" where
  "paint c Leaf = Leaf"
| "paint c (Node l a d r) = Node l a c r"

fun plug1 :: "frame \<Rightarrow> rbt \<Rightarrow> rbt" where
  "plug1 (LF a c r) t = Node t a c r"
| "plug1 (RF l a c) t = Node l a c t"

fun plug :: "frame list \<Rightarrow> rbt \<Rightarrow> rbt" where
  "plug [] t = t"
| "plug (f # fs) t = plug fs (plug1 f t)"

fun before :: "frame list \<Rightarrow> ptr list" where
  "before [] = []"
| "before (LF a c r # fs) = before fs"
| "before (RF l a c # fs) = before fs @ inorder l @ [a]"

fun after :: "frame list \<Rightarrow> ptr list" where
  "after [] = []"
| "after (LF a c r # fs) = a # inorder r @ after fs"
| "after (RF l a c # fs) = after fs"

lemma inorder_plug: "inorder (plug fs t) = before fs @ inorder t @ after fs"
proof (induction fs arbitrary: t)
  case (Cons f fs)
  then show ?case by (cases f) auto
qed simp

lemma plug_append: "plug (fs @ gs) t = plug gs (plug fs t)"
  by (induction fs arbitrary: t) auto

lemma before_append: "before (fs @ gs) = before gs @ before fs"
proof (induction fs)
  case (Cons f fs)
  then show ?case by (cases f) auto
qed simp

lemma after_append: "after (fs @ gs) = after fs @ after gs"
proof (induction fs)
  case (Cons f fs)
  then show ?case by (cases f) auto
qed simp

lemma inorder_paint [simp]: "inorder (paint c t) = inorder t"
  by (cases t) auto

lemma paint_Leaf_iff [simp]: "paint c t = Leaf \<longleftrightarrow> t = Leaf"
  by (cases t) auto

lemma color_paint: "t \<noteq> Leaf \<Longrightarrow> color (paint c t) = c"
  by (cases t) auto

lemma color_paint_Black [simp]: "color (paint Black t) = Black"
  by (cases t) auto

lemma paint_color [simp]: "color t = c \<Longrightarrow> t \<noteq> Leaf \<Longrightarrow> paint c t = t"
  by (cases t) auto

lemma paint_Black [simp]: "color t = Black \<Longrightarrow> paint Black t = t"
  by (cases t) auto

text \<open>Every node of a tree is the focus of some zipper.\<close>

lemma node_zipper: "a \<in> set (inorder t) \<Longrightarrow> \<exists>fs l c r. t = plug fs (Node l a c r)"
proof (induction t)
  case (Node l b c r)
  from Node.prems consider "a = b" | "a \<in> set (inorder l)" | "a \<in> set (inorder r)" by auto
  then show ?case
  proof cases
    case 1
    then have "Node l b c r = plug [] (Node l a c r)" by simp
    then show ?thesis by blast
  next
    case 2
    with Node.IH obtain fs l' c' r' where "l = plug fs (Node l' a c' r')" by blast
    then have "Node l b c r = plug (fs @ [LF b c r]) (Node l' a c' r')" by (simp add: plug_append)
    then show ?thesis by blast
  next
    case 3
    with Node.IH obtain fs l' c' r' where "r = plug fs (Node l' a c' r')" by blast
    then have "Node l b c r = plug (fs @ [RF l b c]) (Node l' a c' r')" by (simp add: plug_append)
    then show ?thesis by blast
  qed
qed simp

section \<open>The red-black invariant\<close>

fun bheight :: "rbt \<Rightarrow> nat" where
  "bheight Leaf = 0"
| "bheight (Node l a c r) = bheight l + (if c = Black then 1 else 0)"

fun rb_ok :: "rbt \<Rightarrow> bool" where
  "rb_ok Leaf \<longleftrightarrow> True"
| "rb_ok (Node l a c r) \<longleftrightarrow>
     rb_ok l \<and> rb_ok r \<and> bheight l = bheight r \<and> (c = Red \<longrightarrow> color l = Black \<and> color r = Black)"

text \<open>The whole-tree invariant of the sources' comments: no red root, no two consecutive red
  nodes, the same number of black nodes on every path.\<close>

definition rbtree :: "rbt \<Rightarrow> bool" where
  "rbtree t \<longleftrightarrow> rb_ok t \<and> color t = Black"

text \<open>What a path promises to a hole of black height \<open>k\<close> and root colour \<open>c\<close>.\<close>

fun ctx_ok :: "frame list \<Rightarrow> nat \<Rightarrow> rbcolor \<Rightarrow> bool" where
  "ctx_ok [] k c \<longleftrightarrow> c = Black"
| "ctx_ok (LF a d r # fs) k c \<longleftrightarrow>
     rb_ok r \<and> bheight r = k \<and> (d = Red \<longrightarrow> c = Black \<and> color r = Black) \<and>
     ctx_ok fs (k + (if d = Black then 1 else 0)) d"
| "ctx_ok (RF l a d # fs) k c \<longleftrightarrow>
     rb_ok l \<and> bheight l = k \<and> (d = Red \<longrightarrow> c = Black \<and> color l = Black) \<and>
     ctx_ok fs (k + (if d = Black then 1 else 0)) d"

lemma rbtree_plug: "rbtree (plug fs t) \<longleftrightarrow> rb_ok t \<and> ctx_ok fs (bheight t) (color t)"
proof (induction fs arbitrary: t)
  case Nil
  then show ?case by (simp add: rbtree_def)
next
  case (Cons f fs)
  then show ?case by (cases f) auto
qed

lemma ctx_ok_Black: "ctx_ok fs k c \<Longrightarrow> ctx_ok fs k Black"
  by (cases "(fs, k, c)" rule: ctx_ok.cases) auto

lemma ctx_ok_Red: "ctx_ok fs k Red \<Longrightarrow> ctx_ok fs k c"
  by (cases "(fs, k, c)" rule: ctx_ok.cases) auto

lemma rb_ok_paint_Black: "rb_ok t \<Longrightarrow> rb_ok (paint Black t)"
  by (cases t) auto

lemma bheight_paint_Black: "color t = Red \<Longrightarrow> bheight (paint Black t) = Suc (bheight t)"
  by (cases t) auto

lemma neq_Black [simp]: "c \<noteq> Black \<longleftrightarrow> c = Red" "c \<noteq> Red \<longleftrightarrow> c = Black"
  by (cases c; simp)+

lemma bheight_size: "rb_ok t \<Longrightarrow> 2 ^ bheight t \<le> Suc (length (inorder t))"
  by (induction t) auto

fun height :: "rbt \<Rightarrow> nat" where
  "height Leaf = 0"
| "height (Node l a c r) = Suc (max (height l) (height r))"

lemma height_bheight:
  "rb_ok t \<Longrightarrow> height t \<le> 2 * bheight t + (if color t = Black then 0 else 1)"
  by (induction t) (auto split: if_splits)

text \<open>So a search visits at most \<open>2 log\<^sub>2 (n + 1)\<close> nodes.\<close>

lemma rbtree_height: "rbtree t \<Longrightarrow> 2 ^ height t \<le> (Suc (length (inorder t)))\<^sup>2"
proof -
  assume t: "rbtree t"
  then have "(2::nat) ^ height t \<le> 2 ^ (2 * bheight t)"
    using height_bheight [of t] by (simp add: rbtree_def)
  also have "\<dots> = (2 ^ bheight t)\<^sup>2" by (simp add: power_mult mult.commute)
  also have "\<dots> \<le> (Suc (length (inorder t)))\<^sup>2"
    using t bheight_size [of t] by (simp add: rbtree_def power2_nat_le_eq_le)
  finally show ?thesis .
qed

section \<open>Repair after insertion\<close>

text \<open>
  The loop of \<^verbatim>\<open>hev_rbtree_insert_color\<close> on the zipper: \<open>t\<close> is the subtree of \<^verbatim>\<open>node\<close> (red root).
  Recolourings that the C code performs unconditionally are written as \<open>paint\<close>.
\<close>

fun ins_fix :: "frame list \<Rightarrow> rbt \<Rightarrow> rbt" where
  "ins_fix [] t = paint Black t"
| "ins_fix (LF p Black s # fs) t = plug (LF p Black s # fs) t"
| "ins_fix (RF s p Black # fs) t = plug (RF s p Black # fs) t"
| "ins_fix (LF p Red s # LF g c (Node ul u Red ur) # fs) t =
     ins_fix fs (Node (Node t p Black s) g Red (Node ul u Black ur))"
| "ins_fix (RF s p Red # LF g c (Node ul u Red ur) # fs) t =
     ins_fix fs (Node (Node s p Black t) g Red (Node ul u Black ur))"
| "ins_fix (LF p Red s # RF (Node ul u Red ur) g c # fs) t =
     ins_fix fs (Node (Node ul u Black ur) g Red (Node t p Black s))"
| "ins_fix (RF s p Red # RF (Node ul u Red ur) g c # fs) t =
     ins_fix fs (Node (Node ul u Black ur) g Red (Node s p Black t))"
| "ins_fix (LF p Red s # LF g c u # fs) t = plug fs (Node t p c (Node (paint Black s) g Red u))"
| "ins_fix (RF s p Red # LF g c u # fs) (Node l n d r) =
     plug fs (Node (Node s p Red (paint Black l)) n c (Node (paint Black r) g Red u))"
| "ins_fix (RF s p Red # RF u g c # fs) t = plug fs (Node (Node u g Red (paint Black s)) p c t)"
| "ins_fix (LF p Red s # RF u g c # fs) (Node l n d r) =
     plug fs (Node (Node u g Red (paint Black l)) n c (Node (paint Black r) p Red s))"
| "ins_fix fs t = plug fs t"

lemma inorder_ins_fix: "inorder (ins_fix fs t) = before fs @ inorder t @ after fs"
  by (induction fs t rule: ins_fix.induct) (auto simp: inorder_plug)

lemma rbtree_ins_fix:
  assumes "rb_ok t" "t \<noteq> Leaf" "color t = Red" "ctx_ok fs (bheight t) Black"
  shows "rbtree (ins_fix fs t)"
  using assms
proof (induction fs t rule: ins_fix.induct)
  case (1 t)
  then show ?case by (cases t) (auto simp: rbtree_def)
qed (auto simp: rbtree_plug dest: ctx_ok_Black intro: rb_ok_paint_Black)

section \<open>Repair after deletion\<close>

text \<open>
  The loop of \<^verbatim>\<open>_hev_rbtree_erase_color\<close> on the zipper: \<open>t\<close> is the subtree of \<^verbatim>\<open>node\<close>, whose paths
  are one black node short. \<open>fix_left\<close> is the part of a pass after its Case 1, for a sibling on the
  right: \<open>Inl\<close> when the loop breaks, \<open>Inr\<close> when it moves up.
\<close>

fun fix_left :: "ptr \<Rightarrow> rbcolor \<Rightarrow> rbt \<Rightarrow> rbt \<Rightarrow> rbt + rbt" where
  "fix_left p c Leaf t = Inl (Node t p c Leaf)"
| "fix_left p c (Node sl s d sr) t =
     (if color sr = Black \<and> color sl = Black then
        (if c = Red then Inl (Node t p Black (Node sl s Red sr))
         else Inr (Node t p c (Node sl s Red sr)))
      else if color sr = Black then
        (case sl of Leaf \<Rightarrow> Inl (Node t p c (Node sl s d sr))
         | Node a x e b \<Rightarrow> Inl (Node (Node t p Black a) x c (Node (paint Black b) s Black sr)))
      else Inl (Node (Node t p Black sl) s c (paint Black sr)))"

fun fix_right :: "ptr \<Rightarrow> rbcolor \<Rightarrow> rbt \<Rightarrow> rbt \<Rightarrow> rbt + rbt" where
  "fix_right p c Leaf t = Inl (Node Leaf p c t)"
| "fix_right p c (Node sl s d sr) t =
     (if color sl = Black \<and> color sr = Black then
        (if c = Red then Inl (Node (Node sl s Red sr) p Black t)
         else Inr (Node (Node sl s Red sr) p c t))
      else if color sl = Black then
        (case sr of Leaf \<Rightarrow> Inl (Node (Node sl s d sr) p c t)
         | Node b x e a \<Rightarrow> Inl (Node (Node sl s Black (paint Black b)) x c (Node a p Black t)))
      else Inl (Node (paint Black sl) s c (Node sr p Black t)))"

fun del_fix :: "frame list \<Rightarrow> rbt \<Rightarrow> rbt" where
  "del_fix [] t = t"
| "del_fix (LF p c (Node sl s Red sr) # fs) t =
     plug (LF s c sr # fs) (case fix_left p Red (paint Black sl) t of Inl u \<Rightarrow> u | Inr u \<Rightarrow> u)"
| "del_fix (RF (Node sl s Red sr) p c # fs) t =
     plug (RF sl s c # fs) (case fix_right p Red (paint Black sr) t of Inl u \<Rightarrow> u | Inr u \<Rightarrow> u)"
| "del_fix (LF p c (Node sl s Black sr) # fs) t =
     (case fix_left p c (Node sl s Black sr) t of Inl u \<Rightarrow> plug fs u | Inr u \<Rightarrow> del_fix fs u)"
| "del_fix (RF (Node sl s Black sr) p c # fs) t =
     (case fix_right p c (Node sl s Black sr) t of Inl u \<Rightarrow> plug fs u | Inr u \<Rightarrow> del_fix fs u)"
| "del_fix (LF p c Leaf # fs) t = plug (LF p c Leaf # fs) t"
| "del_fix (RF Leaf p c # fs) t = plug (RF Leaf p c # fs) t"

lemma inorder_fix_left:
  "fix_left p c s t = Inl u \<Longrightarrow> inorder u = inorder t @ p # inorder s"
  "fix_left p c s t = Inr u \<Longrightarrow> inorder u = inorder t @ p # inorder s"
  by (cases s; auto split: rbt.splits if_splits)+

lemma inorder_fix_right:
  "fix_right p c s t = Inl u \<Longrightarrow> inorder u = inorder s @ p # inorder t"
  "fix_right p c s t = Inr u \<Longrightarrow> inorder u = inorder s @ p # inorder t"
  by (cases s; auto split: rbt.splits if_splits)+

lemma inorder_del_fix: "inorder (del_fix fs t) = before fs @ inorder t @ after fs"
  by (induction fs t rule: del_fix.induct)
     (auto simp: inorder_plug inorder_fix_left inorder_fix_right
           simp del: fix_left.simps fix_right.simps split: sum.splits)

text \<open>The two outcomes of a pass: a finished subtree of full black height, or one that is again
  one black node short with a black root.\<close>

lemma fix_left_ok:
  assumes "rb_ok t" "color t = Black" "rb_ok s" "color s = Black" "bheight s = Suc (bheight t)"
  shows "case fix_left p c s t of
      Inl u \<Rightarrow> rb_ok u \<and> bheight u = bheight s + (if c = Black then 1 else 0) \<and>
        (c = Black \<longrightarrow> color u = Black)
    | Inr u \<Rightarrow> c = Black \<and> rb_ok u \<and> color u = Black \<and> bheight u = bheight s"
  using assms by (cases s) (auto simp: bheight_paint_Black intro: rb_ok_paint_Black split: rbt.splits)

lemma fix_right_ok:
  assumes "rb_ok t" "color t = Black" "rb_ok s" "color s = Black" "bheight s = Suc (bheight t)"
  shows "case fix_right p c s t of
      Inl u \<Rightarrow> rb_ok u \<and> bheight u = bheight s + (if c = Black then 1 else 0) \<and>
        (c = Black \<longrightarrow> color u = Black)
    | Inr u \<Rightarrow> c = Black \<and> rb_ok u \<and> color u = Black \<and> bheight u = bheight s"
  using assms by (cases s) (auto simp: bheight_paint_Black intro: rb_ok_paint_Black split: rbt.splits)

lemma rbtree_del_fix:
  assumes "rb_ok t" "color t = Black" "ctx_ok fs (Suc (bheight t)) Black"
  shows "rbtree (del_fix fs t)"
  using assms
proof (induction fs t rule: del_fix.induct)
  case (1 t)
  then show ?case by (simp add: rbtree_def)
next
  case (2 p c sl s sr fs t)
  then have "color sl = Black" "rb_ok sl" "bheight sl = Suc (bheight t)" "paint Black sl = sl"
    by auto
  with 2 fix_left_ok [of t sl Red p] show ?case
    by (auto simp: rbtree_plug split: sum.splits)
next
  case (3 sl s sr p c fs t)
  then have "color sr = Black" "rb_ok sr" "bheight sr = Suc (bheight t)" "paint Black sr = sr"
    by auto
  with 3 fix_right_ok [of t sr Red p] show ?case
    by (auto simp: rbtree_plug split: sum.splits)
next
  case (4 p c sl s sr fs t)
  with fix_left_ok [of t "Node sl s Black sr" c p] show ?case
    by (cases c) (auto simp: rbtree_plug simp del: fix_left.simps fix_right.simps
        split: sum.splits intro: ctx_ok_Red)
next
  case (5 sl s sr p c fs t)
  with fix_right_ok [of t "Node sl s Black sr" c p] show ?case
    by (cases c) (auto simp: rbtree_plug simp del: fix_left.simps fix_right.simps
        split: sum.splits intro: ctx_ok_Red)
qed auto

section \<open>Deletion\<close>

fun leftmost_path :: "rbt \<Rightarrow> frame list \<Rightarrow> frame list \<times> ptr \<times> rbcolor \<times> rbt" where
  "leftmost_path Leaf fs = (fs, NULL, Black, Leaf)"
| "leftmost_path (Node l a c r) fs =
     (case l of Leaf \<Rightarrow> (fs, a, c, r) | Node _ _ _ _ \<Rightarrow> leftmost_path l (LF a c r # fs))"

lemma leftmost_path_plug:
  "leftmost_path t fs = (gs, s, cs, c2) \<Longrightarrow> t \<noteq> Leaf \<Longrightarrow> plug gs (Node Leaf s cs c2) = plug fs t"
  by (induction t fs rule: leftmost_path.induct) (auto split: rbt.splits)

lemma leftmost_path_append:
  "leftmost_path t (fs @ hs) = (let (gs, x) = leftmost_path t fs in (gs @ hs, x))"
  by (induction t fs rule: leftmost_path.induct) (auto split: rbt.splits)

lemma before_leftmost_path: "leftmost_path t fs = (gs, x) \<Longrightarrow> before gs = before fs"
  by (induction t fs rule: leftmost_path.induct) (auto split: rbt.splits)

text \<open>\<^verbatim>\<open>hev_rbtree_erase\<close> of the node \<open>n\<close> with subtrees \<open>l\<close> and \<open>r\<close> on the path \<open>fs\<close>.\<close>

definition erase_zip :: "frame list \<Rightarrow> rbt \<Rightarrow> rbcolor \<Rightarrow> rbt \<Rightarrow> rbt" where
  "erase_zip fs l c r =
     (if l = Leaf then
        if r \<noteq> Leaf then plug fs (paint c r)
        else if c = Black then del_fix fs Leaf else plug fs Leaf
      else if r = Leaf then plug fs (paint c l)
      else
        case leftmost_path r [] of (gs, s, cs, c2) \<Rightarrow>
          let fs' = gs @ RF l s c # fs
          in if c2 \<noteq> Leaf then plug fs' (paint Black c2)
             else if cs = Black then del_fix fs' Leaf else plug fs' Leaf)"

lemma inorder_erase_zip: "inorder (erase_zip fs l c r) = before fs @ inorder l @ inorder r @ after fs"
proof (cases "l = Leaf \<or> r = Leaf")
  case True
  then show ?thesis by (auto simp: erase_zip_def inorder_plug inorder_del_fix)
next
  case False
  obtain gs s cs c2 where p: "leftmost_path r [] = (gs, s, cs, c2)" by (metis prod_cases4)
  with False have "plug gs (Node Leaf s cs c2) = r"
    using leftmost_path_plug [of r "[]"] by simp
  then have "inorder r = before gs @ s # inorder c2 @ after gs"
    by (metis inorder_plug append_Cons append_Nil inorder.simps)
  moreover have "before gs = []"
    using before_leftmost_path [OF p] by simp
  ultimately have "inorder r = s # inorder c2 @ after gs" "before gs = []" by auto
  with False p show ?thesis
    by (auto simp: erase_zip_def Let_def inorder_plug inorder_del_fix before_append after_append)
qed

lemma ctx_ok_swap: "ctx_ok (gs @ RF l n c # fs) k d \<longleftrightarrow> ctx_ok (gs @ RF l s c # fs) k d"
proof (induction gs arbitrary: k d)
  case (Cons g gs)
  then show ?case by (cases g) auto
qed auto

lemma rbtree_erase_zip:
  assumes "rbtree (plug fs (Node l n c r))"
  shows "rbtree (erase_zip fs l c r)"
proof (cases "l = Leaf \<or> r = Leaf")
  case True
  with assms show ?thesis
    by (cases l; cases r) (auto simp: erase_zip_def rbtree_plug intro!: rbtree_del_fix
        dest: ctx_ok_Black split: if_splits)
next
  case False
  obtain gs s cs c2 where p: "leftmost_path r [] = (gs, s, cs, c2)" by (metis prod_cases4)
  with False have r: "plug gs (Node Leaf s cs c2) = r"
    using leftmost_path_plug [of r "[]"] by simp
  have "rbtree (plug (gs @ RF l n c # fs) (Node Leaf s cs c2))"
    using assms by (simp add: plug_append r)
  then have i: "rb_ok (Node Leaf s cs c2)"
      "ctx_ok (gs @ RF l s c # fs) (bheight (Node Leaf s cs c2)) cs"
    by (auto simp: rbtree_plug ctx_ok_swap [of gs l n c fs _ _ s])
  show ?thesis
  proof (cases c2)
    case Leaf
    with False p i show ?thesis
      by (auto simp: erase_zip_def Let_def rbtree_plug intro!: rbtree_del_fix dest: ctx_ok_Black)
  next
    case (Node a x d b)
    with i have "cs = Black" by (auto split: if_splits)
    with Node False p i show ?thesis
      by (auto simp: erase_zip_def Let_def rbtree_plug split: if_splits dest: ctx_ok_Black)
  qed
qed

end
