(* ===== verification/HevRBTreeRefine.thy ===== *)
theory HevRBTreeRefine
  imports HevRBTree RBZipper
begin

text \<open>
  The pointer code of \<^verbatim>\<open>HevRBTree\<close> against the zipper functions of \<^verbatim>\<open>RBZipper\<close>: when the store
  holds a tree, linking and repairing, erasing, and the four traversals return, and the store they
  leave holds the tree the zipper function computes.
\<close>

section \<open>The packed parent/colour word\<close>

definition aligned :: "ptr \<Rightarrow> bool" where
  "aligned p \<longleftrightarrow> p AND 3 = 0"

fun pack :: "ptr \<Rightarrow> rbcolor \<Rightarrow> u64" where
  "pack p Red = p"
| "pack p Black = p OR 1"

lemma aligned_bits: "aligned p \<Longrightarrow> \<not> bit p 0 \<and> \<not> bit p 1"
proof -
  assume "aligned p"
  then have *: "bit (p AND 3) n = False" for n by (simp add: aligned_def)
  have "bit (3::ptr) 0" "bit (3::ptr) 1" by (simp_all add: bit_numeral_rec)
  then show ?thesis using * [of 0] * [of 1] by (simp add: bit_and_iff)
qed

lemma aligned_NULL [simp]: "aligned NULL"
  by (simp add: aligned_def)

lemma bit_three: "bit (3::ptr) n \<longleftrightarrow> n < 2"
proof -
  have "(3::ptr) = mask 2" by (simp add: mask_eq_exp_minus_1)
  then show ?thesis by (simp only: bit_mask_iff) auto
qed

lemma pack_parent [simp]: "aligned p \<Longrightarrow> pack p c AND NOT 3 = p"
proof -
  assume a: "aligned p"
  show ?thesis
  proof (rule bit_word_eqI)
    fix n assume "n < LENGTH(64)"
    then show "bit (pack p c AND NOT 3) n \<longleftrightarrow> bit p n"
      using aligned_bits [OF a]
      by (cases c; cases n)
         (auto simp: bit_and_iff bit_or_iff bit_not_iff bit_three bit_1_iff less_Suc_eq
               intro!: Nat.gr0I)
  qed
qed

lemma pack_parent' [simp]: "aligned p \<Longrightarrow> pack p c AND - 4 = p"
  using pack_parent [of p c] by simp

lemma pack_color [simp]: "aligned p \<Longrightarrow> pack p c AND 1 = (if c = Black then 1 else 0)"
proof -
  assume a: "aligned p"
  show ?thesis
    by (rule bit_word_eqI; use aligned_bits [OF a] in \<open>cases c\<close>)
       (auto simp: bit_and_iff bit_or_iff bit_1_iff intro!: Nat.gr0I)
qed

lemma pack_or [simp]: "pack p c OR 1 = pack p Black"
  by (cases c) (auto simp: or.assoc)

lemma color_or_parent [simp]: "(if c = Black then 1 else 0) OR p = pack p c"
  by (cases c) (auto simp: or.commute)

declare pack.simps [simp del]

section \<open>Reads after writes\<close>

lemma get_set [simp]:
  "get_pc (set_pc a v s) b = (if a = b then v else get_pc s b)"
  "get_pc (set_left a v s) b = get_pc s b"
  "get_pc (set_right a v s) b = get_pc s b"
  "get_pc (set_root v s) b = get_pc s b"
  "get_left (set_pc a v s) b = get_left s b"
  "get_left (set_left a v s) b = (if a = b then v else get_left s b)"
  "get_left (set_right a v s) b = get_left s b"
  "get_left (set_root v s) b = get_left s b"
  "get_right (set_pc a v s) b = get_right s b"
  "get_right (set_left a v s) b = get_right s b"
  "get_right (set_right a v s) b = (if a = b then v else get_right s b)"
  "get_right (set_root v s) b = get_right s b"
  "rb_root (set_pc a v s) = rb_root s"
  "rb_root (set_left a v s) = rb_root s"
  "rb_root (set_right a v s) = rb_root s"
  "rb_root (set_root v s) = v"
  by (auto simp: get_pc_def get_left_def get_right_def set_pc_def set_left_def set_right_def
        set_root_def)

lemma set_parent_color_eq:
  "hev_rbtree_node_set_parent_color a p HEV_RBTREE_RED s = set_pc a (pack p Red) s"
  "hev_rbtree_node_set_parent_color a p HEV_RBTREE_BLACK s = set_pc a (pack p Black) s"
  by (simp_all add: hev_rbtree_node_set_parent_color_def pack.simps)

lemma red_parent_eq: "get_pc s a = pack p Red \<Longrightarrow> hev_rbtree_node_red_parent s a = p"
  by (simp add: hev_rbtree_node_red_parent_def pack.simps(1))

lemmas rb_access =
  hev_rbtree_node_parent_def hev_rbtree_node_color_def hev_rbtree_node_is_red_def
  hev_rbtree_node_is_black_def pc_is_black_def pc_parent_def hev_rbtree_node_set_black_def
  hev_rbtree_node_set_parent_def set_parent_color_eq

text \<open>The guarded write \<^verbatim>\<open>if (tmp) ...\<close>.\<close>

definition set_pc0 :: "ptr \<Rightarrow> u64 \<Rightarrow> HevRBTree \<Rightarrow> HevRBTree" where
  "set_pc0 a v s = (if a = NULL then s else set_pc a v s)"

lemma get_set_pc0 [simp]:
  "get_pc (set_pc0 a v s) b = (if a = b \<and> b \<noteq> NULL then v else get_pc s b)"
  "get_left (set_pc0 a v s) b = get_left s b"
  "get_right (set_pc0 a v s) b = get_right s b"
  "rb_root (set_pc0 a v s) = rb_root s"
  by (auto simp: set_pc0_def)

section \<open>Trees and paths in the store\<close>

definition root_ptr :: "rbt \<Rightarrow> ptr" where
  "root_ptr t = (case t of Leaf \<Rightarrow> NULL | Node l a c r \<Rightarrow> a)"

lemma root_ptr_simps [simp]: "root_ptr Leaf = NULL" "root_ptr (Node l a c r) = a"
  by (simp_all add: root_ptr_def)

lemma root_ptr_neq [simp]:
  "a \<noteq> NULL \<Longrightarrow> a \<notin> set (inorder t) \<Longrightarrow> root_ptr t \<noteq> a"
  "a \<noteq> NULL \<Longrightarrow> a \<notin> set (inorder t) \<Longrightarrow> a \<noteq> root_ptr t"
  by (cases t; auto)+

lemma root_ptr_paint [simp]: "root_ptr (paint c t) = root_ptr t"
  by (cases t) auto

fun tree_at :: "HevRBTree \<Rightarrow> ptr \<Rightarrow> rbt \<Rightarrow> bool" where
  "tree_at s p Leaf \<longleftrightarrow> True"
| "tree_at s p (Node l a c r) \<longleftrightarrow>
     a \<noteq> NULL \<and> aligned a \<and> get_pc s a = pack p c \<and>
     get_left s a = root_ptr l \<and> get_right s a = root_ptr r \<and> tree_at s a l \<and> tree_at s a r"

fun ctx_parent :: "frame list \<Rightarrow> ptr" where
  "ctx_parent [] = NULL"
| "ctx_parent (LF a c r # fs) = a"
| "ctx_parent (RF l a c # fs) = a"

text \<open>\<open>ctx_at s x fs\<close>: the path \<open>fs\<close> is in the store, with \<open>x\<close> in its hole.\<close>

fun ctx_at :: "HevRBTree \<Rightarrow> ptr \<Rightarrow> frame list \<Rightarrow> bool" where
  "ctx_at s x [] \<longleftrightarrow> rb_root s = x"
| "ctx_at s x (LF a c r # fs) \<longleftrightarrow>
     a \<noteq> NULL \<and> aligned a \<and> get_pc s a = pack (ctx_parent fs) c \<and>
     get_left s a = x \<and> get_right s a = root_ptr r \<and> tree_at s a r \<and> ctx_at s a fs"
| "ctx_at s x (RF l a c # fs) \<longleftrightarrow>
     a \<noteq> NULL \<and> aligned a \<and> get_pc s a = pack (ctx_parent fs) c \<and>
     get_left s a = root_ptr l \<and> get_right s a = x \<and> tree_at s a l \<and> ctx_at s a fs"

text \<open>Disjointness of node sequences, in the normal form the frame rules match.\<close>

definition dj :: "'a list \<Rightarrow> 'a list \<Rightarrow> bool" where
  "dj xs ys \<longleftrightarrow> set xs \<inter> set ys = {}"

lemma dj_simps [simp]:
  "dj [] ys" "dj xs []"
  "dj (x # xs) ys \<longleftrightarrow> x \<notin> set ys \<and> dj xs ys"
  "dj xs (y # ys) \<longleftrightarrow> y \<notin> set xs \<and> dj xs ys"
  "dj (xs @ xs') ys \<longleftrightarrow> dj xs ys \<and> dj xs' ys"
  "dj xs (ys @ ys') \<longleftrightarrow> dj xs ys \<and> dj xs ys'"
  by (auto simp: dj_def)

lemma distinct_dj: "distinct (xs @ ys) \<longleftrightarrow> distinct xs \<and> distinct ys \<and> dj xs ys"
  by (simp add: dj_def)

lemma dj_commute: "dj xs ys \<longleftrightarrow> dj ys xs"
  by (auto simp: dj_def)

definition zip_at :: "HevRBTree \<Rightarrow> frame list \<Rightarrow> rbt \<Rightarrow> bool" where
  "zip_at s fs t \<longleftrightarrow>
     ctx_at s (root_ptr t) fs \<and> tree_at s (ctx_parent fs) t \<and>
     distinct (before fs @ inorder t @ after fs)"

text \<open>The store holds the tree \<open>t\<close>, every node once.\<close>

definition rb_at :: "HevRBTree \<Rightarrow> rbt \<Rightarrow> bool" where
  "rb_at s t \<longleftrightarrow> rb_root s = root_ptr t \<and> tree_at s NULL t \<and> distinct (inorder t)"

lemma tree_at_frame [simp]:
  "a \<notin> set (inorder t) \<Longrightarrow> tree_at (set_pc a v s) p t = tree_at s p t"
  "a \<notin> set (inorder t) \<Longrightarrow> tree_at (set_left a v s) p t = tree_at s p t"
  "a \<notin> set (inorder t) \<Longrightarrow> tree_at (set_right a v s) p t = tree_at s p t"
  "tree_at (set_root v s) p t = tree_at s p t"
  by (induction t arbitrary: p) auto

lemma ctx_at_frame [simp]:
  "a \<notin> set (before fs) \<Longrightarrow> a \<notin> set (after fs) \<Longrightarrow> ctx_at (set_pc a v s) x fs = ctx_at s x fs"
  "a \<notin> set (before fs) \<Longrightarrow> a \<notin> set (after fs) \<Longrightarrow> ctx_at (set_left a v s) x fs = ctx_at s x fs"
  "a \<notin> set (before fs) \<Longrightarrow> a \<notin> set (after fs) \<Longrightarrow> ctx_at (set_right a v s) x fs = ctx_at s x fs"
  by (induction s x fs rule: ctx_at.induct) auto

lemma root_notin:
  "dj (inorder u) xs \<Longrightarrow> root_ptr u = NULL \<or> root_ptr u \<notin> set xs"
  "dj xs (inorder u) \<Longrightarrow> root_ptr u = NULL \<or> root_ptr u \<notin> set xs"
  by (cases u; auto)+

lemma tree_at_frame0 [simp]:
  "dj (inorder u) (inorder t) \<Longrightarrow> tree_at (set_pc0 (root_ptr u) v s) p t = tree_at s p t"
  "dj (inorder t) (inorder u) \<Longrightarrow> tree_at (set_pc0 (root_ptr u) v s) p t = tree_at s p t"
  using root_notin [where u = u and xs = "inorder t"] by (auto simp: set_pc0_def)

lemma ctx_at_frame0 [simp]:
  "dj (before fs) (inorder u) \<Longrightarrow> dj (inorder u) (after fs) \<Longrightarrow>
     ctx_at (set_pc0 (root_ptr u) v s) x fs = ctx_at s x fs"
  using root_notin [where u = u and xs = "before fs"] root_notin [where u = u and xs = "after fs"] by (auto simp: set_pc0_def)

text \<open>Giving a subtree a new parent, with or without a new colour.\<close>

lemma reparent [intro]:
  "tree_at s p t \<Longrightarrow> distinct (inorder t) \<Longrightarrow>
     tree_at (set_pc0 (root_ptr t) (pack q c) s) q (paint c t)"
  by (cases t) (auto simp: set_pc0_def)

lemma root_color: "tree_at s p t \<Longrightarrow> t \<noteq> Leaf \<Longrightarrow> get_pc s (root_ptr t) = pack p (color t)"
  by (cases t) auto

lemma root_null: "tree_at s p t \<Longrightarrow> root_ptr t = NULL \<longleftrightarrow> t = Leaf"
  by (cases t) auto

lemma ctx_parent_aligned [simp]: "ctx_at s x fs \<Longrightarrow> aligned (ctx_parent fs)"
  by (cases fs rule: ctx_parent.cases) auto

lemma ctx_parent_neq [simp]:
  "a \<notin> set (before fs) \<Longrightarrow> a \<notin> set (after fs) \<Longrightarrow> a \<noteq> NULL \<Longrightarrow> ctx_parent fs \<noteq> a"
  by (cases fs rule: ctx_parent.cases) auto

lemma ctx_nonnull: "ctx_at s x fs \<Longrightarrow> ctx_parent fs = NULL \<longleftrightarrow> fs = []"
  by (cases fs rule: ctx_parent.cases) auto

lemma tree_nonnull: "tree_at s p t \<Longrightarrow> NULL \<notin> set (inorder t)"
  by (induction t arbitrary: p) auto

lemma rb_at_plug: "rb_at s (plug fs t) \<longleftrightarrow> zip_at s fs t"
proof -
  have "rb_root s = root_ptr (plug fs t) \<and> tree_at s NULL (plug fs t) \<longleftrightarrow>
      ctx_at s (root_ptr t) fs \<and> tree_at s (ctx_parent fs) t"
  proof (induction fs arbitrary: t)
    case (Cons f fs)
    then show ?case by (cases f) auto
  qed simp
  then show ?thesis by (auto simp: rb_at_def zip_at_def inorder_plug)
qed

text \<open>\<^verbatim>\<open>hev_rbtree_change_child\<close> replaces the pointer in the hole of a path.\<close>

lemma change_child_ctx [simp]:
  assumes "ctx_at s old fs" "old \<noteq> NULL" "old \<notin> set (before fs)" "old \<notin> set (after fs)"
    and "distinct (before fs)" "distinct (after fs)" "dj (before fs) (after fs)"
  shows "ctx_at (hev_rbtree_change_child old new (ctx_parent fs) s) new fs"
proof (cases fs rule: ctx_parent.cases)
  case (3 l a c gs)
  have "get_left s a \<noteq> old"
    using assms by (auto simp: 3)
  with assms show ?thesis by (auto simp: 3 hev_rbtree_change_child_def)
qed (use assms in \<open>auto simp: hev_rbtree_change_child_def\<close>)

lemma change_child_tree [simp]:
  "dj (before fs) (inorder t) \<Longrightarrow> dj (inorder t) (after fs) \<Longrightarrow>
     tree_at (hev_rbtree_change_child old new (ctx_parent fs) s) q t = tree_at s q t"
  by (cases fs rule: ctx_parent.cases) (auto simp: hev_rbtree_change_child_def)

lemma change_child_get [simp]:
  "get_pc (hev_rbtree_change_child old new p s) a = get_pc s a"
  "p \<noteq> a \<Longrightarrow> get_left (hev_rbtree_change_child old new p s) a = get_left s a"
  "p \<noteq> a \<Longrightarrow> get_right (hev_rbtree_change_child old new p s) a = get_right s a"
  by (simp_all add: hev_rbtree_change_child_def)

section \<open>Insertion\<close>

lemma rotate_set_parents_eq:
  assumes "get_pc s old = pack p c" "aligned p"
  shows "hev_rbtree_rotate_set_parents old new HEV_RBTREE_RED s =
      hev_rbtree_change_child old new p (set_pc old (pack new Red) (set_pc new (pack p c) s))"
    "hev_rbtree_rotate_set_parents old new HEV_RBTREE_BLACK s =
      hev_rbtree_change_child old new p (set_pc old (pack new Black) (set_pc new (pack p c) s))"
  using assms by (simp_all add: hev_rbtree_rotate_set_parents_def rb_access)

text \<open>The loop stops below a black parent and at the root.\<close>

lemma body_black:
  assumes z: "zip_at s (f # fs) t" and f: "f = LF p Black w \<or> f = RF w p Black"
  shows "insert_color_body n p s = Inl s"
proof -
  have "get_pc s p = pack (ctx_parent fs) Black" "p \<noteq> NULL" "aligned (ctx_parent fs)"
    using z f by (auto simp: zip_at_def)
  then show ?thesis by (simp add: insert_color_body_def rb_access)
qed

lemma body_root:
  assumes z: "zip_at s [] (Node l n c r)"
  shows "\<exists>s'. insert_color_body n NULL s = Inl s' \<and> rb_at s' (Node l n Black r)"
  using z by (auto simp: zip_at_def rb_at_def insert_color_body_def rb_access)

text \<open>Case 1: the uncle is red.\<close>

lemma body_flip_left:
  assumes z: "zip_at s (f # LF g c (Node ul u Red ur) # fs) t"
    and f: "f = LF p Red w \<or> f = RF w p Red"
  shows "\<exists>s'. insert_color_body n p s = Inr (g, ctx_parent fs, s') \<and>
    zip_at s' fs (Node (paint Black (plug1 f t)) g Red (Node ul u Black ur))"
proof -
  let ?s = "set_pc g (pack (ctx_parent fs) Red) (set_pc p (pack g Black) (set_pc u (pack g Black) s))"
  have *: "get_pc s p = pack g Red" "p \<noteq> u" "p \<noteq> g" "u \<noteq> g" "get_right s g = u" "u \<noteq> NULL" "p \<noteq> NULL"
    "aligned (ctx_parent fs)" "aligned g"
    "get_pc s g = pack (ctx_parent fs) c" "get_pc s u = pack g Red"
    using z f by (auto simp: zip_at_def)
  then have "insert_color_body n p s = Inr (g, ctx_parent fs, ?s)"
    by (simp add: insert_color_body_def Let_def rb_access red_parent_eq [OF *(1)])
  moreover have "zip_at ?s fs (Node (paint Black (plug1 f t)) g Red (Node ul u Black ur))"
    using z f by (auto simp: zip_at_def)
  ultimately show ?thesis by blast
qed

lemma body_flip_right:
  assumes z: "zip_at s (f # RF (Node ul u Red ur) g c # fs) t"
    and f: "f = LF p Red w \<or> f = RF w p Red"
  shows "\<exists>s'. insert_color_body n p s = Inr (g, ctx_parent fs, s') \<and>
    zip_at s' fs (Node (Node ul u Black ur) g Red (paint Black (plug1 f t)))"
proof -
  let ?s = "set_pc g (pack (ctx_parent fs) Red) (set_pc p (pack g Black) (set_pc u (pack g Black) s))"
  have *: "get_pc s p = pack g Red" "p \<noteq> u" "p \<noteq> g" "u \<noteq> g" "get_left s g = u" "get_right s g = p"
    "u \<noteq> NULL" "p \<noteq> NULL" "aligned (ctx_parent fs)" "aligned g"
    "get_pc s g = pack (ctx_parent fs) c" "get_pc s u = pack g Red"
    using z f by (auto simp: zip_at_def)
  then have "insert_color_body n p s = Inr (g, ctx_parent fs, ?s)"
    by (simp add: insert_color_body_def Let_def rb_access red_parent_eq [OF *(1)])
  moreover have "zip_at ?s fs (Node (Node ul u Black ur) g Red (paint Black (plug1 f t)))"
    using z f by (auto simp: zip_at_def)
  ultimately show ?thesis by blast
qed

text \<open>Case 3: a rotation at the grandparent.\<close>

lemma guarded_set:
  "(if a \<noteq> NULL then hev_rbtree_node_set_parent_color a p HEV_RBTREE_BLACK s else s) =
     set_pc0 a (pack p Black) s"
  by (simp add: set_pc0_def set_parent_color_eq)

lemma color_guard:
  "tree_at s g u \<Longrightarrow> aligned g \<Longrightarrow> root_ptr u \<noteq> NULL \<and> hev_rbtree_node_is_red s (root_ptr u) \<longleftrightarrow> color u = Red"
  by (cases u) (auto simp: rb_access)

lemma body_rotate_left:
  assumes z: "zip_at s (LF p Red w # LF g c u # fs) t" and u: "color u = Black" and t: "t \<noteq> Leaf"
    and n: "n = root_ptr t"
  shows "\<exists>s'. insert_color_body n p s = Inl s' \<and>
    rb_at s' (plug fs (Node t p c (Node (paint Black w) g Red u)))"
proof -
  let ?s1 = "set_pc0 (root_ptr w) (pack g Black) (set_right p g (set_left g (root_ptr w) s))"
  let ?s = "hev_rbtree_change_child g p (ctx_parent fs)
     (set_pc g (pack p Red) (set_pc p (pack (ctx_parent fs) c) ?s1))"
  have *: "get_pc s p = pack g Red" "p \<noteq> NULL" "g \<noteq> NULL" "p \<noteq> g" "g \<noteq> p"  "aligned (ctx_parent fs)" "aligned g"
      "get_pc s g = pack (ctx_parent fs) c" "get_right s p = root_ptr w" "get_right s g = root_ptr u"
      "tree_at s g u" "p \<notin> set (inorder u)" "g \<notin> set (inorder w)"
    using z by (auto simp: zip_at_def)
  have nw: "n \<noteq> root_ptr w"
    using z t n by (cases t; cases w) (auto simp: zip_at_def)
  have g: "\<not> (root_ptr u \<noteq> NULL \<and> hev_rbtree_node_is_red s (root_ptr u))"
    using u color_guard [OF *(11,7)] by simp
  have "get_pc ?s1 g = pack (ctx_parent fs) c"
    using * by simp
  note r = rotate_set_parents_eq [OF this *(6)]
  have "\<not> hev_rbtree_node_is_black s p" using * by (simp add: rb_access)
  then have "insert_color_body n p s = Inl ?s"
    using * nw by (simp add: g insert_color_body_def Let_def red_parent_eq [OF *(1)] guarded_set r set_parent_color_eq split del: if_split)
  moreover have "zip_at ?s fs (Node t p c (Node (paint Black w) g Red u))"
    using z by (auto simp: zip_at_def distinct_dj simp del: distinct_append)
  ultimately show ?thesis by (auto simp: rb_at_plug)
qed


text \<open>Case 2, which falls into Case 3: the node is the inner grandchild.\<close>

lemma body_double_left:
  assumes z: "zip_at s (RF w p Red # LF g c u # fs) (Node l n d r)" and u: "color u = Black"
  shows "\<exists>s'. insert_color_body n p s = Inl s' \<and>
    rb_at s' (plug fs (Node (Node w p Red (paint Black l)) n c (Node (paint Black r) g Red u)))"
proof -
  let ?w0 = "set_pc p (pack n Red) (set_pc0 (root_ptr l) (pack p Black) (set_left n p (set_right p (root_ptr l) s)))"
  let ?s1 = "set_pc0 (root_ptr r) (pack g Black) (set_right n g (set_left g (root_ptr r) ?w0))"
  let ?s = "hev_rbtree_change_child g n (ctx_parent fs)
     (set_pc g (pack n Red) (set_pc n (pack (ctx_parent fs) c) ?s1))"
  have *: "get_pc s p = pack g Red" "p \<noteq> NULL" "g \<noteq> NULL" "p \<noteq> g" "g \<noteq> p" "n \<noteq> g" "n \<noteq> p" "aligned (ctx_parent fs)" "aligned g"
      "get_pc s g = pack (ctx_parent fs) c" "get_right s p = n" "get_right s g = root_ptr u"
      "get_left s n = root_ptr l" "get_right s n = root_ptr r"
      "tree_at s g u" "p \<notin> set (inorder u)" "g \<notin> set (inorder l)" "g \<notin> set (inorder r)"
    using z by (auto simp: zip_at_def)
  have g: "\<not> (root_ptr u \<noteq> NULL \<and> hev_rbtree_node_is_red s (root_ptr u))"
    using u color_guard [OF *(15,9)] by simp
  have "get_pc ?s1 g = pack (ctx_parent fs) c"
    using * by simp
  note r = rotate_set_parents_eq [OF this *(8)]
  have "\<not> hev_rbtree_node_is_black s p" using * by (simp add: rb_access)
  then have "insert_color_body n p s = Inl ?s"
    using * by (simp add: g insert_color_body_def Let_def red_parent_eq [OF *(1)] guarded_set r set_parent_color_eq split del: if_split)
  moreover have "zip_at ?s fs (Node (Node w p Red (paint Black l)) n c (Node (paint Black r) g Red u))"
    using z by (auto simp: zip_at_def distinct_dj simp del: distinct_append)
  ultimately show ?thesis by (auto simp: rb_at_plug)
qed

lemma body_rotate_right:
  assumes z: "zip_at s (RF w p Red # RF u g c # fs) t" and u: "color u = Black" and t: "t \<noteq> Leaf"
    and n: "n = root_ptr t"
  shows "\<exists>s'. insert_color_body n p s = Inl s' \<and>
    rb_at s' (plug fs (Node (Node u g Red (paint Black w)) p c t))"
proof -
  let ?s1 = "set_pc0 (root_ptr w) (pack g Black) (set_left p g (set_right g (root_ptr w) s))"
  let ?s = "hev_rbtree_change_child g p (ctx_parent fs)
     (set_pc g (pack p Red) (set_pc p (pack (ctx_parent fs) c) ?s1))"
  have *: "get_pc s p = pack g Red" "aligned (ctx_parent fs)" "tree_at s g u" "aligned g"
      "p \<noteq> NULL" "g \<noteq> NULL" "p \<noteq> g" "g \<noteq> p" "get_right s g = p"
      "get_pc s g = pack (ctx_parent fs) c" "get_left s p = root_ptr w" "get_left s g = root_ptr u"
      "p \<notin> set (inorder u)" "g \<notin> set (inorder w)"
    using z by (auto simp: zip_at_def)
  have nw: "n \<noteq> root_ptr w"
    using z t n by (cases t; cases w) (auto simp: zip_at_def)
  have g: "\<not> (root_ptr u \<noteq> NULL \<and> hev_rbtree_node_is_red s (root_ptr u))"
    using u color_guard [OF *(3,4)] by simp
  have "get_pc ?s1 g = pack (ctx_parent fs) c"
    using * by simp
  note r = rotate_set_parents_eq [OF this *(2)]
  have "\<not> hev_rbtree_node_is_black s p" using * by (simp add: rb_access)
  then have "insert_color_body n p s = Inl ?s"
    using * nw by (simp add: g insert_color_body_def Let_def red_parent_eq [OF *(1)] guarded_set r
        set_parent_color_eq split del: if_split)
  moreover have "zip_at ?s fs (Node (Node u g Red (paint Black w)) p c t)"
    using z by (auto simp: zip_at_def distinct_dj simp del: distinct_append)
  ultimately show ?thesis by (auto simp: rb_at_plug)
qed

lemma body_double_right:
  assumes z: "zip_at s (LF p Red w # RF u g c # fs) (Node l n d r)" and u: "color u = Black"
  shows "\<exists>s'. insert_color_body n p s = Inl s' \<and>
    rb_at s' (plug fs (Node (Node u g Red (paint Black l)) n c (Node (paint Black r) p Red w)))"
proof -
  let ?w0 = "set_pc p (pack n Red) (set_pc0 (root_ptr r) (pack p Black)
     (set_right n p (set_left p (root_ptr r) s)))"
  let ?s1 = "set_pc0 (root_ptr l) (pack g Black) (set_left n g (set_right g (root_ptr l) ?w0))"
  let ?s = "hev_rbtree_change_child g n (ctx_parent fs)
     (set_pc g (pack n Red) (set_pc n (pack (ctx_parent fs) c) ?s1))"
  have *: "get_pc s p = pack g Red" "aligned (ctx_parent fs)" "tree_at s g u" "aligned g"
      "p \<noteq> NULL" "g \<noteq> NULL" "p \<noteq> g" "g \<noteq> p" "n \<noteq> g" "n \<noteq> p" "get_right s g = p"
      "get_pc s g = pack (ctx_parent fs) c" "get_left s p = n" "get_left s g = root_ptr u"
      "get_left s n = root_ptr l" "get_right s n = root_ptr r"
      "p \<notin> set (inorder u)" "g \<notin> set (inorder l)" "g \<notin> set (inorder r)"
    using z by (auto simp: zip_at_def)
  have g: "\<not> (root_ptr u \<noteq> NULL \<and> hev_rbtree_node_is_red s (root_ptr u))"
    using u color_guard [OF *(3,4)] by simp
  have "get_pc ?s1 g = pack (ctx_parent fs) c"
    using * by simp
  note r = rotate_set_parents_eq [OF this *(2)]
  have "\<not> hev_rbtree_node_is_black s p" using * by (simp add: rb_access)
  then have "insert_color_body n p s = Inl ?s"
    using * by (simp add: g insert_color_body_def Let_def red_parent_eq [OF *(1)] guarded_set r
        set_parent_color_eq split del: if_split)
  moreover have "zip_at ?s fs (Node (Node u g Red (paint Black l)) n c (Node (paint Black r) p Red w))"
    using z by (auto simp: zip_at_def distinct_dj simp del: distinct_append)
  ultimately show ?thesis by (auto simp: rb_at_plug)
qed

lemma insert_color_loop_Inl:
  "insert_color_body n p s = Inl s' \<Longrightarrow> insert_color_loop n p s = Some s'"
  by (subst insert_color_loop.simps) simp

lemma insert_color_loop_Inr:
  "insert_color_body n p s = Inr (n', p', s') \<Longrightarrow> insert_color_loop n p s = insert_color_loop n' p' s'"
  by (subst insert_color_loop.simps) simp

lemma insert_color_loop_refines:
  assumes "zip_at s fs t" "t \<noteq> Leaf" "ctx_ok fs k Black"
  shows "\<exists>s'. insert_color_loop (root_ptr t) (ctx_parent fs) s = Some s' \<and> rb_at s' (ins_fix fs t)"
  using assms
proof (induction fs t arbitrary: s k rule: ins_fix.induct)
  case (1 t)
  then show ?case by (cases t) (auto dest!: body_root insert_color_loop_Inl)
next
  case (2 p w fs t)
  then show ?case
    using rb_at_plug [of s "LF p Black w # fs" t]
      insert_color_loop_Inl [OF body_black, of s _ fs t p w "root_ptr t"] by auto
next
  case (3 w p fs t)
  then show ?case
    using rb_at_plug [of s "RF w p Black # fs" t]
      insert_color_loop_Inl [OF body_black, of s _ fs t p w "root_ptr t"] by auto
next
  case (4 p w g c ul u ur fs t)
  from body_flip_left [OF "4.prems"(1), of p w "root_ptr t"] obtain s' where
    b: "insert_color_body (root_ptr t) p s = Inr (g, ctx_parent fs, s')"
    and z: "zip_at s' fs (Node (Node t p Black w) g Red (Node ul u Black ur))" by auto
  from "4.prems"(3) have "\<exists>k. ctx_ok fs k Black" by (auto dest: ctx_ok_Black)
  with "4.IH" [OF z] show ?case by (auto simp: insert_color_loop_Inr [OF b])
next
  case (5 w p g c ul u ur fs t)
  from body_flip_left [OF "5.prems"(1), of p w "root_ptr t"] obtain s' where
    b: "insert_color_body (root_ptr t) p s = Inr (g, ctx_parent fs, s')"
    and z: "zip_at s' fs (Node (Node w p Black t) g Red (Node ul u Black ur))" by auto
  from "5.prems"(3) have "\<exists>k. ctx_ok fs k Black" by (auto dest: ctx_ok_Black)
  with "5.IH" [OF z] show ?case by (auto simp: insert_color_loop_Inr [OF b])
next
  case (6 p w ul u ur g c fs t)
  from body_flip_right [OF "6.prems"(1), of p w "root_ptr t"] obtain s' where
    b: "insert_color_body (root_ptr t) p s = Inr (g, ctx_parent fs, s')"
    and z: "zip_at s' fs (Node (Node ul u Black ur) g Red (Node t p Black w))" by auto
  from "6.prems"(3) have "\<exists>k. ctx_ok fs k Black" by (auto dest: ctx_ok_Black)
  with "6.IH" [OF z] show ?case by (auto simp: insert_color_loop_Inr [OF b])
next
  case (7 w p ul u ur g c fs t)
  from body_flip_right [OF "7.prems"(1), of p w "root_ptr t"] obtain s' where
    b: "insert_color_body (root_ptr t) p s = Inr (g, ctx_parent fs, s')"
    and z: "zip_at s' fs (Node (Node ul u Black ur) g Red (Node w p Black t))" by auto
  from "7.prems"(3) have "\<exists>k. ctx_ok fs k Black" by (auto dest: ctx_ok_Black)
  with "7.IH" [OF z] show ?case by (auto simp: insert_color_loop_Inr [OF b])
qed (auto dest!: body_rotate_left body_rotate_right body_double_left body_double_right
     insert_color_loop_Inl)


text \<open>The pointer field that \<^verbatim>\<open>hev_rbtree_node_link\<close> has to fill in for a new node on a path.\<close>

fun link_of :: "frame list \<Rightarrow> rb_link" where
  "link_of [] = Root"
| "link_of (LF a c r # fs) = LeftOf a"
| "link_of (RF l a c # fs) = RightOf a"

lemma node_link_refines:
  assumes "zip_at s fs Leaf" "node \<noteq> NULL" "aligned node" "node \<notin> set (before fs)" "node \<notin> set (after fs)"
  shows "zip_at (hev_rbtree_node_link node (ctx_parent fs) (link_of fs) s) fs (Node Leaf node Red Leaf)"
  using assms
  by (cases fs rule: link_of.cases) (auto simp: zip_at_def hev_rbtree_node_link_def pack.simps(1))

lemma insert_refines:
  assumes "zip_at s fs Leaf" "rbtree (plug fs Leaf)"
    and "node \<noteq> NULL" "aligned node" "node \<notin> set (before fs)" "node \<notin> set (after fs)"
  shows "\<exists>s'. hev_rbtree_insert_color node (hev_rbtree_node_link node (ctx_parent fs) (link_of fs) s) = Some s' \<and>
    rb_at s' (ins_fix fs (Node Leaf node Red Leaf))"
proof -
  let ?s = "hev_rbtree_node_link node (ctx_parent fs) (link_of fs) s"
  have z: "zip_at ?s fs (Node Leaf node Red Leaf)"
    using assms by (blast intro: node_link_refines)
  then have "get_pc ?s node = pack (ctx_parent fs) Red" by (simp add: zip_at_def)
  then have "hev_rbtree_node_red_parent ?s node = ctx_parent fs" by (rule red_parent_eq)
  moreover have "ctx_ok fs 0 Black" using assms(2) by (simp add: rbtree_plug)
  ultimately show ?thesis
    using insert_color_loop_refines [OF z] by (simp add: hev_rbtree_insert_color_def)
qed

end
