(* ===== verification/HevRBTreeErase.thy ===== *)
theory HevRBTreeErase
  imports HevRBTreeRefine
begin

text \<open>
  Deletion: the pointer code of \<^verbatim>\<open>_hev_rbtree_erase\<close> and \<^verbatim>\<open>_hev_rbtree_erase_color\<close> against
  \<open>erase_zip\<close> and \<open>del_fix\<close>, on a store that holds a red-black tree.
\<close>

section \<open>Repair after deletion\<close>

lemma black_guard:
  "tree_at s x t \<Longrightarrow> aligned x \<Longrightarrow>
     root_ptr t = NULL \<or> hev_rbtree_node_is_black s (root_ptr t) \<longleftrightarrow> color t = Black"
  by (cases t) (auto simp: rb_access)

text \<open>Simplify both branches of a conditional and not only its condition.\<close>

lemma if_branches_cong:
  "b = c \<Longrightarrow> x = u \<Longrightarrow> y = v \<Longrightarrow> (if b then x else y) = (if c then u else v)"
  by simp

lemma fold_set_pc0: "(if a \<noteq> NULL then set_pc a v s else s) = set_pc0 a v s"
  by (simp add: set_pc0_def)

lemma reparent_same [intro]:
  "tree_at s p t \<Longrightarrow> distinct (inorder t) \<Longrightarrow>
     tree_at (set_pc0 (root_ptr t) (pack q (color t)) s) q t"
  by (cases t) (auto simp: set_pc0_def)

lemma guarded_set_parent:
  assumes "root_ptr t \<noteq> NULL \<longrightarrow> get_pc s (root_ptr t) = pack q (color t)" "aligned q"
  shows "(if root_ptr t \<noteq> NULL then hev_rbtree_node_set_parent (root_ptr t) p s else s) =
     set_pc0 (root_ptr t) (pack p (color t)) s"
  using assms by (auto simp: set_pc0_def rb_access)

text \<open>Case 2: both nephews are black.\<close>

lemma left_case2_red:
  assumes z: "zip_at s (LF p Red (Node sl x d sr) # fs) t" and c: "color sl = Black" "color sr = Black"
  shows "\<exists>s'. erase_cases_left p x s = Inl s' \<and> rb_at s' (plug fs (Node t p Black (Node sl x Red sr)))"
proof -
  let ?s = "set_pc p (pack (ctx_parent fs) Black) (set_pc x (pack p Red) s)"
  have *: "get_pc s p = pack (ctx_parent fs) Red" "aligned (ctx_parent fs)" "x \<noteq> p" "aligned p" "aligned x"
      "get_right s x = root_ptr sr" "get_left s x = root_ptr sl" "tree_at s x sl" "tree_at s x sr"
    using z by (auto simp: zip_at_def)
  have g: "root_ptr sr = NULL \<or> hev_rbtree_node_is_black s (root_ptr sr)"
    "root_ptr sl = NULL \<or> hev_rbtree_node_is_black s (root_ptr sl)"
    using black_guard [OF *(8,5)] black_guard [OF *(9,5)] c by auto
  have "erase_cases_left p x s = Inl ?s"
    using * by (simp add: erase_cases_left_def g) (simp add: rb_access)
  moreover have "zip_at ?s fs (Node t p Black (Node sl x Red sr))"
    using z by (auto simp: zip_at_def distinct_dj simp del: distinct_append)
  ultimately show ?thesis by (auto simp: rb_at_plug)
qed

lemma left_case2_black:
  assumes z: "zip_at s (LF p Black (Node sl x d sr) # fs) t" and c: "color sl = Black" "color sr = Black"
  shows "\<exists>s'. erase_cases_left p x s = (if fs = [] then Inl s' else Inr (p, ctx_parent fs, s')) \<and>
    zip_at s' fs (Node t p Black (Node sl x Red sr))"
proof -
  let ?s = "set_pc x (pack p Red) s"
  have *: "get_pc s p = pack (ctx_parent fs) Black" "aligned (ctx_parent fs)" "x \<noteq> p" "aligned p" "aligned x"
      "get_right s x = root_ptr sr" "get_left s x = root_ptr sl" "tree_at s x sl" "tree_at s x sr"
      "ctx_at s p fs"
    using z by (auto simp: zip_at_def)
  have g: "root_ptr sr = NULL \<or> hev_rbtree_node_is_black s (root_ptr sr)"
    "root_ptr sl = NULL \<or> hev_rbtree_node_is_black s (root_ptr sl)"
    using black_guard [OF *(8,5)] black_guard [OF *(9,5)] c by auto
  have "erase_cases_left p x s = (if fs = [] then Inl ?s else Inr (p, ctx_parent fs, ?s))"
    using * ctx_nonnull [OF *(10)] by (simp add: erase_cases_left_def g) (simp add: rb_access)
  moreover have "zip_at ?s fs (Node t p Black (Node sl x Red sr))"
    using z by (auto simp: zip_at_def distinct_dj simp del: distinct_append)
  ultimately show ?thesis by blast
qed

text \<open>Case 4: the outer nephew is red.\<close>

lemma left_case4:
  assumes z: "zip_at s (LF p c (Node sl x d (Node l2 y Red r2)) # fs) t"
  shows "\<exists>s'. erase_cases_left p x s = Inl s' \<and>
    rb_at s' (plug fs (Node (Node t p Black sl) x c (Node l2 y Black r2)))"
proof -
  let ?u = "set_pc y (pack x Black) (set_left x p (set_right p (root_ptr sl) s))"
  let ?v = "set_pc0 (root_ptr sl) (pack p (color sl)) ?u"
  let ?w = "hev_rbtree_change_child p x (ctx_parent fs)
     (set_pc p (pack x Black) (set_pc x (pack (ctx_parent fs) c) ?v))"
  have *: "get_pc s p = pack (ctx_parent fs) c" "aligned (ctx_parent fs)" "x \<noteq> p" "aligned p" "aligned x"
      "get_right s x = y" "get_left s x = root_ptr sl" "tree_at s x sl" "p \<noteq> NULL" "x \<noteq> NULL"
      "y \<noteq> NULL" "y \<noteq> p" "y \<noteq> x" "y \<notin> set (inorder sl)" "p \<notin> set (inorder sl)" "get_pc s y = pack x Red"
    using z by (auto simp: zip_at_def)
  have g: "\<not> hev_rbtree_node_is_black s y"
    using * by (simp add: rb_access)
  have gs: "(if root_ptr sl \<noteq> NULL then hev_rbtree_node_set_parent (root_ptr sl) p ?u else ?u) = ?v"
    using * by (intro guarded_set_parent [of _ _ x]) (auto dest: root_color)
  have "get_pc ?v p = pack (ctx_parent fs) c"
    using * by auto
  note r = rotate_set_parents_eq [OF this *(2)]
  have "erase_cases_left p x s = Inl ?w"
    using * by (simp add: erase_cases_left_def Let_def g set_parent_color_eq gs r
        cong: if_branches_cong split del: if_split)
  moreover have "zip_at ?w fs (Node (Node t p Black sl) x c (Node l2 y Black r2))"
    using z by (auto simp: zip_at_def distinct_dj simp del: distinct_append)
  ultimately show ?thesis by (auto simp: rb_at_plug)
qed

text \<open>Case 3, which falls into Case 4: only the inner nephew is red.\<close>

lemma left_case3:
  assumes z: "zip_at s (LF p c (Node (Node a y Red b) x d sr) # fs) t" and c: "color sr = Black"
  shows "\<exists>s'. erase_cases_left p x s = Inl s' \<and>
    rb_at s' (plug fs (Node (Node t p Black a) y c (Node (paint Black b) x Black sr)))"
proof -
  let ?q = "set_pc0 (root_ptr b) (pack x Black)
     (set_right p y (set_right y x (set_left x (root_ptr b) s)))"
  let ?u = "set_pc x (pack y Black) (set_left y p (set_right p (root_ptr a) ?q))"
  let ?v = "set_pc0 (root_ptr a) (pack p (color a)) ?u"
  let ?w = "hev_rbtree_change_child p y (ctx_parent fs)
     (set_pc p (pack y Black) (set_pc y (pack (ctx_parent fs) c) ?v))"
  have *: "get_pc s p = pack (ctx_parent fs) c" "aligned (ctx_parent fs)" "x \<noteq> p" "aligned p" "aligned x"
      "tree_at s x sr" "get_right s x = root_ptr sr" "get_left s x = y" "get_left s y = root_ptr a"
      "get_right s y = root_ptr b" "tree_at s y a" "p \<noteq> NULL" "x \<noteq> NULL"
      "y \<noteq> NULL" "y \<noteq> p" "y \<noteq> x" "x \<noteq> y" "p \<notin> set (inorder a)" "x \<notin> set (inorder a)" "get_pc s y = pack x Red"
      "p \<notin> set (inorder b)" "dj (inorder a) (inorder b)" "aligned y"
    using z by (auto simp: zip_at_def dj_def)
  have g: "root_ptr sr = NULL \<or> hev_rbtree_node_is_black s (root_ptr sr)"
    using black_guard [OF *(6,5)] c by simp
  have gy: "\<not> hev_rbtree_node_is_black s y"
    using * by (simp add: rb_access)
  have "root_ptr a \<noteq> NULL \<longrightarrow> root_ptr b \<noteq> root_ptr a"
    using * by (cases a; cases b) auto
  then have gs: "(if root_ptr a \<noteq> NULL then hev_rbtree_node_set_parent (root_ptr a) p ?u else ?u) = ?v"
    using * by (intro guarded_set_parent [of _ _ y]) (auto dest: root_color)
  have "get_pc ?v p = pack (ctx_parent fs) c"
    using * by auto
  note r = rotate_set_parents_eq [OF this *(2)]
  have "erase_cases_left p x s = Inl ?w"
    using * by (simp add: erase_cases_left_def Let_def g gy set_parent_color_eq fold_set_pc0 gs r
        cong: if_branches_cong split del: if_split)
  moreover have "zip_at ?w fs (Node (Node t p Black a) y c (Node (paint Black b) x Black sr))"
    using z by (auto simp: zip_at_def distinct_dj simp del: distinct_append)
  ultimately show ?thesis by (auto simp: rb_at_plug)
qed

text \<open>The same cases for a node that is a right child.\<close>

lemma right_case2_red:
  assumes z: "zip_at s (RF (Node sl x d sr) p Red # fs) t" and c: "color sl = Black" "color sr = Black"
  shows "\<exists>s'. erase_cases_right p x s = Inl s' \<and> rb_at s' (plug fs (Node (Node sl x Red sr) p Black t))"
proof -
  let ?s = "set_pc p (pack (ctx_parent fs) Black) (set_pc x (pack p Red) s)"
  have *: "get_pc s p = pack (ctx_parent fs) Red" "aligned (ctx_parent fs)" "x \<noteq> p" "aligned p" "aligned x"
      "get_right s x = root_ptr sr" "get_left s x = root_ptr sl" "tree_at s x sl" "tree_at s x sr"
    using z by (auto simp: zip_at_def)
  have g: "root_ptr sr = NULL \<or> hev_rbtree_node_is_black s (root_ptr sr)"
    "root_ptr sl = NULL \<or> hev_rbtree_node_is_black s (root_ptr sl)"
    using black_guard [OF *(8,5)] black_guard [OF *(9,5)] c by auto
  have "erase_cases_right p x s = Inl ?s"
    using * by (simp add: erase_cases_right_def g) (simp add: rb_access)
  moreover have "zip_at ?s fs (Node (Node sl x Red sr) p Black t)"
    using z by (auto simp: zip_at_def distinct_dj simp del: distinct_append)
  ultimately show ?thesis by (auto simp: rb_at_plug)
qed

lemma right_case2_black:
  assumes z: "zip_at s (RF (Node sl x d sr) p Black # fs) t" and c: "color sl = Black" "color sr = Black"
  shows "\<exists>s'. erase_cases_right p x s = (if fs = [] then Inl s' else Inr (p, ctx_parent fs, s')) \<and>
    zip_at s' fs (Node (Node sl x Red sr) p Black t)"
proof -
  let ?s = "set_pc x (pack p Red) s"
  have *: "get_pc s p = pack (ctx_parent fs) Black" "aligned (ctx_parent fs)" "x \<noteq> p" "aligned p" "aligned x"
      "get_right s x = root_ptr sr" "get_left s x = root_ptr sl" "tree_at s x sl" "tree_at s x sr"
      "ctx_at s p fs"
    using z by (auto simp: zip_at_def)
  have g: "root_ptr sr = NULL \<or> hev_rbtree_node_is_black s (root_ptr sr)"
    "root_ptr sl = NULL \<or> hev_rbtree_node_is_black s (root_ptr sl)"
    using black_guard [OF *(8,5)] black_guard [OF *(9,5)] c by auto
  have "erase_cases_right p x s = (if fs = [] then Inl ?s else Inr (p, ctx_parent fs, ?s))"
    using * ctx_nonnull [OF *(10)] by (simp add: erase_cases_right_def g) (simp add: rb_access)
  moreover have "zip_at ?s fs (Node (Node sl x Red sr) p Black t)"
    using z by (auto simp: zip_at_def distinct_dj simp del: distinct_append)
  ultimately show ?thesis by blast
qed

lemma right_case4:
  assumes z: "zip_at s (RF (Node (Node l2 y Red r2) x d sr) p c # fs) t"
  shows "\<exists>s'. erase_cases_right p x s = Inl s' \<and>
    rb_at s' (plug fs (Node (Node l2 y Black r2) x c (Node sr p Black t)))"
proof -
  let ?u = "set_pc y (pack x Black) (set_right x p (set_left p (root_ptr sr) s))"
  let ?v = "set_pc0 (root_ptr sr) (pack p (color sr)) ?u"
  let ?w = "hev_rbtree_change_child p x (ctx_parent fs)
     (set_pc p (pack x Black) (set_pc x (pack (ctx_parent fs) c) ?v))"
  have *: "get_pc s p = pack (ctx_parent fs) c" "aligned (ctx_parent fs)" "x \<noteq> p" "aligned p" "aligned x"
      "get_left s x = y" "get_right s x = root_ptr sr" "tree_at s x sr" "p \<noteq> NULL" "x \<noteq> NULL"
      "y \<noteq> NULL" "y \<noteq> p" "y \<noteq> x" "y \<notin> set (inorder sr)" "p \<notin> set (inorder sr)" "get_pc s y = pack x Red"
    using z by (auto simp: zip_at_def)
  have g: "\<not> hev_rbtree_node_is_black s y"
    using * by (simp add: rb_access)
  have gs: "(if root_ptr sr \<noteq> NULL then hev_rbtree_node_set_parent (root_ptr sr) p ?u else ?u) = ?v"
    using * by (intro guarded_set_parent [of _ _ x]) (auto dest: root_color)
  have "get_pc ?v p = pack (ctx_parent fs) c"
    using * by auto
  note r = rotate_set_parents_eq [OF this *(2)]
  have "erase_cases_right p x s = Inl ?w"
    using * by (simp add: erase_cases_right_def Let_def g set_parent_color_eq gs r
        cong: if_branches_cong split del: if_split)
  moreover have "zip_at ?w fs (Node (Node l2 y Black r2) x c (Node sr p Black t))"
    using z by (auto simp: zip_at_def distinct_dj simp del: distinct_append)
  ultimately show ?thesis by (auto simp: rb_at_plug)
qed

lemma right_case3:
  assumes z: "zip_at s (RF (Node sl x d (Node b y Red a)) p c # fs) t" and c: "color sl = Black"
  shows "\<exists>s'. erase_cases_right p x s = Inl s' \<and>
    rb_at s' (plug fs (Node (Node sl x Black (paint Black b)) y c (Node a p Black t)))"
proof -
  let ?q = "set_pc0 (root_ptr b) (pack x Black)
     (set_left p y (set_left y x (set_right x (root_ptr b) s)))"
  let ?u = "set_pc x (pack y Black) (set_right y p (set_left p (root_ptr a) ?q))"
  let ?v = "set_pc0 (root_ptr a) (pack p (color a)) ?u"
  let ?w = "hev_rbtree_change_child p y (ctx_parent fs)
     (set_pc p (pack y Black) (set_pc y (pack (ctx_parent fs) c) ?v))"
  have *: "get_pc s p = pack (ctx_parent fs) c" "aligned (ctx_parent fs)" "x \<noteq> p" "aligned p" "aligned x"
      "tree_at s x sl" "get_left s x = root_ptr sl" "get_right s x = y" "get_right s y = root_ptr a"
      "get_left s y = root_ptr b" "tree_at s y a" "p \<noteq> NULL" "x \<noteq> NULL"
      "y \<noteq> NULL" "y \<noteq> p" "y \<noteq> x" "x \<noteq> y" "p \<notin> set (inorder a)" "x \<notin> set (inorder a)" "get_pc s y = pack x Red"
      "p \<notin> set (inorder b)" "dj (inorder a) (inorder b)" "aligned y"
    using z by (auto simp: zip_at_def dj_def)
  have g: "root_ptr sl = NULL \<or> hev_rbtree_node_is_black s (root_ptr sl)"
    using black_guard [OF *(6,5)] c by simp
  have gy: "\<not> hev_rbtree_node_is_black s y"
    using * by (simp add: rb_access)
  have "root_ptr a \<noteq> NULL \<longrightarrow> root_ptr b \<noteq> root_ptr a"
    using * by (cases a; cases b) auto
  then have gs: "(if root_ptr a \<noteq> NULL then hev_rbtree_node_set_parent (root_ptr a) p ?u else ?u) = ?v"
    using * by (intro guarded_set_parent [of _ _ y]) (auto dest: root_color)
  have "get_pc ?v p = pack (ctx_parent fs) c"
    using * by auto
  note r = rotate_set_parents_eq [OF this *(2)]
  have "erase_cases_right p x s = Inl ?w"
    using * by (simp add: erase_cases_right_def Let_def g gy set_parent_color_eq fold_set_pc0 gs r
        cong: if_branches_cong split del: if_split)
  moreover have "zip_at ?w fs (Node (Node sl x Black (paint Black b)) y c (Node a p Black t))"
    using z by (auto simp: zip_at_def distinct_dj simp del: distinct_append)
  ultimately show ?thesis by (auto simp: rb_at_plug)
qed

text \<open>Cases 2 to 4 together.\<close>

definition pass_refines ::
    "HevRBTree + (ptr \<times> ptr \<times> HevRBTree) \<Rightarrow> ptr \<Rightarrow> frame list \<Rightarrow> rbt + rbt \<Rightarrow> bool" where
  "pass_refines out p fs res \<longleftrightarrow>
     (case res of
        Inl u \<Rightarrow> \<exists>s'. out = Inl s' \<and> rb_at s' (plug fs u)
      | Inr u \<Rightarrow> root_ptr u = p \<and>
          (\<exists>s'. out = (if fs = [] then Inl s' else Inr (p, ctx_parent fs, s')) \<and> zip_at s' fs u))"

lemma erase_cases_left_refines:
  assumes "zip_at s (LF p c (Node sl x d sr) # fs) t"
  shows "pass_refines (erase_cases_left p x s) p fs (fix_left p c (Node sl x d sr) t)"
proof -
  consider "color sl = Black" "color sr = Black" "c = Red" | "color sl = Black" "color sr = Black" "c = Black"
    | l2 y r2 where "sr = Node l2 y Red r2" | a y b where "sl = Node a y Red b" "color sr = Black"
    by (cases sl; cases sr; cases c) (auto, (metis rbcolor.exhaust)+)
  then show ?thesis
    using assms
    by cases (auto simp: pass_refines_def split del: if_split
        dest: left_case2_red left_case2_black left_case3 left_case4)
qed

lemma erase_cases_right_refines:
  assumes "zip_at s (RF (Node sl x d sr) p c # fs) t"
  shows "pass_refines (erase_cases_right p x s) p fs (fix_right p c (Node sl x d sr) t)"
proof -
  consider "color sl = Black" "color sr = Black" "c = Red" | "color sl = Black" "color sr = Black" "c = Black"
    | l2 y r2 where "sl = Node l2 y Red r2" | a y b where "sr = Node b y Red a" "color sl = Black"
    by (cases sl; cases sr; cases c) (auto, (metis rbcolor.exhaust)+)
  then show ?thesis
    using assms
    by cases (auto simp: pass_refines_def split del: if_split
        dest: right_case2_red right_case2_black right_case3 right_case4)
qed

text \<open>Case 1: the red sibling is rotated above the parent.\<close>

lemma body_erase_left_red:
  assumes z: "zip_at s (LF p c (Node sl x Red sr) # fs) t" and sl: "sl \<noteq> Leaf"
  shows "\<exists>s'. erase_color_body (root_ptr t) p s = erase_cases_left p (root_ptr sl) s' \<and>
    zip_at s' (LF p Red (paint Black sl) # LF x c sr # fs) t"
proof -
  let ?u = "set_pc (root_ptr sl) (pack p Black) (set_left x p (set_right p (root_ptr sl) s))"
  let ?w = "hev_rbtree_change_child p x (ctx_parent fs)
     (set_pc p (pack x Red) (set_pc x (pack (ctx_parent fs) c) ?u))"
  have *: "get_pc s p = pack (ctx_parent fs) c" "aligned (ctx_parent fs)" "p \<notin> set (inorder sl)"
      "get_right s p = x" "get_pc s x = pack p Red" "aligned p" "x \<noteq> NULL" "p \<noteq> NULL" "x \<notin> set (inorder t)"
      "get_left s x = root_ptr sl" "root_ptr sl \<noteq> NULL"
    using z sl by (auto simp: zip_at_def root_null)
  have "get_pc ?u p = pack (ctx_parent fs) c"
    using * by auto
  note r = rotate_set_parents_eq [OF this *(2)]
  have "hev_rbtree_node_is_red s x" "root_ptr t \<noteq> x"
    using * by (simp_all add: rb_access)
  then have "erase_color_body (root_ptr t) p s = erase_cases_left p (root_ptr sl) ?w"
    using * by (simp add: erase_color_body_def Let_def set_parent_color_eq r)
  moreover have "?u = set_pc0 (root_ptr sl) (pack p Black) (set_left x p (set_right p (root_ptr sl) s))"
    using * by (simp add: set_pc0_def)
  then have "zip_at ?w (LF p Red (paint Black sl) # LF x c sr # fs) t"
    using z by (auto simp: zip_at_def distinct_dj simp del: distinct_append)
  ultimately show ?thesis by blast
qed

lemma body_erase_right_red:
  assumes z: "zip_at s (RF (Node sl x Red sr) p c # fs) t" and sr: "sr \<noteq> Leaf"
  shows "\<exists>s'. erase_color_body (root_ptr t) p s = erase_cases_right p (root_ptr sr) s' \<and>
    zip_at s' (RF (paint Black sr) p Red # RF sl x c # fs) t"
proof -
  let ?u = "set_pc (root_ptr sr) (pack p Black) (set_right x p (set_left p (root_ptr sr) s))"
  let ?w = "hev_rbtree_change_child p x (ctx_parent fs)
     (set_pc p (pack x Red) (set_pc x (pack (ctx_parent fs) c) ?u))"
  have *: "get_pc s p = pack (ctx_parent fs) c" "aligned (ctx_parent fs)" "p \<notin> set (inorder sr)"
      "get_left s p = x" "get_right s p = root_ptr t" "get_pc s x = pack p Red" "aligned p" "x \<noteq> NULL" "p \<noteq> NULL"
      "get_right s x = root_ptr sr" "root_ptr sr \<noteq> NULL"
    using z sr by (auto simp: zip_at_def root_null)
  have "get_pc ?u p = pack (ctx_parent fs) c"
    using * by auto
  note r = rotate_set_parents_eq [OF this *(2)]
  have "hev_rbtree_node_is_red s x"
    using * by (simp add: rb_access)
  then have "erase_color_body (root_ptr t) p s = erase_cases_right p (root_ptr sr) ?w"
    using * by (simp add: erase_color_body_def Let_def set_parent_color_eq r)
  moreover have "?u = set_pc0 (root_ptr sr) (pack p Black) (set_right x p (set_left p (root_ptr sr) s))"
    using * by (simp add: set_pc0_def)
  then have "zip_at ?w (RF (paint Black sr) p Red # RF sl x c # fs) t"
    using z by (auto simp: zip_at_def distinct_dj simp del: distinct_append)
  ultimately show ?thesis by blast
qed

lemma body_erase_left_black:
  assumes "zip_at s (LF p c (Node sl x Black sr) # fs) t"
  shows "erase_color_body (root_ptr t) p s = erase_cases_left p x s"
proof -
  have *: "get_right s p = x" "get_pc s x = pack p Black" "aligned p" "x \<noteq> NULL" "x \<notin> set (inorder t)"
    using assms by (auto simp: zip_at_def)
  then have "hev_rbtree_node_is_red s x = False" "root_ptr t \<noteq> x" by (simp_all add: rb_access)
  with * show ?thesis by (simp add: erase_color_body_def)
qed

lemma body_erase_right_black:
  assumes "zip_at s (RF (Node sl x Black sr) p c # fs) t"
  shows "erase_color_body (root_ptr t) p s = erase_cases_right p x s"
proof -
  have *: "get_right s p = root_ptr t" "get_left s p = x" "get_pc s x = pack p Black" "aligned p"
    using assms by (auto simp: zip_at_def)
  then have "hev_rbtree_node_is_red s x = False" by (simp add: rb_access)
  with * show ?thesis by (simp add: erase_color_body_def)
qed

lemma erase_color_loop_Inl:
  "erase_color_body n p s = Inl s' \<Longrightarrow> erase_color_loop n p s = Some s'"
  by (subst erase_color_loop.simps) simp

lemma erase_color_loop_Inr:
  "erase_color_body n p s = Inr (n', p', s') \<Longrightarrow> erase_color_loop n p s = erase_color_loop n' p' s'"
  by (subst erase_color_loop.simps) simp

lemma fix_Red_Inl:
  "\<exists>u. fix_left p Red s t = Inl u" "\<exists>u. fix_right p Red s t = Inl u"
  by (cases s; auto split: rbt.splits)+

text \<open>What is left of the loop after a pass with result \<open>res\<close>.\<close>

lemma loop_after_pass:
  assumes b: "erase_color_body n p s = out" and r: "pass_refines out p fs res"
    and IH: "\<And>u s'. res = Inr u \<Longrightarrow> fs \<noteq> [] \<Longrightarrow> zip_at s' fs u \<Longrightarrow>
      \<exists>s''. erase_color_loop (root_ptr u) (ctx_parent fs) s' = Some s'' \<and> rb_at s'' (del_fix fs u)"
  shows "\<exists>s'. erase_color_loop n p s = Some s' \<and>
    rb_at s' (case res of Inl u \<Rightarrow> plug fs u | Inr u \<Rightarrow> del_fix fs u)"
proof (cases res)
  case (Inl u)
  with r b show ?thesis by (auto simp: pass_refines_def dest: erase_color_loop_Inl)
next
  case (Inr u)
  with r obtain s' where u: "root_ptr u = p" "out = (if fs = [] then Inl s' else Inr (p, ctx_parent fs, s'))"
      "zip_at s' fs u" by (auto simp: pass_refines_def split del: if_split)
  show ?thesis
  proof (cases "fs = []")
    case True
    with u b Inr rb_at_plug [of s' "[]" u] show ?thesis by (auto dest: erase_color_loop_Inl)
  next
    case False
    with u b Inr IH [OF Inr False u(3)] show ?thesis by (auto simp: erase_color_loop_Inr)
  qed
qed

lemma erase_color_loop_refines:
  assumes "zip_at s fs t" "fs \<noteq> []" "rb_ok t" "color t = Black" "ctx_ok fs (Suc (bheight t)) Black"
  shows "\<exists>s'. erase_color_loop (root_ptr t) (ctx_parent fs) s = Some s' \<and> rb_at s' (del_fix fs t)"
  using assms
proof (induction fs t arbitrary: s rule: del_fix.induct)
  case (2 p c sl x sr fs t)
  then obtain l2 y r2 where sl: "sl = Node l2 y Black r2" by (cases sl) auto
  from 2 body_erase_left_red [of s p c sl x sr fs t] obtain s1 where
    b: "erase_color_body (root_ptr t) p s = erase_cases_left p y s1"
    and z: "zip_at s1 (LF p Red (Node l2 y Black r2) # LF x c sr # fs) t" by (auto simp: sl)
  obtain u where u: "fix_left p Red (Node l2 y Black r2) t = Inl u" using fix_Red_Inl by blast
  show ?case
    using loop_after_pass [OF b erase_cases_left_refines [OF z]] by (simp add: u sl del: fix_left.simps)
next
  case (3 sl x sr p c fs t)
  then obtain l2 y r2 where sr: "sr = Node l2 y Black r2" by (cases sr) auto
  from 3 body_erase_right_red [of s sl x sr p c fs t] obtain s1 where
    b: "erase_color_body (root_ptr t) p s = erase_cases_right p y s1"
    and z: "zip_at s1 (RF (Node l2 y Black r2) p Red # RF sl x c # fs) t" by (auto simp: sr)
  obtain u where u: "fix_right p Red (Node l2 y Black r2) t = Inl u" using fix_Red_Inl by blast
  show ?case
    using loop_after_pass [OF b erase_cases_right_refines [OF z]] by (simp add: u sr del: fix_right.simps)
next
  case (4 p c sl x sr fs t)
  note z = "4.prems"(1)
  from "4.prems" have k: "case fix_left p c (Node sl x Black sr) t of Inl u \<Rightarrow> True
      | Inr u \<Rightarrow> rb_ok u \<and> color u = Black \<and> ctx_ok fs (Suc (bheight u)) Black"
    using fix_left_ok [of t "Node sl x Black sr" c p] by (auto simp del: fix_left.simps split: sum.splits)
  have "\<exists>s'. erase_color_loop (root_ptr t) p s = Some s' \<and>
      rb_at s' (case fix_left p c (Node sl x Black sr) t of Inl u \<Rightarrow> plug fs u | Inr u \<Rightarrow> del_fix fs u)"
    by (rule loop_after_pass [OF body_erase_left_black [OF z] erase_cases_left_refines [OF z]])
       (use "4.IH" k in \<open>auto simp del: fix_left.simps\<close>)
  then show ?case by (simp del: fix_left.simps)
next
  case (5 sl x sr p c fs t)
  note z = "5.prems"(1)
  from "5.prems" have k: "case fix_right p c (Node sl x Black sr) t of Inl u \<Rightarrow> True
      | Inr u \<Rightarrow> rb_ok u \<and> color u = Black \<and> ctx_ok fs (Suc (bheight u)) Black"
    using fix_right_ok [of t "Node sl x Black sr" c p] by (auto simp del: fix_right.simps split: sum.splits)
  have "\<exists>s'. erase_color_loop (root_ptr t) p s = Some s' \<and>
      rb_at s' (case fix_right p c (Node sl x Black sr) t of Inl u \<Rightarrow> plug fs u | Inr u \<Rightarrow> del_fix fs u)"
    by (rule loop_after_pass [OF body_erase_right_black [OF z] erase_cases_right_refines [OF z]])
       (use "5.IH" k in \<open>auto simp del: fix_right.simps\<close>)
  then show ?case by (simp del: fix_right.simps)
qed auto

section \<open>Unlinking a node\<close>

text \<open>The part of a path below the node that is erased, which moves to a new parent.\<close>

fun seg_at :: "HevRBTree \<Rightarrow> ptr \<Rightarrow> frame list \<Rightarrow> ptr \<Rightarrow> bool" where
  "seg_at s x [] p \<longleftrightarrow> True"
| "seg_at s x (LF a c r # gs) p \<longleftrightarrow>
     a \<noteq> NULL \<and> aligned a \<and> get_pc s a = pack (if gs = [] then p else ctx_parent gs) c \<and>
     get_left s a = x \<and> get_right s a = root_ptr r \<and> tree_at s a r \<and> seg_at s a gs p"
| "seg_at s x (RF l a c # gs) p \<longleftrightarrow>
     a \<noteq> NULL \<and> aligned a \<and> get_pc s a = pack (if gs = [] then p else ctx_parent gs) c \<and>
     get_left s a = root_ptr l \<and> get_right s a = x \<and> tree_at s a l \<and> seg_at s a gs p"

fun seg_top :: "ptr \<Rightarrow> frame list \<Rightarrow> ptr" where
  "seg_top x [] = x"
| "seg_top x (f # gs) = seg_top (ctx_parent [f]) gs"

lemma ctx_parent_append: "ctx_parent (gs @ hs) = (if gs = [] then ctx_parent hs else ctx_parent gs)"
  by (cases gs rule: ctx_parent.cases) auto

lemma ctx_at_append:
  "ctx_at s x (gs @ hs) \<longleftrightarrow> seg_at s x gs (ctx_parent hs) \<and> ctx_at s (seg_top x gs) hs"
  by (induction s x gs "ctx_parent hs" rule: seg_at.induct) (auto simp: ctx_parent_append)

lemma seg_frame [simp]:
  "a \<notin> set (before gs) \<Longrightarrow> a \<notin> set (after gs) \<Longrightarrow> seg_at (set_pc a v s) x gs p = seg_at s x gs p"
  "a \<notin> set (before gs) \<Longrightarrow> a \<notin> set (after gs) \<Longrightarrow> seg_at (set_left a v s) x gs p = seg_at s x gs p"
  "a \<notin> set (before gs) \<Longrightarrow> a \<notin> set (after gs) \<Longrightarrow> seg_at (set_right a v s) x gs p = seg_at s x gs p"
  "seg_at (set_root v s) x gs p = seg_at s x gs p"
  by (induction s x gs p rule: seg_at.induct) auto

lemma seg_frame0 [simp]:
  "dj (before gs) (inorder u) \<Longrightarrow> dj (inorder u) (after gs) \<Longrightarrow>
     seg_at (set_pc0 (root_ptr u) v s) x gs p = seg_at s x gs p"
  using root_notin [where u = u and xs = "before gs"] root_notin [where u = u and xs = "after gs"]
  by (auto simp: set_pc0_def)

lemma ctx_parent_in:
  "fs \<noteq> [] \<Longrightarrow> ctx_parent fs \<in> set (before fs) \<or> ctx_parent fs \<in> set (after fs)"
  by (cases fs rule: ctx_parent.cases) auto

lemma change_child_seg [simp]:
  assumes "dj (before fs) (before gs)" "dj (before fs) (after gs)"
    "dj (before gs) (after fs)" "dj (after gs) (after fs)"
  shows "seg_at (hev_rbtree_change_child old new (ctx_parent fs) s) x gs p = seg_at s x gs p"
proof (cases "fs = []")
  case False
  then have "ctx_parent fs \<notin> set (before gs)" "ctx_parent fs \<notin> set (after gs)"
    using ctx_parent_in [OF False] assms by (auto simp: dj_def)
  then show ?thesis by (simp add: hev_rbtree_change_child_def)
qed (simp add: hev_rbtree_change_child_def)

lemma seg_top_in: "gs \<noteq> [] \<Longrightarrow> seg_top x gs \<in> set (before gs) \<or> seg_top x gs \<in> set (after gs)"
proof (induction gs arbitrary: x)
  case (Cons f gs)
  then show ?case by (cases f; cases "gs = []") auto
qed simp

lemma seg_retop:
  assumes "seg_at s x gs p" "gs \<noteq> []" "aligned p" "distinct (before gs @ after gs)"
  shows "seg_at (hev_rbtree_node_set_parent (seg_top x gs) q s) x gs q"
  using assms
proof (induction s x gs p rule: seg_at.induct)
  case (2 s x a c r gs p)
  show ?case
  proof (cases "gs = []")
    case False
    with 2 seg_top_in [of gs a] have "seg_top a gs \<noteq> a" "seg_top a gs \<notin> set (inorder r)" by auto
    with 2 False show ?thesis by (auto simp: hev_rbtree_node_set_parent_def)
  qed (use 2 in \<open>auto simp: rb_access\<close>)
next
  case (3 s x l a c gs p)
  show ?case
  proof (cases "gs = []")
    case False
    with 3 seg_top_in [of gs a] have "seg_top a gs \<noteq> a" "seg_top a gs \<notin> set (inorder l)" by auto
    with 3 False show ?thesis by (auto simp: hev_rbtree_node_set_parent_def)
  qed (use 3 in \<open>auto simp: rb_access\<close>)
qed simp

lemma erase_successor_refines:
  assumes "tree_at s q l" "l \<noteq> Leaf" "leftmost_path l (LF a c r # hs) = (gs, x, cs, c2)"
  shows "erase_successor s a (root_ptr l) = Some (ctx_parent gs, x)"
  using assms
proof (induction l arbitrary: q a c r hs)
  case (Node l b d r2)
  show ?case
  proof (cases l)
    case Leaf
    with Node show ?thesis by (subst erase_successor.simps) auto
  next
    case (Node l' b' d' r')
    with Node.prems Node.IH(1) [of b b d r2] have
      "erase_successor s b b' = Some (ctx_parent gs, x)" "get_left s b = b'" "b' \<noteq> NULL" by auto
    then show ?thesis by (subst erase_successor.simps) simp
  qed
qed simp

text \<open>
  The outcome of \<^verbatim>\<open>_hev_rbtree_erase\<close>: either nothing is left to repair, or the store holds a path
  with an empty hole that is one black node short.
\<close>

definition unlinked :: "(ptr \<times> HevRBTree) option \<Rightarrow> frame list \<Rightarrow> rbt \<Rightarrow> bool \<Rightarrow> bool" where
  "unlinked out fs t short \<longleftrightarrow>
     (\<exists>s'. out = Some (if short then ctx_parent fs else NULL, s') \<and> zip_at s' fs t)"

lemma unlink_no_left:
  assumes z: "zip_at s fs (Node Leaf n c r)"
  shows "unlinked (erase_unlink n s) fs (paint c r) (r = Leaf \<and> c = Black)"
proof -
  have *: "get_pc s n = pack (ctx_parent fs) c" "aligned (ctx_parent fs)" "n \<noteq> NULL"
      "get_left s n = NULL" "get_right s n = root_ptr r" "root_ptr r = NULL \<longleftrightarrow> r = Leaf"
    using z by (auto simp: zip_at_def root_null)
  let ?s = "set_pc0 (root_ptr r) (pack (ctx_parent fs) c)
     (hev_rbtree_change_child n (root_ptr r) (ctx_parent fs) s)"
  have "erase_unlink n s = Some (if r = Leaf \<and> c = Black then ctx_parent fs else NULL, ?s)"
    using * by (auto simp: erase_unlink_def Let_def pc_parent_def pc_is_black_def set_pc0_def)
  moreover have "zip_at ?s fs (paint c r)"
    using z by (auto simp: zip_at_def distinct_dj simp del: distinct_append)
  ultimately show ?thesis by (auto simp: unlinked_def)
qed

lemma unlink_no_right:
  assumes z: "zip_at s fs (Node l n c Leaf)" and l: "l \<noteq> Leaf"
  shows "unlinked (erase_unlink n s) fs (paint c l) False"
proof -
  have *: "get_pc s n = pack (ctx_parent fs) c" "aligned (ctx_parent fs)" "n \<noteq> NULL"
      "get_left s n = root_ptr l" "get_right s n = NULL" "root_ptr l \<noteq> NULL"
    using z l by (auto simp: zip_at_def root_null)
  let ?s = "hev_rbtree_change_child n (root_ptr l) (ctx_parent fs)
     (set_pc0 (root_ptr l) (pack (ctx_parent fs) c) s)"
  have "erase_unlink n s = Some (NULL, ?s)"
    using * by (simp add: erase_unlink_def Let_def pc_parent_def set_pc0_def)
  moreover have "zip_at ?s fs (paint c l)"
    using z by (auto simp: zip_at_def distinct_dj simp del: distinct_append)
  ultimately show ?thesis by (auto simp: unlinked_def)
qed

lemma set_parent_root:
  "tree_at s q t \<Longrightarrow> t \<noteq> Leaf \<Longrightarrow> aligned q \<Longrightarrow>
     hev_rbtree_node_set_parent (root_ptr t) p s = set_pc0 (root_ptr t) (pack p (color t)) s"
  by (cases t) (auto simp: set_pc0_def rb_access)

text \<open>The common tail: the successor \<open>x\<close> takes over the left subtree and the place of \<open>n\<close>.\<close>

definition unlink_tail :: "ptr \<Rightarrow> ptr \<Rightarrow> ptr \<Rightarrow> ptr \<Rightarrow> HevRBTree \<Rightarrow> (ptr \<times> HevRBTree) option" where
  "unlink_tail node parent successor child2 s =
     (let tmp = get_left s node;
          s = set_left successor tmp s;
          s = hev_rbtree_node_set_parent tmp successor s;
          pc = get_pc s node;
          tmp = pc_parent pc;
          s = hev_rbtree_change_child node successor tmp s;
          (rebalance, s) =
            (if child2 \<noteq> NULL
             then (NULL, hev_rbtree_node_set_parent_color child2 parent HEV_RBTREE_BLACK s)
             else (if hev_rbtree_node_is_black s successor then parent else NULL, s))
      in Some (rebalance, set_pc successor pc s))"

lemma erase_unlink_near:
  "get_left s n \<noteq> NULL \<Longrightarrow> get_right s n = x \<Longrightarrow> x \<noteq> NULL \<Longrightarrow> get_left s x = NULL \<Longrightarrow>
     erase_unlink n s = unlink_tail n x x (get_right s x) s"
  by (simp add: erase_unlink_def unlink_tail_def Let_def)

lemma erase_unlink_far:
  "get_left s n \<noteq> NULL \<Longrightarrow> get_right s n = a \<Longrightarrow> a \<noteq> NULL \<Longrightarrow> get_left s a \<noteq> NULL \<Longrightarrow>
   erase_successor s a (get_left s a) = Some (p, x) \<Longrightarrow>
     erase_unlink n s = unlink_tail n p x (get_right s x)
       (hev_rbtree_node_set_parent a x (set_right x a (set_left p (get_right s x) s)))"
  by (simp add: erase_unlink_def unlink_tail_def Let_def)

text \<open>What the tail leaves, written out.\<close>

definition tail_state :: "ptr \<Rightarrow> rbcolor \<Rightarrow> rbt \<Rightarrow> ptr \<Rightarrow> ptr \<Rightarrow> ptr \<Rightarrow> rbt \<Rightarrow> HevRBTree \<Rightarrow> HevRBTree" where
  "tail_state n c l q p x c2 s =
     set_pc x (pack q c) (set_pc0 (root_ptr c2) (pack p Black)
       (hev_rbtree_change_child n x q
         (set_pc0 (root_ptr l) (pack x (color l)) (set_left x (root_ptr l) s))))"

lemma unlink_tail_eq:
  assumes "get_left s n = root_ptr l" "tree_at s n l" "l \<noteq> Leaf" "aligned n" "n \<notin> set (inorder l)"
    "get_pc s n = pack q c" "aligned q" "n \<noteq> NULL" "x \<noteq> NULL" "x \<notin> set (inorder l)"
    "get_pc s x = pack y cs" "aligned y" "root_ptr c2 = NULL \<longleftrightarrow> c2 = Leaf"
  shows "unlink_tail n p x (root_ptr c2) s =
     Some (if c2 = Leaf \<and> cs = Black then p else NULL, tail_state n c l q p x c2 s)"
proof -
  have l: "hev_rbtree_node_set_parent (root_ptr l) x (set_left x (root_ptr l) s) =
      set_pc0 (root_ptr l) (pack x (color l)) (set_left x (root_ptr l) s)"
    using assms by (intro set_parent_root) auto
  show ?thesis
    using assms by (auto simp: unlink_tail_def Let_def l tail_state_def set_parent_color_eq pc_parent_def
        hev_rbtree_node_is_black_def hev_rbtree_node_color_def fold_set_pc0 [symmetric])
qed

lemma unlink_near:
  assumes z: "zip_at s fs (Node l n c (Node Leaf x cs c2))" and l: "l \<noteq> Leaf"
  shows "unlinked (erase_unlink n s) (RF l x c # fs) (paint Black c2) (c2 = Leaf \<and> cs = Black)"
proof -
  let ?s = "tail_state n c l (ctx_parent fs) x x c2 s"
  have *: "get_left s n = root_ptr l" "tree_at s n l" "aligned n" "n \<notin> set (inorder l)"
      "get_pc s n = pack (ctx_parent fs) c" "aligned (ctx_parent fs)" "n \<noteq> NULL" "x \<noteq> NULL"
      "x \<notin> set (inorder l)" "get_pc s x = pack n cs" "root_ptr c2 = NULL \<longleftrightarrow> c2 = Leaf"
      "get_right s n = x" "get_left s x = NULL" "get_right s x = root_ptr c2" "root_ptr l \<noteq> NULL"
    using z l by (auto simp: zip_at_def root_null)
  have "erase_unlink n s = Some (if c2 = Leaf \<and> cs = Black then x else NULL, ?s)"
    using * l unlink_tail_eq [OF *(1,2) l *(3-10,3,11)] erase_unlink_near [of s n x] by simp
  moreover have "zip_at ?s (RF l x c # fs) (paint Black c2)"
    using z by (auto simp: tail_state_def zip_at_def distinct_dj simp del: distinct_append)
  ultimately show ?thesis by (auto simp: unlinked_def)
qed

lemma seg_top_snoc [simp]: "seg_top z (gs @ [f]) = ctx_parent [f]"
  by (induction gs arbitrary: z) auto

lemma leftmost_path_chain:
  "leftmost_path t hs = (gs, y) \<Longrightarrow> t \<noteq> Leaf \<Longrightarrow>
     \<exists>gs0. gs = gs0 @ hs \<and> (gs0 \<noteq> [] \<longrightarrow> (\<exists>a c r. hd gs0 = LF a c r) \<and> (\<forall>z. seg_top z gs0 = root_ptr t))"
proof (induction t arbitrary: hs)
  case (Node l a c r)
  show ?case
  proof (cases l)
    case Leaf
    with Node.prems show ?thesis by auto
  next
    case (Node l' b d r')
    with Node.prems Node.IH(1) [of "LF a c r # hs"] obtain gs0 where
      "gs = gs0 @ LF a c r # hs" "gs0 \<noteq> [] \<longrightarrow> (\<exists>a c r. hd gs0 = LF a c r)" by auto
    then have "gs = (gs0 @ [LF a c r]) @ hs" "\<exists>a' c' r'. hd (gs0 @ [LF a c r]) = LF a' c' r'"
      "\<forall>z. seg_top z (gs0 @ [LF a c r]) = a"
      by (auto simp: hd_append)
    then show ?thesis by (metis root_ptr_simps(2))
  qed
qed simp

lemma seg_hole:
  "seg_at s x (LF p c r # gs) q \<Longrightarrow> p \<notin> set (inorder r) \<Longrightarrow> p \<notin> set (before gs) \<Longrightarrow> p \<notin> set (after gs) \<Longrightarrow>
     seg_at (set_left p y s) y (LF p c r # gs) q"
  by simp

lemma seg_top_nonnull: "seg_at s x gs p \<Longrightarrow> gs \<noteq> [] \<Longrightarrow> seg_top x gs \<noteq> NULL"
proof (induction s x gs p rule: seg_at.induct)
  case (2 s x a c r gs p)
  then show ?case by (cases "gs = []") auto
next
  case (3 s x l a c gs p)
  then show ?case by (cases "gs = []") auto
qed simp

lemma unlink_far:
  assumes z: "zip_at s (LF p pc pr # gs @ RF l n c # fs) (Node Leaf x cs c2)" and l: "l \<noteq> Leaf"
    and a: "a = seg_top p gs" and sc: "erase_successor s a (get_left s a) = Some (p, x)"
    and la: "get_left s a \<noteq> NULL"
  shows "unlinked (erase_unlink n s) (LF p pc pr # gs @ RF l x c # fs) (paint Black c2) (c2 = Leaf \<and> cs = Black)"
proof -
  let ?u = "set_right x a (set_left p (root_ptr c2) s)"
  let ?v = "hev_rbtree_node_set_parent a x ?u"
  let ?s = "tail_state n c l (ctx_parent fs) p x c2 ?v"
  let ?g = "LF p pc pr # gs"
  have ctx: "seg_at s x ?g n" "ctx_at s a (RF l n c # fs)"
    using z ctx_at_append [of s x ?g "RF l n c # fs"] by (auto simp: zip_at_def a)
  have dist: "distinct (before ?g @ after ?g)" "p \<notin> set (inorder pr)" "p \<notin> set (before gs)" "p \<notin> set (after gs)"
     "x \<notin> set (before ?g)" "x \<notin> set (after ?g)" "n \<notin> set (before ?g)" "n \<notin> set (after ?g)"
     "dj (before ?g) (inorder l)" "dj (inorder l) (after ?g)" "dj (before ?g) (inorder c2)" "dj (inorder c2) (after ?g)"
     "dj (before fs) (before ?g)" "dj (before fs) (after ?g)" "dj (before ?g) (after fs)" "dj (after ?g) (after fs)"
    using z by (auto simp: zip_at_def before_append after_append distinct_dj dj_commute simp del: distinct_append)
  have "a \<in> set (before ?g) \<or> a \<in> set (after ?g)"
    using seg_top_in [of ?g x] by (simp add: a)
  then have an: "a \<notin> set (inorder l)" "a \<notin> set (inorder c2)" "a \<notin> set (before fs)" "a \<notin> set (after fs)"
      "a \<noteq> n" "a \<noteq> x"
    using dist by (auto simp: dj_def)
  have a0: "a \<noteq> NULL" using seg_top_nonnull [OF ctx(1)] by (simp add: a)
  have *: "get_left s n = root_ptr l" "tree_at s n l" "aligned n" "n \<notin> set (inorder l)"
      "get_pc s n = pack (ctx_parent fs) c" "aligned (ctx_parent fs)" "n \<noteq> NULL" "x \<noteq> NULL"
      "x \<notin> set (inorder l)" "get_pc s x = pack p cs" "root_ptr c2 = NULL \<longleftrightarrow> c2 = Leaf" "aligned p"
      "get_right s n = a" "get_right s x = root_ptr c2" "root_ptr l \<noteq> NULL" "n \<noteq> x" "n \<noteq> p" "p \<noteq> x"
      "p \<notin> set (inorder l)" "p \<notin> set (inorder c2)" "p \<notin> set (before fs)" "p \<notin> set (after fs)"
      "tree_at s x c2" "x \<notin> set (inorder c2)" "n \<notin> set (inorder c2)" "p \<noteq> NULL"
    using z l ctx a0
    by (auto simp: zip_at_def root_null before_append after_append distinct_dj simp del: distinct_append)
  have vg: "get_left ?v n = root_ptr l" "tree_at ?v n l" "get_pc ?v n = pack (ctx_parent fs) c"
      "get_pc ?v x = pack p cs"
    using * an by (auto simp: hev_rbtree_node_set_parent_def)
  have "erase_unlink n s = Some (if c2 = Leaf \<and> cs = Black then p else NULL, ?s)"
    using * l la a0 sc unlink_tail_eq [OF vg(1,2) l *(3,4) vg(3) *(6-9) vg(4) *(12,11)]
      erase_unlink_far [of s n a p x] by simp
  moreover have seg: "seg_at ?s (root_ptr c2) ?g x"
  proof -
    have "seg_at ?u (root_ptr c2) ?g n"
      using seg_hole [OF ctx(1) dist(2-4)] dist(5,6) seg_frame(3) by blast
    then have "seg_at ?v (root_ptr c2) ?g x"
      using seg_retop [of ?u "root_ptr c2" ?g n x] dist(1) *(3) by (simp add: a)
    then show ?thesis
      unfolding tail_state_def using dist(5-) by (simp del: seg_at.simps before.simps after.simps)
  qed
  moreover have "ctx_at ?s a (RF l x c # fs)" "tree_at ?s p (paint Black c2)"
    using z an * ctx
    by (auto simp: tail_state_def hev_rbtree_node_set_parent_def zip_at_def before_append after_append distinct_dj
         simp del: distinct_append)
  moreover have "distinct (before (?g @ RF l x c # fs) @ inorder (paint Black c2) @ after (?g @ RF l x c # fs))"
    using z by (auto simp: zip_at_def before_append after_append)
  ultimately show ?thesis
    using ctx_at_append [of ?s "root_ptr c2" ?g "RF l x c # fs"]
    by (auto simp: unlinked_def zip_at_def a simp del: ctx_at.simps)
qed

end
