(* ===== verification/HevRBTreeOps.thy ===== *)
theory HevRBTreeOps
  imports HevRBTreeErase
begin

text \<open>
  The operations of \<^verbatim>\<open>hev-rbtree.c\<close> as their callers see them: insertion and deletion keep a
  red-black tree and its in-order sequence up to the node concerned, the four traversals walk that
  sequence, and a replacement swaps one node for another in place.
\<close>

section \<open>Deletion\<close>

lemma unlink_refines:
  assumes z: "zip_at s fs (Node l n c r)" and rb: "rbtree (plug fs (Node l n c r))"
  shows "\<exists>fs' t short. unlinked (erase_unlink n s) fs' t short \<and>
    erase_zip fs l c r = (if short then del_fix fs' Leaf else plug fs' t) \<and>
    (short \<longrightarrow> t = Leaf \<and> ctx_ok fs' (Suc 0) Black)"
proof (cases "l = Leaf \<or> r = Leaf")
  case True
  show ?thesis
  proof (cases "l = Leaf")
    case l: True
    have "r = Leaf \<and> c = Black \<longrightarrow> ctx_ok fs (Suc 0) Black"
      using rb l by (auto simp: rbtree_plug)
    then show ?thesis
      using unlink_no_left [of s fs n c r] z l
      by (intro exI [of _ fs] exI [of _ "paint c r"] exI [of _ "r = Leaf \<and> c = Black"])
         (auto simp: erase_zip_def)
  next
    case False
    with True unlink_no_right [of s fs l n c] z show ?thesis
      by (intro exI [of _ fs] exI [of _ "paint c l"] exI [of _ False]) (auto simp: erase_zip_def)
  qed
next
  case False
  obtain gs x cs c2 where p: "leftmost_path r [] = (gs, x, cs, c2)" by (metis prod_cases4)
  with False have r: "plug gs (Node Leaf x cs c2) = r"
    using leftmost_path_plug [of r "[]"] by simp
  have "rbtree (plug (gs @ RF l n c # fs) (Node Leaf x cs c2))"
    using rb by (simp add: plug_append r)
  then have k: "c2 = Leaf \<and> cs = Black \<longrightarrow> ctx_ok (gs @ RF l x c # fs) (Suc 0) Black"
    by (auto simp: rbtree_plug ctx_ok_swap [of gs l n c fs _ _ x])
  have "unlinked (erase_unlink n s) (gs @ RF l x c # fs) (paint Black c2) (c2 = Leaf \<and> cs = Black)"
  proof (cases gs)
    case Nil
    with r z False unlink_near [of s fs l n c x cs c2] show ?thesis by simp
  next
    case (Cons g gs1)
    have "leftmost_path r [] = (gs, x, cs, c2)" "r \<noteq> Leaf" using p False by auto
    from leftmost_path_chain [OF this] Cons obtain q qc qr where
      g: "g = LF q qc qr" and top: "seg_top q gs1 = root_ptr r" by auto
    have z2: "zip_at s (gs @ RF l n c # fs) (Node Leaf x cs c2)"
      using z rb_at_plug [of s fs "Node l n c r"] rb_at_plug [of s "gs @ RF l n c # fs" "Node Leaf x cs c2"]
      by (simp add: plug_append r)
    obtain rl a ca rr where ra: "r = Node rl a ca rr" using False by (cases r) auto
    have rl: "rl \<noteq> Leaf" using p Cons ra by auto
    then have "leftmost_path rl (LF a ca rr # []) = (gs, x, cs, c2)"
      using p by (cases rl) (auto simp: ra)
    moreover have "tree_at s a rl" "get_left s a = root_ptr rl" using z by (auto simp: zip_at_def ra)
    ultimately show ?thesis
      using unlink_far [OF z2 [unfolded Cons g append_Cons], of a] rl top False
        erase_successor_refines [of s a rl a ca rr "[]" gs x cs c2]
      by (simp add: Cons g ra root_null)
  qed
  with k p False show ?thesis
    by (intro exI [of _ "gs @ RF l x c # fs"] exI [of _ "paint Black c2"] exI [of _ "c2 = Leaf \<and> cs = Black"])
       (auto simp: erase_zip_def Let_def)
qed

lemma erase_refines:
  assumes "rb_at s t" "rbtree t" "n \<in> set (inorder t)"
  shows "\<exists>s' t'. hev_rbtree_erase n s = Some s' \<and> rb_at s' t' \<and> rbtree t' \<and>
    inorder t' = remove1 n (inorder t)"
proof -
  from node_zipper [OF assms(3)] obtain fs l c r where t: "t = plug fs (Node l n c r)" by blast
  then have z: "zip_at s fs (Node l n c r)" and rb: "rbtree (plug fs (Node l n c r))"
    using assms rb_at_plug by auto
  from unlink_refines [OF this] obtain fs' u short where
    u: "unlinked (erase_unlink n s) fs' u short"
    and e: "erase_zip fs l c r = (if short then del_fix fs' Leaf else plug fs' u)"
    and k: "short \<longrightarrow> u = Leaf \<and> ctx_ok fs' (Suc 0) Black" by blast
  from u obtain s1 where
    s1: "erase_unlink n s = Some (if short then ctx_parent fs' else NULL, s1)" "zip_at s1 fs' u"
    by (auto simp: unlinked_def)
  have "\<exists>s'. hev_rbtree_erase n s = Some s' \<and> rb_at s' (erase_zip fs l c r)"
  proof (cases "short \<and> fs' \<noteq> []")
    case True
    have "ctx_parent fs' \<noteq> NULL"
      using True s1(2) ctx_nonnull [of s1 "root_ptr u" fs'] by (simp add: zip_at_def)
    with True s1 k e erase_color_loop_refines [of s1 fs' Leaf] show ?thesis
      by (auto simp: hev_rbtree_erase_def erase_color_def)
  next
    case False
    then show ?thesis
      using s1 k e rb_at_plug [of s1 fs' u] by (auto simp: hev_rbtree_erase_def)
  qed
  moreover have "n \<notin> set (before fs)"
    using z by (auto simp: zip_at_def)
  then have "inorder (erase_zip fs l c r) = remove1 n (inorder t)"
    using z by (auto simp: inorder_erase_zip t inorder_plug remove1_append zip_at_def)
  ultimately show ?thesis
    using rbtree_erase_zip [OF rb] by blast
qed

section \<open>Traversal\<close>

text \<open>The first element of a sequence of nodes, NULL when there is none.\<close>

fun hd_or_null :: "ptr list \<Rightarrow> ptr" where
  "hd_or_null [] = NULL"
| "hd_or_null (x # xs) = x"

lemma hd_or_null_append: "hd_or_null (xs @ ys) = (if xs = [] then hd_or_null ys else hd_or_null xs)"
  by (cases xs) auto

lemma inorder_Nil [simp]: "inorder t = [] \<longleftrightarrow> t = Leaf"
  by (cases t) auto

lemma leftmost_refines:
  "tree_at s p t \<Longrightarrow> t \<noteq> Leaf \<Longrightarrow> rb_leftmost s (root_ptr t) = Some (hd_or_null (inorder t))"
proof (induction t arbitrary: p)
  case (Node l a c r)
  then show ?case
    by (subst rb_leftmost.simps) (cases "l = Leaf"; auto simp: root_null hd_or_null_append)
qed simp

lemma rightmost_refines:
  "tree_at s p t \<Longrightarrow> t \<noteq> Leaf \<Longrightarrow> rb_rightmost s (root_ptr t) = Some (hd_or_null (rev (inorder t)))"
proof (induction t arbitrary: p)
  case (Node l a c r)
  then show ?case
    by (subst rb_rightmost.simps) (cases "r = Leaf"; auto simp: root_null hd_or_null_append)
qed simp

lemma first_refines: "rb_at s t \<Longrightarrow> hev_rbtree_first s = Some (hd_or_null (inorder t))"
  by (cases "t = Leaf") (auto simp: rb_at_def hev_rbtree_first_def leftmost_refines root_null)

lemma last_refines: "rb_at s t \<Longrightarrow> hev_rbtree_last s = Some (hd_or_null (rev (inorder t)))"
  by (cases "t = Leaf") (auto simp: rb_at_def hev_rbtree_last_def rightmost_refines root_null)

lemma up_from_right_refines:
  assumes "ctx_at s x fs" "get_pc s x = pack (ctx_parent fs) c" "x \<noteq> NULL"
    "x \<notin> set (before fs)" "x \<notin> set (after fs)" "distinct (before fs @ after fs)"
  shows "rb_up_from_right s x = Some (hd_or_null (after fs))"
  using assms
proof (induction s x fs arbitrary: c rule: ctx_at.induct)
  case (1 s x)
  then show ?case by (subst rb_up_from_right.simps) (simp add: rb_access)
next
  case (2 s x a d r fs)
  have "x \<noteq> root_ptr r" using 2 by (intro root_ptr_neq) auto
  with 2 show ?case by (subst rb_up_from_right.simps) (simp add: rb_access)
next
  case (3 s x l a d fs)
  then show ?case by (subst rb_up_from_right.simps) (auto simp: rb_access)
qed

lemma up_from_left_refines:
  assumes "ctx_at s x fs" "get_pc s x = pack (ctx_parent fs) c" "x \<noteq> NULL"
    "x \<notin> set (before fs)" "x \<notin> set (after fs)" "distinct (before fs @ after fs)"
  shows "rb_up_from_left s x = Some (hd_or_null (rev (before fs)))"
  using assms
proof (induction s x fs arbitrary: c rule: ctx_at.induct)
  case (1 s x)
  then show ?case by (subst rb_up_from_left.simps) (simp add: rb_access)
next
  case (2 s x a d r fs)
  then show ?case by (subst rb_up_from_left.simps) (auto simp: rb_access)
next
  case (3 s x l a d fs)
  have "x \<noteq> root_ptr l" using 3 by (intro root_ptr_neq) auto
  with 3 show ?case by (subst rb_up_from_left.simps) (simp add: rb_access)
qed

lemma pack_neq: "aligned n \<Longrightarrow> p \<noteq> n \<Longrightarrow> pack p c \<noteq> n"
proof (cases c)
  case Black
  assume "aligned n"
  moreover have "bit (p OR 1) 0" by (simp add: bit_or_iff)
  ultimately show ?thesis using Black aligned_bits [of n] by (auto simp: pack.simps)
qed (simp add: pack.simps)

lemma zipper_split:
  assumes "rb_at s t" "inorder t = xs @ n # ys"
  shows "\<exists>fs l c r. t = plug fs (Node l n c r) \<and> zip_at s fs (Node l n c r) \<and> xs = before fs @ inorder l \<and> ys = inorder r @ after fs"
proof -
  from assms(2) have "n \<in> set (inorder t)" by simp
  then obtain fs l c r where t: "t = plug fs (Node l n c r)" using node_zipper by blast
  have d: "distinct (inorder t)" using assms by (simp add: rb_at_def)
  have "xs @ n # ys = (before fs @ inorder l) @ n # (inorder r @ after fs)"
    using assms(2) by (simp add: t inorder_plug)
  with d have "xs = before fs @ inorder l \<and> ys = inorder r @ after fs"
    unfolding assms(2) by (subst (asm) append_Cons_eq_iff) auto
  then show ?thesis using assms(1) rb_at_plug t by blast
qed

lemma node_not_empty:
  "zip_at s fs (Node l n c r) \<Longrightarrow> \<not> hev_rbtree_node_empty s n"
  using pack_neq [of n "ctx_parent fs" c] by (auto simp: zip_at_def hev_rbtree_node_empty_def)

lemma next_refines:
  assumes "rb_at s t" "inorder t = xs @ n # ys"
  shows "hev_rbtree_node_next s n = Some (hd_or_null ys)"
proof -
  from zipper_split [OF assms] obtain fs l c r where
    z: "zip_at s fs (Node l n c r)" and ys: "ys = inorder r @ after fs" by blast
  then have *: "tree_at s n r" "get_right s n = root_ptr r" "ctx_at s n fs" by (auto simp: zip_at_def)
  show ?thesis
  proof (cases "r = Leaf")
    case True
    with z ys * up_from_right_refines [of s n fs c] node_not_empty [OF z] show ?thesis
      by (auto simp: hev_rbtree_node_next_def zip_at_def)
  next
    case False
    with * ys node_not_empty [OF z] leftmost_refines [OF *(1)] show ?thesis
      by (simp add: hev_rbtree_node_next_def root_null hd_or_null_append)
  qed
qed

lemma prev_refines:
  assumes "rb_at s t" "inorder t = xs @ n # ys"
  shows "hev_rbtree_node_prev s n = Some (hd_or_null (rev xs))"
proof -
  from zipper_split [OF assms] obtain fs l c r where
    z: "zip_at s fs (Node l n c r)" and xs: "xs = before fs @ inorder l" by blast
  then have *: "tree_at s n l" "get_left s n = root_ptr l" "ctx_at s n fs" by (auto simp: zip_at_def)
  show ?thesis
  proof (cases "l = Leaf")
    case True
    with z xs * up_from_left_refines [of s n fs c] node_not_empty [OF z] show ?thesis
      by (auto simp: hev_rbtree_node_prev_def zip_at_def)
  next
    case False
    with * xs node_not_empty [OF z] rightmost_refines [OF *(1)] show ?thesis
      by (simp add: hev_rbtree_node_prev_def root_null hd_or_null_append)
  qed
qed

section \<open>Replacement\<close>

lemma replace_refines:
  assumes z: "zip_at s fs (Node l v c r)" and "new \<noteq> NULL" "aligned new"
    "new \<notin> set (inorder (plug fs (Node l v c r)))"
  shows "zip_at (hev_rbtree_replace v new s) fs (Node l new c r)"
proof -
  let ?s1 = "set_pc new (pack (ctx_parent fs) c) (set_left new (root_ptr l) (set_right new (root_ptr r) s))"
  let ?s = "hev_rbtree_change_child v new (ctx_parent fs)
    (set_pc0 (root_ptr r) (pack new (color r)) (set_pc0 (root_ptr l) (pack new (color l)) ?s1))"
  have *: "get_pc s v = pack (ctx_parent fs) c" "get_left s v = root_ptr l" "get_right s v = root_ptr r"
    "aligned (ctx_parent fs)" "tree_at s v l" "tree_at s v r" "aligned v" "v \<noteq> new"
    "new \<notin> set (inorder l)" "new \<notin> set (inorder r)" "dj (inorder l) (inorder r)" "v \<noteq> NULL"
    using assms by (auto simp: zip_at_def inorder_plug dj_def)
  have c: "s\<lparr>rb_mem := (rb_mem s)(new := rb_mem s v)\<rparr> = ?s1"
    using * by (auto simp: set_pc_def set_left_def set_right_def get_pc_def get_left_def
        get_right_def intro!: HevRBTree.equality ext HevRBTreeNode.equality)
  have gl: "(if root_ptr l \<noteq> NULL then hev_rbtree_node_set_parent (root_ptr l) new ?s1 else ?s1) =
      set_pc0 (root_ptr l) (pack new (color l)) ?s1"
    using * assms by (intro guarded_set_parent [of _ _ v]) (auto dest: root_color)
  have "root_ptr r \<noteq> NULL \<longrightarrow> root_ptr l \<noteq> root_ptr r"
    using * by (cases l; cases r) auto
  then have gr: "(if root_ptr r \<noteq> NULL then hev_rbtree_node_set_parent (root_ptr r) new
        (set_pc0 (root_ptr l) (pack new (color l)) ?s1) else set_pc0 (root_ptr l) (pack new (color l)) ?s1) =
      set_pc0 (root_ptr r) (pack new (color r)) (set_pc0 (root_ptr l) (pack new (color l)) ?s1)"
    using * assms by (intro guarded_set_parent [of _ _ v]) (auto dest: root_color)
  have "hev_rbtree_node_parent s v = ctx_parent fs" using * by (simp add: rb_access)
  then have "hev_rbtree_replace v new s = ?s"
    unfolding hev_rbtree_replace_def Let_def c
    using * by (simp add: gl gr cong: if_branches_cong split del: if_split)
  moreover have "zip_at ?s fs (Node l new c r)"
    using assms by (auto simp: zip_at_def inorder_plug distinct_dj dj_commute simp del: distinct_append)
  ultimately show ?thesis by simp
qed

section \<open>Properties\<close>

text \<open>
  C1. Insertion: after \<^verbatim>\<open>hev_rbtree_node_link\<close> at an empty link of a red-black tree,
  \<^verbatim>\<open>hev_rbtree_insert_color\<close> returns, and the store then holds a red-black tree whose in-order
  sequence is the old one with the node at that place.
\<close>

theorem rbtree_insert_ok:
  assumes "zip_at s fs Leaf" "rbtree (plug fs Leaf)"
    and "node \<noteq> NULL" "aligned node" "node \<notin> set (inorder (plug fs Leaf))"
  shows "\<exists>s' t. hev_rbtree_insert_color node (hev_rbtree_node_link node (ctx_parent fs) (link_of fs) s) = Some s' \<and>
    rb_at s' t \<and> rbtree t \<and> inorder t = before fs @ node # after fs"
proof -
  have n: "node \<notin> set (before fs)" "node \<notin> set (after fs)" using assms(5) by (auto simp: inorder_plug)
  have "rbtree (ins_fix fs (Node Leaf node Red Leaf))"
    using assms(2) by (intro rbtree_ins_fix) (auto simp: rbtree_plug)
  moreover have "inorder (ins_fix fs (Node Leaf node Red Leaf)) = before fs @ node # after fs"
    by (simp add: inorder_ins_fix)
  ultimately show ?thesis using insert_refines [OF assms(1-4) n] by blast
qed

definition demo_store :: HevRBTree where
  "demo_store = \<lparr>rb_root = 8, rb_mem = (\<lambda>a. \<lparr>rb_parent_color = 1, rb_right = NULL, rb_left = NULL\<rparr>)\<rparr>"

lemma demo_store_holds: "rb_at demo_store (Node Leaf 8 Black Leaf)"
  by (simp add: rb_at_def demo_store_def get_pc_def get_left_def get_right_def pack.simps aligned_def)

theorem rbtree_insert_ok_witness:
  "\<exists>s' t. hev_rbtree_insert_color 16 (hev_rbtree_node_link 16 8 (RightOf 8) demo_store) = Some s' \<and>
    rb_at s' t \<and> rbtree t \<and> inorder t = [8, 16]"
proof -
  have "zip_at demo_store [RF Leaf 8 Black] Leaf"
    using demo_store_holds rb_at_plug [of demo_store "[RF Leaf 8 Black]" Leaf] by simp
  then show ?thesis
    using rbtree_insert_ok [of demo_store "[RF Leaf 8 Black]" 16]
    by (simp add: rbtree_def aligned_def)
qed

text \<open>
  C2. Deletion: \<^verbatim>\<open>hev_rbtree_erase\<close> of a node of a red-black tree returns, and the store then holds a
  red-black tree of the remaining nodes in the same order.
\<close>

theorem rbtree_erase_ok:
  assumes "rb_at s t" "rbtree t" "node \<in> set (inorder t)"
  shows "\<exists>s' t'. hev_rbtree_erase node s = Some s' \<and> rb_at s' t' \<and> rbtree t' \<and>
    inorder t' = remove1 node (inorder t)"
  using assms by (rule erase_refines)

theorem rbtree_erase_ok_witness:
  "\<exists>s' t'. hev_rbtree_erase 8 demo_store = Some s' \<and> rb_at s' t' \<and> rbtree t' \<and> inorder t' = []"
  using rbtree_erase_ok [OF demo_store_holds, of 8] by (simp add: rbtree_def)

text \<open>
  C3. Traversal: \<^verbatim>\<open>hev_rbtree_first\<close> and \<^verbatim>\<open>hev_rbtree_last\<close> return the ends of the in-order sequence,
  and \<^verbatim>\<open>hev_rbtree_node_next\<close> and \<^verbatim>\<open>hev_rbtree_node_prev\<close> return the neighbours of a node in it, NULL
  past its ends; none of the four loops runs forever.
\<close>

theorem rbtree_walk_ok:
  assumes "rb_at s t" "inorder t = xs @ node # ys"
  shows "hev_rbtree_first s = Some (hd (xs @ [node])) \<and>
    hev_rbtree_last s = Some (last (node # ys)) \<and>
    hev_rbtree_node_next s node = Some (case ys of [] \<Rightarrow> NULL | y # _ \<Rightarrow> y) \<and>
    hev_rbtree_node_prev s node = Some (if xs = [] then NULL else last xs)"
proof -
  have h: "hd_or_null zs = (case zs of [] \<Rightarrow> NULL | z # _ \<Rightarrow> z)" for zs by (cases zs) auto
  have r: "hd_or_null (rev zs) = (if zs = [] then NULL else last zs)" for zs
    by (cases zs rule: rev_cases) auto
  show ?thesis
    using first_refines [OF assms(1)] last_refines [OF assms(1)] next_refines [OF assms]
      prev_refines [OF assms]
    by (auto simp: assms(2) h [of ys] r hd_or_null_append simp del: rev_append rev.simps)
       (cases xs; simp)
qed

theorem rbtree_walk_ok_witness:
  "hev_rbtree_first demo_store = Some 8 \<and> hev_rbtree_last demo_store = Some 8 \<and>
   hev_rbtree_node_next demo_store 8 = Some NULL \<and> hev_rbtree_node_prev demo_store 8 = Some NULL"
  using rbtree_walk_ok [OF demo_store_holds, of "[]" 8 "[]"] by simp

text \<open>
  Replacement: \<^verbatim>\<open>hev_rbtree_replace\<close> puts a new node at the place of the victim, with the
  victim's colour, so that the tree stays red-black and only that entry of the sequence changes.
\<close>

theorem rbtree_replace_ok:
  assumes "rb_at s t" "rbtree t" "inorder t = xs @ victim # ys"
    and "new \<noteq> NULL" "aligned new" "new \<notin> set (inorder t)"
  shows "\<exists>t'. rb_at (hev_rbtree_replace victim new s) t' \<and> rbtree t' \<and> inorder t' = xs @ new # ys"
proof -
  from zipper_split [OF assms(1,3)] obtain fs l c r where
    z: "zip_at s fs (Node l victim c r)" "xs = before fs @ inorder l" "ys = inorder r @ after fs"
    and t: "t = plug fs (Node l victim c r)" by blast
  have "rbtree (plug fs (Node l new c r))" using assms(2) by (auto simp: t rbtree_plug split: if_splits)
  moreover have "rb_at (hev_rbtree_replace victim new s) (plug fs (Node l new c r))"
    unfolding rb_at_plug using assms z t by (intro replace_refines) auto
  ultimately show ?thesis using z by (auto simp: inorder_plug)
qed

theorem rbtree_replace_ok_witness:
  "\<exists>t'. rb_at (hev_rbtree_replace 8 16 demo_store) t' \<and> rbtree t' \<and> inorder t' = [16]"
  using rbtree_replace_ok [OF demo_store_holds, of "[]" 8 "[]" 16] by (simp add: rbtree_def aligned_def)

end
