(* ===== verification/HevRBTreeIndex.thy ===== *)
theory HevRBTreeIndex
  imports HevRBTreeOps
begin

text \<open>
  The red-black tree as an index: the two search loops its clients write (one that keeps the link
  to fill in, one that keeps the node only), and the contract under which the clients use the
  tree, as a locale over the comparison of keys. The name cache interprets it with \<^verbatim>\<open>strcmp\<close>, the
  authenticator with the order on lengths and bytes of user names.
\<close>

section \<open>Search loops\<close>

text \<open>
  \<^verbatim>\<open>while (*new)\<close> with \<^verbatim>\<open>new = &((*new)->left)\<close> on a negative comparison, \<^verbatim>\<open>->right\<close> on a positive
  one: \<open>Inl\<close> the node that compares equal, or \<open>Inr\<close> the final \<^verbatim>\<open>parent\<close> and \<^verbatim>\<open>new\<close>.
\<close>

partial_function (option) rb_descend ::
    "(ptr \<Rightarrow> int) \<Rightarrow> HevRBTree \<Rightarrow> rb_link \<Rightarrow> ptr \<Rightarrow> (ptr + ptr \<times> rb_link) option" where
  "rb_descend cmp s new parent =
     (let n = read_link new s
      in if n = NULL then Some (Inr (parent, new))
         else if cmp n < 0 then rb_descend cmp s (LeftOf n) n
         else if cmp n > 0 then rb_descend cmp s (RightOf n) n
         else Some (Inl n))"

text \<open>\<^verbatim>\<open>while (node)\<close> with \<^verbatim>\<open>node = node->left\<close> or \<^verbatim>\<open>node->right\<close>: the node that compares equal, or NULL.\<close>

partial_function (option) rb_find :: "(ptr \<Rightarrow> int) \<Rightarrow> HevRBTree \<Rightarrow> ptr \<Rightarrow> ptr option" where
  "rb_find cmp s node =
     (if node = NULL then Some NULL
      else if cmp node < 0 then rb_find cmp s (get_left s node)
      else if cmp node > 0 then rb_find cmp s (get_right s node)
      else Some node)"

text \<open>Along the in-order sequence the comparisons are positive, then at most once zero, then negative.\<close>

definition cmp_sorted :: "(ptr \<Rightarrow> int) \<Rightarrow> ptr list \<Rightarrow> bool" where
  "cmp_sorted cmp xs \<longleftrightarrow> sorted_wrt (\<lambda>a b. (cmp a \<le> 0 \<longrightarrow> cmp b < 0) \<and> (cmp b \<ge> 0 \<longrightarrow> cmp a > 0)) xs"

lemma cmp_sorted_append:
  "cmp_sorted cmp (xs @ ys) \<longleftrightarrow> cmp_sorted cmp xs \<and> cmp_sorted cmp ys \<and>
     (\<forall>a\<in>set xs. \<forall>b\<in>set ys. (cmp a \<le> 0 \<longrightarrow> cmp b < 0) \<and> (cmp b \<ge> 0 \<longrightarrow> cmp a > 0))"
  by (auto simp: cmp_sorted_def sorted_wrt_append)

lemma read_link_of: "ctx_at s x fs \<Longrightarrow> read_link (link_of fs) s = x"
  by (cases fs rule: link_of.cases) auto

text \<open>The state of the search: everything before the hole compares positive, everything after it
  negative.\<close>

definition gap :: "(ptr \<Rightarrow> int) \<Rightarrow> frame list \<Rightarrow> bool" where
  "gap cmp fs \<longleftrightarrow> (\<forall>x\<in>set (before fs). cmp x > 0) \<and> (\<forall>x\<in>set (after fs). cmp x < 0)"

definition search_result ::
    "(ptr \<Rightarrow> int) \<Rightarrow> HevRBTree \<Rightarrow> rbt \<Rightarrow> ptr + ptr \<times> rb_link \<Rightarrow> bool" where
  "search_result cmp s t out \<longleftrightarrow>
     (case out of
        Inl n \<Rightarrow> n \<in> set (inorder t) \<and> cmp n = 0
      | Inr (p, l) \<Rightarrow> \<exists>gs. t = plug gs Leaf \<and> zip_at s gs Leaf \<and> gap cmp gs \<and>
          p = ctx_parent gs \<and> l = link_of gs)"

lemma rb_descend_refines:
  assumes "zip_at s fs t" "cmp_sorted cmp (inorder t)" "gap cmp fs"
  shows "\<exists>out. rb_descend cmp s (link_of fs) (ctx_parent fs) = Some out \<and>
    search_result cmp s (plug fs t) out"
  using assms
proof (induction t arbitrary: fs)
  case Leaf
  then have "read_link (link_of fs) s = NULL" by (auto simp: zip_at_def read_link_of)
  then have "rb_descend cmp s (link_of fs) (ctx_parent fs) = Some (Inr (ctx_parent fs, link_of fs))"
    by (subst rb_descend.simps) simp
  then show ?case using Leaf by (auto simp: search_result_def)
next
  case (Node l n c r)
  then have n: "read_link (link_of fs) s = n" "n \<noteq> NULL"
    by (auto simp: zip_at_def read_link_of)
  have z: "zip_at s (LF n c r # fs) l" "zip_at s (RF l n c # fs) r"
    using Node.prems(1) rb_at_plug [of s fs "Node l n c r"] rb_at_plug [of s "LF n c r # fs" l]
      rb_at_plug [of s "RF l n c # fs" r] by simp_all
  have cs: "cmp_sorted cmp (inorder l)" "cmp_sorted cmp (inorder r)"
    "cmp n \<le> 0 \<longrightarrow> (\<forall>b\<in>set (inorder r). cmp b < 0)" "cmp n \<ge> 0 \<longrightarrow> (\<forall>a\<in>set (inorder l). cmp a > 0)"
    using Node.prems(2) by (auto simp: cmp_sorted_append) (auto simp: cmp_sorted_def)
  consider "cmp n < 0" | "cmp n > 0" | "cmp n = 0" by linarith
  then show ?case
  proof cases
    case 1
    then have "gap cmp (LF n c r # fs)" using cs Node.prems(3) by (auto simp: gap_def)
    from Node.IH(1) [OF z(1) cs(1) this] 1 n show ?thesis
      by (subst rb_descend.simps) simp
  next
    case 2
    then have "gap cmp (RF l n c # fs)" using cs Node.prems(3) by (auto simp: gap_def)
    from Node.IH(2) [OF z(2) cs(2) this] 2 n show ?thesis
      by (subst rb_descend.simps) simp
  next
    case 3
    with n have "rb_descend cmp s (link_of fs) (ctx_parent fs) = Some (Inl n)"
      by (subst rb_descend.simps) simp
    with 3 show ?thesis by (simp add: search_result_def inorder_plug)
  qed
qed

lemma rb_find_refines:
  assumes "tree_at s p t" "cmp_sorted cmp (inorder t)"
  shows "\<exists>n. rb_find cmp s (root_ptr t) = Some n \<and>
    (if n = NULL then \<forall>x\<in>set (inorder t). cmp x \<noteq> 0 else n \<in> set (inorder t) \<and> cmp n = 0)"
  using assms
proof (induction t arbitrary: p)
  case Leaf
  then show ?case by (subst rb_find.simps) simp
next
  case (Node l n c r)
  have cs: "cmp_sorted cmp (inorder l)" "cmp_sorted cmp (inorder r)"
    "cmp n \<le> 0 \<longrightarrow> (\<forall>b\<in>set (inorder r). cmp b < 0)" "cmp n \<ge> 0 \<longrightarrow> (\<forall>a\<in>set (inorder l). cmp a > 0)"
    using Node.prems(2) by (auto simp: cmp_sorted_append) (auto simp: cmp_sorted_def)
  have n: "n \<noteq> NULL" "tree_at s n l" "tree_at s n r" "get_left s n = root_ptr l" "get_right s n = root_ptr r"
    using Node.prems(1) by auto
  consider "cmp n < 0" | "cmp n > 0" | "cmp n = 0" by linarith
  then show ?case
  proof cases
    case 1
    from Node.IH(1) [OF n(2) cs(1)] obtain m where
      m: "rb_find cmp s (root_ptr l) = Some m"
        "if m = NULL then \<forall>x\<in>set (inorder l). cmp x \<noteq> 0 else m \<in> set (inorder l) \<and> cmp m = 0" by blast
    then have "rb_find cmp s (root_ptr (Node l n c r)) = Some m"
      using 1 n by (subst rb_find.simps) simp
    with m 1 cs show ?thesis by (auto split: if_splits)
  next
    case 2
    from Node.IH(2) [OF n(3) cs(2)] obtain m where
      m: "rb_find cmp s (root_ptr r) = Some m"
        "if m = NULL then \<forall>x\<in>set (inorder r). cmp x \<noteq> 0 else m \<in> set (inorder r) \<and> cmp m = 0" by blast
    then have "rb_find cmp s (root_ptr (Node l n c r)) = Some m"
      using 2 n by (subst rb_find.simps) simp
    with m 2 cs show ?thesis by (auto split: if_splits)
  next
    case 3
    with n have "rb_find cmp s (root_ptr (Node l n c r)) = Some n"
      by (subst rb_find.simps) simp
    with 3 n show ?thesis by auto
  qed
qed

section \<open>The index interface\<close>

locale key_index =
  fixes cmp :: "'k \<Rightarrow> 'k \<Rightarrow> int"
    and valid :: "'k \<Rightarrow> bool"
  assumes cmp_eq_0: "valid a \<Longrightarrow> valid b \<Longrightarrow> cmp a b = 0 \<longleftrightarrow> a = b"
    and cmp_antisym: "cmp a b = - cmp b a"
    and cmp_trans: "valid a \<Longrightarrow> valid b \<Longrightarrow> valid c \<Longrightarrow> cmp a b < 0 \<Longrightarrow> cmp b c < 0 \<Longrightarrow> cmp a c < 0"
begin

definition desc :: "(ptr \<Rightarrow> 'k) \<Rightarrow> ptr list \<Rightarrow> bool" where
  "desc key xs \<longleftrightarrow> sorted_wrt (\<lambda>a b. cmp (key b) (key a) < 0) xs \<and> (\<forall>x\<in>set xs. valid (key x))"

text \<open>The store holds a red-black tree of the nodes in \<open>A\<close>, in descending order of their keys.\<close>

definition index :: "HevRBTree \<Rightarrow> (ptr \<Rightarrow> 'k) \<Rightarrow> ptr set \<Rightarrow> bool" where
  "index s key A \<longleftrightarrow>
     (\<exists>t. rb_at s t \<and> rbtree t \<and> set (inorder t) = A \<and> desc key (inorder t))"

lemma desc_Cons:
  "desc key (x # xs) \<longleftrightarrow> valid (key x) \<and> (\<forall>y\<in>set xs. cmp (key y) (key x) < 0) \<and> desc key xs"
  by (auto simp: desc_def)

lemma desc_cong: "\<forall>x\<in>set xs. key' x = key x \<Longrightarrow> desc key' xs = desc key xs"
  by (induction xs) (auto simp: desc_Cons, auto simp: desc_def)

lemma desc_cmp_sorted:
  assumes "desc key xs" "valid q"
  shows "cmp_sorted (\<lambda>n. cmp (key n) q) xs"
proof -
  have tri: "(cmp a q \<le> 0 \<longrightarrow> cmp b q < 0) \<and> (cmp b q \<ge> 0 \<longrightarrow> cmp a q > 0)"
    if "valid a" "valid b" "cmp b a < 0" for a b
  proof -
    have "cmp a q \<le> 0 \<Longrightarrow> cmp b q < 0"
      using that cmp_trans [of b a q] cmp_eq_0 [of a q] assms(2)
      by (cases "cmp a q = 0") auto
    then show ?thesis by linarith
  qed
  show ?thesis
    using assms(1)
  proof (induction xs)
    case (Cons x xs)
    then have "\<forall>y\<in>set xs. valid (key y)" by (simp add: desc_def)
    with Cons tri [of "key x"] show ?case by (auto simp: cmp_sorted_def desc_Cons)
  qed (simp add: cmp_sorted_def)
qed

lemma index_nonnull: "index s key A \<Longrightarrow> x \<in> A \<Longrightarrow> x \<noteq> NULL"
  by (auto simp: index_def rb_at_def dest: tree_nonnull)

lemma index_finite: "index s key A \<Longrightarrow> finite A"
  by (auto simp: index_def)

lemma index_empty: "rb_root s = NULL \<Longrightarrow> index s key {}"
  unfolding index_def by (intro exI [of _ Leaf]) (simp add: rb_at_def rbtree_def desc_def)

lemma index_inj: "index s key A \<Longrightarrow> inj_on key A"
proof -
  assume "index s key A"
  then obtain xs where xs: "A = set xs" "desc key xs" by (auto simp: index_def)
  from xs(2) have "inj_on key (set xs)"
  proof (induction xs)
    case (Cons x xs)
    then have "key x \<notin> key ` set xs"
      using cmp_eq_0 [of "key x" "key x"] by (auto simp: desc_Cons)
    with Cons show ?case by (auto simp: desc_Cons)
  qed simp
  with xs show ?thesis by simp
qed

lemma index_cong: "index s key A \<Longrightarrow> (\<And>x. x \<in> A \<Longrightarrow> key' x = key x) \<Longrightarrow> index s key' A"
proof -
  assume i: "index s key A" and e: "\<And>x. x \<in> A \<Longrightarrow> key' x = key x"
  have "desc key' xs = desc key xs" if "set xs = A" for xs
    using e that by (intro desc_cong) auto
  with i show ?thesis by (auto simp: index_def)
qed

lemma index_first:
  "index s key A \<Longrightarrow> \<exists>p. hev_rbtree_first s = Some p \<and> (if p = NULL then A = {} else p \<in> A)"
proof -
  assume i: "index s key A"
  then obtain t where t: "rb_at s t" "set (inorder t) = A" by (auto simp: index_def)
  from first_refines [OF t(1)] t(2) index_nonnull [OF i] show ?thesis
    by (cases "inorder t") auto
qed

lemma index_erase:
  assumes "index s key A" "n \<in> A"
  shows "\<exists>s'. hev_rbtree_erase n s = Some s' \<and> index s' key (A - {n})"
proof -
  from assms obtain t where t: "rb_at s t" "rbtree t" "set (inorder t) = A" "desc key (inorder t)"
    by (auto simp: index_def)
  with assms erase_refines [OF t(1,2), of n] obtain s' t' where
    s': "hev_rbtree_erase n s = Some s'" "rb_at s' t'" "rbtree t'" "inorder t' = remove1 n (inorder t)"
    by blast
  have "distinct (inorder t)" using t by (simp add: rb_at_def)
  then have "set (inorder t') = A - {n}" using s' t by simp
  moreover have "desc key (inorder t')"
  proof -
    have "n \<in> set (inorder t)" using assms t by simp
    then obtain as bs where "inorder t = as @ n # bs" "n \<notin> set as" by (meson split_list_first)
    then show ?thesis using t(4) s'(4) by (auto simp: desc_def sorted_wrt_append remove1_append)
  qed
  ultimately show ?thesis using s' by (auto simp: index_def)
qed

lemma index_find:
  assumes "index s key A" "valid q"
  shows "\<exists>n. rb_find (\<lambda>n. cmp (key n) q) s (rb_root s) = Some n \<and>
    (if n = NULL then q \<notin> key ` A else n \<in> A \<and> key n = q)"
proof -
  from assms obtain t where t: "rb_at s t" "set (inorder t) = A" "desc key (inorder t)"
    by (auto simp: index_def)
  then have "tree_at s NULL t" "rb_root s = root_ptr t" by (auto simp: rb_at_def)
  with rb_find_refines [OF this(1) desc_cmp_sorted [OF t(3) assms(2)]] show ?thesis
    using t assms(2) by (auto simp: desc_def cmp_eq_0 split: if_splits)
qed

text \<open>A search either finds the key or returns the place where linking a node with that key keeps
  the index.\<close>

lemma index_descend:
  assumes i: "index s key A" and q: "valid q"
  shows "(\<exists>n. rb_descend (\<lambda>n. cmp (key n) q) s Root NULL = Some (Inl n) \<and> n \<in> A \<and> key n = q) \<or>
    (q \<notin> key ` A \<and> (\<exists>p l. rb_descend (\<lambda>n. cmp (key n) q) s Root NULL = Some (Inr (p, l)) \<and>
      (\<forall>node key'. node \<noteq> NULL \<longrightarrow> aligned node \<longrightarrow> node \<notin> A \<longrightarrow> key' node = q \<longrightarrow>
        (\<forall>x\<in>A. key' x = key x) \<longrightarrow>
        (\<exists>s'. hev_rbtree_insert_color node (hev_rbtree_node_link node p l s) = Some s' \<and>
          index s' key' (insert node A)))))"
proof -
  let ?cmp = "\<lambda>n. cmp (key n) q"
  from i obtain t where t: "rb_at s t" "rbtree t" "set (inorder t) = A" "desc key (inorder t)"
    by (auto simp: index_def)
  have "zip_at s [] t" using t(1) rb_at_plug [of s "[]" t] by simp
  from rb_descend_refines [OF this desc_cmp_sorted [OF t(4) q]] obtain out where
    out: "rb_descend ?cmp s Root NULL = Some out" "search_result ?cmp s t out"
    by (auto simp: gap_def)
  show ?thesis
  proof (cases out)
    case (Inl n)
    with out t q show ?thesis by (auto simp: search_result_def desc_def cmp_eq_0)
  next
    case (Inr pl)
    with out obtain fs where fs: "t = plug fs Leaf" "zip_at s fs Leaf" "gap ?cmp fs"
        "pl = (ctx_parent fs, link_of fs)"
      by (auto simp: search_result_def split: prod.splits)
    have io: "inorder t = before fs @ after fs" by (simp add: fs(1) inorder_plug)
    have va: "\<forall>x\<in>A. valid (key x)" using t by (auto simp: desc_def)
    have nq: "q \<notin> key ` A"
    proof
      assume "q \<in> key ` A"
      then obtain x where x: "x \<in> A" "key x = q" by auto
      then have "cmp (key x) q = 0" using cmp_eq_0 [of q q] q by simp
      with x fs(3) io t(3) show False by (fastforce simp: gap_def)
    qed
    have "\<exists>s'. hev_rbtree_insert_color node (hev_rbtree_node_link node (ctx_parent fs) (link_of fs) s) = Some s' \<and>
        index s' key' (insert node A)"
      if n: "node \<noteq> NULL" "aligned node" "node \<notin> A" "key' node = q" "\<forall>x\<in>A. key' x = key x" for node key'
    proof -
      have nn: "node \<notin> set (before fs)" "node \<notin> set (after fs)" using n io t(3) by auto
      have rb: "rbtree (plug fs Leaf)" using t fs by simp
      from insert_refines [OF fs(2) rb n(1,2) nn] obtain s' where
        s': "hev_rbtree_insert_color node (hev_rbtree_node_link node (ctx_parent fs) (link_of fs) s) = Some s'"
          "rb_at s' (ins_fix fs (Node Leaf node Red Leaf))" by blast
      have io': "inorder (ins_fix fs (Node Leaf node Red Leaf)) = before fs @ node # after fs"
        by (simp add: inorder_ins_fix)
      have "rbtree (ins_fix fs (Node Leaf node Red Leaf))"
        using rb by (intro rbtree_ins_fix) (auto simp: rbtree_plug)
      moreover have "desc key' (before fs @ node # after fs)"
      proof -
        have k: "\<forall>x\<in>set (before fs) \<union> set (after fs). key' x = key x" using n(5) io t(3) by auto
        have "desc key' (before fs @ after fs) = desc key (before fs @ after fs)"
          using k by (intro desc_cong) auto
        then have "desc key' (before fs @ after fs)" using t(4) io by simp
        moreover have "\<forall>x\<in>set (before fs). cmp q (key' x) < 0" "\<forall>x\<in>set (after fs). cmp (key' x) q < 0"
          using fs(3) k cmp_antisym [of q] by (auto simp: gap_def)
        ultimately show ?thesis using n(4) q by (auto simp: desc_def sorted_wrt_append)
      qed
      ultimately show ?thesis using s' io' io t(3) by (auto simp: index_def)
    qed
    with out Inr fs(4) nq show ?thesis by blast
  qed
qed

end

end
