(* ===== verification/HevRingBuffer.thy ===== *)
theory HevRingBuffer
  imports Prelude
begin

text \<open>
  The ring buffer of \<^verbatim>\<open>misc/hev-ring-buffer.c\<close>, which carries the bytes of a TCP session from the
  proxy to lwIP. Sizes are 64-bit words (\<^verbatim>\<open>size_t\<close>), an \<^verbatim>\<open>iovec\<close> is an offset into the buffer's
  \<^verbatim>\<open>data\<close> and a length, and the number an operation returns is the length of the list of them. The
  buffer refines a pair of byte sequences: those handed to lwIP and not yet acknowledged, and those
  still to be handed over.
\<close>

section \<open>Definitions\<close>

record HevRingBuffer =
  rp :: u64
  wp :: u64
  rda_size :: u64
  use_size :: u64
  max_size :: u64
  data :: bytes

record iovec =
  iov_base :: u64
  iov_len :: u64

definition hev_ring_buffer_alloca :: "u64 \<Rightarrow> bytes \<Rightarrow> HevRingBuffer" where
  "hev_ring_buffer_alloca s mem =
     \<lparr>rp = 0, wp = 0, rda_size = 0, use_size = 0, max_size = s, data = mem\<rparr>"

definition hev_ring_buffer_get_max_size :: "HevRingBuffer \<Rightarrow> u64" where
  "hev_ring_buffer_get_max_size self = max_size self"

definition hev_ring_buffer_get_use_size :: "HevRingBuffer \<Rightarrow> u64" where
  "hev_ring_buffer_get_use_size self = use_size self"

definition hev_ring_buffer_reading :: "HevRingBuffer \<Rightarrow> iovec list" where
  "hev_ring_buffer_reading self =
     (if 0 = rda_size self then []
      else
        let upper_size = max_size self - rp self
        in if rda_size self \<le> upper_size
           then [\<lparr>iov_base = rp self, iov_len = rda_size self\<rparr>]
           else [\<lparr>iov_base = rp self, iov_len = upper_size\<rparr>,
                 \<lparr>iov_base = 0, iov_len = rda_size self - upper_size\<rparr>])"

definition hev_ring_buffer_read_finish :: "u64 \<Rightarrow> HevRingBuffer \<Rightarrow> HevRingBuffer" where
  "hev_ring_buffer_read_finish sz self =
     self\<lparr>rp := (rp self + sz) mod max_size self, rda_size := rda_size self - sz\<rparr>"

definition hev_ring_buffer_read_release :: "u64 \<Rightarrow> HevRingBuffer \<Rightarrow> HevRingBuffer" where
  "hev_ring_buffer_read_release sz self =
     (let self = self\<lparr>use_size := use_size self - sz\<rparr>
      in if use_size self = 0 then self\<lparr>rp := 0, wp := 0\<rparr> else self)"

definition hev_ring_buffer_writing :: "HevRingBuffer \<Rightarrow> iovec list" where
  "hev_ring_buffer_writing self =
     (if use_size self = max_size self then []
      else
        let upper_size = max_size self - wp self;
            spc_size = max_size self - use_size self
        in if spc_size \<le> upper_size
           then [\<lparr>iov_base = wp self, iov_len = spc_size\<rparr>]
           else [\<lparr>iov_base = wp self, iov_len = upper_size\<rparr>,
                 \<lparr>iov_base = 0, iov_len = spc_size - upper_size\<rparr>])"

definition hev_ring_buffer_write_finish :: "u64 \<Rightarrow> HevRingBuffer \<Rightarrow> HevRingBuffer" where
  "hev_ring_buffer_write_finish sz self =
     self\<lparr>wp := (wp self + sz) mod max_size self, use_size := use_size self + sz,
       rda_size := rda_size self + sz\<rparr>"

text \<open>
  What a scatter read into the vectors of \<^verbatim>\<open>hev_ring_buffer_writing\<close> does to the buffer's memory,
  and what a gather from those of \<^verbatim>\<open>hev_ring_buffer_reading\<close> takes out of it.
\<close>

fun iov_scatter :: "iovec list \<Rightarrow> bytes \<Rightarrow> bytes \<Rightarrow> bytes" where
  "iov_scatter [] bs mem = mem"
| "iov_scatter (v # vs) bs mem =
     iov_scatter vs (drop (unat (iov_len v)) bs)
       (mem_put mem (unat (iov_base v)) (take (unat (iov_len v)) bs))"

definition iov_gather :: "iovec list \<Rightarrow> bytes \<Rightarrow> bytes" where
  "iov_gather vs mem = concat (map (\<lambda>v. mem_get mem (unat (iov_base v)) (unat (iov_len v))) vs)"

definition iov_total :: "iovec list \<Rightarrow> nat" where
  "iov_total vs = sum_list (map (\<lambda>v. unat (iov_len v)) vs)"

section \<open>Invariant and abstraction\<close>

text \<open>The region from the oldest unacknowledged byte on, \<open>n\<close> bytes, wrapping around.\<close>

definition ring :: "bytes \<Rightarrow> nat \<Rightarrow> nat \<Rightarrow> bytes" where
  "ring mem start n = map (\<lambda>i. mem ! ((start + i) mod length mem)) [0..<n]"

definition rb_start :: "HevRingBuffer \<Rightarrow> nat" where
  "rb_start self =
     (unat (rp self) + unat (max_size self) - (unat (use_size self) - unat (rda_size self)))
       mod unat (max_size self)"

definition rb_inv :: "HevRingBuffer \<Rightarrow> bool" where
  "rb_inv self \<longleftrightarrow>
     0 < unat (max_size self) \<and> unat (max_size self) < 2 ^ 63 \<and>
     rda_size self \<le> use_size self \<and> use_size self \<le> max_size self \<and>
     rp self < max_size self \<and>
     unat (wp self) = (unat (rp self) + unat (rda_size self)) mod unat (max_size self) \<and>
     length (data self) = unat (max_size self)"

definition rb_unacked :: "HevRingBuffer \<Rightarrow> bytes" where
  "rb_unacked self = ring (data self) (rb_start self) (unat (use_size self) - unat (rda_size self))"

definition rb_pending :: "HevRingBuffer \<Rightarrow> bytes" where
  "rb_pending self = ring (data self) (unat (rp self)) (unat (rda_size self))"

lemma length_ring [simp]: "length (ring mem a n) = n"
  by (simp add: ring_def)

lemma ring_0 [simp]: "ring mem a 0 = []"
  by (simp add: ring_def)

lemma mem_get_0 [simp]: "mem_get mem a 0 = []"
  by (simp add: mem_get_def)

lemma mem_put_Nil [simp]: "mem_put mem a [] = mem"
  by (simp add: mem_put_def)

lemma ring_append: "ring mem a (m + n) = ring mem a m @ ring mem (a + m) n"
  by (rule nth_equalityI) (auto simp: ring_def nth_append add.assoc)

lemma ring_mod: "ring mem (a mod length mem) n = ring mem a n"
  by (simp add: ring_def mod_simps)

lemma ring_linear: "a + n \<le> length mem \<Longrightarrow> ring mem a n = mem_get mem a n"
  by (rule nth_equalityI) (auto simp: ring_def mem_get_def)

lemma ring_drop: "k \<le> n \<Longrightarrow> drop k (ring mem a n) = ring mem (a + k) (n - k)"
  using ring_append [of mem a k "n - k"] by simp

lemma ring_take: "k \<le> n \<Longrightarrow> take k (ring mem a n) = ring mem a k"
  using ring_append [of mem a k "n - k"] by simp

text \<open>Two windows that start at \<open>a\<close> and \<open>a + m\<close> with \<open>m + n \<le> length mem\<close> do not meet: a write to
  the second leaves the first.\<close>

lemma mod_range_inj_le:
  assumes "(a + i) mod M = (a + j) mod M" "i \<le> j" "j < M"
  shows "i = (j :: nat)"
proof -
  have "M dvd (a + j) - (a + i)"
    using assms mod_eq_dvd_iff_nat [of "a + i" "a + j" M] by simp
  then have "M dvd j - i" by simp
  with assms show ?thesis by (auto dest!: dvd_imp_le)
qed

lemma mod_range_inj:
  "(a + i) mod M = (a + j) mod M \<Longrightarrow> i < M \<Longrightarrow> j < M \<Longrightarrow> i = (j :: nat)"
  using mod_range_inj_le [of a i M j] mod_range_inj_le [of a j M i] by fastforce

text \<open>Storing into a window of the ring byte by byte, and what the two vectors store.\<close>

definition ring_put :: "bytes \<Rightarrow> nat \<Rightarrow> bytes \<Rightarrow> bytes" where
  "ring_put mem a bs =
     map (\<lambda>k. let i = (k + length mem - a) mod length mem in if i < length bs then bs ! i else mem ! k)
       [0..<length mem]"

lemma length_ring_put [simp]: "length (ring_put mem a bs) = length mem"
  by (simp add: ring_put_def)

lemma nth_ring_put:
  assumes "a < length mem" "i < length mem" "length bs \<le> length mem"
  shows "ring_put mem a bs ! ((a + i) mod length mem) =
    (if i < length bs then bs ! i else mem ! ((a + i) mod length mem))"
proof -
  have "((a + i) mod length mem + length mem - a) mod length mem = i"
  proof (cases "a + i < length mem")
    case False
    then have "(a + i) mod length mem = a + i - length mem"
      using assms by (simp add: mod_if)
    with False assms show ?thesis by simp
  qed (use assms in simp)
  moreover have "(a + i) mod length mem < length mem" using assms by (intro mod_less_divisor) auto
  ultimately show ?thesis by (simp add: ring_put_def Let_def)
qed

lemma ring_put_same:
  assumes "a < length mem" "length bs \<le> length mem"
  shows "ring (ring_put mem a bs) a (length bs) = bs"
  using assms by (intro nth_equalityI) (auto simp: ring_def nth_ring_put)

lemma ring_put_frame:
  assumes "b < length mem" "m + length bs \<le> length mem" "a = (b + m) mod length mem"
  shows "ring (ring_put mem a bs) b m = ring mem b m"
proof (rule nth_equalityI)
  fix i assume "i < length (ring (ring_put mem a bs) b m)"
  then have i: "i < m" by simp
  let ?j = "length mem - m + i"
  have j: "(a + ?j) mod length mem = (b + i) mod length mem"
  proof -
    have "(a + ?j) mod length mem = (b + m + ?j) mod length mem"
      unfolding assms(3) by (simp add: mod_simps)
    also have "b + m + ?j = (b + i) + length mem" using assms i by simp
    finally show ?thesis by simp
  qed
  have "a < length mem" unfolding assms(3) using assms(1) by (intro mod_less_divisor) auto
  then have "ring_put mem a bs ! ((a + ?j) mod length mem) = mem ! ((a + ?j) mod length mem)"
    using i assms(2) nth_ring_put [of a mem ?j bs] by auto
  with i show "ring (ring_put mem a bs) b m ! i = ring mem b m ! i"
    by (simp add: ring_def j)
qed simp

lemma ring_offset:
  "k < M \<Longrightarrow> a < M \<Longrightarrow> (k + M - a) mod M = (if a \<le> k then k - a else k + M - (a :: nat))"
  by (auto simp: mod_if)

lemma mem_put_ring_put:
  "a < length mem \<Longrightarrow> a + length bs \<le> length mem \<Longrightarrow> mem_put mem a bs = ring_put mem a bs"
  by (rule nth_equalityI) (auto simp: nth_mem_put ring_put_def Let_def ring_offset)

lemma mem_put_wrap:
  assumes "a < length mem" "a + length bs > length mem" "length bs \<le> length mem"
  shows "mem_put (mem_put mem a (take (length mem - a) bs)) 0 (drop (length mem - a) bs) =
    ring_put mem a bs" (is "?l = ?r")
proof (rule nth_equalityI)
  show "length ?l = length ?r" using assms by simp
  fix k assume "k < length ?l"
  then have k: "k < length mem" using assms by simp
  consider "k < length bs - (length mem - a)" | "a \<le> k" "\<not> k < length bs - (length mem - a)"
    | "\<not> a \<le> k" "\<not> k < length bs - (length mem - a)" by blast
  then show "?l ! k = ?r ! k"
    using assms k by cases (auto simp: nth_mem_put ring_put_def ring_offset Let_def add.commute)
qed

section \<open>The queue\<close>

lemma unat_small_add: "unat a + unat b < 2 ^ 64 \<Longrightarrow> unat (a + b :: u64) = unat a + unat b"
  by (simp add: unat_plus_if')

lemma rb_inv_unat:
  assumes "rb_inv self"
  shows "unat (rda_size self) \<le> unat (use_size self)" "unat (use_size self) \<le> unat (max_size self)"
    "unat (rp self) < unat (max_size self)" "unat (wp self) < unat (max_size self)"
    "unat (max_size self) < 2 ^ 63" "0 < unat (max_size self)" "length (data self) = unat (max_size self)"
    "unat (max_size self - rp self) = unat (max_size self) - unat (rp self)"
    "unat (max_size self - wp self) = unat (max_size self) - unat (wp self)"
    "unat (max_size self - use_size self) = unat (max_size self) - unat (use_size self)"
proof -
  show *: "unat (rda_size self) \<le> unat (use_size self)" "unat (use_size self) \<le> unat (max_size self)"
    "unat (rp self) < unat (max_size self)" "unat (wp self) < unat (max_size self)"
    "unat (max_size self) < 2 ^ 63" "0 < unat (max_size self)" "length (data self) = unat (max_size self)"
    using assms by (auto simp: rb_inv_def word_le_nat_alt word_less_nat_alt)
  show "unat (max_size self - rp self) = unat (max_size self) - unat (rp self)"
    "unat (max_size self - wp self) = unat (max_size self) - unat (wp self)"
    "unat (max_size self - use_size self) = unat (max_size self) - unat (use_size self)"
    using * by (auto intro!: unat_sub simp: word_le_nat_alt)
qed

text \<open>The oldest byte and the two windows that follow it.\<close>

lemma rb_windows:
  assumes "rb_inv self"
  shows "(rb_start self + (unat (use_size self) - unat (rda_size self))) mod unat (max_size self) = unat (rp self)"
    "(rb_start self + unat (use_size self)) mod unat (max_size self) = unat (wp self)"
    "rb_start self < unat (max_size self)"
proof -
  note * = rb_inv_unat [OF assms]
  let ?M = "unat (max_size self)" and ?d = "unat (use_size self) - unat (rda_size self)"
  have "(rb_start self + ?d) mod ?M = (unat (rp self) + ?M - ?d + ?d) mod ?M"
    by (simp add: rb_start_def mod_simps)
  also have "unat (rp self) + ?M - ?d + ?d = unat (rp self) + ?M" using * by simp
  also have "\<dots> mod ?M = unat (rp self)" using * by simp
  finally show 1: "(rb_start self + ?d) mod ?M = unat (rp self)" .
  have "unat (wp self) = (unat (rp self) + unat (rda_size self)) mod ?M" using assms by (simp add: rb_inv_def)
  also have "\<dots> = (rb_start self + ?d + unat (rda_size self)) mod ?M"
    unfolding 1 [symmetric] by (simp add: mod_simps)
  finally show "(rb_start self + unat (use_size self)) mod ?M = unat (wp self)" using * by simp
  show "rb_start self < ?M" using * by (simp add: rb_start_def)
qed

lemma rb_contents: "rb_inv self \<Longrightarrow>
    rb_unacked self @ rb_pending self = ring (data self) (rb_start self) (unat (use_size self))"
proof -
  assume i: "rb_inv self"
  note * = rb_inv_unat [OF i] and w = rb_windows [OF i]
  let ?d = "unat (use_size self) - unat (rda_size self)"
  have "ring (data self) (unat (rp self)) (unat (rda_size self)) =
      ring (data self) (rb_start self + ?d) (unat (rda_size self))"
    using ring_mod [of "data self" "rb_start self + ?d"] w * by simp
  then show ?thesis
    using ring_append [of "data self" "rb_start self" ?d "unat (rda_size self)"] *
    by (simp add: rb_unacked_def rb_pending_def)
qed

lemma length_rb_unacked: "length (rb_unacked self) = unat (use_size self) - unat (rda_size self)"
  and length_rb_pending: "length (rb_pending self) = unat (rda_size self)"
  by (simp_all add: rb_unacked_def rb_pending_def)

lemma reading_pending:
  assumes "rb_inv self"
  shows "iov_gather (hev_ring_buffer_reading self) (data self) = rb_pending self"
proof -
  note * = rb_inv_unat [OF assms]
  let ?u = "unat (max_size self) - unat (rp self)"
  show ?thesis
  proof (cases "unat (rda_size self) \<le> ?u")
    case True
    then have "rda_size self \<le> max_size self - rp self" using * by (simp add: word_le_nat_alt)
    with True * show ?thesis
      by (auto simp: hev_ring_buffer_reading_def iov_gather_def rb_pending_def ring_linear)
  next
    case False
    then have "\<not> rda_size self \<le> max_size self - rp self" "rda_size self \<noteq> 0"
      "unat (rda_size self - (max_size self - rp self)) = unat (rda_size self) - ?u"
      using * by (auto simp: word_le_nat_alt unat_sub)
    moreover have "ring (data self) (unat (rp self)) (unat (rda_size self)) =
        ring (data self) (unat (rp self)) ?u @ ring (data self) (unat (max_size self)) (unat (rda_size self) - ?u)"
      using ring_append [of "data self" "unat (rp self)" ?u "unat (rda_size self) - ?u"] * False by simp
    moreover have "ring (data self) (unat (max_size self)) (unat (rda_size self) - ?u) =
        ring (data self) 0 (unat (rda_size self) - ?u)"
      using ring_mod [of "data self" "unat (max_size self)"] * by simp
    ultimately show ?thesis
      using * False by (simp add: hev_ring_buffer_reading_def iov_gather_def rb_pending_def ring_linear Let_def)
  qed
qed

text \<open>The writable space, and the state after \<open>bs\<close> has been received into it.\<close>

lemma writing_total:
  assumes "rb_inv self"
  shows "iov_total (hev_ring_buffer_writing self) = unat (max_size self) - unat (use_size self)"
proof -
  note * = rb_inv_unat [OF assms]
  show ?thesis
  proof (cases "max_size self - use_size self \<le> max_size self - wp self")
    case False
    then have "unat ((max_size self - use_size self) - (max_size self - wp self)) =
        unat (max_size self - use_size self) - unat (max_size self - wp self)"
      by (intro unat_sub) (simp add: word_le_nat_alt)
    with * False show ?thesis
      by (auto simp: hev_ring_buffer_writing_def iov_total_def Let_def word_le_nat_alt)
  qed (use * in \<open>auto simp: hev_ring_buffer_writing_def iov_total_def\<close>)
qed

lemma writing_scatter:
  assumes "rb_inv self" "length bs \<le> unat (max_size self) - unat (use_size self)"
  shows "iov_scatter (hev_ring_buffer_writing self) bs (data self) =
    ring_put (data self) (unat (wp self)) bs"
proof -
  note * = rb_inv_unat [OF assms(1)]
  let ?u = "unat (max_size self) - unat (wp self)"
  have e: "ring_put (data self) (unat (wp self)) [] = data self"
    by (rule nth_equalityI) (auto simp: ring_put_def)
  show ?thesis
  proof (cases "max_size self - use_size self \<le> max_size self - wp self")
    case True
    with assms * show ?thesis
      by (auto simp: hev_ring_buffer_writing_def word_le_nat_alt mem_put_ring_put e)
  next
    case False
    then have s: "unat ((max_size self - use_size self) - (max_size self - wp self)) =
        unat (max_size self - use_size self) - unat (max_size self - wp self)"
      by (intro unat_sub) (simp add: word_le_nat_alt)
    show ?thesis
    proof (cases "length bs \<le> ?u")
      case True
      with s assms * False show ?thesis
        by (auto simp: hev_ring_buffer_writing_def Let_def word_le_nat_alt mem_put_ring_put e)
    next
      case wrap: False
      with s assms * False mem_put_wrap [of "unat (wp self)" "data self" bs] show ?thesis
        by (auto simp: hev_ring_buffer_writing_def Let_def word_le_nat_alt)
    qed
  qed
qed

lemma write_refines:
  assumes inv: "rb_inv self" and len: "length bs \<le> unat (max_size self) - unat (use_size self)"
    and new: "self' = hev_ring_buffer_write_finish (of_nat (length bs))
      (self\<lparr>data := iov_scatter (hev_ring_buffer_writing self) bs (data self)\<rparr>)"
  shows "rb_inv self' \<and> rb_unacked self' = rb_unacked self \<and> rb_pending self' = rb_pending self @ bs"
proof -
  note * = rb_inv_unat [OF inv] and w = rb_windows [OF inv]
  let ?M = "unat (max_size self)" and ?n = "length bs"
  have n: "unat (of_nat ?n :: u64) = ?n"
    using len * by (simp add: unat_of_nat take_bit_nat_eq_self_iff)
  have f: "unat (wp self') = (unat (wp self) + ?n) mod ?M" "unat (use_size self') = unat (use_size self) + ?n"
    "unat (rda_size self') = unat (rda_size self) + ?n" "max_size self' = max_size self" "rp self' = rp self"
    "data self' = ring_put (data self) (unat (wp self)) bs"
    using * len n writing_scatter [OF inv len]
    by (simp_all add: new hev_ring_buffer_write_finish_def unat_mod unat_small_add)
  have inv': "rb_inv self'"
    using * f len inv by (auto simp: rb_inv_def word_le_nat_alt word_less_nat_alt mod_simps add.assoc)
  have st: "rb_start self' = rb_start self" using f by (simp add: rb_start_def)
  have un: "rb_unacked self' @ rb_pending self' = ring (data self') (rb_start self) (unat (use_size self) + ?n)"
    using rb_contents [OF inv'] st f by simp
  also have "\<dots> = ring (data self') (rb_start self) (unat (use_size self)) @ ring (data self') (unat (wp self)) ?n"
    using ring_append [of "data self'" "rb_start self" "unat (use_size self)" ?n]
      ring_mod [of "data self'" "rb_start self + unat (use_size self)" ?n] w * f by simp
  also have "\<dots> = ring (data self) (rb_start self) (unat (use_size self)) @ bs"
    using ring_put_same [of "unat (wp self)" "data self" bs] ring_put_frame [of "rb_start self" "data self" "unat (use_size self)" bs "unat (wp self)"]
      * w len f by simp
  also have "\<dots> = rb_unacked self @ rb_pending self @ bs" using rb_contents [OF inv] by simp
  finally have "rb_unacked self' @ rb_pending self' = rb_unacked self @ (rb_pending self @ bs)" .
  moreover have "length (rb_unacked self') = length (rb_unacked self)"
    using f by (simp add: length_rb_unacked)
  ultimately show ?thesis using inv' by simp
qed

text \<open>Handing the first \<open>n\<close> pending bytes over, and their acknowledgement.\<close>

lemma read_finish_refines:
  assumes inv: "rb_inv self" and len: "unat n \<le> length (rb_pending self)"
    and new: "self' = hev_ring_buffer_read_finish n self"
  shows "rb_inv self' \<and> rb_unacked self' = rb_unacked self @ take (unat n) (rb_pending self) \<and>
    rb_pending self' = drop (unat n) (rb_pending self)"
proof -
  note * = rb_inv_unat [OF inv] and w = rb_windows [OF inv]
  let ?M = "unat (max_size self)"
  have n: "unat n \<le> unat (rda_size self)" using len by (simp add: length_rb_pending)
  have f: "unat (rp self') = (unat (rp self) + unat n) mod ?M" "unat (rda_size self') = unat (rda_size self) - unat n"
    "use_size self' = use_size self" "max_size self' = max_size self" "wp self' = wp self" "data self' = data self"
    using * n by (simp_all add: new hev_ring_buffer_read_finish_def unat_mod unat_small_add unat_sub word_le_nat_alt)
  have "unat (wp self) = (unat (rp self) + unat n + (unat (rda_size self) - unat n)) mod ?M"
    using inv n by (simp add: rb_inv_def)
  then have "unat (wp self') = (unat (rp self') + unat (rda_size self')) mod ?M"
    unfolding f by (simp only: mod_add_left_eq)
  then have inv': "rb_inv self'"
    using * f n by (auto simp: rb_inv_def word_le_nat_alt word_less_nat_alt)
  have p: "rb_pending self' = drop (unat n) (rb_pending self)"
    using n f * ring_mod [of "data self" "unat (rp self) + unat n"]
    by (simp add: rb_pending_def ring_drop)
  have "rb_start self' = rb_start self"
  proof -
    let ?d = "unat (use_size self) - unat (rda_size self)" and ?d' = "unat (use_size self') - unat (rda_size self')"
    have "(rb_start self' + ?d') mod ?M = (rb_start self + ?d') mod ?M"
    proof -
      have "(rb_start self' + ?d') mod ?M = unat (rp self')" using rb_windows(1) [OF inv'] f by simp
      also have "\<dots> = ((rb_start self + ?d) mod ?M + unat n) mod ?M" using w f by simp
      also have "\<dots> = (rb_start self + ?d') mod ?M" using f n * by (simp add: mod_simps add.assoc)
      finally show ?thesis .
    qed
    then show ?thesis
      using mod_range_inj [of ?d' "rb_start self'" ?M "rb_start self"] w rb_windows(3) [OF inv'] f
      by (simp add: add.commute)
  qed
  then have "rb_unacked self' @ rb_pending self' = rb_unacked self @ rb_pending self"
    using rb_contents [OF inv] rb_contents [OF inv'] f by simp
  also have "\<dots> = (rb_unacked self @ take (unat n) (rb_pending self)) @ rb_pending self'"
    by (simp add: p)
  finally have "rb_unacked self' = rb_unacked self @ take (unat n) (rb_pending self)"
    by (simp only: append_same_eq)
  with inv' p show ?thesis by blast
qed

lemma read_release_refines:
  assumes inv: "rb_inv self" and len: "unat n \<le> length (rb_unacked self)"
    and new: "self' = hev_ring_buffer_read_release n self"
  shows "rb_inv self' \<and> rb_unacked self' = drop (unat n) (rb_unacked self) \<and>
    rb_pending self' = rb_pending self"
proof -
  note * = rb_inv_unat [OF inv] and w = rb_windows [OF inv]
  let ?M = "unat (max_size self)"
  have n: "unat n \<le> unat (use_size self) - unat (rda_size self)" using len by (simp add: length_rb_unacked)
  have u: "unat (use_size self - n) = unat (use_size self) - unat n"
    using n by (intro unat_sub) (simp add: word_le_nat_alt)
  show ?thesis
  proof (cases "use_size self - n = 0")
    case True
    with u n * have "unat (rda_size self) = 0" "unat n = unat (use_size self)" by simp_all
    then have "rda_size self = 0" "unat n = unat (use_size self)"
      by (simp_all only: unat_eq_zero)
    moreover have "self' = self\<lparr>use_size := 0, rp := 0, wp := 0\<rparr>"
      using True by (simp add: new hev_ring_buffer_read_release_def)
    moreover have "0 < max_size self" using * by (simp add: word_less_nat_alt)
    ultimately show ?thesis
      using *(5-7) by (simp add: rb_inv_def rb_unacked_def rb_pending_def)
  next
    case False
    then have f: "self' = self\<lparr>use_size := use_size self - n\<rparr>"
      by (simp add: new hev_ring_buffer_read_release_def)
    have inv': "rb_inv self'"
      using inv * n u by (auto simp: f rb_inv_def word_le_nat_alt)
    let ?d' = "unat (use_size self') - unat (rda_size self')"
    have "unat n + ?d' = unat (use_size self) - unat (rda_size self)"
      using n u by (simp add: f)
    then have "(rb_start self' + ?d') mod ?M = (rb_start self + unat n + ?d') mod ?M"
      using rb_windows(1) [OF inv'] w(1) by (simp add: f add.assoc)
    then have "rb_start self' = (rb_start self + unat n) mod ?M"
      using mod_range_inj [of ?d' "rb_start self'" ?M "(rb_start self + unat n) mod ?M"] *
        rb_windows(3) [OF inv'] by (simp add: f add.commute mod_simps)
    then show ?thesis
      using inv' n u * ring_mod [of "data self" "rb_start self + unat n"]
      by (simp add: f rb_unacked_def rb_pending_def ring_drop add.commute)
  qed
qed

text \<open>Every vector lies inside the buffer.\<close>

lemma reading_bounds:
  assumes "rb_inv self"
  shows "\<forall>v\<in>set (hev_ring_buffer_reading self). unat (iov_base v) + unat (iov_len v) \<le> length (data self)"
  using rb_inv_unat [OF assms]
  by (auto simp: hev_ring_buffer_reading_def Let_def word_le_nat_alt unat_sub split: if_splits)

lemma length_iov_gather:
  "\<forall>v\<in>set vs. unat (iov_base v) + unat (iov_len v) \<le> length mem \<Longrightarrow> length (iov_gather vs mem) = iov_total vs"
  by (induction vs) (auto simp: iov_gather_def iov_total_def)

section \<open>The interface of the TCP session\<close>

text \<open>
  A session drives the buffer with three kinds of steps: bytes received into the writable vectors,
  bytes handed to lwIP, bytes acknowledged by the peer. A step is possible when its amount fits.
\<close>

datatype ring_op = Received bytes | Handed u64 | Acked u64

fun ring_received :: "ring_op list \<Rightarrow> bytes" where
  "ring_received [] = []"
| "ring_received (Received bs # xs) = bs @ ring_received xs"
| "ring_received (x # xs) = ring_received xs"

fun ring_handed :: "ring_op list \<Rightarrow> nat" where
  "ring_handed [] = 0"
| "ring_handed (Handed n # xs) = unat n + ring_handed xs"
| "ring_handed (x # xs) = ring_handed xs"

fun ring_acked :: "ring_op list \<Rightarrow> nat" where
  "ring_acked [] = 0"
| "ring_acked (Acked n # xs) = unat n + ring_acked xs"
| "ring_acked (x # xs) = ring_acked xs"

locale byte_ring =
  fixes inv :: "'r \<Rightarrow> bool"
    and room :: "'r \<Rightarrow> nat"
    and unacked :: "'r \<Rightarrow> bytes"
    and pending :: "'r \<Rightarrow> bytes"
    and receive :: "bytes \<Rightarrow> 'r \<Rightarrow> 'r"
    and hand :: "u64 \<Rightarrow> 'r \<Rightarrow> 'r"
    and ack :: "u64 \<Rightarrow> 'r \<Rightarrow> 'r"
  assumes receive_law: "inv r \<Longrightarrow> length bs \<le> room r \<Longrightarrow>
      inv (receive bs r) \<and> unacked (receive bs r) = unacked r \<and> pending (receive bs r) = pending r @ bs"
    and hand_law: "inv r \<Longrightarrow> unat n \<le> length (pending r) \<Longrightarrow>
      inv (hand n r) \<and> unacked (hand n r) = unacked r @ take (unat n) (pending r) \<and>
      pending (hand n r) = drop (unat n) (pending r)"
    and ack_law: "inv r \<Longrightarrow> unat n \<le> length (unacked r) \<Longrightarrow>
      inv (ack n r) \<and> unacked (ack n r) = drop (unat n) (unacked r) \<and> pending (ack n r) = pending r"
begin

fun enabled :: "ring_op \<Rightarrow> 'r \<Rightarrow> bool" where
  "enabled (Received bs) r \<longleftrightarrow> length bs \<le> room r"
| "enabled (Handed n) r \<longleftrightarrow> unat n \<le> length (pending r)"
| "enabled (Acked n) r \<longleftrightarrow> unat n \<le> length (unacked r)"

fun perform :: "ring_op \<Rightarrow> 'r \<Rightarrow> 'r" where
  "perform (Received bs) r = receive bs r"
| "perform (Handed n) r = hand n r"
| "perform (Acked n) r = ack n r"

fun run :: "ring_op list \<Rightarrow> 'r \<Rightarrow> 'r" where
  "run [] r = r"
| "run (x # xs) r = run xs (perform x r)"

fun run_ok :: "ring_op list \<Rightarrow> 'r \<Rightarrow> bool" where
  "run_ok [] r \<longleftrightarrow> True"
| "run_ok (x # xs) r \<longleftrightarrow> enabled x r \<and> run_ok xs (perform x r)"

lemma perform_inv: "inv r \<Longrightarrow> enabled x r \<Longrightarrow> inv (perform x r)"
  by (cases x) (auto simp: receive_law hand_law ack_law)

text \<open>No byte is lost, duplicated or reordered.\<close>

lemma run_conserves:
  assumes "inv r" "run_ok xs r"
  shows "inv (run xs r) \<and>
    unacked (run xs r) @ pending (run xs r) = drop (ring_acked xs) (unacked r @ pending r @ ring_received xs) \<and>
    length (pending (run xs r)) + ring_handed xs = length (pending r) + length (ring_received xs)"
  using assms
proof (induction xs r rule: run.induct)
  case (2 x xs r)
  show ?case
  proof (cases x)
    case (Received bs)
    with 2 receive_law [of r bs] show ?thesis by (simp del: drop_append)
  next
    case (Handed n)
    have e: "take (unat n) (pending r) @ drop (unat n) (pending r) @ ring_received xs = pending r @ ring_received xs"
      by (metis append.assoc append_take_drop_id)
    from 2 Handed hand_law [of r n] show ?thesis by (auto simp add: e simp del: drop_append)
  next
    case (Acked n)
    with 2 have n: "unat n \<le> length (unacked r)" by simp
    have "drop (ring_acked xs) (drop (unat n) (unacked r) @ ys) = drop (unat n + ring_acked xs) (unacked r @ ys)" for ys
      using n by (simp add: add.commute)
    with 2 Acked n ack_law [of r n] show ?thesis by (simp del: drop_append)
  qed
qed simp

end

text \<open>Receiving \<open>bs\<close>: the scatter read of the session followed by \<^verbatim>\<open>hev_ring_buffer_write_finish\<close>.\<close>

definition ring_receive :: "bytes \<Rightarrow> HevRingBuffer \<Rightarrow> HevRingBuffer" where
  "ring_receive bs self =
     hev_ring_buffer_write_finish (of_nat (length bs))
       (self\<lparr>data := iov_scatter (hev_ring_buffer_writing self) bs (data self)\<rparr>)"

interpretation hrb: byte_ring rb_inv "\<lambda>r. iov_total (hev_ring_buffer_writing r)" rb_unacked rb_pending
  ring_receive hev_ring_buffer_read_finish hev_ring_buffer_read_release
proof unfold_locales
  show "rb_inv r \<Longrightarrow> length bs \<le> iov_total (hev_ring_buffer_writing r) \<Longrightarrow> rb_inv (ring_receive bs r) \<and>
      rb_unacked (ring_receive bs r) = rb_unacked r \<and> rb_pending (ring_receive bs r) = rb_pending r @ bs"
    for r bs by (rule write_refines) (simp_all add: writing_total ring_receive_def)
qed (rule read_finish_refines read_release_refines; simp)+

lemma alloca_inv:
  "0 < s \<Longrightarrow> unat s < 2 ^ 63 \<Longrightarrow> length mem = unat s \<Longrightarrow> rb_inv (hev_ring_buffer_alloca s mem) \<and>
     rb_unacked (hev_ring_buffer_alloca s mem) = [] \<and> rb_pending (hev_ring_buffer_alloca s mem) = []"
  by (simp add: hev_ring_buffer_alloca_def rb_inv_def rb_unacked_def rb_pending_def word_less_nat_alt)

text \<open>A history of steps on one buffer, \<open>None\<close> as soon as a step does not fit.\<close>

fun ring_exec :: "ring_op list \<Rightarrow> HevRingBuffer \<Rightarrow> HevRingBuffer option" where
  "ring_exec [] r = Some r"
| "ring_exec (Received bs # xs) r =
     (if length bs \<le> iov_total (hev_ring_buffer_writing r) then ring_exec xs (ring_receive bs r) else None)"
| "ring_exec (Handed n # xs) r =
     (if unat n \<le> length (rb_pending r) then ring_exec xs (hev_ring_buffer_read_finish n r) else None)"
| "ring_exec (Acked n # xs) r =
     (if unat n \<le> length (rb_unacked r) then ring_exec xs (hev_ring_buffer_read_release n r) else None)"

lemma ring_exec_run: "ring_exec xs r = Some r' \<Longrightarrow> hrb.run_ok xs r \<and> hrb.run xs r = r'"
  by (induction xs r rule: ring_exec.induct) (auto split: if_splits)

section \<open>Properties\<close>

text \<open>
  C5. The vectors: \<^verbatim>\<open>hev_ring_buffer_reading\<close> yields exactly the bytes that are still to be handed over,
  \<^verbatim>\<open>hev_ring_buffer_writing\<close> yields exactly the free space, every vector lies inside the buffer, and a
  receive of any \<open>bs\<close> that fits leaves all bytes in flight as they were and appends \<open>bs\<close>.
\<close>

theorem ring_vectors_ok:
  assumes "rb_inv self"
  shows "iov_gather (hev_ring_buffer_reading self) (data self) = rb_pending self \<and>
    iov_total (hev_ring_buffer_writing self) = unat (max_size self) - unat (use_size self) \<and>
    (\<forall>v\<in>set (hev_ring_buffer_reading self @ hev_ring_buffer_writing self).
       unat (iov_base v) + unat (iov_len v) \<le> length (data self)) \<and>
    (\<forall>bs. length bs \<le> iov_total (hev_ring_buffer_writing self) \<longrightarrow>
       rb_inv (ring_receive bs self) \<and>
       rb_unacked (ring_receive bs self) = rb_unacked self \<and>
       rb_pending (ring_receive bs self) = rb_pending self @ bs)"
proof -
  note * = rb_inv_unat [OF assms]
  have r: "unat (iov_base v) + unat (iov_len v) \<le> length (data self)"
    if "v \<in> set (hev_ring_buffer_reading self)" for v
    using that reading_bounds [OF assms] by blast
  have w: "unat (iov_base v) + unat (iov_len v) \<le> length (data self)"
    if "v \<in> set (hev_ring_buffer_writing self)" for v
  proof -
    have "unat (max_size self - use_size self - (max_size self - wp self)) \<le> unat (max_size self - use_size self)"
      if "\<not> max_size self - use_size self \<le> max_size self - wp self"
      using that by (subst unat_sub) (simp_all add: word_le_nat_alt)
    with that * show ?thesis
      by (auto simp: hev_ring_buffer_writing_def Let_def word_le_nat_alt split: if_splits)
  qed
  show ?thesis using reading_pending [OF assms] writing_total [OF assms] r w hrb.receive_law [OF assms] by auto
qed

theorem ring_vectors_ok_witness:
  "iov_gather (hev_ring_buffer_reading \<lparr>rp = 2, wp = 1, rda_size = 2, use_size = 2, max_size = 3, data = [7, 0, 6]\<rparr>)
     [7, 0, 6] = [6, 7 :: byte]"
proof -
  let ?r = "\<lparr>rp = 2, wp = 1, rda_size = 2, use_size = 2, max_size = 3, data = [7, 0, 6]\<rparr> :: HevRingBuffer"
  have "rb_inv ?r" by (simp add: rb_inv_def)
  moreover have "rb_pending ?r = [6, 7]"
    by (simp add: rb_pending_def ring_def upt_rec)
  ultimately show ?thesis using ring_vectors_ok [of ?r] by simp
qed

text \<open>
  C6. The stream: whatever sequence of receives, hand-overs and acknowledgements runs on a fresh
  buffer of \<open>s\<close> bytes, the bytes in it are those received and not yet acknowledged, in order, and the
  ones not yet handed over are the last of them: nothing is lost, duplicated or reordered, even when
  the positions wrap around.
\<close>

theorem ring_stream_ok:
  assumes "0 < s" "unat s < 2 ^ 63" "length mem = unat s"
    and "ring_exec xs (hev_ring_buffer_alloca s mem) = Some r"
  shows "rb_inv r \<and> rb_unacked r @ rb_pending r = drop (ring_acked xs) (ring_received xs) \<and>
    rb_pending r = drop (ring_handed xs) (ring_received xs)"
proof -
  let ?r0 = "hev_ring_buffer_alloca s mem"
  have i: "rb_inv ?r0" "rb_unacked ?r0 = []" "rb_pending ?r0 = []"
    using alloca_inv [OF assms(1-3)] by auto
  from ring_exec_run [OF assms(4)] have "hrb.run_ok xs ?r0" "hrb.run xs ?r0 = r" by auto
  with hrb.run_conserves [OF i(1), of xs] i have
    *: "rb_inv r" "rb_unacked r @ rb_pending r = drop (ring_acked xs) (ring_received xs)"
      "length (rb_pending r) + ring_handed xs = length (ring_received xs)" by auto
  have "rb_pending r = drop (length (rb_unacked r)) (drop (ring_acked xs) (ring_received xs))"
    using *(2) by (metis append_eq_conv_conj)
  moreover have "length (rb_unacked r) + length (rb_pending r) = length (ring_received xs) - ring_acked xs"
    using arg_cong [OF *(2), of length] by simp
  ultimately show ?thesis
  proof (cases "rb_pending r = []")
    case False
    then have "ring_acked xs \<le> length (ring_received xs)"
      using \<open>length (rb_unacked r) + length (rb_pending r) = _\<close> by (cases "rb_pending r") auto
    with * \<open>length (rb_unacked r) + length (rb_pending r) = _\<close>
    have "length (rb_unacked r) + ring_acked xs = ring_handed xs" by linarith
    with \<open>rb_pending r = drop _ _\<close> * show ?thesis by (simp add: add.commute)
  qed (use * in simp)
qed

theorem ring_stream_ok_witness:
  "\<exists>r. ring_exec [Received [1, 2], Handed 2, Acked 1, Received [3, 4]] (hev_ring_buffer_alloca 3 [0, 0, 0]) = Some r \<and>
     rb_pending r = [3, 4]"
proof -
  let ?xs = "[Received [1, 2], Handed 2, Acked 1, Received [3, 4]]"
  have "\<not> Option.is_none (ring_exec ?xs (hev_ring_buffer_alloca 3 [0, 0, 0]))" by code_simp
  then obtain r where r: "ring_exec ?xs (hev_ring_buffer_alloca 3 [0, 0, 0]) = Some r"
    by (auto simp: Option.is_none_def)
  with ring_stream_ok [of 3 "[0, 0, 0]" ?xs r] show ?thesis by simp
qed

end
