(* ===== verification/HevMappedDNS.thy ===== *)
theory HevMappedDNS
  imports HevList HevRBTreeIndex
begin

text \<open>
  The name cache of \<^verbatim>\<open>hev-mapped-dns.c\<close>: every queried name is given an index, the answer to its
  query is the network address with that index, and a later connection to that address is turned
  back into the name. The cache is an intrusive red-black tree over the names, an intrusive list in
  order of use and an array of records. The code is translated over its three heaps and refines a
  list of (name, index) pairs, oldest first.

  A value \<open>None\<close> of an operation stands for a call that does not return normally: a loop that runs
  forever, or an access outside a buffer or array. \<^verbatim>\<open>strdup\<close> is taken to succeed.
\<close>

section \<open>State\<close>

record HevMappedDNSNode =
  dn_name :: bytes
  dn_idx :: int

record HevMappedDNS =
  dns_use :: int
  dns_max :: int
  dns_net :: u32
  dns_mask :: u32
  dns_list :: HevList
  dns_tree :: HevRBTree
  dns_records :: "ptr list"
  dns_lheap :: lheap
  dns_nodes :: "ptr \<Rightarrow> HevMappedDNSNode"
  dns_live :: "ptr set"
  dns_alloc :: "ptr list"

text \<open>
  The field \<^verbatim>\<open>tree\<close> is the first of the structure and \<^verbatim>\<open>list\<close> follows its three words, so
  \<^verbatim>\<open>container_of\<close> is the identity for the one and subtracts 24 for the other.
\<close>

definition list_addr :: "ptr \<Rightarrow> ptr" where
  "list_addr node = node + 24"

definition list_container :: "ptr \<Rightarrow> ptr" where
  "list_container n = n - 24"

section \<open>Construction\<close>

definition hev_mapped_dns_construct ::
    "HevMappedDNS \<Rightarrow> u32 \<Rightarrow> u32 \<Rightarrow> int \<Rightarrow> int \<times> HevMappedDNS" where
  "hev_mapped_dns_construct self net netmask maxn =
     (if maxn > sint (NOT netmask) then (- 1, self)
      else (0, self\<lparr>dns_max := maxn, dns_net := net, dns_mask := netmask\<rparr>))"

text \<open>\<open>None\<close> is the NULL that \<^verbatim>\<open>hev_mapped_dns_new\<close> returns; \<open>mem_ok\<close> is whether \<^verbatim>\<open>hev_malloc0\<close> succeeds.\<close>

definition hev_mapped_dns_new :: "bool \<Rightarrow> ptr list \<Rightarrow> u32 \<Rightarrow> u32 \<Rightarrow> int \<Rightarrow> HevMappedDNS option" where
  "hev_mapped_dns_new mem_ok alloc net netmask maxn =
     (if \<not> mem_ok then None
      else
        let self = \<lparr>dns_use = 0, dns_max = 0, dns_net = 0, dns_mask = 0,
              dns_list = \<lparr>head = NULL, tail = NULL\<rparr>,
              dns_tree = \<lparr>rb_root = NULL,
                rb_mem = (\<lambda>_. \<lparr>rb_parent_color = 0, rb_right = NULL, rb_left = NULL\<rparr>)\<rparr>,
              dns_records = replicate (nat maxn) NULL,
              dns_lheap = (\<lambda>_. \<lparr>ln_next = NULL, ln_prev = NULL\<rparr>),
              dns_nodes = (\<lambda>_. \<lparr>dn_name = [], dn_idx = 0\<rparr>),
              dns_live = {}, dns_alloc = alloc\<rparr>;
            (res, self) = hev_mapped_dns_construct self net netmask maxn
        in if res < 0 then None else Some self)"

section \<open>Searching a name\<close>

definition hev_mapped_dns_node_alloc :: "bytes \<Rightarrow> HevMappedDNS \<Rightarrow> ptr \<times> HevMappedDNS" where
  "hev_mapped_dns_node_alloc name self =
     (case dns_alloc self of
        [] \<Rightarrow> (NULL, self)
      | node # rest \<Rightarrow>
          if node = NULL then (NULL, self\<lparr>dns_alloc := rest\<rparr>)
          else (node, self\<lparr>dns_alloc := rest, dns_live := insert node (dns_live self),
            dns_nodes := (dns_nodes self)(node := \<lparr>dn_name = name, dn_idx = 0\<rparr>)\<rparr>))"

definition hev_mapped_dns_node_free :: "ptr \<Rightarrow> HevMappedDNS \<Rightarrow> HevMappedDNS" where
  "hev_mapped_dns_node_free node self = self\<lparr>dns_live := dns_live self - {node}\<rparr>"

definition dns_list_del :: "ptr \<Rightarrow> HevMappedDNS \<Rightarrow> HevMappedDNS" where
  "dns_list_del node self =
     (let (l, h) = hev_list_del (dns_list self) (list_addr node) (dns_lheap self)
      in self\<lparr>dns_list := l, dns_lheap := h\<rparr>)"

definition dns_list_add_tail :: "ptr \<Rightarrow> HevMappedDNS \<Rightarrow> HevMappedDNS" where
  "dns_list_add_tail node self =
     (let (l, h) = hev_list_add_tail (dns_list self) (list_addr node) (dns_lheap self)
      in self\<lparr>dns_list := l, dns_lheap := h\<rparr>)"

text \<open>\<^verbatim>\<open>self->records[idx] = node; node->idx = idx; return node->idx;\<close>\<close>

definition dns_record :: "int \<Rightarrow> ptr \<Rightarrow> HevMappedDNS \<Rightarrow> (int \<times> HevMappedDNS) option" where
  "dns_record idx node self =
     (if idx < 0 \<or> nat idx \<ge> length (dns_records self) \<or> node \<notin> dns_live self then None
      else Some (idx, self\<lparr>dns_records := (dns_records self)[nat idx := node],
        dns_nodes := (dns_nodes self)(node := (dns_nodes self node)\<lparr>dn_idx := idx\<rparr>)\<rparr>))"

definition hev_mapped_dns_find :: "bytes \<Rightarrow> HevMappedDNS \<Rightarrow> (int \<times> HevMappedDNS) option" where
  "hev_mapped_dns_find name self =
     (let idx = dns_use self
      in case rb_descend (\<lambda>n. strcmp (dn_name (dns_nodes self n)) name) (dns_tree self) Root NULL of
           None \<Rightarrow> None
         | Some (Inl node) \<Rightarrow>
             let self = dns_list_add_tail node (dns_list_del node self)
             in Some (dn_idx (dns_nodes self node), self)
         | Some (Inr (parent, new)) \<Rightarrow>
             let (node, self) = hev_mapped_dns_node_alloc name self
             in if node = NULL then Some (- 1, self)
                else
                  case hev_rbtree_insert_color node
                         (hev_rbtree_node_link node parent new (dns_tree self)) of
                    None \<Rightarrow> None
                  | Some t \<Rightarrow>
                      let self = dns_list_add_tail node (self\<lparr>dns_tree := t\<rparr>)
                      in if dns_use self < dns_max self
                         then dns_record idx node (self\<lparr>dns_use := dns_use self + 1\<rparr>)
                         else
                           let nf = list_container (hev_list_first (dns_list self));
                               idx = dn_idx (dns_nodes self nf)
                           in case hev_rbtree_erase nf (dns_tree self) of
                                None \<Rightarrow> None
                              | Some t \<Rightarrow>
                                  dns_record idx node
                                    (hev_mapped_dns_node_free nf
                                      (dns_list_del nf (self\<lparr>dns_tree := t\<rparr>))))"

section \<open>Looking an address up\<close>

text \<open>\<open>Some (None, _)\<close> is a NULL result.\<close>

definition hev_mapped_dns_lookup ::
    "u32 \<Rightarrow> HevMappedDNS \<Rightarrow> (bytes option \<times> HevMappedDNS) option" where
  "hev_mapped_dns_lookup ip self =
     (let idx = sint (ip AND NOT (dns_mask self))
      in if idx \<ge> dns_max self then Some (None, self)
         else if idx < 0 \<or> nat idx \<ge> length (dns_records self) then None
         else
           let node = dns_records self ! nat idx
           in if node = NULL then Some (None, self)
              else
                let self = dns_list_add_tail node (dns_list_del node self)
                in Some (Some (dn_name (dns_nodes self node)), self))"

section \<open>Destruction\<close>

partial_function (option) dns_free_nodes :: "ptr \<Rightarrow> HevMappedDNS \<Rightarrow> HevMappedDNS option" where
  "dns_free_nodes n self =
     (if n = NULL then Some self
      else
        let t = list_container n;
            n = hev_list_node_next (dns_lheap self) n
        in dns_free_nodes n (hev_mapped_dns_node_free t self))"

definition hev_mapped_dns_destruct :: "HevMappedDNS \<Rightarrow> HevMappedDNS option" where
  "hev_mapped_dns_destruct self = dns_free_nodes (hev_list_first (dns_list self)) self"

section \<open>Answering a query\<close>

definition read_u16 :: "bytes \<Rightarrow> nat \<Rightarrow> u16" where
  "read_u16 p i = push_bit 8 (ucast (p ! i)) OR ucast (p ! (i + 1))"

definition write_u16 :: "u16 \<Rightarrow> bytes" where
  "write_u16 v = [ucast (drop_bit 8 v), ucast v]"

definition write_u32 :: "u32 \<Rightarrow> bytes" where
  "write_u32 v = [ucast (drop_bit 24 v), ucast (drop_bit 16 v), ucast (drop_bit 8 v), ucast v]"

text \<open>
  The \<^verbatim>\<open>while (rb[off])\<close> loop: \<open>None\<close> when it reads behind the request, \<open>Inl\<close> when the function returns
  -1, \<open>Inr\<close> with the request (its length bytes overwritten by dots) and the offset of the final zero.
\<close>

function dns_name_loop :: "bytes \<Rightarrow> nat \<Rightarrow> (bytes + bytes \<times> nat) option" where
  "dns_name_loop rb off =
     (if off \<ge> length rb then None
      else if rb ! off = 0 then Some (Inr (rb, off))
      else
        let poff = off;
            off = off + 1 + unat (rb ! off)
        in if off \<ge> length rb then Some (Inl rb)
           else dns_name_loop (rb[poff := 46]) off)"
  by pat_completeness auto
termination
  by (relation "measure (\<lambda>(rb, off). length rb - off)") auto

declare dns_name_loop.simps [simp del]

record dns_scan =
  sc_self :: HevMappedDNS
  sc_rb :: bytes
  sc_off :: nat
  sc_ips :: "(nat \<times> u32) list"

text \<open>The call of \<^verbatim>\<open>hev_mapped_dns_find\<close> for the question whose name starts at \<open>ipo\<close>.\<close>

definition dns_map_name :: "nat \<Rightarrow> dns_scan \<Rightarrow> dns_scan option" where
  "dns_map_name ipo st =
     (case cstr (drop (ipo + 1) (sc_rb st)) of
        None \<Rightarrow> None
      | Some name \<Rightarrow>
          (case hev_mapped_dns_find name (sc_self st) of
             None \<Rightarrow> None
           | Some (idx, self) \<Rightarrow>
               Some (if idx \<ge> 0
                     then st\<lparr>sc_self := self, sc_ips := sc_ips st @ [(ipo, dns_net self OR word_of_int idx)]\<rparr>
                     else st\<lparr>sc_self := self\<rparr>)))"

text \<open>One pass of the loop over the questions; \<open>Inl\<close> when the function returns -1.\<close>

definition dns_question :: "dns_scan \<Rightarrow> (dns_scan + dns_scan) option" where
  "dns_question st =
     (let ipo = sc_off st
      in case dns_name_loop (sc_rb st) (sc_off st) of
           None \<Rightarrow> None
         | Some (Inl rb) \<Rightarrow> Some (Inl (st\<lparr>sc_rb := rb\<rparr>))
         | Some (Inr (rb, off)) \<Rightarrow>
             let off = off + 1;
                 st = st\<lparr>sc_rb := rb, sc_off := off\<rparr>
             in if off + 3 \<ge> length rb then Some (Inl st)
                else
                  map_option (\<lambda>st. Inr (st\<lparr>sc_off := off + 4\<rparr>))
                    (if read_u16 rb off = 1 \<and> read_u16 rb (off + 2) = 1 then dns_map_name ipo st
                     else Some st))"

fun dns_questions :: "nat \<Rightarrow> dns_scan \<Rightarrow> (dns_scan + dns_scan) option" where
  "dns_questions 0 st = Some (Inr st)"
| "dns_questions (Suc n) st =
     (case dns_question st of
        None \<Rightarrow> None
      | Some (Inl st) \<Rightarrow> Some (Inl st)
      | Some (Inr st) \<Rightarrow> dns_questions n st)"

fun dns_answers :: "(nat \<times> u32) list \<Rightarrow> nat \<Rightarrow> bytes \<Rightarrow> bytes + nat \<times> bytes" where
  "dns_answers [] off sb = Inr (off, sb)"
| "dns_answers ((ipo, ip) # ips) off sb =
     (if off + 15 \<ge> length sb then Inl sb
      else dns_answers ips (off + 16)
        (mem_put sb off ([0xc0, of_nat ipo] @ write_u16 1 @ write_u16 1 @ write_u32 1 @ write_u16 4 @
          write_u32 ip)))"

text \<open>\<^verbatim>\<open>hev_mapped_dns_handle (self, req, qlen, res, slen)\<close> with the two buffers as byte lists of those
  lengths: the result, the structure and the response buffer afterwards.\<close>

definition hev_mapped_dns_handle ::
    "HevMappedDNS \<Rightarrow> bytes \<Rightarrow> bytes \<Rightarrow> (int \<times> HevMappedDNS \<times> bytes) option" where
  "hev_mapped_dns_handle self req res =
     (if length res < length req then Some (- 1, self, res)
      else if length req < 6 \<or> length res < 12 then None
      else
        let res = mem_put res 0 req;
            req = mem_put req 4 (le16 (ntohs (of_le16 (drop 4 req))));
            res = mem_put res 2 (le16 (ntohs (of_le16 (drop 2 res))));
            res = mem_put res 8 (le16 0);
            res = mem_put res 6 (le16 0);
            res = mem_put res 10 (le16 0)
        in if of_le16 (drop 4 req) > 32 then Some (- 1, self, res)
           else
             case dns_questions (unat (of_le16 (drop 4 req)))
                    \<lparr>sc_self = self, sc_rb = req, sc_off = 12, sc_ips = []\<rparr> of
               None \<Rightarrow> None
             | Some (Inl st) \<Rightarrow> Some (- 1, sc_self st, res)
             | Some (Inr st) \<Rightarrow>
                 (case dns_answers (sc_ips st) (sc_off st) res of
                    Inl res \<Rightarrow> Some (- 1, sc_self st, res)
                  | Inr (off, res) \<Rightarrow>
                      let fl = of_le16 (drop 2 res);
                          res = mem_put res 2 (le16 (htons (fl OR 0x8000 OR drop_bit 1 (fl AND 0x100))));
                          res = mem_put res 6 (le16 (htons (of_nat (length (sc_ips st)))))
                      in Some (int off, sc_self st, res)))"

section \<open>The name cache\<close>

text \<open>The abstract cache: names with their indices, the least recently used first.\<close>

type_synonym cache = "(bytes \<times> int) list"

definition touch :: "bytes \<Rightarrow> cache \<Rightarrow> cache" where
  "touch name c = filter (\<lambda>e. fst e \<noteq> name) c @ filter (\<lambda>e. fst e = name) c"

definition cache_find :: "int \<Rightarrow> bytes \<Rightarrow> cache \<Rightarrow> int \<times> cache" where
  "cache_find maxn name c =
     (case map_of c name of
        Some idx \<Rightarrow> (idx, touch name c)
      | None \<Rightarrow>
          if int (length c) < maxn then (int (length c), c @ [(name, int (length c))])
          else (snd (hd c), tl c @ [(name, snd (hd c))]))"

interpretation si: key_index strcmp cstring
  by unfold_locales (simp add: strcmp_eq_0, rule strcmp_antisym, rule strcmp_trans)

definition dns_key :: "HevMappedDNS \<Rightarrow> ptr \<Rightarrow> bytes" where
  "dns_key self p = dn_name (dns_nodes self p)"

definition dns_entry :: "HevMappedDNS \<Rightarrow> ptr \<Rightarrow> bytes \<times> int" where
  "dns_entry self p = (dn_name (dns_nodes self p), dn_idx (dns_nodes self p))"

text \<open>A block that \<^verbatim>\<open>hev_malloc0\<close> may return: aligned, not in use, not at the end of the address space.\<close>

definition fresh_block :: "ptr \<Rightarrow> HevMappedDNS \<Rightarrow> bool" where
  "fresh_block p self \<longleftrightarrow> p \<noteq> NULL \<and> aligned p \<and> list_addr p \<noteq> NULL \<and> p \<notin> dns_live self"

text \<open>The structure holds the cache \<open>c\<close>, its nodes being \<open>ps\<close>.\<close>

definition dns_nodes_at :: "HevMappedDNS \<Rightarrow> ptr list \<Rightarrow> bool" where
  "dns_nodes_at self ps \<longleftrightarrow>
     list_at (dns_lheap self) (dns_list self) (map list_addr ps) \<and>
     si.index (dns_tree self) (dns_key self) (set ps) \<and>
     dns_live self = set ps \<and>
     dns_use self = int (length ps) \<and> dns_use self \<le> dns_max self \<and>
     length (dns_records self) = nat (dns_max self) \<and>
     (\<forall>p\<in>set ps. 0 \<le> dn_idx (dns_nodes self p) \<and> dn_idx (dns_nodes self p) < dns_use self \<and>
        dns_records self ! nat (dn_idx (dns_nodes self p)) = p) \<and>
     (\<forall>i. length ps \<le> i \<longrightarrow> i < length (dns_records self) \<longrightarrow> dns_records self ! i = NULL)"

definition dns_at :: "HevMappedDNS \<Rightarrow> cache \<Rightarrow> bool" where
  "dns_at self c \<longleftrightarrow> (\<exists>ps. dns_nodes_at self ps \<and> c = map (dns_entry self) ps)"

lemma list_addr_eq [simp]: "list_addr a = list_addr b \<longleftrightarrow> a = b"
  by (simp add: list_addr_def)

lemma list_container_addr [simp]: "list_container (list_addr a) = a"
  by (simp add: list_container_def list_addr_def)

lemma inj_list_addr: "inj_on list_addr A"
  by (auto simp: inj_on_def)

lemma list_addr_mem [simp]: "list_addr a \<in> list_addr ` A \<longleftrightarrow> a \<in> A"
  by auto

lemma map_list_addr_remove1: "remove1 (list_addr a) (map list_addr ps) = map list_addr (remove1 a ps)"
  by (induction ps) auto

lemma dns_nodes_distinct: "dns_nodes_at self ps \<Longrightarrow> distinct ps"
  by (auto simp: dns_nodes_at_def distinct_map dest!: list_at_distinct)

lemma list_fields [simp]:
  "dns_use (dns_list_del n d) = dns_use d" "dns_max (dns_list_del n d) = dns_max d"
  "dns_tree (dns_list_del n d) = dns_tree d" "dns_records (dns_list_del n d) = dns_records d"
  "dns_nodes (dns_list_del n d) = dns_nodes d" "dns_live (dns_list_del n d) = dns_live d"
  "dns_net (dns_list_del n d) = dns_net d" "dns_mask (dns_list_del n d) = dns_mask d"
  "dns_alloc (dns_list_del n d) = dns_alloc d"
  "dns_use (dns_list_add_tail n d) = dns_use d" "dns_max (dns_list_add_tail n d) = dns_max d"
  "dns_tree (dns_list_add_tail n d) = dns_tree d" "dns_records (dns_list_add_tail n d) = dns_records d"
  "dns_nodes (dns_list_add_tail n d) = dns_nodes d" "dns_live (dns_list_add_tail n d) = dns_live d"
  "dns_net (dns_list_add_tail n d) = dns_net d" "dns_mask (dns_list_add_tail n d) = dns_mask d"
  "dns_alloc (dns_list_add_tail n d) = dns_alloc d"
  by (simp_all add: dns_list_del_def dns_list_add_tail_def split: prod.splits)

lemma dns_list_del_at:
  "list_at (dns_lheap d) (dns_list d) (map list_addr ps) \<Longrightarrow> n \<in> set ps \<Longrightarrow>
     list_at (dns_lheap (dns_list_del n d)) (dns_list (dns_list_del n d)) (map list_addr (remove1 n ps))"
  by (auto simp: dns_list_del_def map_list_addr_remove1 [symmetric] intro: hl.del_remove1 split: prod.splits)

lemma dns_list_add_at:
  "list_at (dns_lheap d) (dns_list d) (map list_addr ps) \<Longrightarrow> n \<notin> set ps \<Longrightarrow> list_addr n \<noteq> NULL \<Longrightarrow>
     list_at (dns_lheap (dns_list_add_tail n d)) (dns_list (dns_list_add_tail n d)) (map list_addr (ps @ [n]))"
  by (auto simp: dns_list_add_tail_def intro: add_tail_list_at split: prod.splits)

text \<open>Moving a node to the end of the list.\<close>

lemma dns_touch:
  assumes "dns_nodes_at d ps" "n \<in> set ps"
  shows "dns_nodes_at (dns_list_add_tail n (dns_list_del n d)) (remove1 n ps @ [n])"
proof -
  have l: "list_at (dns_lheap d) (dns_list d) (map list_addr ps)" using assms by (simp add: dns_nodes_at_def)
  have nn: "list_addr n \<noteq> NULL" using list_at_nonnull [OF l] assms(2) by auto
  have d: "distinct ps" using assms(1) by (rule dns_nodes_distinct)
  have k: "dns_key (dns_list_add_tail n (dns_list_del n d)) = dns_key d"
    by (auto simp: dns_key_def)
  have s: "set (remove1 n ps @ [n]) = set ps" using assms(2) d by auto
  have len: "length (remove1 n ps @ [n]) = length ps"
    using assms(2) by (simp add: length_remove1) (cases ps; simp)
  show ?thesis
    using assms(1) dns_list_add_at [OF dns_list_del_at [OF l assms(2)] _ nn] d
    unfolding dns_nodes_at_def s len k by auto
qed


lemma filter_key_one:
  assumes "distinct ps" "inj_on (fst \<circ> e) (set ps)" "n \<in> set ps" "fst (e n) = k"
  shows "filter (\<lambda>x. fst x = k) (map e ps) = [e n]"
  using assms
proof (induction ps)
  case (Cons p ps)
  show ?case
  proof (cases "n = p")
    case True
    with Cons.prems have "filter (\<lambda>x. fst x = k) (map e ps) = []"
      by (auto simp: inj_on_def filter_empty_conv)
    with True Cons.prems show ?thesis by simp
  next
    case False
    with Cons.prems have "fst (e p) \<noteq> k" by (auto simp: inj_on_def)
    with False Cons show ?thesis by simp
  qed
qed simp

lemma map_remove1_filter:
  assumes "distinct ps" "inj_on (fst \<circ> e) (set ps)" "n \<in> set ps" "fst (e n) = k"
  shows "map e (remove1 n ps) = filter (\<lambda>x. fst x \<noteq> k) (map e ps)"
  using assms
proof (induction ps)
  case (Cons p ps)
  show ?case
  proof (cases "n = p")
    case True
    with Cons.prems have "filter (\<lambda>x. fst x \<noteq> k) (map e ps) = map e ps"
      by (intro filter_True) (auto simp: inj_on_def)
    with True Cons.prems show ?thesis by simp
  next
    case False
    with Cons.prems have "fst (e p) \<noteq> k" by (auto simp: inj_on_def)
    with False Cons show ?thesis by simp
  qed
qed simp

lemma dns_inj:
  assumes "dns_nodes_at d ps"
  shows "inj_on (fst \<circ> dns_entry d) (set ps)"
  using assms si.index_inj [of "dns_tree d" "dns_key d" "set ps"]
  by (simp add: dns_nodes_at_def inj_on_def dns_key_def dns_entry_def)

lemma dns_map_of:
  assumes "dns_nodes_at d ps"
  shows "n \<in> set ps \<Longrightarrow> map_of (map (dns_entry d) ps) (dn_name (dns_nodes d n)) = Some (dn_idx (dns_nodes d n))"
    and "name \<notin> dns_key d ` set ps \<Longrightarrow> map_of (map (dns_entry d) ps) name = None"
proof -
  have "distinct (map fst (map (dns_entry d) ps))"
    using dns_inj [OF assms] dns_nodes_distinct [OF assms] by (simp add: distinct_map inj_on_def)
  then show "n \<in> set ps \<Longrightarrow> map_of (map (dns_entry d) ps) (dn_name (dns_nodes d n)) = Some (dn_idx (dns_nodes d n))"
    by (intro map_of_is_SomeI) (auto simp: dns_entry_def)
  show "name \<notin> dns_key d ` set ps \<Longrightarrow> map_of (map (dns_entry d) ps) name = None"
    by (auto simp: map_of_eq_None_iff dns_entry_def dns_key_def)
qed

lemma dns_touch_cache:
  assumes "dns_nodes_at d ps" "n \<in> set ps"
  shows "dns_at (dns_list_add_tail n (dns_list_del n d)) (touch (dn_name (dns_nodes d n)) (map (dns_entry d) ps))"
proof -
  let ?d = "dns_list_add_tail n (dns_list_del n d)"
  have "map (dns_entry ?d) (remove1 n ps @ [n]) = touch (dn_name (dns_nodes d n)) (map (dns_entry d) ps)"
  proof -
    have e: "dns_entry ?d = dns_entry d" by (auto simp: dns_entry_def)
    have f: "fst (dns_entry d n) = dn_name (dns_nodes d n)" by (simp add: dns_entry_def)
    note * = dns_nodes_distinct [OF assms(1)] dns_inj [OF assms(1)] assms(2) f
    show ?thesis unfolding touch_def e using map_remove1_filter [OF *] filter_key_one [OF *] by simp
  qed
  with dns_touch [OF assms] show ?thesis unfolding dns_at_def by metis
qed

text \<open>The search loop on the name tree.\<close>

lemma dns_search:
  assumes "dns_nodes_at d ps" "cstring name"
  shows "(\<exists>n. rb_descend (\<lambda>n. strcmp (dn_name (dns_nodes d n)) name) (dns_tree d) Root NULL = Some (Inl n) \<and>
      n \<in> set ps \<and> dn_name (dns_nodes d n) = name) \<or>
    (name \<notin> dns_key d ` set ps \<and>
     (\<exists>p l. rb_descend (\<lambda>n. strcmp (dn_name (dns_nodes d n)) name) (dns_tree d) Root NULL = Some (Inr (p, l)) \<and>
      (\<forall>node key'. node \<noteq> NULL \<longrightarrow> aligned node \<longrightarrow> node \<notin> set ps \<longrightarrow> key' node = name \<longrightarrow>
        (\<forall>x\<in>set ps. key' x = dns_key d x) \<longrightarrow>
        (\<exists>t. hev_rbtree_insert_color node (hev_rbtree_node_link node p l (dns_tree d)) = Some t \<and>
          si.index t key' (insert node (set ps))))))"
  using si.index_descend [of "dns_tree d" "dns_key d" "set ps" name] assms
  by (simp add: dns_nodes_at_def dns_key_def)

text \<open>The state after a new node has been linked into the tree and appended to the list.\<close>

definition dns_linked :: "bytes \<Rightarrow> HevMappedDNS \<Rightarrow> HevMappedDNS \<Rightarrow> ptr list \<Rightarrow> ptr \<Rightarrow> bool" where
  "dns_linked name d d1 ps node \<longleftrightarrow>
     list_at (dns_lheap d1) (dns_list d1) (map list_addr (ps @ [node])) \<and>
     si.index (dns_tree d1) (dns_key d1) (insert node (set ps)) \<and>
     dns_live d1 = insert node (set ps) \<and> dns_use d1 = dns_use d \<and> dns_max d1 = dns_max d \<and>
     dns_records d1 = dns_records d \<and> dns_net d1 = dns_net d \<and> dns_mask d1 = dns_mask d \<and>
     dns_nodes d1 = (dns_nodes d)(node := \<lparr>dn_name = name, dn_idx = 0\<rparr>)"

lemma dns_record_room:
  assumes d: "dns_nodes_at d ps" and l: "dns_linked name d d1 ps node" and n: "node \<notin> set ps"
    and room: "dns_use d < dns_max d"
  shows "\<exists>d'. dns_record (dns_use d) node (d1\<lparr>dns_use := dns_use d1 + 1\<rparr>) = Some (int (length ps), d') \<and>
    dns_at d' (map (dns_entry d) ps @ [(name, int (length ps))]) \<and> dns_net d' = dns_net d \<and> dns_mask d' = dns_mask d"
proof -
  let ?i = "length ps"
  let ?d = "d1\<lparr>dns_use := dns_use d1 + 1, dns_records := (dns_records d1)[?i := node],
     dns_nodes := (dns_nodes d1)(node := \<lparr>dn_name = name, dn_idx = int ?i\<rparr>)\<rparr>"
  have u: "dns_use d = int ?i" and lr: "?i < length (dns_records d)"
    using d room by (auto simp: dns_nodes_at_def)
  have r: "dns_record (dns_use d) node (d1\<lparr>dns_use := dns_use d1 + 1\<rparr>) = Some (int ?i, ?d)"
    using l u lr by (simp add: dns_record_def dns_linked_def fun_upd_def)
  have k: "si.index (dns_tree d1) (dns_key ?d) (insert node (set ps))"
    using l by (auto simp: dns_linked_def dns_key_def elim!: si.index_cong)
  have "dns_nodes_at ?d (ps @ [node])"
    using d l k n room lr unfolding dns_nodes_at_def dns_linked_def
    by (auto simp: nth_list_update nth_append)
  moreover have "map (dns_entry ?d) (ps @ [node]) = map (dns_entry d) ps @ [(name, int ?i)]"
    using l n by (auto simp: dns_linked_def dns_entry_def)
  ultimately have "dns_at ?d (map (dns_entry d) ps @ [(name, int ?i)])"
    unfolding dns_at_def by metis
  with r l show ?thesis by (auto simp: dns_linked_def)
qed

lemma dns_record_evict:
  assumes d: "dns_nodes_at d (nf # ps)" and l: "dns_linked name d d1 (nf # ps) node"
    and n: "node \<notin> set (nf # ps)" and full: "\<not> dns_use d < dns_max d"
  shows "\<exists>t d'. hev_rbtree_erase nf (dns_tree d1) = Some t \<and>
    dns_record (dn_idx (dns_nodes d1 nf)) node
      (hev_mapped_dns_node_free nf (dns_list_del nf (d1\<lparr>dns_tree := t\<rparr>))) = Some (dn_idx (dns_nodes d nf), d') \<and>
    dns_at d' (map (dns_entry d) ps @ [(name, dn_idx (dns_nodes d nf))]) \<and>
    dns_net d' = dns_net d \<and> dns_mask d' = dns_mask d"
proof -
  let ?i = "dn_idx (dns_nodes d nf)"
  have di: "distinct (nf # ps)" using d by (rule dns_nodes_distinct)
  have i: "0 \<le> ?i" "nat ?i < length (dns_records d)" "dns_records d ! nat ?i = nf"
    using d by (auto simp: dns_nodes_at_def)
  obtain t where t: "hev_rbtree_erase nf (dns_tree d1) = Some t"
      "si.index t (dns_key d1) (insert node (set (nf # ps)) - {nf})"
    using l si.index_erase [of "dns_tree d1" "dns_key d1" "insert node (set (nf # ps))" nf]
    by (auto simp: dns_linked_def)
  let ?d2 = "hev_mapped_dns_node_free nf (dns_list_del nf (d1\<lparr>dns_tree := t\<rparr>))"
  let ?d = "?d2\<lparr>dns_records := (dns_records d1)[nat ?i := node],
     dns_nodes := (dns_nodes d1)(node := \<lparr>dn_name = name, dn_idx = ?i\<rparr>)\<rparr>"
  have nf: "nf \<noteq> node" "nf \<notin> set ps" using n di by auto
  have r: "dns_record (dn_idx (dns_nodes d1 nf)) node ?d2 = Some (?i, ?d)"
    using l i nf by (simp add: dns_record_def dns_linked_def hev_mapped_dns_node_free_def)
  have ls: "list_at (dns_lheap ?d) (dns_list ?d) (map list_addr (ps @ [node]))"
    using dns_list_del_at [of "d1\<lparr>dns_tree := t\<rparr>" "nf # ps @ [node]" nf] l nf
    by (simp add: dns_linked_def hev_mapped_dns_node_free_def)
  have s: "insert node (set (nf # ps)) - {nf} = set (ps @ [node])" using nf by auto
  have k: "si.index t (dns_key ?d) (set (ps @ [node]))"
    using t(2) l unfolding s by (auto simp: dns_linked_def dns_key_def elim!: si.index_cong)
  have idx: "dn_idx (dns_nodes d p) \<noteq> ?i" if "p \<in> set ps" for p
  proof
    assume "dn_idx (dns_nodes d p) = ?i"
    moreover have "dns_records d ! nat (dn_idx (dns_nodes d p)) = p"
      using d that by (simp add: dns_nodes_at_def)
    ultimately show False using i(3) nf(2) that by metis
  qed
  have "dns_nodes_at ?d (ps @ [node])"
    unfolding dns_nodes_at_def
  proof (intro conjI ballI)
    show "list_at (dns_lheap ?d) (dns_list ?d) (map list_addr (ps @ [node]))" by (rule ls)
    show "si.index (dns_tree ?d) (dns_key ?d) (set (ps @ [node]))"
      using k by (simp add: hev_mapped_dns_node_free_def)
    show "dns_live ?d = set (ps @ [node])"
      using l nf by (auto simp: dns_linked_def hev_mapped_dns_node_free_def)
    show "dns_use ?d = int (length (ps @ [node]))" "dns_use ?d \<le> dns_max ?d"
        "length (dns_records ?d) = nat (dns_max ?d)"
      using d l by (auto simp: dns_linked_def hev_mapped_dns_node_free_def dns_nodes_at_def)
    show "\<forall>i\<ge>length (ps @ [node]). i < length (dns_records ?d) \<longrightarrow> dns_records ?d ! i = NULL"
      using d l full by (auto simp: dns_linked_def dns_nodes_at_def nth_list_update)
    fix p assume "p \<in> set (ps @ [node])"
    then consider "p = node" | "p \<in> set ps" "p \<noteq> node" using n by auto
    then have "0 \<le> dn_idx (dns_nodes ?d p) \<and> dn_idx (dns_nodes ?d p) < dns_use ?d \<and>
        dns_records ?d ! nat (dn_idx (dns_nodes ?d p)) = p"
    proof cases
      case 1
      have "?i < dns_use d" using d by (simp add: dns_nodes_at_def)
      with 1 i l show ?thesis by (simp add: dns_linked_def hev_mapped_dns_node_free_def)
    next
      case 2
      then have "dns_nodes ?d p = dns_nodes d p" using l by (simp add: dns_linked_def)
      moreover have *: "0 \<le> dn_idx (dns_nodes d p)" "dn_idx (dns_nodes d p) < dns_use d"
          "dns_records d ! nat (dn_idx (dns_nodes d p)) = p"
        using d 2 by (auto simp: dns_nodes_at_def)
      moreover have "nat (dn_idx (dns_nodes d p)) \<noteq> nat ?i" using *(1) i(1) idx [OF 2(1)] by (simp add: eq_nat_nat_iff)
      ultimately show ?thesis using l 2 by (simp add: dns_linked_def hev_mapped_dns_node_free_def)
    qed
    then show "0 \<le> dn_idx (dns_nodes ?d p)" "dn_idx (dns_nodes ?d p) < dns_use ?d"
        "dns_records ?d ! nat (dn_idx (dns_nodes ?d p)) = p" by blast+
  qed
  moreover have "map (dns_entry ?d) (ps @ [node]) = map (dns_entry d) ps @ [(name, ?i)]"
    using l n by (auto simp: dns_linked_def dns_entry_def hev_mapped_dns_node_free_def)
  ultimately have "dns_at ?d (map (dns_entry d) ps @ [(name, ?i)])"
    unfolding dns_at_def by metis
  with t r l show ?thesis by (auto simp: dns_linked_def hev_mapped_dns_node_free_def)
qed

text \<open>Searching a name implements \<open>cache_find\<close>.\<close>

lemma find_found:
  assumes d: "dns_nodes_at d ps" and "n \<in> set ps" "dn_name (dns_nodes d n) = name"
    and "rb_descend (\<lambda>n. strcmp (dn_name (dns_nodes d n)) name) (dns_tree d) Root NULL = Some (Inl n)"
  shows "\<exists>d'. hev_mapped_dns_find name d = Some (fst (cache_find (dns_max d) name (map (dns_entry d) ps)), d') \<and>
    dns_at d' (snd (cache_find (dns_max d) name (map (dns_entry d) ps))) \<and>
    dns_net d' = dns_net d \<and> dns_mask d' = dns_mask d \<and> dns_max d' = dns_max d"
  using assms dns_map_of(1) [OF d, of n] dns_touch_cache [OF d, of n]
  by (simp add: hev_mapped_dns_find_def cache_find_def)

lemma find_refines:
  assumes c: "dns_at d c" and name: "cstring name" and maxn: "0 < dns_max d"
    and a: "dns_alloc d = node # rest" "fresh_block node d"
  shows "\<exists>d'. hev_mapped_dns_find name d = Some (fst (cache_find (dns_max d) name c), d') \<and>
    dns_at d' (snd (cache_find (dns_max d) name c)) \<and>
    dns_net d' = dns_net d \<and> dns_mask d' = dns_mask d"
proof -
  from c obtain ps where ps: "dns_nodes_at d ps" "c = map (dns_entry d) ps" by (auto simp: dns_at_def)
  let ?s = "\<lambda>n. strcmp (dn_name (dns_nodes d n)) name"
  consider n where "rb_descend ?s (dns_tree d) Root NULL = Some (Inl n)" "n \<in> set ps" "dn_name (dns_nodes d n) = name"
    | p l where "name \<notin> dns_key d ` set ps" "rb_descend ?s (dns_tree d) Root NULL = Some (Inr (p, l))"
      "\<forall>node key'. node \<noteq> NULL \<longrightarrow> aligned node \<longrightarrow> node \<notin> set ps \<longrightarrow> key' node = name \<longrightarrow>
        (\<forall>x\<in>set ps. key' x = dns_key d x) \<longrightarrow>
        (\<exists>t. hev_rbtree_insert_color node (hev_rbtree_node_link node p l (dns_tree d)) = Some t \<and>
          si.index t key' (insert node (set ps)))"
    using dns_search [OF ps(1) name] by blast
  then show ?thesis
  proof cases
    case 1
    with find_found [OF ps(1) 1(2,3)] show ?thesis by (auto simp: ps(2))
  next
    case 2
    have f: "node \<noteq> NULL" "aligned node" "list_addr node \<noteq> NULL" "node \<notin> set ps"
      using a(2) ps(1) by (auto simp: fresh_block_def dns_nodes_at_def)
    let ?d0 = "d\<lparr>dns_alloc := rest, dns_live := insert node (dns_live d),
        dns_nodes := (dns_nodes d)(node := \<lparr>dn_name = name, dn_idx = 0\<rparr>)\<rparr>"
    have al: "hev_mapped_dns_node_alloc name d = (node, ?d0)"
      using a f by (simp add: hev_mapped_dns_node_alloc_def)
    obtain t where t: "hev_rbtree_insert_color node (hev_rbtree_node_link node p l (dns_tree d)) = Some t"
        "si.index t (dns_key ?d0) (insert node (set ps))"
    proof -
      have "dns_key ?d0 node = name" "\<forall>x\<in>set ps. dns_key ?d0 x = dns_key d x"
        using f by (auto simp: dns_key_def)
      then show thesis using 2(3) f that by blast
    qed
    let ?d1 = "dns_list_add_tail node (?d0\<lparr>dns_tree := t\<rparr>)"
    have k: "dns_key ?d1 = dns_key ?d0" by (auto simp: dns_key_def)
    have l: "dns_linked name d ?d1 ps node"
      using ps(1) t(2) f dns_list_add_at [of "?d0\<lparr>dns_tree := t\<rparr>" ps node]
      unfolding dns_linked_def k by (simp add: dns_nodes_at_def)
    have n: "map_of c name = None" using dns_map_of(2) [OF ps(1) 2(1)] by (simp add: ps(2))
    have len: "dns_use d = int (length c)" using ps by (simp add: dns_nodes_at_def)
    show ?thesis
    proof (cases "dns_use d < dns_max d")
      case True
      then show ?thesis
        using dns_record_room [OF ps(1) l f(4) True] n len f(1)
        by (auto simp: hev_mapped_dns_find_def 2(2) al t(1) cache_find_def ps(2))
    next
      case False
      with ps(1) maxn obtain nf qs where q: "ps = nf # qs" by (cases ps) (auto simp: dns_nodes_at_def)
      have "hev_list_first (dns_list ?d1) = list_addr nf"
        using l by (auto simp: dns_linked_def q dest!: list_at_first)
      then show ?thesis
        using dns_record_evict [of d nf qs name ?d1 node] ps l f False n len
        by (auto simp: hev_mapped_dns_find_def 2(2) al t(1) cache_find_def q dns_entry_def)
    qed
  qed
qed

lemma dns_idx_surj:
  assumes d: "dns_nodes_at d ps" and i: "0 \<le> i" "i < int (length ps)"
  shows "\<exists>p\<in>set ps. dn_idx (dns_nodes d p) = i"
proof -
  let ?f = "\<lambda>p. dn_idx (dns_nodes d p)"
  have r: "\<forall>p\<in>set ps. dns_records d ! nat (?f p) = p" using d by (simp add: dns_nodes_at_def)
  have "inj_on ?f (set ps)"
    by (rule inj_onI) (metis r)
  then have "card (?f ` set ps) = length ps"
    using distinct_card [OF dns_nodes_distinct [OF d]] by (simp add: card_image)
  moreover have "?f ` set ps \<subseteq> {0..<int (length ps)}"
    using d by (auto simp: dns_nodes_at_def)
  ultimately have "?f ` set ps = {0..<int (length ps)}"
    by (intro card_seteq) auto
  moreover have "i \<in> {0..<int (length ps)}" using i by simp
  ultimately show ?thesis by (metis imageE)
qed

lemma lookup_refines:
  assumes c: "dns_at d c" and idx: "sint (ip AND NOT (dns_mask d)) = i" "0 \<le> i"
  shows "\<exists>d'. hev_mapped_dns_lookup ip d =
      Some (case find (\<lambda>e. snd e = i) c of Some e \<Rightarrow> Some (fst e) | None \<Rightarrow> None, d') \<and>
    dns_at d' (case find (\<lambda>e. snd e = i) c of Some e \<Rightarrow> touch (fst e) c | None \<Rightarrow> c)"
proof -
  from c obtain ps where ps: "dns_nodes_at d ps" "c = map (dns_entry d) ps" by (auto simp: dns_at_def)
  show ?thesis
  proof (cases "find (\<lambda>e. snd e = i) c")
    case None
    then have no: "\<forall>p\<in>set ps. dn_idx (dns_nodes d p) \<noteq> i" by (auto simp: ps(2) find_None_iff dns_entry_def)
    then have "int (length ps) \<le> i"
      using dns_idx_surj [OF ps(1) idx(2)] by force
    then have "i < dns_max d \<Longrightarrow> dns_records d ! nat i = NULL"
      using ps(1) by (simp add: dns_nodes_at_def nat_le_iff)
    then show ?thesis
      using None idx c ps(1) by (auto simp: hev_mapped_dns_lookup_def dns_nodes_at_def)
  next
    case (Some e)
    then obtain p where p: "p \<in> set ps" "dn_idx (dns_nodes d p) = i" "e = dns_entry d p"
    proof -
      assume that: "\<And>p. p \<in> set ps \<Longrightarrow> dn_idx (dns_nodes d p) = i \<Longrightarrow> e = dns_entry d p \<Longrightarrow> thesis"
      from Some have "e \<in> set c" "snd e = i" by (auto simp: find_Some_iff)
      then show thesis using that by (auto simp: ps(2) dns_entry_def)
    qed
    then have "nat i < length (dns_records d)" "dns_records d ! nat i = p" "i < dns_max d" "p \<noteq> NULL"
      using ps(1) idx si.index_nonnull [of "dns_tree d" "dns_key d" "set ps" p] by (auto simp: dns_nodes_at_def)
    then show ?thesis
      using Some p idx dns_touch_cache [OF ps(1) p(1)]
      by (auto simp: hev_mapped_dns_lookup_def ps(2) dns_entry_def)
  qed
qed

end
