(* ===== verification/HevMappedDNSWire.thy ===== *)
theory HevMappedDNSWire
  imports HevMappedDNS
begin

text \<open>
  The name cache seen from the tunnel: what a query for a name is answered with, byte for byte, that
  the address in the answer leads back to the name, and where the handler reads outside the request.
\<close>

section \<open>Queries on the wire\<close>

text \<open>The wire form of a name, the form after the loop has put dots over the length bytes, and the
  string the cache sees.\<close>

definition wire_name :: "bytes list \<Rightarrow> bytes" where
  "wire_name ls = concat (map (\<lambda>l. of_nat (length l) # l) ls)"

definition dotted :: "bytes list \<Rightarrow> bytes" where
  "dotted ls = concat (map (\<lambda>l. 46 # l) ls)"

definition label_ok :: "bytes \<Rightarrow> bool" where
  "label_ok l \<longleftrightarrow> 0 < length l \<and> length l < 256 \<and> cstring l"

lemma length_wire_name: "length (wire_name ls) = length (dotted ls)"
  by (induction ls) (auto simp: wire_name_def dotted_def)

lemma unat_label: "label_ok l \<Longrightarrow> unat (of_nat (length l) :: byte) = length l"
  by (simp add: label_ok_def unat_of_nat take_bit_nat_eq_self_iff)

lemma name_loop_labels:
  assumes "\<forall>l\<in>set ls. label_ok l"
  shows "dns_name_loop (pre @ wire_name ls @ 0 # post) (length pre) =
    Some (Inr (pre @ dotted ls @ 0 # post, length pre + length (dotted ls)))"
  using assms
proof (induction ls arbitrary: pre)
  case Nil
  then show ?case by (subst dns_name_loop.simps) (simp add: wire_name_def dotted_def)
next
  case (Cons l ls)
  let ?n = "of_nat (length l) :: byte"
  let ?rb = "pre @ wire_name (l # ls) @ 0 # post"
  have rb: "?rb = pre @ ?n # l @ wire_name ls @ 0 # post" by (simp add: wire_name_def)
  have n: "unat ?n = length l" "?n \<noteq> 0"
    using Cons.prems unat_label [of l] by (auto simp: label_ok_def simp flip: unat_eq_zero)
  have up: "?rb[length pre := 46] = (pre @ 46 # l) @ wire_name ls @ 0 # post" by (simp add: rb)
  have at: "?rb ! length pre = ?n" by (simp add: rb)
  have "dns_name_loop ?rb (length pre) = dns_name_loop ((pre @ 46 # l) @ wire_name ls @ 0 # post) (length (pre @ 46 # l))"
  proof -
    have "length (wire_name (l # ls)) = Suc (length l + length (wire_name ls))" by (simp add: wire_name_def)
    then show ?thesis
      by (subst dns_name_loop.simps) (simp add: at n up del: append_assoc append_Cons)
  qed
  also have "\<dots> = Some (Inr ((pre @ 46 # l) @ dotted ls @ 0 # post, length (pre @ 46 # l) + length (dotted ls)))"
    using Cons by (intro Cons.IH) auto
  finally show ?case by (simp add: dotted_def)
qed

lemma cstring_dotted: "\<forall>l\<in>set ls. label_ok l \<Longrightarrow> cstring (dotted ls)"
  by (induction ls) (auto simp: dotted_def label_ok_def)

lemma of_le16_app [simp]: "of_le16 ((le16 v @ xs) @ ys) = v" "of_le16 (le16 v @ xs @ ys) = v"
  by simp_all

lemma mem_put_at:
  "length a = i \<Longrightarrow> length b = length b' \<Longrightarrow> mem_put (a @ b @ c) i b' = a @ b' @ c"
  by (simp add: mem_put_def)


lemma length_write [simp]: "length (write_u16 v) = 2" "length (write_u32 w) = 4"
  by (simp_all add: write_u16_def write_u32_def)

lemma le16_htons: "le16 (htons v) = write_u16 v"
proof -
  have "ucast (push_bit 8 v OR drop_bit 8 v) = (ucast (drop_bit 8 v) :: byte)"
    by (rule bit_word_eqI) (auto simp: bit_or_iff bit_push_bit_iff bit_ucast_iff bit_drop_bit_eq)
  moreover have "ucast (drop_bit 8 (push_bit 8 v OR drop_bit 8 v)) = (ucast v :: byte)"
    by (rule bit_word_eqI) (auto simp: bit_or_iff bit_push_bit_iff bit_ucast_iff bit_drop_bit_eq
        dest: bit_imp_le_length)
  ultimately show ?thesis by (simp add: le16_def htons_def write_u16_def)
qed

lemma htons_write_u16 [simp]: "htons (of_le16 (write_u16 v @ xs)) = v"
  unfolding le16_htons [symmetric] by simp

lemma of_le16_write_u16: "of_le16 (write_u16 v @ xs) = htons v"
  unfolding le16_htons [symmetric] by simp

lemma read_write_u16 [simp]: "read_u16 (pre @ write_u16 v @ post) (length pre) = v"
proof -
  have "push_bit 8 (ucast (ucast (drop_bit 8 v) :: byte)) OR ucast (ucast v :: byte) = v"
    by (rule bit_word_eqI) (auto simp: bit_or_iff bit_push_bit_iff bit_ucast_iff bit_drop_bit_eq)
  then show ?thesis by (simp add: read_u16_def write_u16_def nth_append)
qed

text \<open>A query with one question of type A and class IN, as \<open>id\<close>, flags, the other counts and whatever
  follows the question.\<close>

definition a_query :: "bytes \<Rightarrow> u16 \<Rightarrow> bytes \<Rightarrow> bytes list \<Rightarrow> bytes \<Rightarrow> bytes" where
  "a_query qid fl cnt ls rest =
     qid @ write_u16 fl @ write_u16 1 @ cnt @ wire_name ls @ [0] @ write_u16 1 @ write_u16 1 @ rest"

definition a_reply :: "bytes \<Rightarrow> u16 \<Rightarrow> bytes list \<Rightarrow> u32 \<Rightarrow> bytes" where
  "a_reply qid fl ls ip =
     qid @ write_u16 (fl OR 0x8000 OR drop_bit 1 (fl AND 0x100)) @ write_u16 1 @ write_u16 1 @
     [0, 0, 0, 0] @ wire_name ls @ [0] @ write_u16 1 @ write_u16 1 @
     [0xc0, 12] @ write_u16 1 @ write_u16 1 @ write_u32 1 @ write_u16 4 @ write_u32 ip"

lemma question_refines:
  assumes ls: "ls \<noteq> []" "\<forall>l\<in>set ls. label_ok l" and h: "length hdr = 12"
    and f: "hev_mapped_dns_find (tl (dotted ls)) d = Some (idx, d')" "0 \<le> idx"
  shows "\<exists>rb. dns_question \<lparr>sc_self = d, sc_rb = hdr @ wire_name ls @ [0] @ write_u16 1 @ write_u16 1 @ rest,
      sc_off = 12, sc_ips = []\<rparr> =
    Some (Inr \<lparr>sc_self = d', sc_rb = rb, sc_off = 12 + length (wire_name ls) + 5,
      sc_ips = [(12, dns_net d' OR word_of_int idx)]\<rparr>)"
proof -
  let ?q = "write_u16 1 @ write_u16 1 @ rest"
  let ?rb = "hdr @ dotted ls @ 0 # ?q"
  let ?off = "Suc (12 + length (dotted ls))"
  have loop: "dns_name_loop (hdr @ wire_name ls @ [0] @ ?q) 12 = Some (Inr (?rb, 12 + length (dotted ls)))"
    using name_loop_labels [OF ls(2), of hdr ?q] h by simp
  obtain n where n: "dotted ls = 46 # n" using ls(1) by (cases ls) (auto simp: dotted_def)
  have "cstring n" using cstring_dotted [OF ls(2)] n by simp
  then have name: "cstr (drop 13 ?rb) = Some (tl (dotted ls))"
    using h n by (simp add: cstr_terminated)
  have r: "read_u16 ?rb ?off = 1" "read_u16 ?rb (?off + 2) = 1"
    using read_write_u16 [of "hdr @ dotted ls @ [0]" 1 "write_u16 1 @ rest"]
      read_write_u16 [of "hdr @ dotted ls @ [0] @ write_u16 1" 1 rest] h by simp_all
  show ?thesis
    using f loop name r h by (auto simp: dns_question_def Let_def dns_map_name_def length_wire_name)
qed

lemma handle_query:
  assumes ls: "ls \<noteq> []" "\<forall>l\<in>set ls. label_ok l" and q: "length qid = 2" "length cnt = 6"
    and f: "hev_mapped_dns_find (tl (dotted ls)) d = Some (idx, d')" "0 \<le> idx"
    and len: "length (a_query qid fl cnt ls rest) \<le> length res" "length (wire_name ls) + 33 \<le> length res"
  shows "\<exists>res'. hev_mapped_dns_handle d (a_query qid fl cnt ls rest) res = Some (int (length (wire_name ls) + 33), d', res') \<and>
    take (length (wire_name ls) + 33) res' = a_reply qid fl ls (dns_net d' OR word_of_int idx) \<and>
    length res' = length res"
proof -
  let ?w = "wire_name ls @ [0] @ write_u16 1 @ write_u16 1"
  let ?req = "a_query qid fl cnt ls rest"
  let ?ip = "dns_net d' OR word_of_int idx"
  let ?an = "[0xc0, 12] @ write_u16 1 @ write_u16 1 @ write_u32 1 @ write_u16 4 @ write_u32 ?ip"
  define tl0 where "tl0 = rest @ drop (length ?req) res"
  have lt: "16 \<le> length tl0" using len q by (simp add: tl0_def a_query_def)
  have r1: "mem_put res 0 ?req = qid @ write_u16 fl @ write_u16 1 @ cnt @ ?w @ tl0"
    using len by (simp add: mem_put_def a_query_def tl0_def)
  obtain c1 c2 c3 where c: "cnt = c1 @ c2 @ c3" "length c1 = 2" "length c2 = 2" "length c3 = 2"
  proof
    show "cnt = take 2 cnt @ take 2 (drop 2 cnt) @ drop 2 (drop 2 cnt)"
      by (simp only: append_take_drop_id)
  qed (use q(2) in simp_all)
  have q1: "mem_put ?req 4 (le16 (ntohs (of_le16 (drop 4 ?req)))) = (qid @ write_u16 fl @ le16 1 @ cnt) @ ?w @ rest"
    using q mem_put_at [of "qid @ write_u16 fl" 4 "write_u16 1" "le16 1" "cnt @ ?w @ rest"]
    by (simp add: a_query_def)
  have qd: "of_le16 (drop 4 ((qid @ write_u16 fl @ le16 1 @ cnt) @ ?w @ rest)) = 1" using q by simp
  have r2: "mem_put (mem_put (mem_put (mem_put (mem_put res 0 ?req) 2 (le16 (ntohs (of_le16 (drop 2 (mem_put res 0 ?req))))))
        8 (le16 0)) 6 (le16 0)) 10 (le16 0) = qid @ le16 fl @ write_u16 1 @ [0, 0, 0, 0, 0, 0] @ ?w @ tl0"
  proof -
    have "le16 0 = [0, 0]" by (simp add: le16_def)
    then show ?thesis unfolding r1 using q c by (simp add: mem_put_def)
  qed
  have an: "dns_answers [(12, ?ip)] (12 + length (wire_name ls) + 5) (qid @ le16 fl @ write_u16 1 @ [0, 0, 0, 0, 0, 0] @ ?w @ tl0) =
      Inr (12 + length (wire_name ls) + 21, qid @ le16 fl @ write_u16 1 @ [0, 0, 0, 0, 0, 0] @ ?w @ ?an @ drop 16 tl0)"
    using q lt mem_put_at [of "qid @ le16 fl @ write_u16 1 @ [0, 0, 0, 0, 0, 0] @ ?w" "12 + length (wire_name ls) + 5" "take 16 tl0" ?an "drop 16 tl0"]
    by simp
  obtain rb where qs: "dns_questions 1 \<lparr>sc_self = d, sc_rb = (qid @ write_u16 fl @ le16 1 @ cnt) @ ?w @ rest, sc_off = 12, sc_ips = []\<rparr> =
    Some (Inr \<lparr>sc_self = d', sc_rb = rb, sc_off = 12 + length (wire_name ls) + 5, sc_ips = [(12, ?ip)]\<rparr>)"
    using question_refines [OF ls _ f, of "qid @ write_u16 fl @ le16 1 @ cnt" rest] q by auto
  let ?r3 = "qid @ le16 fl @ write_u16 1 @ [0, 0, 0, 0, 0, 0] @ ?w @ ?an @ drop 16 tl0"
  let ?v = "fl OR 0x8000 OR drop_bit 1 (fl AND 0x100)"
  have fin: "mem_put (mem_put ?r3 2 (le16 (htons (of_le16 (drop 2 ?r3) OR 0x8000 OR drop_bit 1 (of_le16 (drop 2 ?r3) AND 0x100)))))
      6 (le16 (htons 1)) = a_reply qid fl ls ?ip @ drop 16 tl0"
  proof -
    have "of_le16 (drop 2 ?r3) = fl" using q by simp
    then show ?thesis
      using q mem_put_at [of qid 2 "le16 fl" "write_u16 ?v" "write_u16 1 @ [0, 0, 0, 0, 0, 0] @ ?w @ ?an @ drop 16 tl0"]
        mem_put_at [of "qid @ write_u16 ?v @ write_u16 1" 6 "[0, 0]" "write_u16 1" "[0, 0, 0, 0] @ ?w @ ?an @ drop 16 tl0"]
      by (simp add: le16_htons a_reply_def)
  qed
  have lr: "length (a_reply qid fl ls ?ip) = length (wire_name ls) + 33" using q by (simp add: a_reply_def)
  have "hev_mapped_dns_handle d ?req res = Some (int (length (wire_name ls) + 33), d', a_reply qid fl ls ?ip @ drop 16 tl0)"
  proof -
    have g: "\<not> length res < length ?req" "\<not> (length ?req < 6 \<or> length res < 12)"
      using len q by (simp_all add: a_query_def)
    show ?thesis
      unfolding hev_mapped_dns_handle_def Let_def if_not_P [OF g(1)] if_not_P [OF g(2)] r2 q1 qd
      using qs an fin by simp
  qed
  then show ?thesis using lr len q by (simp add: tl0_def a_query_def)
qed


section \<open>Properties\<close>

text \<open>
  C7. Searching a name: on a structure that holds the cache \<open>c\<close>, with a block to allocate,
  \<^verbatim>\<open>hev_mapped_dns_find\<close> returns the index of the name and leaves the structure holding the cache in
  which that name is the most recently used: a known name keeps its index, a new one takes the next
  free index or, when the cache is full, the index of the least recently used name, which is dropped
  (and its node freed). Tree, list, record array and the set of live nodes stay consistent.
\<close>

theorem dns_find_ok:
  assumes "dns_at d c" "cstring name" "0 < dns_max d" "dns_alloc d = node # rest" "fresh_block node d"
  shows "\<exists>d'. hev_mapped_dns_find name d = Some (fst (cache_find (dns_max d) name c), d') \<and>
    dns_at d' (snd (cache_find (dns_max d) name c))"
  using find_refines [OF assms] by blast

text \<open>An empty cache with room for two names.\<close>

definition demo_dns :: HevMappedDNS where
  "demo_dns = the (hev_mapped_dns_new True [64] 0x64400000 0xffc00000 2)"

lemma new_refines:
  assumes "hev_mapped_dns_new True alloc net netmask maxn = Some d" "0 \<le> maxn"
  shows "dns_at d [] \<and> dns_max d = maxn \<and> dns_net d = net \<and> dns_mask d = netmask \<and> dns_alloc d = alloc \<and>
    dns_live d = {}"
proof -
  have "si.index \<lparr>rb_root = NULL, rb_mem = m\<rparr> k {}" for m k by (rule si.index_empty) simp
  then show ?thesis
    using assms by (auto simp: hev_mapped_dns_new_def hev_mapped_dns_construct_def Let_def dns_at_def
        dns_nodes_at_def list_at_empty split: if_splits)
qed

lemma demo_dns_new: "hev_mapped_dns_new True [64] 0x64400000 0xffc00000 2 = Some demo_dns"
proof -
  have "hev_mapped_dns_new True [64] 0x64400000 0xffc00000 2 \<noteq> None"
    by (simp add: hev_mapped_dns_new_def hev_mapped_dns_construct_def Let_def)
  then show ?thesis by (simp add: demo_dns_def)
qed

lemma demo_dns_facts:
  "dns_at demo_dns []" "dns_max demo_dns = 2" "dns_net demo_dns = 0x64400000"
  "dns_mask demo_dns = 0xffc00000" "dns_alloc demo_dns = [64]" "fresh_block 64 demo_dns"
  using new_refines [OF demo_dns_new] by (simp_all add: fresh_block_def aligned_def list_addr_def)

theorem dns_find_ok_witness:
  "\<exists>d'. hev_mapped_dns_find [97] demo_dns = Some (0, d') \<and> dns_at d' [([97], 0)]"
  using dns_find_ok [OF demo_dns_facts(1), of "[97]" 64 "[]"] demo_dns_facts
  by (simp add: cache_find_def)

text \<open>
  Looking an address up: \<^verbatim>\<open>hev_mapped_dns_lookup\<close> returns the name whose index is in the host part
  of the address and makes it the most recently used one; for any other address it returns NULL and
  changes nothing.
\<close>

theorem dns_lookup_ok:
  assumes "dns_at d c" "sint (ip AND NOT (dns_mask d)) = i" "0 \<le> i"
  shows "\<exists>d'. hev_mapped_dns_lookup ip d =
      Some (case find (\<lambda>e. snd e = i) c of Some e \<Rightarrow> Some (fst e) | None \<Rightarrow> None, d') \<and>
    dns_at d' (case find (\<lambda>e. snd e = i) c of Some e \<Rightarrow> touch (fst e) c | None \<Rightarrow> c)"
  using assms by (rule lookup_refines)

theorem dns_lookup_ok_witness:
  "\<exists>d'. hev_mapped_dns_lookup 0x64400001 demo_dns = Some (None, d') \<and> dns_at d' []"
  using dns_lookup_ok [where d = demo_dns and c = "[]" and ip = "0x64400001" and i = 1] demo_dns_facts by simp

lemma idx_bound:
  assumes "dns_at d c" "(name, i) \<in> set c"
  shows "0 \<le> i" "i < dns_max d"
  using assms by (fastforce simp: dns_at_def dns_nodes_at_def dns_entry_def)+

lemma idx_inj:
  assumes "dns_at d c" "(a, i) \<in> set c" "(b, i) \<in> set c"
  shows "a = b"
proof -
  from assms obtain ps p q where "dns_nodes_at d ps" "p \<in> set ps" "q \<in> set ps"
    "a = dn_name (dns_nodes d p)" "b = dn_name (dns_nodes d q)" "dn_idx (dns_nodes d p) = i" "dn_idx (dns_nodes d q) = i"
    by (auto simp: dns_at_def dns_entry_def)
  then have "p = q" by (auto simp: dns_nodes_at_def) metis
  then show ?thesis using \<open>a = _\<close> \<open>b = _\<close> by simp
qed

lemma find_max:
  assumes "hev_mapped_dns_find name d = Some (idx, d')"
  shows "dns_max d' = dns_max d"
  using assms
  by (auto simp: hev_mapped_dns_find_def hev_mapped_dns_node_alloc_def hev_mapped_dns_node_free_def
      dns_record_def Let_def split: option.splits sum.splits list.splits if_splits)

lemma cache_find_mem: "(name, fst (cache_find m name c)) \<in> set (snd (cache_find m name c))"
  by (auto simp: cache_find_def touch_def dest: map_of_SomeD split: option.splits)

lemma sint_small: "uint (w :: u32) < 2 ^ 31 \<Longrightarrow> sint w = uint w"
proof -
  assume w: "uint w < 2 ^ 31"
  have "- (2 ^ 31) \<le> (0 :: int)" by simp
  also have "0 \<le> uint w" by (rule uint_nonnegative)
  finally have "- (2 ^ 31) \<le> uint w" .
  with w show ?thesis by (simp add: sint_uint signed_take_bit_int_eq_self)
qed

lemma host_part:
  assumes net: "net AND NOT netmask = (0 :: u32)" and host: "NOT netmask = mask k" "k < 32"
    and i: "0 \<le> i" "i \<le> sint (NOT netmask)"
  shows "sint ((net OR word_of_int i) AND NOT netmask) = i"
proof -
  have um: "uint (mask k :: u32) = 2 ^ k - 1"
    using host(2) by (simp add: uint_mask_eq min_def) (simp add: mask_eq_exp_minus_1)
  have "(2 :: int) ^ k \<le> 2 ^ 31" using host(2) by (intro power_increasing) auto
  then have "sint (mask k :: u32) = 2 ^ k - 1" using sint_small [of "mask k"] um by simp
  then have ik: "i < 2 ^ k" "i < 2 ^ 31" using i host \<open>(2 :: int) ^ k \<le> 2 ^ 31\<close> by auto
  have u: "uint (word_of_int i :: u32) = i"
    using i(1) ik(2) by (simp add: uint_word_of_int take_bit_int_eq_self)
  have "take_bit k (word_of_int i :: u32) = word_of_int i"
    by (simp add: word_uint_eq_iff unsigned_take_bit_eq u take_bit_int_eq_self i(1) ik(1))
  then have "word_of_int i AND mask k = (word_of_int i :: u32)" by (simp add: take_bit_eq_mask)
  then have "(net OR word_of_int i) AND NOT netmask = word_of_int i"
    using net by (simp add: host bit.conj_disj_distrib2)
  then show ?thesis using sint_small [of "word_of_int i"] u ik by simp
qed

lemma find_then_lookup:
  assumes "dns_at d c" "cstring name" "0 < dns_max d" "dns_alloc d = node # rest" "fresh_block node d"
    and "dns_max d \<le> sint (NOT (dns_mask d))" "NOT (dns_mask d) = mask k" "k < 32"
    and "dns_net d AND NOT (dns_mask d) = 0"
    and "hev_mapped_dns_find name d = Some (idx, d')"
  shows "\<exists>d''. hev_mapped_dns_lookup (dns_net d' OR word_of_int idx) d' = Some (Some name, d'')"
proof -
  let ?c = "snd (cache_find (dns_max d) name c)"
  from find_refines [OF assms(1-5)] assms(10) have
    f: "idx = fst (cache_find (dns_max d) name c)" "dns_at d' ?c" "dns_net d' = dns_net d" "dns_mask d' = dns_mask d"
    by auto
  have m: "(name, idx) \<in> set ?c" using cache_find_mem f by simp
  have mx: "dns_max d' = dns_max d" using find_max [OF assms(10)] .
  have b: "0 \<le> idx" "idx \<le> sint (NOT (dns_mask d))" using idx_bound [OF f(2) m] assms(6) mx by auto
  have h: "sint ((dns_net d' OR word_of_int idx) AND NOT (dns_mask d')) = idx"
    using host_part [OF assms(9,7,8) b] f by simp
  obtain e where e: "find (\<lambda>e. snd e = idx) ?c = Some e" "e \<in> set ?c" "snd e = idx"
    using m by (cases "find (\<lambda>e. snd e = idx) ?c") (auto simp: find_None_iff find_Some_iff)
  then have "fst e = name" using idx_inj [OF f(2), of "fst e" idx name] m by (cases e) auto
  then show ?thesis using lookup_refines [OF f(2) h b(1)] e by auto
qed

text \<open>
  C8. Round trip: when the network address has no host bits, the address \<^verbatim>\<open>self->net | idx\<close> that a
  name is answered with leads \<^verbatim>\<open>hev_mapped_dns_lookup\<close> back to that name.
\<close>

theorem dns_roundtrip:
  assumes "dns_at d c" "cstring name" "0 < dns_max d" "dns_alloc d = node # rest" "fresh_block node d"
    and "dns_max d \<le> sint (NOT (dns_mask d))" "NOT (dns_mask d) = mask k" "k < 32"
    and "dns_net d AND NOT (dns_mask d) = 0"
    and "hev_mapped_dns_find name d = Some (idx, d')"
  shows "\<exists>d''. hev_mapped_dns_lookup (dns_net d' OR word_of_int idx) d' = Some (Some name, d'')"
  using find_then_lookup [OF assms] .

theorem dns_roundtrip_witness:
  "\<exists>d' d''. hev_mapped_dns_find [97] demo_dns = Some (0, d') \<and>
     hev_mapped_dns_lookup (dns_net d' OR 0) d' = Some (Some [97], d'')"
proof -
  obtain d' where f: "hev_mapped_dns_find [97] demo_dns = Some (0, d')"
    using find_refines [OF demo_dns_facts(1), of "[97]" 64 "[]"] demo_dns_facts by (auto simp: cache_find_def)
  have "NOT (0xffc00000 :: u32) = mask 22" by (simp add: mask_eq_exp_minus_1)
  then show ?thesis
    using f dns_roundtrip [OF demo_dns_facts(1), of "[97]" 64 "[]" 22 0 d'] demo_dns_facts by simp
qed

text \<open>
  The answer: a query for one name, of type A and class IN, is answered in the query's own buffer
  layout with the same id, the response bit set and recursion available exactly when it was desired,
  one answer that points to the name at offset 12 and carries the address \<^verbatim>\<open>self->net | idx\<close> in network
  byte order with a time to live of one second, and no other records; the length returned is that of
  this reply.
\<close>

theorem dns_reply_ok:
  assumes "dns_at d c" "0 < dns_max d" "dns_alloc d = node # rest" "fresh_block node d"
    and "ls \<noteq> []" "\<forall>l\<in>set ls. label_ok l" "length qid = 2" "length cnt = 6"
    and "length (a_query qid fl cnt ls extra) \<le> length res" "length (wire_name ls) + 33 \<le> length res"
  shows "\<exists>d' res'. hev_mapped_dns_handle d (a_query qid fl cnt ls extra) res =
      Some (int (length (wire_name ls) + 33), d', res') \<and>
    dns_at d' (snd (cache_find (dns_max d) (tl (dotted ls)) c)) \<and>
    take (length (wire_name ls) + 33) res' =
      a_reply qid fl ls (dns_net d OR word_of_int (fst (cache_find (dns_max d) (tl (dotted ls)) c)))"
proof -
  let ?r = "cache_find (dns_max d) (tl (dotted ls)) c"
  have "cstring (tl (dotted ls))"
    using cstring_dotted [OF assms(6)] by (cases "dotted ls") auto
  from find_refines [OF assms(1) this assms(2-4)] obtain d' where
    f: "hev_mapped_dns_find (tl (dotted ls)) d = Some (fst ?r, d')" "dns_at d' (snd ?r)" "dns_net d' = dns_net d"
    by auto
  have "0 \<le> fst ?r" using idx_bound(1) [OF f(2) cache_find_mem] .
  from handle_query [OF assms(5-8) f(1) this assms(9,10)] f show ?thesis by auto
qed

theorem dns_reply_ok_witness:
  "\<exists>d' res'. hev_mapped_dns_handle demo_dns (a_query [1, 2] 0x100 [0, 0, 0, 0, 0, 0] [[97]] []) (replicate 64 0) =
      Some (35, d', res') \<and> dns_at d' [([97], 0)] \<and>
    take 35 res' = a_reply [1, 2] 0x100 [[97]] 0x64400000"
  using dns_reply_ok [where d = demo_dns and c = "[]" and node = 64 and rest = "[]" and ls = "[[97]]"
      and qid = "[1, 2]" and cnt = "[0, 0, 0, 0, 0, 0]" and fl = "0x100" and extra = "[]" and res = "replicate 64 0"]
    demo_dns_facts
  by (simp add: wire_name_def dotted_def label_ok_def a_query_def cache_find_def)

lemma answers_bounds:
  "dns_answers ips off sb = Inr (off', sb') \<Longrightarrow> off' = off + 16 * length ips \<and> length sb' = length sb \<and>
     (ips \<noteq> [] \<longrightarrow> off' \<le> length sb)"
  by (induction ips off sb rule: dns_answers.induct) (fastforce split: if_splits)+

lemma answers_bounds_Inl: "dns_answers ips off sb = Inl sb' \<Longrightarrow> length sb' = length sb"
  by (induction ips off sb rule: dns_answers.induct) (auto split: if_splits)

lemma name_loop_length: "dns_name_loop rb off = Some (Inr (rb', off')) \<Longrightarrow> length rb' = length rb"
  by (induction rb off rule: dns_name_loop.induct)
     (subst (asm) (2) dns_name_loop.simps, auto simp: Let_def split: if_splits)

lemma map_name_fields:
  "dns_map_name ipo st = Some st' \<Longrightarrow> sc_rb st' = sc_rb st \<and> sc_off st' = sc_off st \<and>
     length (sc_ips st') \<le> Suc (length (sc_ips st))"
  by (auto simp: dns_map_name_def split: option.splits if_splits)

lemma question_bounds:
  assumes "dns_question st = Some (Inr st')"
  shows "length (sc_rb st') = length (sc_rb st) \<and> sc_off st' \<le> length (sc_rb st) \<and>
    length (sc_ips st') \<le> Suc (length (sc_ips st))"
  using assms
  by (auto simp: dns_question_def Let_def dest!: name_loop_length map_name_fields
      split: option.splits sum.splits prod.splits if_splits)

lemma questions_bounds:
  "dns_questions n st = Some (Inr st') \<Longrightarrow> length (sc_rb st') = length (sc_rb st) \<and>
     (sc_off st \<le> length (sc_rb st) \<or> 0 < n \<longrightarrow> sc_off st' \<le> length (sc_rb st)) \<and> (n = 0 \<longrightarrow> st' = st) \<and>
     length (sc_ips st') \<le> n + length (sc_ips st)"
  by (induction n st rule: dns_questions.induct)
     (auto split: option.splits sum.splits dest!: question_bounds)

text \<open>
  A length that \<^verbatim>\<open>hev_mapped_dns_handle\<close> returns never exceeds the response buffer, the buffer
  keeps its size, and a request longer than the buffer or with more than 32 questions is refused.
\<close>

theorem dns_handle_bounds:
  assumes "hev_mapped_dns_handle d req res = Some (n, d', res')"
  shows "n \<le> int (length res) \<and> length res' = length res \<and>
    (length res < length req \<longrightarrow> n = - 1 \<and> d' = d \<and> res' = res)"
proof (cases "length res < length req \<or> length req < 6 \<or> length res < 12")
  case True
  with assms show ?thesis by (auto simp: hev_mapped_dns_handle_def split: if_splits)
next
  case False
  define r0 where "r0 = mem_put res 0 req"
  define r where "r = mem_put (mem_put (mem_put (mem_put r0 2 (le16 (ntohs (of_le16 (drop 2 r0))))) 8 (le16 0)) 6 (le16 0)) 10 (le16 0)"
  define q where "q = mem_put req 4 (le16 (ntohs (of_le16 (drop 4 req))))"
  have len: "length r = length res" "length q = length req" using False by (simp_all add: r_def r0_def q_def)
  have h: "hev_mapped_dns_handle d req res =
      (if of_le16 (drop 4 q) > 32 then Some (- 1, d, r)
       else case dns_questions (unat (of_le16 (drop 4 q))) \<lparr>sc_self = d, sc_rb = q, sc_off = 12, sc_ips = []\<rparr> of
          None \<Rightarrow> None
        | Some (Inl st) \<Rightarrow> Some (- 1, sc_self st, r)
        | Some (Inr st) \<Rightarrow>
           (case dns_answers (sc_ips st) (sc_off st) r of
              Inl s \<Rightarrow> Some (- 1, sc_self st, s)
            | Inr (off, s) \<Rightarrow> Some (int off, sc_self st,
                mem_put (mem_put s 2 (le16 (htons (of_le16 (drop 2 s) OR 0x8000 OR drop_bit 1 (of_le16 (drop 2 s) AND 0x100)))))
                  6 (le16 (htons (of_nat (length (sc_ips st))))))))"
  proof -
    have g: "\<not> length res < length req" "\<not> (length req < 6 \<or> length res < 12)" using False by auto
    show ?thesis
      unfolding hev_mapped_dns_handle_def Let_def r_def r0_def q_def if_not_P [OF g(1)] if_not_P [OF g(2)] ..
  qed
  show ?thesis
    using assms False len unfolding h
    by (auto split: if_splits option.splits sum.splits prod.splits
        dest!: answers_bounds answers_bounds_Inl questions_bounds)
qed

theorem dns_handle_bounds_witness:
  "\<exists>d' res'. hev_mapped_dns_handle demo_dns (a_query [1, 2] 0x100 [0, 0, 0, 0, 0, 0] [[97]] []) (replicate 64 0) =
      Some (35, d', res') \<and> length res' = 64"
proof -
  let ?q = "a_query [1, 2] 0x100 [0, 0, 0, 0, 0, 0] [[97]] []" and ?r = "replicate 64 0 :: bytes"
  obtain d' where f: "hev_mapped_dns_find [97] demo_dns = Some (0, d')"
    using find_refines [OF demo_dns_facts(1), of "[97]" 64 "[]"] demo_dns_facts by (auto simp: cache_find_def)
  then have "\<exists>res'. hev_mapped_dns_handle demo_dns ?q ?r = Some (35, d', res')"
    using handle_query [of "[[97]]" "[1, 2]" "[0, 0, 0, 0, 0, 0]" demo_dns 0 d' "0x100" "[]" ?r]
    by (auto simp: wire_name_def dotted_def label_ok_def a_query_def)
  then show ?thesis using dns_handle_bounds [of demo_dns ?q ?r 35 d'] by auto
qed

lemma free_nodes_refines:
  assumes "list_at h l (as @ bs)" "dns_lheap d = h"
  shows "dns_free_nodes (case bs of [] \<Rightarrow> NULL | b # _ \<Rightarrow> b) d =
    Some (d\<lparr>dns_live := dns_live d - list_container ` set bs\<rparr>)"
  using assms
proof (induction bs arbitrary: as d)
  case Nil
  then show ?case by (subst dns_free_nodes.simps) simp
next
  case (Cons b bs)
  have n: "hev_list_node_next h b = (case bs of [] \<Rightarrow> NULL | b # _ \<Rightarrow> b)"
    using Cons.prems(1) by (rule list_at_next)
  have "b \<noteq> NULL" using list_at_nonnull [OF Cons.prems(1)] by simp
  then have "dns_free_nodes b d = dns_free_nodes (case bs of [] \<Rightarrow> NULL | b # _ \<Rightarrow> b) (hev_mapped_dns_node_free (list_container b) d)"
    using n Cons.prems(2) by (subst dns_free_nodes.simps) (simp add: Let_def)
  also have "\<dots> = Some (d\<lparr>dns_live := dns_live d - list_container ` set (b # bs)\<rparr>)"
    using Cons.IH [of "as @ [b]" "hev_mapped_dns_node_free (list_container b) d"] Cons.prems
    by (simp add: hev_mapped_dns_node_free_def Diff_insert2 [symmetric])
  finally show ?case by simp
qed

text \<open>
  Destruction: \<^verbatim>\<open>hev_mapped_dns_destruct\<close> walks the list to its end although it frees every node on
  the way, and no node is left allocated.
\<close>

theorem dns_destruct_ok:
  assumes "dns_at d c"
  shows "\<exists>d'. hev_mapped_dns_destruct d = Some d' \<and> dns_live d' = {}"
proof -
  from assms obtain ps where ps: "dns_nodes_at d ps" by (auto simp: dns_at_def)
  have l: "list_at (dns_lheap d) (dns_list d) (map list_addr ps)" and live: "dns_live d = set ps"
    using ps by (auto simp: dns_nodes_at_def)
  have "list_container ` set (map list_addr ps) = set ps" by (simp add: image_image)
  with free_nodes_refines [of "dns_lheap d" "dns_list d" "[]" "map list_addr ps" d] l live list_at_first [OF l]
  show ?thesis by (simp add: hev_mapped_dns_destruct_def)
qed

theorem dns_destruct_ok_witness: "\<exists>d'. hev_mapped_dns_destruct demo_dns = Some d' \<and> dns_live d' = {}"
  using dns_destruct_ok [OF demo_dns_facts(1)] .

section \<open>Defects\<close>

text \<open>The lookup does not compare the network part of the address: every address with the host part of one that was
  handed out leads to the same name.\<close>

lemma dns_lookup_ignores_network:
  assumes "dns_at d c" "cstring name" "0 < dns_max d" "dns_alloc d = node # rest" "fresh_block node d"
    and "dns_max d \<le> sint (NOT (dns_mask d))" "NOT (dns_mask d) = mask k" "k < 32" "dns_net d AND NOT (dns_mask d) = 0"
    and "hev_mapped_dns_find name d = Some (idx, d')"
    and "ip AND NOT (dns_mask d') = (dns_net d' OR word_of_int idx) AND NOT (dns_mask d')"
  shows "\<exists>d''. hev_mapped_dns_lookup ip d' = Some (Some name, d'')"
proof -
  have "hev_mapped_dns_lookup ip d' = hev_mapped_dns_lookup (dns_net d' OR word_of_int idx) d'"
    using assms(11) by (simp add: hev_mapped_dns_lookup_def Let_def)
  then show ?thesis using find_then_lookup [OF assms(1-10)] by simp
qed

text \<open>A request that ends with its header but announces a question makes the handler read behind it.\<close>

lemma dns_short_query_overread:
  assumes "length qid = 2" "length cnt = 6" "12 \<le> length res"
  shows "hev_mapped_dns_handle d (qid @ write_u16 fl @ write_u16 1 @ cnt) res = None"
proof -
  let ?req = "qid @ write_u16 fl @ write_u16 1 @ cnt"
  have q: "mem_put ?req 4 (le16 (ntohs (of_le16 (drop 4 ?req)))) = qid @ write_u16 fl @ le16 1 @ cnt"
    using assms mem_put_at [of "qid @ write_u16 fl" 4 "write_u16 1" "le16 1" cnt] by simp
  have one: "dns_questions 1 \<lparr>sc_self = d, sc_rb = qid @ write_u16 fl @ le16 1 @ cnt, sc_off = 12, sc_ips = []\<rparr> = None"
    using assms by (simp add: dns_question_def dns_name_loop.simps)
  have g: "\<not> length res < length ?req" "\<not> (length ?req < 6 \<or> length res < 12)"
    using assms by simp_all
  show ?thesis
    unfolding hev_mapped_dns_handle_def Let_def if_not_P [OF g(1)] if_not_P [OF g(2)] q
    using assms one by simp
qed

text \<open>The second byte of a compression pointer keeps the low eight bits of the name's offset only: a
  name at offset 256 is announced as one at offset 0.\<close>

lemma dns_pointer_truncated:
  "off + 15 < length sb \<Longrightarrow>
     dns_answers [(256, ip)] off sb = dns_answers [(0, ip)] off sb"
proof -
  have "(of_nat 256 :: byte) = of_nat 0" by simp
  then show ?thesis by (simp only: dns_answers.simps)
qed

end
