(* ===== verification/Socks5Addr.thy ===== *)
theory Socks5Addr
  imports Prelude
begin

text \<open>
  The wire structures of \<^verbatim>\<open>core/src/hev-socks5-proto.h\<close> and the address functions of
  \<^verbatim>\<open>core/src/hev-socks5-misc.c\<close>. A \<^verbatim>\<open>HevSocks5Addr\<close> is its type byte and the 259 bytes of its union,
  read at the offsets of the packed structures; ports are kept as the two bytes in memory.
  \<^verbatim>\<open>inet_pton\<close>, \<^verbatim>\<open>inet_ntop\<close> and the resolver are arguments.
\<close>

section \<open>Protocol constants and structures\<close>

abbreviation (input) HEV_SOCKS5_VERSION_5 :: byte where "HEV_SOCKS5_VERSION_5 \<equiv> 5"
abbreviation (input) HEV_SOCKS5_AUTH_METHOD_NONE :: byte where "HEV_SOCKS5_AUTH_METHOD_NONE \<equiv> 0"
abbreviation (input) HEV_SOCKS5_AUTH_METHOD_USER :: byte where "HEV_SOCKS5_AUTH_METHOD_USER \<equiv> 2"
abbreviation (input) HEV_SOCKS5_AUTH_METHOD_DENY :: byte where "HEV_SOCKS5_AUTH_METHOD_DENY \<equiv> 255"
abbreviation (input) HEV_SOCKS5_AUTH_VERSION_1 :: byte where "HEV_SOCKS5_AUTH_VERSION_1 \<equiv> 1"
abbreviation (input) HEV_SOCKS5_REQ_CMD_CONNECT :: byte where "HEV_SOCKS5_REQ_CMD_CONNECT \<equiv> 1"
abbreviation (input) HEV_SOCKS5_REQ_CMD_UDP_ASC :: byte where "HEV_SOCKS5_REQ_CMD_UDP_ASC \<equiv> 3"
abbreviation (input) HEV_SOCKS5_REQ_CMD_FWD_UDP :: byte where "HEV_SOCKS5_REQ_CMD_FWD_UDP \<equiv> 5"
abbreviation (input) HEV_SOCKS5_RES_REP_SUCC :: byte where "HEV_SOCKS5_RES_REP_SUCC \<equiv> 0"
abbreviation (input) HEV_SOCKS5_RES_REP_FAIL :: byte where "HEV_SOCKS5_RES_REP_FAIL \<equiv> 1"
abbreviation (input) HEV_SOCKS5_RES_REP_HOST :: byte where "HEV_SOCKS5_RES_REP_HOST \<equiv> 4"
abbreviation (input) HEV_SOCKS5_RES_REP_IMPL :: byte where "HEV_SOCKS5_RES_REP_IMPL \<equiv> 7"
abbreviation (input) HEV_SOCKS5_RES_REP_ADDR :: byte where "HEV_SOCKS5_RES_REP_ADDR \<equiv> 8"
abbreviation (input) HEV_SOCKS5_ADDR_TYPE_IPV4 :: byte where "HEV_SOCKS5_ADDR_TYPE_IPV4 \<equiv> 1"
abbreviation (input) HEV_SOCKS5_ADDR_TYPE_IPV6 :: byte where "HEV_SOCKS5_ADDR_TYPE_IPV6 \<equiv> 4"
abbreviation (input) HEV_SOCKS5_ADDR_TYPE_NAME :: byte where "HEV_SOCKS5_ADDR_TYPE_NAME \<equiv> 3"

text \<open>The union has room for the longest variant, \<^verbatim>\<open>domain\<close>: a length byte and 258 bytes.\<close>

record HevSocks5Addr =
  atype :: byte
  abody :: bytes

definition addr_ok :: "HevSocks5Addr \<Rightarrow> bool" where
  "addr_ok a \<longleftrightarrow> length (abody a) = 259"

definition ipv4_addr :: "HevSocks5Addr \<Rightarrow> bytes" where "ipv4_addr a = mem_get (abody a) 0 4"
definition ipv4_port :: "HevSocks5Addr \<Rightarrow> bytes" where "ipv4_port a = mem_get (abody a) 4 2"
definition ipv6_addr :: "HevSocks5Addr \<Rightarrow> bytes" where "ipv6_addr a = mem_get (abody a) 0 16"
definition ipv6_port :: "HevSocks5Addr \<Rightarrow> bytes" where "ipv6_port a = mem_get (abody a) 16 2"
definition domain_len :: "HevSocks5Addr \<Rightarrow> byte" where "domain_len a = abody a ! 0"
definition domain_addr :: "HevSocks5Addr \<Rightarrow> bytes" where "domain_addr a = drop 1 (abody a)"

text \<open>The bytes of the structure as it lies in memory, from its type byte on.\<close>

definition addr_bytes :: "HevSocks5Addr \<Rightarrow> bytes" where
  "addr_bytes a = atype a # abody a"

record sockaddr_in6 =
  sin6_port :: bytes
  sin6_addr :: bytes

datatype HevSocks5AddrFamily = FAMILY_IPV4 | FAMILY_IPV6 | FAMILY_UNSPEC

section \<open>Addresses\<close>

definition hev_socks5_addr_len :: "HevSocks5Addr \<Rightarrow> int" where
  "hev_socks5_addr_len addr =
     (if atype addr = HEV_SOCKS5_ADDR_TYPE_IPV4 then 7
      else if atype addr = HEV_SOCKS5_ADDR_TYPE_IPV6 then 19
      else if atype addr = HEV_SOCKS5_ADDR_TYPE_NAME then 4 + uint (domain_len addr)
      else - 1)"

text \<open>Decimal digits, as \<^verbatim>\<open>snprintf\<close> prints them for \<^verbatim>\<open>%u\<close>.\<close>

fun decimal :: "nat \<Rightarrow> bytes" where
  "decimal n = (if n < 10 then [of_nat (48 + n)] else decimal (n div 10) @ [of_nat (48 + n mod 10)])"

declare decimal.simps [simp del]

text \<open>The string that \<^verbatim>\<open>hev_socks5_addr_into_str\<close> leaves in \<^verbatim>\<open>buf\<close>, cut off at \<open>len\<close> bytes with the
  terminating zero; \<open>None\<close> is the NULL it returns for an unknown type.\<close>

definition hev_socks5_addr_into_str ::
    "(bytes \<Rightarrow> bytes) \<Rightarrow> (bytes \<Rightarrow> bytes) \<Rightarrow> HevSocks5Addr \<Rightarrow> nat \<Rightarrow> bytes option" where
  "hev_socks5_addr_into_str ntop4 ntop6 addr len =
     map_option (\<lambda>(sa, port). take (len - 1) ([91] @ sa @ [93, 58] @ decimal (unat (ntohs (of_le16 port)))))
       (if atype addr = HEV_SOCKS5_ADDR_TYPE_IPV4 then Some (ntop4 (ipv4_addr addr), ipv4_port addr)
        else if atype addr = HEV_SOCKS5_ADDR_TYPE_IPV6 then Some (ntop6 (ipv6_addr addr), ipv6_port addr)
        else if atype addr = HEV_SOCKS5_ADDR_TYPE_NAME
        then Some (takeWhile (\<lambda>b. b \<noteq> 0) (take (unat (domain_len addr)) (domain_addr addr)),
          mem_get (domain_addr addr) (unat (domain_len addr)) 2)
        else None)"

text \<open>\<^verbatim>\<open>strncpy (dst, name, n)\<close>: the name, padded with zeros to \<open>n\<close> bytes, or its first \<open>n\<close> bytes.\<close>

definition strncpy :: "bytes \<Rightarrow> nat \<Rightarrow> bytes" where
  "strncpy name n = take n (name @ replicate n 0)"

text \<open>\<open>None\<close> when \<^verbatim>\<open>strlen\<close> runs past the end of the structure.\<close>

definition hev_socks5_addr_from_name ::
    "HevSocks5Addr \<Rightarrow> bytes \<Rightarrow> u16 \<Rightarrow> (int \<times> HevSocks5Addr) option" where
  "hev_socks5_addr_from_name addr name port =
     (let addr = addr\<lparr>atype := HEV_SOCKS5_ADDR_TYPE_NAME\<rparr>;
          addr = addr\<lparr>abody := mem_put (abody addr) 1 (strncpy name 256)\<rparr>
      in case cstr (domain_addr addr) of
           None \<Rightarrow> None
         | Some s \<Rightarrow>
             let len = of_nat (length s) :: byte;
                 addr = addr\<lparr>abody := mem_put (abody addr) 0 [len]\<rparr>;
                 addr = addr\<lparr>abody := mem_put (abody addr) (1 + unat len) (le16 port)\<rparr>
             in Some (4 + uint len, addr))"

definition hev_socks5_addr_from_ipv4 ::
    "HevSocks5Addr \<Rightarrow> bytes \<Rightarrow> u16 \<Rightarrow> int \<times> HevSocks5Addr" where
  "hev_socks5_addr_from_ipv4 addr ipv4 port =
     (7, addr\<lparr>atype := HEV_SOCKS5_ADDR_TYPE_IPV4,
       abody := mem_put (mem_put (abody addr) 0 (take 4 ipv4)) 4 (le16 port)\<rparr>)"

definition hev_socks5_addr_from_ipv6 ::
    "HevSocks5Addr \<Rightarrow> bytes \<Rightarrow> u16 \<Rightarrow> int \<times> HevSocks5Addr" where
  "hev_socks5_addr_from_ipv6 addr ipv6 port =
     (19, addr\<lparr>atype := HEV_SOCKS5_ADDR_TYPE_IPV6,
       abody := mem_put (mem_put (abody addr) 0 (take 16 ipv6)) 16 (le16 port)\<rparr>)"

abbreviation v4mapped_prefix :: bytes where
  "v4mapped_prefix \<equiv> [0, 0, 0, 0, 0, 0, 0, 0, 0, 0, 0xff, 0xff]"

text \<open>\<^verbatim>\<open>IN6_IS_ADDR_V4MAPPED\<close>\<close>

definition is_v4mapped :: "bytes \<Rightarrow> bool" where
  "is_v4mapped a \<longleftrightarrow> take 12 a = v4mapped_prefix"

definition hev_socks5_addr_from_sockaddr6 ::
    "HevSocks5Addr \<Rightarrow> sockaddr_in6 \<Rightarrow> int \<times> HevSocks5Addr" where
  "hev_socks5_addr_from_sockaddr6 addr saddr =
     (if is_v4mapped (sin6_addr saddr) then
        (7, addr\<lparr>atype := HEV_SOCKS5_ADDR_TYPE_IPV4,
          abody := mem_put (mem_put (abody addr) 4 (sin6_port saddr)) 0 (mem_get (sin6_addr saddr) 12 4)\<rparr>)
      else
        (19, addr\<lparr>atype := HEV_SOCKS5_ADDR_TYPE_IPV6,
          abody := mem_put (mem_put (abody addr) 16 (sin6_port saddr)) 0 (take 16 (sin6_addr saddr))\<rparr>))"

definition hev_socks5_ipv4_into_sockaddr6 :: "HevSocks5Addr \<Rightarrow> sockaddr_in6 \<Rightarrow> sockaddr_in6" where
  "hev_socks5_ipv4_into_sockaddr6 addr saddr =
     (let a = mem_put (sin6_addr saddr) 0 (replicate 10 0);
          a = a[10 := 0xff];
          a = a[11 := 0xff];
          a = mem_put a 12 (ipv4_addr addr)
      in saddr\<lparr>sin6_port := ipv4_port addr, sin6_addr := a\<rparr>)"

definition hev_socks5_ipv6_into_sockaddr6 :: "HevSocks5Addr \<Rightarrow> sockaddr_in6 \<Rightarrow> sockaddr_in6" where
  "hev_socks5_ipv6_into_sockaddr6 addr saddr =
     saddr\<lparr>sin6_port := ipv6_port addr, sin6_addr := mem_put (sin6_addr saddr) 0 (ipv6_addr addr)\<rparr>"

section \<open>Name resolution\<close>

text \<open>The services the resolver functions call: \<^verbatim>\<open>inet_pton\<close> for the two families (\<open>None\<close> for its
  result 0) and \<^verbatim>\<open>hev_task_dns_getaddrinfo\<close> with the family of its first result.\<close>

datatype gai_result = GaiNone | GaiInet bytes | GaiInet6 bytes | GaiOther

record resolver =
  pton4 :: "bytes \<Rightarrow> bytes option"
  pton6 :: "bytes \<Rightarrow> bytes option"
  getaddrinfo :: "bytes \<Rightarrow> HevSocks5AddrFamily \<Rightarrow> gai_result"

definition hev_socks5_name_resolve_ipv4 ::
    "resolver \<Rightarrow> bytes \<Rightarrow> sockaddr_in6 \<Rightarrow> int \<times> sockaddr_in6" where
  "hev_socks5_name_resolve_ipv4 rs name saddr =
     (let saddr = saddr\<lparr>sin6_addr := mem_put (sin6_addr saddr) 0 (replicate 10 0)\<rparr>
      in case pton4 rs name of
           None \<Rightarrow> (- 1, saddr)
         | Some v4 \<Rightarrow>
             let a = mem_put (sin6_addr saddr) 12 v4;
                 a = a[10 := 0xff];
                 a = a[11 := 0xff]
             in (0, saddr\<lparr>sin6_addr := a\<rparr>))"

definition hev_socks5_name_resolve_ipv6 ::
    "resolver \<Rightarrow> bytes \<Rightarrow> sockaddr_in6 \<Rightarrow> int \<times> sockaddr_in6" where
  "hev_socks5_name_resolve_ipv6 rs name saddr =
     (case pton6 rs name of
        None \<Rightarrow> (- 1, saddr)
      | Some v6 \<Rightarrow> (0, saddr\<lparr>sin6_addr := mem_put (sin6_addr saddr) 0 v6\<rparr>))"

definition hev_socks5_name_resolve_name ::
    "resolver \<Rightarrow> bytes \<Rightarrow> sockaddr_in6 \<Rightarrow> HevSocks5AddrFamily \<Rightarrow>
      int \<times> sockaddr_in6 \<times> HevSocks5AddrFamily" where
  "hev_socks5_name_resolve_name rs name saddr family =
     (case getaddrinfo rs name family of
        GaiNone \<Rightarrow> (- 1, saddr, family)
      | GaiInet v4 \<Rightarrow>
          let a = mem_put (sin6_addr saddr) 0 (replicate 10 0);
              a = a[10 := 0xff];
              a = a[11 := 0xff];
              a = mem_put a 12 v4
          in (0, saddr\<lparr>sin6_addr := a\<rparr>, FAMILY_IPV4)
      | GaiInet6 v6 \<Rightarrow> (0, saddr\<lparr>sin6_addr := mem_put (sin6_addr saddr) 0 v6\<rparr>, FAMILY_IPV6)
      | GaiOther \<Rightarrow> (- 1, saddr, family))"

definition hev_socks5_name_into_sockaddr6 ::
    "resolver \<Rightarrow> bytes \<Rightarrow> u16 \<Rightarrow> sockaddr_in6 \<Rightarrow> HevSocks5AddrFamily \<Rightarrow>
      int \<times> sockaddr_in6 \<times> HevSocks5AddrFamily" where
  "hev_socks5_name_into_sockaddr6 rs name port saddr family =
     (let saddr = saddr\<lparr>sin6_port := le16 (htons port)\<rparr>;
          (res, saddr) = hev_socks5_name_resolve_ipv4 rs name saddr
      in if res = 0 then (0, saddr, FAMILY_IPV4)
         else
           let (res, saddr) = hev_socks5_name_resolve_ipv6 rs name saddr
           in if res = 0 then (0, saddr, FAMILY_IPV6)
              else hev_socks5_name_resolve_name rs name saddr family)"

definition hev_socks5_addr_into_sockaddr6 ::
    "resolver \<Rightarrow> HevSocks5Addr \<Rightarrow> sockaddr_in6 \<Rightarrow> HevSocks5AddrFamily \<Rightarrow>
      int \<times> sockaddr_in6 \<times> HevSocks5AddrFamily" where
  "hev_socks5_addr_into_sockaddr6 rs addr saddr family =
     (if atype addr = HEV_SOCKS5_ADDR_TYPE_IPV4
      then (0, hev_socks5_ipv4_into_sockaddr6 addr saddr, FAMILY_IPV4)
      else if atype addr = HEV_SOCKS5_ADDR_TYPE_IPV6
      then (0, hev_socks5_ipv6_into_sockaddr6 addr saddr, FAMILY_IPV6)
      else if atype addr = HEV_SOCKS5_ADDR_TYPE_NAME
      then
        let name = takeWhile (\<lambda>b. b \<noteq> 0) (take (unat (domain_len addr)) (domain_addr addr));
            port = of_le16 (mem_get (domain_addr addr) (unat (domain_len addr)) 2)
        in hev_socks5_name_into_sockaddr6 rs name (ntohs port) saddr family
      else (- 1, saddr, family))"

section \<open>Settings\<close>

record HevSocks5Misc =
  connect_timeout :: int
  tcp_timeout :: int
  udp_timeout :: int
  task_stack_size :: int
  udp_recv_buffer_size :: int
  udp_copy_buffer_nums :: int

definition misc_defaults :: HevSocks5Misc where
  "misc_defaults = \<lparr>connect_timeout = 10000, tcp_timeout = 300000, udp_timeout = 60000,
     task_stack_size = 8192, udp_recv_buffer_size = 512 * 1024, udp_copy_buffer_nums = 10\<rparr>"

definition hev_socks5_set_connect_timeout :: "int \<Rightarrow> HevSocks5Misc \<Rightarrow> HevSocks5Misc" where
  "hev_socks5_set_connect_timeout timeout m = m\<lparr>connect_timeout := timeout\<rparr>"

definition hev_socks5_get_connect_timeout :: "HevSocks5Misc \<Rightarrow> int" where
  "hev_socks5_get_connect_timeout m = connect_timeout m"

definition hev_socks5_set_tcp_timeout :: "int \<Rightarrow> HevSocks5Misc \<Rightarrow> HevSocks5Misc" where
  "hev_socks5_set_tcp_timeout timeout m = m\<lparr>tcp_timeout := timeout\<rparr>"

definition hev_socks5_get_tcp_timeout :: "HevSocks5Misc \<Rightarrow> int" where
  "hev_socks5_get_tcp_timeout m = tcp_timeout m"

definition hev_socks5_set_udp_timeout :: "int \<Rightarrow> HevSocks5Misc \<Rightarrow> HevSocks5Misc" where
  "hev_socks5_set_udp_timeout timeout m = m\<lparr>udp_timeout := timeout\<rparr>"

definition hev_socks5_get_udp_timeout :: "HevSocks5Misc \<Rightarrow> int" where
  "hev_socks5_get_udp_timeout m = udp_timeout m"

definition hev_socks5_set_task_stack_size :: "int \<Rightarrow> HevSocks5Misc \<Rightarrow> HevSocks5Misc" where
  "hev_socks5_set_task_stack_size stack_size m = m\<lparr>task_stack_size := stack_size\<rparr>"

definition hev_socks5_get_task_stack_size :: "HevSocks5Misc \<Rightarrow> int" where
  "hev_socks5_get_task_stack_size m = task_stack_size m"

definition hev_socks5_set_udp_recv_buffer_size :: "int \<Rightarrow> HevSocks5Misc \<Rightarrow> HevSocks5Misc" where
  "hev_socks5_set_udp_recv_buffer_size buffer_size m = m\<lparr>udp_recv_buffer_size := buffer_size\<rparr>"

definition hev_socks5_set_udp_copy_buffer_nums :: "int \<Rightarrow> HevSocks5Misc \<Rightarrow> HevSocks5Misc" where
  "hev_socks5_set_udp_copy_buffer_nums nums m = m\<lparr>udp_copy_buffer_nums := nums\<rparr>"

definition hev_socks5_get_udp_copy_buffer_nums :: "HevSocks5Misc \<Rightarrow> int" where
  "hev_socks5_get_udp_copy_buffer_nums m = udp_copy_buffer_nums m"

section \<open>Layout lemmas\<close>

definition saddr_ok :: "sockaddr_in6 \<Rightarrow> bool" where
  "saddr_ok s \<longleftrightarrow> length (sin6_port s) = 2 \<and> length (sin6_addr s) = 16"

lemma length_strncpy [simp]: "length (strncpy name n) = n"
  by (simp add: strncpy_def)

lemma mem_get_all: "length xs = n \<Longrightarrow> mem_get xs 0 n = xs"
  by (simp add: mem_get_def)

lemma list16_update: "length a = 16 \<Longrightarrow> (mem_put a 0 (replicate 10 0))[10 := x, 11 := y] =
    replicate 10 0 @ [x, y] @ drop 12 a"
proof -
  assume "length a = 16"
  then have "drop 10 a = a ! 10 # a ! 11 # drop 12 a" by (simp add: Cons_nth_drop_Suc numeral_eq_Suc)
  then show ?thesis by (simp add: mem_put_def list_update_append)
qed

lemma mapped_bytes: "length a = 16 \<Longrightarrow> length v = 4 \<Longrightarrow>
    mem_put ((mem_put a 0 (replicate 10 0))[10 := 0xff, 11 := 0xff]) 12 v = v4mapped_prefix @ v"
  unfolding list16_update by (simp add: mem_put_def numeral_eq_Suc)

lemma into_sockaddr6_ipv4:
  "addr_ok a \<Longrightarrow> saddr_ok s \<Longrightarrow>
     hev_socks5_ipv4_into_sockaddr6 a s = s\<lparr>sin6_port := ipv4_port a, sin6_addr := v4mapped_prefix @ ipv4_addr a\<rparr>"
  using mapped_bytes [of "sin6_addr s" "ipv4_addr a"]
  by (simp add: hev_socks5_ipv4_into_sockaddr6_def addr_ok_def saddr_ok_def ipv4_addr_def)

lemma into_sockaddr6_ipv6:
  "addr_ok a \<Longrightarrow> saddr_ok s \<Longrightarrow>
     hev_socks5_ipv6_into_sockaddr6 a s = s\<lparr>sin6_port := ipv6_port a, sin6_addr := ipv6_addr a\<rparr>"
  by (simp add: hev_socks5_ipv6_into_sockaddr6_def addr_ok_def saddr_ok_def ipv6_addr_def mem_put_def)

lemma addr_len_type:
  "hev_socks5_addr_len (a\<lparr>atype := 1, abody := b\<rparr>) = 7" "hev_socks5_addr_len (a\<lparr>atype := 4, abody := b\<rparr>) = 19"
  by (simp_all add: hev_socks5_addr_len_def)

section \<open>Properties\<close>

text \<open>
  C9. Address round trip: \<^verbatim>\<open>hev_socks5_addr_from_sockaddr6\<close> followed by \<^verbatim>\<open>hev_socks5_addr_into_sockaddr6\<close>
  gives back the socket address, whatever the buffers held before; a v4-mapped address travels as an
  IPv4 address and every other one as IPv6, and the length returned is the one
  \<^verbatim>\<open>hev_socks5_addr_len\<close> computes.
\<close>

theorem addr_sockaddr_roundtrip:
  assumes "addr_ok a0" "saddr_ok s" "saddr_ok s0" "hev_socks5_addr_from_sockaddr6 a0 s = (n, a)"
  shows "addr_ok a \<and> n = hev_socks5_addr_len a \<and>
    hev_socks5_addr_into_sockaddr6 rs a s0 family =
      (0, s, if is_v4mapped (sin6_addr s) then FAMILY_IPV4 else FAMILY_IPV6)"
proof (cases "is_v4mapped (sin6_addr s)")
  case True
  have len: "length (sin6_addr s) = 16" using assms(2) by (simp add: saddr_ok_def)
  have s: "sin6_addr s = v4mapped_prefix @ drop 12 (sin6_addr s)"
    using True append_take_drop_id [of 12 "sin6_addr s"] by (simp add: is_v4mapped_def)
  have a: "a = a0\<lparr>atype := 1, abody := mem_put (mem_put (abody a0) 4 (sin6_port s)) 0 (drop 12 (sin6_addr s))\<rparr>" "n = 7"
    using assms(4) True len by (auto simp: hev_socks5_addr_from_sockaddr6_def mem_get_def)
  have ok: "addr_ok a" using assms len by (simp add: a addr_ok_def saddr_ok_def)
  have "ipv4_addr a = drop 12 (sin6_addr s)" "ipv4_port a = sin6_port s"
    using assms(1,2) len by (simp_all add: a ipv4_addr_def ipv4_port_def addr_ok_def saddr_ok_def mem_get_put_disjoint)
  then show ?thesis
    using ok a True s into_sockaddr6_ipv4 [OF ok assms(3)]
    by (simp add: hev_socks5_addr_into_sockaddr6_def addr_len_type)
next
  case False
  have len: "length (sin6_addr s) = 16" using assms(2) by (simp add: saddr_ok_def)
  have a: "a = a0\<lparr>atype := 4, abody := mem_put (mem_put (abody a0) 16 (sin6_port s)) 0 (sin6_addr s)\<rparr>" "n = 19"
    using assms(4) False len by (auto simp: hev_socks5_addr_from_sockaddr6_def)
  have ok: "addr_ok a" using assms len by (simp add: a addr_ok_def saddr_ok_def)
  have "ipv6_addr a = sin6_addr s" "ipv6_port a = sin6_port s"
    using assms(1,2) len by (simp_all add: a ipv6_addr_def ipv6_port_def addr_ok_def saddr_ok_def mem_get_put_disjoint)
  then show ?thesis
    using ok a False into_sockaddr6_ipv6 [OF ok assms(3)]
    by (simp add: hev_socks5_addr_into_sockaddr6_def addr_len_type)
qed

text \<open>A resolver that knows no name.\<close>

definition no_resolver :: resolver where
  "no_resolver = \<lparr>pton4 = (\<lambda>_. None), pton6 = (\<lambda>_. None), getaddrinfo = (\<lambda>_ _. GaiNone)\<rparr>"

theorem addr_sockaddr_roundtrip_witness:
  "hev_socks5_addr_into_sockaddr6 no_resolver
      (snd (hev_socks5_addr_from_sockaddr6 \<lparr>atype = 0, abody = replicate 259 0\<rparr>
        \<lparr>sin6_port = [0, 80], sin6_addr = v4mapped_prefix @ [1, 2, 3, 4]\<rparr>))
      \<lparr>sin6_port = [0, 0], sin6_addr = replicate 16 7\<rparr> FAMILY_UNSPEC =
    (0, \<lparr>sin6_port = [0, 80], sin6_addr = v4mapped_prefix @ [1, 2, 3, 4]\<rparr>, FAMILY_IPV4)"
  using addr_sockaddr_roundtrip [of "\<lparr>atype = 0, abody = replicate 259 0\<rparr>"
      "\<lparr>sin6_port = [0, 80], sin6_addr = v4mapped_prefix @ [1, 2, 3, 4]\<rparr>"
      "\<lparr>sin6_port = [0, 0], sin6_addr = replicate 16 7\<rparr>"]
  by (cases "hev_socks5_addr_from_sockaddr6 \<lparr>atype = 0, abody = replicate 259 0\<rparr>
        \<lparr>sin6_port = [0, 80], sin6_addr = v4mapped_prefix @ [1, 2, 3, 4]\<rparr>")
     (auto simp: addr_ok_def saddr_ok_def is_v4mapped_def)

lemma from_name_layout:
  assumes "addr_ok a" "cstring name" "length name \<le> 255"
  shows "\<exists>a'. hev_socks5_addr_from_name a name port = Some (4 + int (length name), a') \<and> addr_ok a' \<and>
    hev_socks5_addr_len a' = 4 + int (length name) \<and>
    take (4 + length name) (addr_bytes a') = [3, of_nat (length name)] @ name @ le16 port"
proof -
  let ?n = "length name"
  let ?b1 = "mem_put (abody a) 1 (strncpy name 256)"
  have len: "length (abody a) = 259" using assms(1) by (simp add: addr_ok_def)
  have s: "strncpy name 256 = name @ 0 # replicate (255 - ?n) 0"
    using assms(3) by (simp add: strncpy_def replicate_Suc [symmetric] Suc_diff_le del: replicate_Suc)
  obtain h t where ab: "abody a = h # t" using len by (cases "abody a") auto
  have b1: "?b1 = h # name @ 0 # replicate (255 - ?n) 0 @ drop 257 (abody a)"
    using assms(3) by (simp add: mem_put_def s ab)
  have c: "cstr (drop 1 ?b1) = Some name"
    unfolding b1 using assms(2) by (simp add: cstr_terminated)
  have u: "unat (of_nat ?n :: byte) = ?n"
    using assms(3) by (simp add: unat_of_nat take_bit_nat_eq_self_iff)
  then have u: "unat (of_nat ?n :: byte) = ?n" "uint (of_nat ?n :: byte) = int ?n"
    by (simp_all add: uint_nat)
  let ?a' = "a\<lparr>atype := 3, abody := mem_put (mem_put ?b1 0 [of_nat ?n]) (1 + ?n) (le16 port)\<rparr>"
  have r: "hev_socks5_addr_from_name a name port = Some (4 + int ?n, ?a')"
    using c u by (simp add: hev_socks5_addr_from_name_def domain_addr_def Let_def)
  have b: "abody ?a' = of_nat ?n # name @ le16 port @ drop 1 (replicate (255 - ?n) 0 @ drop 257 (abody a))"
    unfolding HevSocks5Addr.simps b1 by (simp add: mem_put_def)
  moreover have "addr_ok ?a'" using len assms(3) by (simp add: addr_ok_def)
  moreover have "hev_socks5_addr_len ?a' = 4 + int ?n"
    using u b by (simp add: hev_socks5_addr_len_def domain_len_def)
  moreover have "take (4 + ?n) (addr_bytes ?a') = [3, of_nat ?n] @ name @ le16 port"
  proof -
    have "4 + ?n = Suc (Suc (?n + 2))" by simp
    then show ?thesis using b by (simp only: addr_bytes_def take_Suc_Cons) simp
  qed
  ultimately show ?thesis using r by blast
qed

text \<open>
  Domain addresses: for a name of at most 255 bytes \<^verbatim>\<open>hev_socks5_addr_from_name\<close> lays out type, length
  byte, name and port as the protocol wants them, and returns their total length.
\<close>

theorem addr_from_name_ok:
  assumes "addr_ok a" "cstring name" "length name \<le> 255"
  shows "\<exists>a'. hev_socks5_addr_from_name a name port = Some (4 + int (length name), a') \<and> addr_ok a' \<and>
    hev_socks5_addr_len a' = 4 + int (length name) \<and>
    take (4 + length name) (addr_bytes a') = [3, of_nat (length name)] @ name @ le16 port"
  using from_name_layout [OF assms] .

theorem addr_from_name_ok_witness:
  "\<exists>a'. hev_socks5_addr_from_name \<lparr>atype = 0, abody = replicate 259 1\<rparr> [97, 98] 0x5000 = Some (6, a') \<and>
    take 6 (addr_bytes a') = [3, 2, 97, 98] @ le16 0x5000"
  using addr_from_name_ok [of "\<lparr>atype = 0, abody = replicate 259 1\<rparr>" "[97, 98]" "0x5000"]
  by (auto simp: addr_ok_def)

text \<open>A name of 256 bytes or more is not terminated by the copy: \<^verbatim>\<open>strlen\<close> reads on into the two bytes
  behind it and, when they are not zero either, out of the structure.\<close>

lemma addr_from_name_overrun:
  assumes "addr_ok a" "cstring name" "256 \<le> length name" "cstring (drop 257 (abody a))"
  shows "hev_socks5_addr_from_name a name port = None"
proof -
  obtain h t where ab: "abody a = h # t" using assms(1) by (cases "abody a") (auto simp: addr_ok_def)
  have "cstring (take 256 name)" using assms(2) by (auto simp: cstring_def dest: in_set_takeD)
  then have "cstring (drop 1 (mem_put (abody a) 1 (strncpy name 256)))"
    using assms(3,4) by (simp add: mem_put_def strncpy_def ab)
  moreover have "cstring xs \<Longrightarrow> cstr xs = None" for xs by (induction xs) auto
  ultimately show ?thesis by (simp add: hev_socks5_addr_from_name_def domain_addr_def Let_def)
qed

end
