(* ===== verification/TaskIO.thy ===== *)
theory TaskIO
  imports Socks5Addr
begin

text \<open>
  The system the protocol code runs on, and the blocking calls it makes. What the kernel answers is a
  script in the state, one list per kind of call: the chunks the peer's stream arrives in, how many
  bytes a send accepts, the outcomes of \<^verbatim>\<open>connect\<close> (the connections made are recorded in \<open>dialled\<close>), \<^verbatim>\<open>socket\<close>, \<^verbatim>\<open>setsockopt\<close>, \<^verbatim>\<open>hev_task_sleep\<close> and of
  \<^verbatim>\<open>malloc\<close>; an exhausted script is a failed call. Datagram
  sockets have scripts per descriptor. On top of it stand the retry loops of
  \<^verbatim>\<open>third-part/hev-task-system/src/lib/io/socket/hev-task-io-socket.c\<close> with the yielder of
  \<^verbatim>\<open>hev-socks5-misc.c\<close>, the object state of \<^verbatim>\<open>hev-socks5.c\<close>, and \<^verbatim>\<open>hev_socks5_socket\<close>.
\<close>

section \<open>The system\<close>

datatype rx_event = Data bytes | RxBlock | RxEof | RxFail
datatype tx_event = Accept nat | TxBlock | TxFail
datatype conn_event = Connected | InProgress | ConnFail
datatype drx_event = DBatch "(sockaddr_in6 \<times> bytes) list" | DBlock | DFail
datatype dtx_event = DAccept nat | DTxBlock | DTxFail

record net =
  rx :: "rx_event list"
  tx :: "tx_event list"
  sent :: bytes
  conns :: "conn_event list"
  dialled :: "(int \<times> sockaddr_in6) list"
  socks :: "int list"
  opts :: "int list"
  sleeps :: "int list"
  mallocs :: "bool list"
  open_fds :: "int set"
  blocks :: int
  eagain :: bool
  drx :: "int \<Rightarrow> drx_event list"
  dtx :: "int \<Rightarrow> dtx_event list"
  dsent :: "int \<Rightarrow> (sockaddr_in6 option \<times> bytes) list"

definition hev_task_sleep :: "int \<Rightarrow> 'a net_scheme \<Rightarrow> int \<times> 'a net_scheme" where
  "hev_task_sleep ms s =
     (if ms = 0 then (0, s) else case sleeps s of [] \<Rightarrow> (0, s) | t # ts \<Rightarrow> (t, s\<lparr>sleeps := ts\<rparr>))"

definition sys_opt :: "'a net_scheme \<Rightarrow> int \<times> 'a net_scheme" where
  "sys_opt s = (case opts s of [] \<Rightarrow> (0, s) | r # rs \<Rightarrow> (r, s\<lparr>opts := rs\<rparr>))"

definition sys_malloc :: "'a net_scheme \<Rightarrow> bool \<times> 'a net_scheme" where
  "sys_malloc s =
     (case mallocs s of
        [] \<Rightarrow> (True, s\<lparr>blocks := blocks s + 1\<rparr>)
      | ok # rest \<Rightarrow> (ok, s\<lparr>mallocs := rest, blocks := blocks s + (if ok then 1 else 0)\<rparr>))"

definition sys_free :: "'a net_scheme \<Rightarrow> 'a net_scheme" where
  "sys_free s = s\<lparr>blocks := blocks s - 1\<rparr>"

definition sys_close :: "int \<Rightarrow> 'a net_scheme \<Rightarrow> 'a net_scheme" where
  "sys_close d s = s\<lparr>open_fds := open_fds s - {d}\<rparr>"

section \<open>The base object\<close>

datatype HevSocks5Type = TYPE_NONE | TYPE_TCP | TYPE_UDP_IN_TCP | TYPE_UDP_IN_UDP

record HevSocks5 = net +
  fd :: int
  timeout :: int
  udp_associated :: bool
  stype :: HevSocks5Type
  addr_family :: HevSocks5AddrFamily

definition hev_socks5_get_timeout :: "'a HevSocks5_scheme \<Rightarrow> int" where
  "hev_socks5_get_timeout self = timeout self"

definition hev_socks5_set_timeout :: "int \<Rightarrow> 'a HevSocks5_scheme \<Rightarrow> 'a HevSocks5_scheme" where
  "hev_socks5_set_timeout t self = self\<lparr>timeout := t\<rparr>"

definition hev_socks5_get_addr_family :: "'a HevSocks5_scheme \<Rightarrow> HevSocks5AddrFamily" where
  "hev_socks5_get_addr_family self = addr_family self"

definition hev_socks5_set_addr_family ::
    "HevSocks5AddrFamily \<Rightarrow> 'a HevSocks5_scheme \<Rightarrow> 'a HevSocks5_scheme" where
  "hev_socks5_set_addr_family family self = self\<lparr>addr_family := family\<rparr>"

text \<open>The default \<^verbatim>\<open>binder\<close>.\<close>

definition hev_socks5_bind :: "int \<Rightarrow> sockaddr_in6 \<Rightarrow> 'a HevSocks5_scheme \<Rightarrow> int \<times> 'a HevSocks5_scheme" where
  "hev_socks5_bind d dest self = (0, self)"

definition hev_socks5_construct :: "HevSocks5Type \<Rightarrow> 'a HevSocks5_scheme \<Rightarrow> int \<times> 'a HevSocks5_scheme" where
  "hev_socks5_construct ty self =
     (0, self\<lparr>fd := - 1, timeout := - 1, stype := ty, addr_family := FAMILY_UNSPEC\<rparr>)"

definition hev_socks5_destruct :: "'a HevSocks5_scheme \<Rightarrow> 'a HevSocks5_scheme" where
  "hev_socks5_destruct self = sys_free (if fd self \<ge> 0 then sys_close (fd self) self else self)"

datatype HevTaskYieldType = HEV_TASK_YIELD | HEV_TASK_WAITIO

definition hev_socks5_task_io_yielder ::
    "HevTaskYieldType \<Rightarrow> 'a HevSocks5_scheme \<Rightarrow> int \<times> 'a HevSocks5_scheme" where
  "hev_socks5_task_io_yielder ty self =
     (if ty = HEV_TASK_YIELD then (0, self)
      else if timeout self < 0 then (0, self)
      else
        let (t, self) = hev_task_sleep (timeout self) self
        in if t \<le> 0 then (- 1, self) else (0, self))"

lemma yielder_fields:
  assumes "hev_socks5_task_io_yielder ty s = (r, s')"
  shows "rx s' = rx s" "tx s' = tx s" "sent s' = sent s" "conns s' = conns s"
  using assms by (auto simp: hev_socks5_task_io_yielder_def hev_task_sleep_def split: if_splits list.splits)

lemma yielder_more:
  assumes "hev_socks5_task_io_yielder ty s = (r, s')"
  obtains ts where "s' = s\<lparr>sleeps := ts\<rparr>"
proof -
  have "s' = s \<or> s' = s\<lparr>sleeps := tl (sleeps s)\<rparr>"
    using assms by (auto simp: hev_socks5_task_io_yielder_def hev_task_sleep_def split: if_splits list.splits)
  then show ?thesis
  proof
    assume "s' = s"
    then have "s' = s\<lparr>sleeps := sleeps s\<rparr>" by simp
    then show ?thesis by (rule that)
  qed (rule that)
qed

section \<open>Stream sockets\<close>

text \<open>
  \<^verbatim>\<open>hev_task_io_socket_recv\<close>: \<open>buf\<close> holds the bytes read so far (\<^verbatim>\<open>size\<close> is its length), \<open>waitall\<close> and
  \<open>dontwait\<close> are the flags; the result is the return value, the bytes in the caller's buffer and the
  state.
\<close>

definition recv_failed ::
    "bool \<Rightarrow> bytes \<Rightarrow> int \<Rightarrow> 'a HevSocks5_scheme \<Rightarrow> int \<times> bytes \<times> 'a HevSocks5_scheme" where
  "recv_failed waitall buf r s = (if waitall \<and> buf \<noteq> [] then int (length buf) else r, buf, s)"

function hev_task_io_socket_recv ::
    "nat \<Rightarrow> bool \<Rightarrow> bool \<Rightarrow> bytes \<Rightarrow> 'a HevSocks5_scheme \<Rightarrow> int \<times> bytes \<times> 'a HevSocks5_scheme" where
  "hev_task_io_socket_recv len waitall dontwait buf s =
     (if len \<le> length buf then (int (length buf), buf, s)
      else case rx s of
        [] \<Rightarrow> recv_failed waitall buf (- 1) (s\<lparr>eagain := False\<rparr>)
      | RxFail # es \<Rightarrow> recv_failed waitall buf (- 1) (s\<lparr>rx := es, eagain := False\<rparr>)
      | RxEof # es \<Rightarrow> recv_failed waitall buf 0 s
      | RxBlock # es \<Rightarrow>
          if dontwait then recv_failed waitall buf (- 1) (s\<lparr>rx := es, eagain := True\<rparr>)
          else (case hev_socks5_task_io_yielder HEV_TASK_WAITIO (s\<lparr>rx := es, eagain := True\<rparr>) of
            (y, s) \<Rightarrow>
              if y \<noteq> 0 then (if buf \<noteq> [] then int (length buf) else - 2, buf, s)
              else hev_task_io_socket_recv len waitall dontwait buf s)
      | Data bs # es \<Rightarrow>
          let n = min (len - length buf) (length bs);
              s = s\<lparr>rx := (if length bs = n then es else Data (drop n bs) # es)\<rparr>;
              buf' = buf @ take n bs
          in if \<not> waitall then (int n, buf', s)
             else if n = 0 then (int (length buf), buf, s)
             else if length buf' < len then hev_task_io_socket_recv len waitall dontwait buf' s
             else (int (length buf'), buf', s))"
  by pat_completeness auto
termination
  by (relation "measure (\<lambda>(len, wa, dw, buf, s). length (rx s))")
     (auto split: if_splits dest: yielder_fields(1) [OF sym])

declare hev_task_io_socket_recv.simps [simp del]

text \<open>\<^verbatim>\<open>hev_task_io_socket_send\<close> with \<^verbatim>\<open>MSG_WAITALL\<close>: \<open>bs\<close> is what is left to send, \<open>k\<close> is \<^verbatim>\<open>size\<close>.\<close>

function hev_task_io_socket_send :: "bytes \<Rightarrow> nat \<Rightarrow> 'a HevSocks5_scheme \<Rightarrow> int \<times> 'a HevSocks5_scheme" where
  "hev_task_io_socket_send bs k s =
     (case tx s of
        [] \<Rightarrow> (if k > 0 then int k else - 1, s\<lparr>eagain := False\<rparr>)
      | TxFail # es \<Rightarrow> (if k > 0 then int k else - 1, s\<lparr>tx := es, eagain := False\<rparr>)
      | TxBlock # es \<Rightarrow>
          (case hev_socks5_task_io_yielder HEV_TASK_WAITIO (s\<lparr>tx := es, eagain := True\<rparr>) of
             (y, s) \<Rightarrow>
               if y \<noteq> 0 then (if k > 0 then int k else - 2, s)
               else hev_task_io_socket_send bs k s)
      | Accept m # es \<Rightarrow>
          let n = min m (length bs);
              s = s\<lparr>tx := es, sent := sent s @ take n bs\<rparr>
          in if n = 0 then (int k, s)
             else if n < length bs then hev_task_io_socket_send (drop n bs) (k + n) s
             else (int (k + n), s))"
  by pat_completeness auto
termination
  by (relation "measure (\<lambda>(bs, k, s). length (tx s))") (auto dest: yielder_fields(2) [OF sym])

declare hev_task_io_socket_send.simps [simp del]

text \<open>The vectors left after \<open>n\<close> bytes have been sent: the \<^verbatim>\<open>for\<close> loop of \<^verbatim>\<open>hev_task_io_socket_sendmsg\<close>.\<close>

fun iov_advance :: "nat \<Rightarrow> bytes list \<Rightarrow> bytes list" where
  "iov_advance n [] = []"
| "iov_advance n (v # vs) = (if n < length v then drop n v # vs else iov_advance (n - length v) vs)"

function hev_task_io_socket_sendmsg ::
    "bytes list \<Rightarrow> nat \<Rightarrow> nat \<Rightarrow> 'a HevSocks5_scheme \<Rightarrow> int \<times> 'a HevSocks5_scheme" where
  "hev_task_io_socket_sendmsg vs len k s =
     (case tx s of
        [] \<Rightarrow> (if k > 0 then int k else - 1, s\<lparr>eagain := False\<rparr>)
      | TxFail # es \<Rightarrow> (if k > 0 then int k else - 1, s\<lparr>tx := es, eagain := False\<rparr>)
      | TxBlock # es \<Rightarrow>
          (case hev_socks5_task_io_yielder HEV_TASK_WAITIO (s\<lparr>tx := es, eagain := True\<rparr>) of
             (y, s) \<Rightarrow>
               if y \<noteq> 0 then (if k > 0 then int k else - 2, s)
               else hev_task_io_socket_sendmsg vs len k s)
      | Accept m # es \<Rightarrow>
          let n = min m (length (concat vs));
              s = s\<lparr>tx := es, sent := sent s @ take n (concat vs)\<rparr>
          in if n = 0 then (int k, s)
             else if k + n < len then hev_task_io_socket_sendmsg (iov_advance n vs) len (k + n) s
             else (int (k + n), s))"
  by pat_completeness auto
termination
  by (relation "measure (\<lambda>(vs, len, k, s). length (tx s))") (auto dest: yielder_fields(2) [OF sym])

declare hev_task_io_socket_sendmsg.simps [simp del]

definition io_sendmsg :: "bytes list \<Rightarrow> 'a HevSocks5_scheme \<Rightarrow> int \<times> 'a HevSocks5_scheme" where
  "io_sendmsg vs s = hev_task_io_socket_sendmsg vs (sum_list (map length vs)) 0 s"

function hev_task_io_socket_connect ::
    "int \<Rightarrow> sockaddr_in6 \<Rightarrow> 'a HevSocks5_scheme \<Rightarrow> int \<times> 'a HevSocks5_scheme" where
  "hev_task_io_socket_connect d sa s =
     (case conns s of
        [] \<Rightarrow> (- 1, s)
      | ConnFail # es \<Rightarrow> (- 1, s\<lparr>conns := es\<rparr>)
      | Connected # es \<Rightarrow> (0, s\<lparr>conns := es, dialled := dialled s @ [(d, sa)]\<rparr>)
      | InProgress # es \<Rightarrow>
          (case hev_socks5_task_io_yielder HEV_TASK_WAITIO (s\<lparr>conns := es\<rparr>) of
             (y, s) \<Rightarrow> if y \<noteq> 0 then (- 2, s) else hev_task_io_socket_connect d sa s))"
  by pat_completeness auto
termination
  by (relation "measure (\<lambda>(d, sa, s). length (conns s))") (auto dest: yielder_fields(4) [OF sym])

declare hev_task_io_socket_connect.simps [simp del]

text \<open>\<^verbatim>\<open>hev_socks5_socket\<close>: the new descriptor, or -1.\<close>

definition hev_socks5_socket :: "'a net_scheme \<Rightarrow> int \<times> 'a net_scheme" where
  "hev_socks5_socket s =
     (case socks s of
        [] \<Rightarrow> (- 1, s)
      | d # ds \<Rightarrow>
          let s = s\<lparr>socks := ds\<rparr>
          in if d < 0 then (- 1, s)
             else
               let s = s\<lparr>open_fds := insert d (open_fds s)\<rparr>;
                   (res, s) = sys_opt s
               in if res < 0 then (- 1, sys_close d s) else (d, s))"

section \<open>What the loops do\<close>

text \<open>The bytes that can still be read from a stream script, and scripts without any waiting.\<close>

fun stream :: "rx_event list \<Rightarrow> bytes" where
  "stream [] = []"
| "stream (Data bs # es) = (if bs = [] then [] else bs @ stream es)"
| "stream (RxBlock # es) = stream es"
| "stream (RxEof # es) = []"
| "stream (RxFail # es) = []"

definition flowing :: "rx_event list \<Rightarrow> bool" where
  "flowing es \<longleftrightarrow> (\<forall>e\<in>set es. \<exists>bs. e = Data bs \<and> bs \<noteq> [])"

text \<open>States that differ only in what a read, or a write, may change.\<close>

definition rx_norm :: "'a HevSocks5_scheme \<Rightarrow> 'a HevSocks5_scheme" where
  "rx_norm s = s\<lparr>rx := [], sleeps := [], eagain := False\<rparr>"

definition tx_norm :: "'a HevSocks5_scheme \<Rightarrow> 'a HevSocks5_scheme" where
  "tx_norm s = s\<lparr>tx := [], sleeps := [], eagain := False, sent := []\<rparr>"

definition rx_only :: "'a HevSocks5_scheme \<Rightarrow> 'a HevSocks5_scheme \<Rightarrow> bool" where
  "rx_only s s' \<longleftrightarrow> rx_norm s' = rx_norm s"

definition tx_only :: "'a HevSocks5_scheme \<Rightarrow> 'a HevSocks5_scheme \<Rightarrow> bytes \<Rightarrow> bool" where
  "tx_only s s' bs \<longleftrightarrow> tx_norm s' = tx_norm s \<and> sent s' = sent s @ bs"

lemma norm_updates [simp]:
  "rx_norm (s\<lparr>rx := a\<rparr>) = rx_norm s" "rx_norm (s\<lparr>sleeps := b\<rparr>) = rx_norm s" "rx_norm (s\<lparr>eagain := c\<rparr>) = rx_norm s"
  "tx_norm (s\<lparr>tx := d\<rparr>) = tx_norm s" "tx_norm (s\<lparr>sleeps := b\<rparr>) = tx_norm s" "tx_norm (s\<lparr>eagain := c\<rparr>) = tx_norm s"
  "tx_norm (s\<lparr>sent := e\<rparr>) = tx_norm s"
  by (simp_all add: rx_norm_def tx_norm_def)

lemma yielder_norm:
  assumes "hev_socks5_task_io_yielder ty s = (r, s')"
  shows "rx_norm s' = rx_norm s" "tx_norm s' = tx_norm s"
  using assms by (auto elim!: yielder_more)

lemma rx_only_fields:
  assumes "rx_only s s'"
  shows "tx s' = tx s" "sent s' = sent s" "conns s' = conns s" "dialled s' = dialled s" "socks s' = socks s" "opts s' = opts s"
    "open_fds s' = open_fds s" "fd s' = fd s" "timeout s' = timeout s" "stype s' = stype s"
    "addr_family s' = addr_family s" "blocks s' = blocks s" "mallocs s' = mallocs s" "udp_associated s' = udp_associated s"
    "HevSocks5.more s' = HevSocks5.more s"
  using assms unfolding rx_only_def rx_norm_def
  by (cases s; cases s'; simp)+

lemma tx_only_fields:
  assumes "tx_only s s' bs"
  shows "rx s' = rx s" "sent s' = sent s @ bs" "conns s' = conns s" "dialled s' = dialled s" "socks s' = socks s" "opts s' = opts s"
    "open_fds s' = open_fds s" "fd s' = fd s" "timeout s' = timeout s" "stype s' = stype s"
    "addr_family s' = addr_family s" "blocks s' = blocks s" "mallocs s' = mallocs s" "udp_associated s' = udp_associated s"
    "HevSocks5.more s' = HevSocks5.more s"
  using assms unfolding tx_only_def tx_norm_def
  by (cases s; cases s'; simp)+

text \<open>A blocking read with \<^verbatim>\<open>MSG_WAITALL\<close>: what lands in the buffer is the next part of the stream, and
  the value \<open>len\<close> is returned exactly when all of it is there.\<close>

lemma recv_spec:
  assumes "hev_task_io_socket_recv len True False buf s = (r, buf', s')" "length buf < len"
  shows "rx_only s s' \<and>
    (r = int len \<longrightarrow> buf' = buf @ take (len - length buf) (stream (rx s)) \<and> length buf' = len \<and>
      stream (rx s') = drop (len - length buf) (stream (rx s)))"
  using assms
proof (induction len True False buf s arbitrary: r buf' s' rule: hev_task_io_socket_recv.induct)
  case (1 len buf s)
  note unfold = hev_task_io_socket_recv.simps [of len True False buf s]
  show ?case
  proof (cases "rx s")
    case Nil
    with "1.prems" show ?thesis by (auto simp: unfold recv_failed_def rx_only_def split: if_splits)
  next
    case (Cons e es)
    show ?thesis
    proof (cases e)
      case RxBlock
      obtain y s1 where y: "hev_socks5_task_io_yielder HEV_TASK_WAITIO (s\<lparr>rx := es, eagain := True\<rparr>) = (y, s1)" by force
      show ?thesis
      proof (cases "y = 0")
        case True
        have r: "hev_task_io_socket_recv len True False buf s1 = (r, buf', s')"
          using "1.prems" Cons RxBlock y True by (simp add: unfold)
        have "rx_only s s1" "rx s1 = es"
          using yielder_norm(1) [OF y] yielder_fields(1) [OF y] by (simp_all add: rx_only_def)
        with "1.hyps"(2) [OF _ Cons RxBlock _ y [symmetric]] "1.prems"(2) True r Cons RxBlock show ?thesis
          by (auto simp: rx_only_def)
      next
        case False
        then show ?thesis
          using "1.prems" Cons RxBlock y yielder_norm(1) [OF y]
          by (auto simp: unfold rx_only_def split: if_splits)
      qed
    next
      case (Data bs)
      let ?n = "min (len - length buf) (length bs)"
      let ?s = "s\<lparr>rx := (if length bs = ?n then es else Data (drop ?n bs) # es)\<rparr>"
      let ?b = "buf @ take ?n bs"
      show ?thesis
      proof (cases "length ?b < len \<and> ?n \<noteq> 0")
        case True
        then have n: "?n = length bs" "bs \<noteq> []" by auto
        have r: "hev_task_io_socket_recv len True False (buf @ bs) (s\<lparr>rx := es\<rparr>) = (r, buf', s')"
          using "1.prems" Cons Data True n by (simp add: unfold Let_def)
        have "length (buf @ bs) < len" using True n by simp
        with "1.hyps"(1) [OF _ Cons Data refl refl refl] "1.prems"(2) True r Cons Data n show ?thesis
          by (auto simp: rx_only_def)
      next
        case False
        then show ?thesis
          using "1.prems" Cons Data
          by (auto simp: unfold Let_def rx_only_def min_def split: if_splits)
      qed
    qed (use "1.prems" Cons in \<open>auto simp: unfold recv_failed_def rx_only_def split: if_splits\<close>)
  qed
qed

definition io_recv :: "nat \<Rightarrow> 'a HevSocks5_scheme \<Rightarrow> int \<times> bytes \<times> 'a HevSocks5_scheme" where
  "io_recv len s = hev_task_io_socket_recv len True False [] s"

definition io_send :: "bytes \<Rightarrow> 'a HevSocks5_scheme \<Rightarrow> int \<times> 'a HevSocks5_scheme" where
  "io_send bs s = hev_task_io_socket_send bs 0 s"

lemma io_recv_spec:
  assumes "io_recv len s = (r, buf, s')"
  shows "rx_only s s' \<and>
    (r = int len \<longrightarrow> length buf = len \<and> buf = take len (stream (rx s)) \<and> stream (rx s') = drop len (stream (rx s)))"
proof (cases "len = 0")
  case True
  with assms show ?thesis by (auto simp: io_recv_def hev_task_io_socket_recv.simps rx_only_def)
next
  case False
  then show ?thesis using recv_spec [of len "[]" s r buf s'] assms by (auto simp: io_recv_def)
qed

text \<open>On a script of data only, a read of no more than is there returns all of it.\<close>

lemma recv_flowing:
  assumes "flowing (rx s)" "length buf \<le> len" "len - length buf \<le> length (stream (rx s))"
  shows "\<exists>es. hev_task_io_socket_recv len True False buf s =
      (int len, buf @ take (len - length buf) (stream (rx s)), s\<lparr>rx := es\<rparr>) \<and> flowing es \<and>
      stream es = drop (len - length buf) (stream (rx s))"
  using assms
proof (induction "rx s" arbitrary: buf s)
  case Nil
  then have "len = length buf" by simp
  moreover have "s = s\<lparr>rx := []\<rparr>" using Nil by simp
  ultimately show ?case using Nil by (intro exI [of _ "[]"]) (simp add: hev_task_io_socket_recv.simps flowing_def)
next
  case (Cons e es)
  then obtain bs where e: "e = Data bs" "bs \<noteq> []" and fl: "flowing es"
    by (cases "rx s") (auto simp: flowing_def)
  note rxs = Cons.hyps(2) [symmetric]
  let ?n = "min (len - length buf) (length bs)"
  have self: "s\<lparr>rx := Data bs # es\<rparr> = s" using rxs e by simp
  consider "len = length buf" | "length buf < len" "length buf + length bs < len" | "length buf < len" "\<not> length buf + length bs < len"
    using Cons.prems(2) by linarith
  then show ?case
  proof cases
    case 1
    then show ?thesis using self Cons.prems(1) rxs e
      by (intro exI [of _ "Data bs # es"]) (simp add: hev_task_io_socket_recv.simps)
  next
    case 2
    let ?s = "s\<lparr>rx := es\<rparr>"
    have "min (len - length buf) (length bs) = length bs" using 2 by simp
    then have step: "hev_task_io_socket_recv len True False buf s = hev_task_io_socket_recv len True False (buf @ bs) ?s"
      using 2 e rxs by (subst hev_task_io_socket_recv.simps) (simp add: Let_def)
    have "\<exists>fs. hev_task_io_socket_recv len True False (buf @ bs) ?s =
        (int len, (buf @ bs) @ take (len - length (buf @ bs)) (stream (rx ?s)), ?s\<lparr>rx := fs\<rparr>) \<and> flowing fs \<and>
        stream fs = drop (len - length (buf @ bs)) (stream (rx ?s))"
      using 2 e rxs fl Cons.prems by (intro Cons.hyps(1)) auto
    then show ?thesis using step 2 e rxs by auto
  next
    case 3
    let ?es = "if length bs = len - length buf then es else Data (drop (len - length buf) bs) # es"
    have "flowing ?es" using fl 3 by (auto simp: flowing_def)
    moreover have "hev_task_io_socket_recv len True False buf s =
        (int len, buf @ take (len - length buf) (stream (rx s)), s\<lparr>rx := ?es\<rparr>)"
      using 3 e rxs by (subst hev_task_io_socket_recv.simps) (auto simp: Let_def min_def)
    moreover have "stream ?es = drop (len - length buf) (stream (rx s))"
      using 3 e rxs by auto
    ultimately show ?thesis by blast
  qed
qed

lemma io_recv_flowing:
  assumes "flowing (rx s)" "len \<le> length (stream (rx s))"
  shows "\<exists>es. io_recv len s = (int len, take len (stream (rx s)), s\<lparr>rx := es\<rparr>) \<and> flowing es \<and>
    stream es = drop len (stream (rx s))"
  using recv_flowing [of s "[]" len] assms by (simp add: io_recv_def)

text \<open>A write sends a prefix of its bytes, and returns a positive number exactly when that is not empty.\<close>

lemma send_spec:
  assumes "hev_task_io_socket_send bs k s = (r, s')"
  shows "\<exists>n\<le>length bs. tx_only s s' (take n bs) \<and> (if r > 0 then r = int (k + n) else n = 0 \<and> k = 0)"
  using assms
proof (induction bs k s arbitrary: r s' rule: hev_task_io_socket_send.induct)
  case (1 bs k s)
  note unfold = hev_task_io_socket_send.simps [of bs k s]
  show ?case
  proof (cases "tx s")
    case Nil
    with "1.prems" show ?thesis by (auto simp: unfold tx_only_def split: if_splits)
  next
    case (Cons e es)
    show ?thesis
    proof (cases e)
      case TxBlock
      obtain y s1 where y: "hev_socks5_task_io_yielder HEV_TASK_WAITIO (s\<lparr>tx := es, eagain := True\<rparr>) = (y, s1)" by force
      have n1: "tx_norm s1 = tx_norm s" "sent s1 = sent s"
        using yielder_norm(2) [OF y] yielder_fields(3) [OF y] by simp_all
      show ?thesis
      proof (cases "y = 0")
        case True
        have "hev_task_io_socket_send bs k s1 = (r, s')"
          using "1.prems" Cons TxBlock y True by (simp add: unfold)
        with "1.IH"(2) [OF Cons TxBlock y [symmetric]] True n1 show ?thesis by (auto simp: tx_only_def)
      next
        case False
        then show ?thesis
          using "1.prems" Cons TxBlock y n1 by (auto simp: unfold tx_only_def split: if_splits)
      qed
    next
      case (Accept m)
      let ?n = "min m (length bs)"
      let ?s = "s\<lparr>tx := es, sent := sent s @ take ?n bs\<rparr>"
      show ?thesis
      proof (cases "?n \<noteq> 0 \<and> ?n < length bs")
        case True
        have "hev_task_io_socket_send (drop ?n bs) (k + ?n) ?s = (r, s')"
          using "1.prems" Cons Accept True by (simp add: unfold Let_def)
        with "1.IH"(1) [OF Cons Accept refl refl] True obtain n where
          n: "n \<le> length (drop ?n bs)" "tx_only ?s s' (take n (drop ?n bs))"
            "if r > 0 then r = int (k + ?n + n) else n = 0 \<and> k + ?n = 0" by auto
        have "take (?n + n) bs = take ?n bs @ take n (drop ?n bs)" by (simp add: take_add)
        with n True show ?thesis
          by (intro exI [of _ "?n + n"]) (auto simp: tx_only_def split: if_splits)
      next
        case False
        have "bs \<noteq> [] \<Longrightarrow> 0 < int k + int (length bs)" by (simp add: add_nonneg_pos)
        with False show ?thesis
          using "1.prems" Cons Accept
          by (intro exI [of _ ?n]) (auto simp: unfold Let_def tx_only_def split: if_splits)
      qed
    qed (use "1.prems" Cons in \<open>auto simp: unfold tx_only_def split: if_splits\<close>)
  qed
qed

lemma io_send_spec:
  assumes "io_send bs s = (r, s')"
  shows "\<exists>n\<le>length bs. tx_only s s' (take n bs) \<and> (if r > 0 then r = int n else n = 0)"
  using send_spec [OF assms [unfolded io_send_def]] by auto

lemma io_send_accept:
  "tx s = Accept m # es \<Longrightarrow> bs \<noteq> [] \<Longrightarrow> length bs \<le> m \<Longrightarrow>
     io_send bs s = (int (length bs), s\<lparr>tx := es, sent := sent s @ bs\<rparr>)"
  by (simp add: io_send_def hev_task_io_socket_send.simps min_def)

text \<open>Advancing the vectors is dropping from their concatenation, so that sending a vector is sending the
  concatenation.\<close>

lemma concat_iov_advance: "concat (iov_advance n vs) = drop n (concat vs)"
  by (induction n vs rule: iov_advance.induct) auto

lemma sendmsg_send:
  "len = k + length (concat vs) \<Longrightarrow> hev_task_io_socket_sendmsg vs len k s = hev_task_io_socket_send (concat vs) k s"
proof (induction vs len k s rule: hev_task_io_socket_sendmsg.induct)
  case (1 vs len k s)
  show ?case
  proof (cases "tx s")
    case Nil
    then show ?thesis by (simp add: hev_task_io_socket_sendmsg.simps hev_task_io_socket_send.simps)
  next
    case (Cons e es)
    show ?thesis
    proof (cases e)
      case TxBlock
      obtain y s1 where y: "hev_socks5_task_io_yielder HEV_TASK_WAITIO (s\<lparr>tx := es, eagain := True\<rparr>) = (y, s1)" by force
      from "1.IH"(2) [OF Cons TxBlock y [symmetric]] "1.prems" Cons TxBlock y show ?thesis
        by (simp add: hev_task_io_socket_sendmsg.simps [of vs] hev_task_io_socket_send.simps [of "concat vs"])
    next
      case (Accept m)
      define n where "n = min m (length (concat vs))"
      have "n \<le> length (concat vs)" by (simp add: n_def)
      then have step: "n \<noteq> 0 \<Longrightarrow> k + n < len \<Longrightarrow>
          hev_task_io_socket_sendmsg (iov_advance n vs) len (k + n) (s\<lparr>tx := es, sent := sent s @ take n (concat vs)\<rparr>) =
          hev_task_io_socket_send (drop n (concat vs)) (k + n) (s\<lparr>tx := es, sent := sent s @ take n (concat vs)\<rparr>)"
        using "1.IH"(1) [OF Cons Accept n_def refl] "1.prems" by (simp add: concat_iov_advance)
      have eq: "k + n < len \<longleftrightarrow> n < length (concat vs)" using "1.prems" by simp
      show ?thesis
        unfolding hev_task_io_socket_sendmsg.simps [of vs len k s] hev_task_io_socket_send.simps [of "concat vs" k s]
          Cons Accept list.case tx_event.case Let_def n_def [symmetric]
        using step eq by simp
    qed (simp_all add: Cons hev_task_io_socket_sendmsg.simps hev_task_io_socket_send.simps)
  qed
qed

lemma io_sendmsg_eq: "io_sendmsg vs s = io_send (concat vs) s"
  by (simp add: io_sendmsg_def io_send_def sendmsg_send length_concat)

text \<open>Connecting changes only the connection script, the record of connections and the timer; a
  connection is recorded exactly when zero is returned.\<close>

definition conn_norm :: "'a HevSocks5_scheme \<Rightarrow> 'a HevSocks5_scheme" where
  "conn_norm s = s\<lparr>conns := [], sleeps := [], dialled := []\<rparr>"

lemma conn_norm_updates [simp]:
  "conn_norm (s\<lparr>conns := a\<rparr>) = conn_norm s" "conn_norm (s\<lparr>sleeps := b\<rparr>) = conn_norm s"
  "conn_norm (s\<lparr>dialled := c\<rparr>) = conn_norm s"
  by (simp_all add: conn_norm_def)

lemma conn_norm_fields:
  assumes "conn_norm s' = conn_norm s"
  shows "rx s' = rx s" "tx s' = tx s" "sent s' = sent s" "socks s' = socks s" "opts s' = opts s"
    "open_fds s' = open_fds s" "fd s' = fd s" "timeout s' = timeout s" "stype s' = stype s"
    "addr_family s' = addr_family s" "blocks s' = blocks s" "mallocs s' = mallocs s" "udp_associated s' = udp_associated s"
    "HevSocks5.more s' = HevSocks5.more s"
  using assms unfolding conn_norm_def by (cases s; cases s'; simp)+

lemma connect_spec:
  assumes "hev_task_io_socket_connect d sa s = (r, s')"
  shows "r \<le> 0 \<and> conn_norm s' = conn_norm s \<and> dialled s' = (if r = 0 then dialled s @ [(d, sa)] else dialled s)"
  using assms
proof (induction d sa s arbitrary: r s' rule: hev_task_io_socket_connect.induct)
  case (1 d sa s)
  note unfold = hev_task_io_socket_connect.simps [of d sa s]
  show ?case
  proof (cases "conns s")
    case Nil
    with "1.prems" show ?thesis by (auto simp: unfold)
  next
    case (Cons e es)
    show ?thesis
    proof (cases e)
      case InProgress
      obtain y s1 where y: "hev_socks5_task_io_yielder HEV_TASK_WAITIO (s\<lparr>conns := es\<rparr>) = (y, s1)" by force
      obtain ts where s1: "s1 = s\<lparr>conns := es, sleeps := ts\<rparr>" using yielder_more [OF y] by blast
      show ?thesis
      proof (cases "y = 0")
        case True
        have "hev_task_io_socket_connect d sa s1 = (r, s')"
          using "1.prems" Cons InProgress y True by (simp add: unfold)
        with "1.IH" [OF Cons InProgress y [symmetric]] True s1 show ?thesis by simp
      next
        case False
        with "1.prems" Cons InProgress y s1 show ?thesis by (auto simp: unfold)
      qed
    qed (use "1.prems" Cons in \<open>auto simp: unfold\<close>)
  qed
qed

text \<open>A socket that is not returned is not left open.\<close>

lemma socket_spec:
  assumes "hev_socks5_socket s = (d, s')" "\<forall>d\<in>set (socks s). d \<notin> open_fds s"
  obtains ds os where "s' = s\<lparr>socks := ds, opts := os, open_fds := (if d < 0 then open_fds s else insert d (open_fds s))\<rparr>"
    "d < 0 \<or> d \<in> set (socks s)"
proof -
  have d: "open_fds s - {d} = open_fds s" if "d \<notin> open_fds s" for d using that by simp
  have "s' = s\<lparr>socks := socks s', opts := opts s',
      open_fds := (if d < 0 then open_fds s else insert d (open_fds s))\<rparr> \<and> (d < 0 \<or> d \<in> set (socks s))"
    using assms
    by (cases s; cases "socks s"; cases "opts s")
       (auto simp: hev_socks5_socket_def sys_opt_def sys_close_def Let_def d split: if_splits)
  then show ?thesis using that by blast
qed

section \<open>Frames\<close>

text \<open>What the reads and writes leave alone.\<close>

definition same_obj :: "'a HevSocks5_scheme \<Rightarrow> 'a HevSocks5_scheme \<Rightarrow> bool" where
  "same_obj s s' \<longleftrightarrow> HevSocks5.more s' = HevSocks5.more s \<and> fd s' = fd s \<and>
     stype s' = stype s \<and> addr_family s' = addr_family s \<and> udp_associated s' = udp_associated s \<and>
     blocks s' = blocks s \<and> mallocs s' = mallocs s \<and> open_fds s' = open_fds s \<and> socks s' = socks s \<and>
     opts s' = opts s \<and> conns s' = conns s \<and> dialled s' = dialled s"

lemma same_obj_refl [simp]: "same_obj s s"
  by (simp add: same_obj_def)

lemma same_obj_timeout [simp]: "same_obj s (hev_socks5_set_timeout t s)"
  by (simp add: same_obj_def hev_socks5_set_timeout_def)

lemma same_obj_trans: "same_obj s t \<Longrightarrow> same_obj t u \<Longrightarrow> same_obj s u"
  by (simp add: same_obj_def)

lemma rx_only_same: "rx_only s s' \<Longrightarrow> same_obj s s'"
  by (simp add: same_obj_def rx_only_fields)

lemma tx_only_same: "tx_only s s' bs \<Longrightarrow> same_obj s s'"
  by (simp add: same_obj_def tx_only_fields)

lemma io_recv_ok:
  assumes "io_recv len s = (int len, buf, s')"
  shows "stream (rx s) = buf @ stream (rx s')" "length buf = len" "rx_only s s'"
  using io_recv_spec [OF assms] by (metis append_take_drop_id, blast, blast)

lemma two_bytes: "length buf = 2 \<Longrightarrow> buf = [buf ! 0, buf ! 1]"
  by (auto simp: length_Suc_conv numeral_eq_Suc)

lemma four_bytes: "length buf = 4 \<Longrightarrow> buf = [buf ! 0, buf ! 1, buf ! 2, buf ! 3]"
  by (auto simp: length_Suc_conv numeral_eq_Suc)

section \<open>Enough room and enough data\<close>

text \<open>A peer that takes whatever is written and whose data flows.\<close>

definition ready :: "nat \<Rightarrow> bytes \<Rightarrow> 'a HevSocks5_scheme \<Rightarrow> bool" where
  "ready k st s \<longleftrightarrow> k \<le> length (tx s) \<and> (\<forall>e\<in>set (tx s). \<exists>n\<ge>513. e = Accept n) \<and>
     flowing (rx s) \<and> stream (rx s) = st"

lemma ready_send:
  assumes "ready (Suc k) st s" "bs \<noteq> []" "length bs \<le> 513"
  obtains s' where "io_send bs s = (int (length bs), s')" "ready k st s'" "same_obj s s'" "sent s' = sent s @ bs"
proof -
  obtain n es where e: "tx s = Accept n # es" "513 \<le> n"
    using assms(1) by (cases "tx s") (auto simp: ready_def)
  show ?thesis
  proof (rule that)
    show "io_send bs s = (int (length bs), s\<lparr>tx := es, sent := sent s @ bs\<rparr>)"
      using io_send_accept [of s n es bs] e assms by simp
  qed (use assms(1) e in \<open>auto simp: ready_def same_obj_def\<close>)
qed

lemma ready_recv:
  assumes "ready k (bs @ st) s" "length bs = n"
  obtains s' where "io_recv n s = (int n, bs, s')" "ready k st s'" "same_obj s s'" "sent s' = sent s"
proof -
  obtain es where "io_recv n s = (int n, bs, s\<lparr>rx := es\<rparr>)" "flowing es" "stream es = st"
    using io_recv_flowing [of s n] assms by (auto simp: ready_def)
  then show ?thesis using that [of "s\<lparr>rx := es\<rparr>"] assms(1) by (auto simp: ready_def same_obj_def)
qed

lemma ready_mono: "ready (Suc k) st s \<Longrightarrow> ready k st s"
  by (simp add: ready_def)

section \<open>The bind hook\<close>

text \<open>The virtual function that binds a new socket before it is connected: it may set options of the socket,
  and nothing else.\<close>

type_synonym 'a bind_fun = "int \<Rightarrow> sockaddr_in6 \<Rightarrow> 'a \<Rightarrow> int \<times> 'a"

locale bind_hook =
  fixes bnd :: "'a HevSocks5_scheme bind_fun"
  assumes bnd_frame: "\<exists>os. snd (bnd d sa s) = s\<lparr>opts := os\<rparr>"

interpretation dflt: bind_hook hev_socks5_bind
proof
  show "\<exists>os. snd (hev_socks5_bind d sa s) = s\<lparr>opts := os\<rparr>" for d sa and s :: "'a HevSocks5_scheme"
    by (rule exI [of _ "opts s"]) (simp add: hev_socks5_bind_def)
qed

text \<open>The descriptors the system gives out are not open already.\<close>

definition fresh_socks :: "'a net_scheme \<Rightarrow> bool" where
  "fresh_socks s \<longleftrightarrow> (\<forall>d\<in>set (socks s). d \<notin> open_fds s)"

end
