(* ===== verification/Socks5Client.thy ===== *)
theory Socks5Client
  imports TaskIO
begin

text \<open>
  The SOCKS5 client of \<^verbatim>\<open>core/src/hev-socks5-client.c\<close> with its two classes, \<^verbatim>\<open>hev-socks5-client-tcp.c\<close> and
  \<^verbatim>\<open>hev-socks5-client-udp.c\<close>. The virtual calls \<^verbatim>\<open>get_upstream_addr\<close> and \<^verbatim>\<open>set_upstream_addr\<close> dispatch on the
  class of the object, the bind hook of the class is an argument. Dereferencing a NULL upstream address is the result
  \<open>None\<close>; log calls are left out.
\<close>

section \<open>Objects\<close>

datatype HevSocks5ClientClass = CLIENT_TCP | CLIENT_UDP

record HevSocks5Client = HevSocks5 +
  auth_user :: "bytes option"
  auth_pass :: "bytes option"
  cclass :: HevSocks5ClientClass
  up_addr :: "bytes option"
  udp_fd :: int

definition blank_addr :: HevSocks5Addr where
  "blank_addr = \<lparr>atype = 0, abody = replicate 259 0\<rparr>"

definition blank_saddr :: sockaddr_in6 where
  "blank_saddr = \<lparr>sin6_port = [0, 0], sin6_addr = replicate 16 0\<rparr>"

section \<open>Writing\<close>

definition hev_socks5_client_write_auth_methods ::
    "'a HevSocks5Client_scheme \<Rightarrow> int \<times> 'a HevSocks5Client_scheme" where
  "hev_socks5_client_write_auth_methods self =
     (let mth = (if auth_user self = None \<or> auth_pass self = None
                 then HEV_SOCKS5_AUTH_METHOD_NONE else HEV_SOCKS5_AUTH_METHOD_USER);
          (res, self) = io_send [HEV_SOCKS5_VERSION_5, 1, mth] self
      in if res \<le> 0 then (- 1, self) else (0, self))"

definition hev_socks5_client_write_auth_creds ::
    "'a HevSocks5Client_scheme \<Rightarrow> int \<times> 'a HevSocks5Client_scheme" where
  "hev_socks5_client_write_auth_creds self =
     (case (auth_user self, auth_pass self) of
        (Some user, Some pass) \<Rightarrow>
          let ub1 = of_nat (length user) :: byte;
              ub2 = of_nat (length pass) :: byte;
              (res, self) = io_sendmsg [[HEV_SOCKS5_AUTH_VERSION_1, ub1], take (unat ub1) user,
                 [ub2], take (unat ub2) pass] self
          in if res \<le> 0 then (- 1, self) else (0, self)
      | _ \<Rightarrow> (0, self))"

definition hev_socks5_client_tcp_get_upstream_addr ::
    "'a HevSocks5Client_scheme \<Rightarrow> bytes option \<times> 'a HevSocks5Client_scheme" where
  "hev_socks5_client_tcp_get_upstream_addr self = (up_addr self, self\<lparr>up_addr := None\<rparr>)"

definition hev_socks5_client_udp_get_upstream_addr ::
    "'a HevSocks5Client_scheme \<Rightarrow> bytes option \<times> 'a HevSocks5Client_scheme" where
  "hev_socks5_client_udp_get_upstream_addr self =
     (case hev_socks5_get_addr_family self of
        FAMILY_IPV4 \<Rightarrow>
          (case sys_malloc self of
             (ok, self) \<Rightarrow> (if ok then Some (HEV_SOCKS5_ADDR_TYPE_IPV4 # replicate 6 0) else None, self))
      | FAMILY_IPV6 \<Rightarrow>
          (case sys_malloc self of
             (ok, self) \<Rightarrow> (if ok then Some (HEV_SOCKS5_ADDR_TYPE_IPV6 # replicate 18 0) else None, self))
      | FAMILY_UNSPEC \<Rightarrow> (None, self))"

definition get_upstream_addr ::
    "'a HevSocks5Client_scheme \<Rightarrow> bytes option \<times> 'a HevSocks5Client_scheme" where
  "get_upstream_addr self =
     (case cclass self of
        CLIENT_TCP \<Rightarrow> hev_socks5_client_tcp_get_upstream_addr self
      | CLIENT_UDP \<Rightarrow> hev_socks5_client_udp_get_upstream_addr self)"

definition request_cmd :: "HevSocks5Type \<Rightarrow> byte option" where
  "request_cmd ty =
     (case ty of
        TYPE_TCP \<Rightarrow> Some HEV_SOCKS5_REQ_CMD_CONNECT
      | TYPE_UDP_IN_TCP \<Rightarrow> Some HEV_SOCKS5_REQ_CMD_FWD_UDP
      | TYPE_UDP_IN_UDP \<Rightarrow> Some HEV_SOCKS5_REQ_CMD_UDP_ASC
      | TYPE_NONE \<Rightarrow> None)"

text \<open>The number of bytes of a request's address, from its type byte and, for a name, its length byte.\<close>

definition request_addrlen :: "bytes \<Rightarrow> nat option" where
  "request_addrlen addr =
     (if addr ! 0 = HEV_SOCKS5_ADDR_TYPE_IPV4 then Some 7
      else if addr ! 0 = HEV_SOCKS5_ADDR_TYPE_IPV6 then Some 19
      else if addr ! 0 = HEV_SOCKS5_ADDR_TYPE_NAME then Some (4 + unat (addr ! 1))
      else None)"

definition hev_socks5_client_write_request ::
    "'a HevSocks5Client_scheme \<Rightarrow> (int \<times> 'a HevSocks5Client_scheme) option" where
  "hev_socks5_client_write_request self =
     (case request_cmd (stype self) of
        None \<Rightarrow> Some (- 1, self)
      | Some cmd \<Rightarrow>
          (case get_upstream_addr self of
             (None, self) \<Rightarrow> None
           | (Some addr, self) \<Rightarrow>
               (case request_addrlen addr of
                  None \<Rightarrow> Some (- 1, self)
                | Some addrlen \<Rightarrow>
                    if length addr < addrlen then None
                    else
                      let (ret, self) = io_sendmsg [[HEV_SOCKS5_VERSION_5, cmd, 0], take addrlen addr] self
                      in if ret \<le> 0 then Some (- 1, self)
                         else Some (0, sys_free self))))"

section \<open>Reading\<close>

definition hev_socks5_client_read_auth_method ::
    "'a HevSocks5Client_scheme \<Rightarrow> int \<times> 'a HevSocks5Client_scheme" where
  "hev_socks5_client_read_auth_method self =
     (let (res, auth, self) = io_recv 2 self
      in if res \<noteq> 2 then (- 1, self)
         else if auth ! 0 \<noteq> HEV_SOCKS5_VERSION_5 then (- 1, self)
         else (uint (auth ! 1), self))"

definition hev_socks5_client_read_auth_creds ::
    "'a HevSocks5Client_scheme \<Rightarrow> int \<times> 'a HevSocks5Client_scheme" where
  "hev_socks5_client_read_auth_creds self =
     (let (ret, res, self) = io_recv 2 self
      in if ret \<noteq> 2 then (- 1, self)
         else if res ! 0 \<noteq> HEV_SOCKS5_AUTH_VERSION_1 then (- 1, self)
         else if res ! 1 \<noteq> HEV_SOCKS5_RES_REP_SUCC then (- 1, self)
         else (0, self))"

definition hev_socks5_client_tcp_set_upstream_addr ::
    "HevSocks5Addr \<Rightarrow> 'a HevSocks5Client_scheme \<Rightarrow> int \<times> 'a HevSocks5Client_scheme" where
  "hev_socks5_client_tcp_set_upstream_addr addr self = (0, self)"

text \<open>The part \<^verbatim>\<open>hev_socks5_client_connect\<close> and the UDP class's \<^verbatim>\<open>set_upstream_addr\<close> share: a socket, bound
  and connected to \<open>saddr\<close>, or none at all.\<close>

definition open_upstream ::
    "'a HevSocks5Client_scheme bind_fun \<Rightarrow> sockaddr_in6 \<Rightarrow> 'a HevSocks5Client_scheme \<Rightarrow> int \<times> 'a HevSocks5Client_scheme" where
  "open_upstream bnd saddr self =
     (let (d, self) = hev_socks5_socket self
      in if d < 0 then (- 1, self)
         else
           let (res, self) = bnd d saddr self
           in if res < 0 then (- 1, sys_close d self)
              else
                let (res, self) = hev_task_io_socket_connect d saddr self
                in if res < 0 then (- 1, sys_close d self)
                   else (d, self))"

definition hev_socks5_client_udp_set_upstream_addr ::
    "resolver \<Rightarrow> 'a HevSocks5Client_scheme bind_fun \<Rightarrow> HevSocks5Addr \<Rightarrow> 'a HevSocks5Client_scheme \<Rightarrow> int \<times> 'a HevSocks5Client_scheme" where
  "hev_socks5_client_udp_set_upstream_addr rs bnd addr self =
     (if stype self \<noteq> TYPE_UDP_IN_UDP then (0, self)
      else
        case hev_socks5_addr_into_sockaddr6 rs addr blank_saddr (hev_socks5_get_addr_family self) of
          (res, saddr, _) \<Rightarrow>
            if res < 0 then (- 1, self)
            else
              let (d, self) = open_upstream bnd saddr self
              in if d < 0 then (- 1, self)
                 else (0, self\<lparr>udp_associated := True, udp_fd := d\<rparr>))"

definition set_upstream_addr ::
    "resolver \<Rightarrow> 'a HevSocks5Client_scheme bind_fun \<Rightarrow> HevSocks5Addr \<Rightarrow> 'a HevSocks5Client_scheme \<Rightarrow> int \<times> 'a HevSocks5Client_scheme" where
  "set_upstream_addr rs bnd addr self =
     (case cclass self of
        CLIENT_TCP \<Rightarrow> hev_socks5_client_tcp_set_upstream_addr addr self
      | CLIENT_UDP \<Rightarrow> hev_socks5_client_udp_set_upstream_addr rs bnd addr self)"

definition response_addrlen :: "byte \<Rightarrow> nat option" where
  "response_addrlen ty =
     (if ty = HEV_SOCKS5_ADDR_TYPE_IPV4 then Some 6
      else if ty = HEV_SOCKS5_ADDR_TYPE_IPV6 then Some 18
      else None)"

definition hev_socks5_client_read_response ::
    "resolver \<Rightarrow> 'a HevSocks5Client_scheme bind_fun \<Rightarrow> 'a HevSocks5Client_scheme \<Rightarrow> int \<times> 'a HevSocks5Client_scheme" where
  "hev_socks5_client_read_response rs bnd self =
     (case io_recv 4 self of (ret, res, self) \<Rightarrow>
        if ret \<noteq> 4 then (- 1, self)
        else if res ! 0 \<noteq> HEV_SOCKS5_VERSION_5 then (- 1, self)
        else if res ! 1 \<noteq> HEV_SOCKS5_RES_REP_SUCC then (- 1, self)
        else
          case response_addrlen (res ! 3) of
            None \<Rightarrow> (- 1, self)
          | Some addrlen \<Rightarrow>
              (case io_recv addrlen self of (ret, buf, self) \<Rightarrow>
                 if ret \<noteq> int addrlen then (- 1, self)
                 else
                   let addr = blank_addr\<lparr>atype := res ! 3, abody := mem_put (abody blank_addr) 0 buf\<rparr>;
                       (ret, self) = set_upstream_addr rs bnd addr self
                   in if ret < 0 then (- 1, self) else (0, self)))"

section \<open>Connecting and the handshake\<close>

definition hev_socks5_client_connect ::
    "HevSocks5Misc \<Rightarrow> resolver \<Rightarrow> 'a HevSocks5Client_scheme bind_fun \<Rightarrow> bytes \<Rightarrow> u16 \<Rightarrow> 'a HevSocks5Client_scheme \<Rightarrow>
      int \<times> 'a HevSocks5Client_scheme" where
  "hev_socks5_client_connect m rs bnd addr port self =
     (let self = hev_socks5_set_timeout (hev_socks5_get_connect_timeout m) self
      in case hev_socks5_name_into_sockaddr6 rs addr port blank_saddr (hev_socks5_get_addr_family self) of
           (res, saddr, family) \<Rightarrow>
             if res < 0 then (- 1, self)
             else
               let (d, self) = open_upstream bnd saddr self
               in if d < 0 then (- 1, self)
                  else (0, hev_socks5_set_addr_family family (self\<lparr>fd := d\<rparr>)))"

definition client_auth_standard ::
    "'a HevSocks5Client_scheme \<Rightarrow> int \<times> 'a HevSocks5Client_scheme" where
  "client_auth_standard self =
     (let (res, self) = hev_socks5_client_read_auth_method self
      in if res < 0 then (- 1, self)
         else if res = uint HEV_SOCKS5_AUTH_METHOD_USER then
           (let (res, self) = hev_socks5_client_write_auth_creds self
            in if res < 0 then (- 1, self)
               else
                 let (res, self) = hev_socks5_client_read_auth_creds self
                 in if res < 0 then (- 1, self) else (0, self))
         else if res \<noteq> uint HEV_SOCKS5_AUTH_METHOD_NONE then (- 1, self)
         else (0, self))"

definition hev_socks5_client_handshake_standard ::
    "resolver \<Rightarrow> 'a HevSocks5Client_scheme bind_fun \<Rightarrow> 'a HevSocks5Client_scheme \<Rightarrow> (int \<times> 'a HevSocks5Client_scheme) option" where
  "hev_socks5_client_handshake_standard rs bnd self =
     (case hev_socks5_client_write_auth_methods self of (res, self) \<Rightarrow>
        if res < 0 then Some (- 1, self)
        else
          case client_auth_standard self of (res, self) \<Rightarrow>
            if res < 0 then Some (- 1, self)
            else
              case hev_socks5_client_write_request self of
                None \<Rightarrow> None
              | Some (res, self) \<Rightarrow>
                  if res < 0 then Some (- 1, self)
                  else Some (hev_socks5_client_read_response rs bnd self))"

definition client_auth_pipeline ::
    "'a HevSocks5Client_scheme \<Rightarrow> int \<times> 'a HevSocks5Client_scheme" where
  "client_auth_pipeline self =
     (let (res, self) = hev_socks5_client_read_auth_method self
      in if res < 0 then (- 1, self)
         else if res = uint HEV_SOCKS5_AUTH_METHOD_USER then
           (let (res, self) = hev_socks5_client_read_auth_creds self
            in if res < 0 then (- 1, self) else (0, self))
         else if res \<noteq> uint HEV_SOCKS5_AUTH_METHOD_NONE then (- 1, self)
         else (0, self))"

definition hev_socks5_client_handshake_pipeline ::
    "resolver \<Rightarrow> 'a HevSocks5Client_scheme bind_fun \<Rightarrow> 'a HevSocks5Client_scheme \<Rightarrow> (int \<times> 'a HevSocks5Client_scheme) option" where
  "hev_socks5_client_handshake_pipeline rs bnd self =
     (case hev_socks5_client_write_auth_methods self of (res, self) \<Rightarrow>
        if res < 0 then Some (- 1, self)
        else
          case hev_socks5_client_write_auth_creds self of (res, self) \<Rightarrow>
            if res < 0 then Some (- 1, self)
            else
              case hev_socks5_client_write_request self of
                None \<Rightarrow> None
              | Some (res, self) \<Rightarrow>
                  if res < 0 then Some (- 1, self)
                  else
                    case client_auth_pipeline self of (res, self) \<Rightarrow>
                      if res < 0 then Some (- 1, self)
                      else Some (hev_socks5_client_read_response rs bnd self))"

definition hev_socks5_client_handshake ::
    "HevSocks5Misc \<Rightarrow> resolver \<Rightarrow> 'a HevSocks5Client_scheme bind_fun \<Rightarrow> bool \<Rightarrow> 'a HevSocks5Client_scheme \<Rightarrow>
      (int \<times> 'a HevSocks5Client_scheme) option" where
  "hev_socks5_client_handshake m rs bnd pipeline self =
     (let self = hev_socks5_set_timeout (hev_socks5_get_tcp_timeout m) self
      in case (if pipeline then hev_socks5_client_handshake_pipeline rs bnd self
               else hev_socks5_client_handshake_standard rs bnd self) of
           None \<Rightarrow> None
         | Some (res, self) \<Rightarrow>
             Some (res, if stype self = TYPE_UDP_IN_TCP \<or> stype self = TYPE_UDP_IN_UDP
                        then hev_socks5_set_timeout (hev_socks5_get_udp_timeout m) self
                        else self))"

section \<open>Life cycle\<close>

definition hev_socks5_client_set_auth ::
    "bytes option \<Rightarrow> bytes option \<Rightarrow> 'a HevSocks5Client_scheme \<Rightarrow> 'a HevSocks5Client_scheme" where
  "hev_socks5_client_set_auth user pass self = self\<lparr>auth_user := user, auth_pass := pass\<rparr>"

definition hev_socks5_client_construct ::
    "HevSocks5Type \<Rightarrow> 'a HevSocks5Client_scheme \<Rightarrow> int \<times> 'a HevSocks5Client_scheme" where
  "hev_socks5_client_construct ty self =
     (let (res, self) = hev_socks5_construct ty self in if res < 0 then (res, self) else (0, self))"

definition hev_socks5_client_destruct :: "'a HevSocks5Client_scheme \<Rightarrow> 'a HevSocks5Client_scheme" where
  "hev_socks5_client_destruct self = hev_socks5_destruct self"

text \<open>\<^verbatim>\<open>malloc\<close> is asked for the length \<^verbatim>\<open>hev_socks5_addr_len\<close> computes, and gives nothing for its -1.\<close>

definition hev_socks5_client_tcp_construct ::
    "HevSocks5Addr \<Rightarrow> 'a HevSocks5Client_scheme \<Rightarrow> int \<times> 'a HevSocks5Client_scheme" where
  "hev_socks5_client_tcp_construct addr self =
     (let (res, self) = hev_socks5_client_construct TYPE_TCP self
      in if res < 0 then (res, self)
         else
           let self = self\<lparr>cclass := CLIENT_TCP\<rparr>;
               res = hev_socks5_addr_len addr;
               (ok, self) = (if res < 0 then (False, self) else sys_malloc self)
           in if \<not> ok then (- 1, self\<lparr>up_addr := None\<rparr>)
              else (0, self\<lparr>up_addr := Some (take (nat res) (addr_bytes addr))\<rparr>))"

definition hev_socks5_client_tcp_destruct :: "'a HevSocks5Client_scheme \<Rightarrow> 'a HevSocks5Client_scheme" where
  "hev_socks5_client_tcp_destruct self =
     hev_socks5_client_destruct (if up_addr self \<noteq> None then sys_free self else self)"

text \<open>\<^verbatim>\<open>hev_malloc0\<close> of an object: its own fields zero, the system as it is.\<close>

definition client_zero :: "'a HevSocks5Client_scheme \<Rightarrow> 'a HevSocks5Client_scheme" where
  "client_zero s = s\<lparr>fd := 0, timeout := 0, udp_associated := False, stype := TYPE_NONE,
     addr_family := FAMILY_UNSPEC, auth_user := None, auth_pass := None, up_addr := None, udp_fd := 0\<rparr>"

definition client_tcp_new ::
    "HevSocks5Addr \<Rightarrow> 'a HevSocks5Client_scheme \<Rightarrow> bool \<times> 'a HevSocks5Client_scheme" where
  "client_tcp_new addr self =
     (let (res, self) = hev_socks5_client_tcp_construct addr (client_zero self)
      in if res < 0 then (False, sys_free self) else (True, self))"

definition hev_socks5_client_tcp_new_name ::
    "bytes \<Rightarrow> u16 \<Rightarrow> 'a HevSocks5Client_scheme \<Rightarrow> (bool \<times> 'a HevSocks5Client_scheme) option" where
  "hev_socks5_client_tcp_new_name name port s =
     (case sys_malloc s of (ok, s) \<Rightarrow>
        if \<not> ok then Some (False, s)
        else
          case hev_socks5_addr_from_name blank_addr name port of
            None \<Rightarrow> None
          | Some (_, addr) \<Rightarrow> Some (client_tcp_new addr s))"

definition hev_socks5_client_tcp_new_ipv4 ::
    "bytes \<Rightarrow> u16 \<Rightarrow> 'a HevSocks5Client_scheme \<Rightarrow> bool \<times> 'a HevSocks5Client_scheme" where
  "hev_socks5_client_tcp_new_ipv4 ipv4 port s =
     (case sys_malloc s of (ok, s) \<Rightarrow>
        if \<not> ok then (False, s) else client_tcp_new (snd (hev_socks5_addr_from_ipv4 blank_addr ipv4 port)) s)"

definition hev_socks5_client_tcp_new_ipv6 ::
    "bytes \<Rightarrow> u16 \<Rightarrow> 'a HevSocks5Client_scheme \<Rightarrow> bool \<times> 'a HevSocks5Client_scheme" where
  "hev_socks5_client_tcp_new_ipv6 ipv6 port s =
     (case sys_malloc s of (ok, s) \<Rightarrow>
        if \<not> ok then (False, s) else client_tcp_new (snd (hev_socks5_addr_from_ipv6 blank_addr ipv6 port)) s)"

definition hev_socks5_client_udp_get_fd :: "'a HevSocks5Client_scheme \<Rightarrow> int" where
  "hev_socks5_client_udp_get_fd self =
     (case stype self of
        TYPE_UDP_IN_TCP \<Rightarrow> fd self
      | TYPE_UDP_IN_UDP \<Rightarrow> udp_fd self
      | _ \<Rightarrow> - 1)"

definition hev_socks5_client_udp_construct ::
    "HevSocks5Type \<Rightarrow> 'a HevSocks5Client_scheme \<Rightarrow> int \<times> 'a HevSocks5Client_scheme" where
  "hev_socks5_client_udp_construct ty self =
     (let (res, self) = hev_socks5_client_construct ty self
      in if res < 0 then (res, self) else (0, self\<lparr>cclass := CLIENT_UDP, udp_fd := - 1\<rparr>))"

definition hev_socks5_client_udp_new ::
    "HevSocks5Type \<Rightarrow> 'a HevSocks5Client_scheme \<Rightarrow> bool \<times> 'a HevSocks5Client_scheme" where
  "hev_socks5_client_udp_new ty s =
     (case sys_malloc s of (ok, s) \<Rightarrow>
        if \<not> ok then (False, s)
        else
          let (res, s) = hev_socks5_client_udp_construct ty (client_zero s)
          in if res < 0 then (False, sys_free s) else (True, s))"

definition hev_socks5_client_udp_destruct :: "'a HevSocks5Client_scheme \<Rightarrow> 'a HevSocks5Client_scheme" where
  "hev_socks5_client_udp_destruct self =
     hev_socks5_client_destruct (if udp_fd self \<ge> 0 then sys_close (udp_fd self) self else self)"

section \<open>Frames\<close>

text \<open>The clients that open a second socket.\<close>

definition associating :: "'a HevSocks5Client_scheme \<Rightarrow> bool" where
  "associating s \<longleftrightarrow> cclass s = CLIENT_UDP \<and> stype s = TYPE_UDP_IN_UDP"

lemma client_more:
  assumes "HevSocks5.more s' = HevSocks5.more s"
  shows "auth_user s' = auth_user s" "auth_pass s' = auth_pass s" "cclass s' = cclass s" "up_addr s' = up_addr s"
    "udp_fd s' = udp_fd s"
  using assms by (cases s; cases s'; simp)+

lemma client_fields:
  assumes "same_obj s s'"
  shows "auth_user s' = auth_user s" "auth_pass s' = auth_pass s" "cclass s' = cclass s" "up_addr s' = up_addr s"
    "udp_fd s' = udp_fd s" "fd s' = fd s" "stype s' = stype s" "addr_family s' = addr_family s" "blocks s' = blocks s"
    "mallocs s' = mallocs s" "open_fds s' = open_fds s"
proof -
  have m: "HevSocks5.more s' = HevSocks5.more s" using assms by (simp add: same_obj_def)
  note client_more [OF m]
  then show "auth_user s' = auth_user s" "auth_pass s' = auth_pass s" "cclass s' = cclass s" "up_addr s' = up_addr s"
    "udp_fd s' = udp_fd s" by auto
  show "fd s' = fd s" "stype s' = stype s" "addr_family s' = addr_family s" "blocks s' = blocks s"
    "mallocs s' = mallocs s" "open_fds s' = open_fds s"
    using assms by (auto simp: same_obj_def)
qed

section \<open>The messages of the protocol\<close>

definition methods_msg :: "'a HevSocks5Client_scheme \<Rightarrow> bytes" where
  "methods_msg s = [5, 1, if auth_user s = None \<or> auth_pass s = None then 0 else 2]"

definition creds_msg :: "'a HevSocks5Client_scheme \<Rightarrow> bytes" where
  "creds_msg s =
     (case (auth_user s, auth_pass s) of
        (Some user, Some pass) \<Rightarrow>
          [1, of_nat (length user)] @ take (length user mod 256) user @
          [of_nat (length pass)] @ take (length pass mod 256) pass
      | _ \<Rightarrow> [])"

definition upstream_bytes :: "'a HevSocks5Client_scheme \<Rightarrow> bytes" where
  "upstream_bytes s =
     (case cclass s of
        CLIENT_TCP \<Rightarrow> the (up_addr s)
      | CLIENT_UDP \<Rightarrow> if addr_family s = FAMILY_IPV4 then 1 # replicate 6 0 else 4 # replicate 18 0)"

definition request_msg :: "'a HevSocks5Client_scheme \<Rightarrow> bytes" where
  "request_msg s = [5, the (request_cmd (stype s)), 0] @
     take (the (request_addrlen (upstream_bytes s))) (upstream_bytes s)"

lemma msg_same:
  assumes "same_obj s s'"
  shows "methods_msg s' = methods_msg s" "creds_msg s' = creds_msg s" "request_msg s' = request_msg s"
  using client_fields [OF assms]
  unfolding methods_msg_def creds_msg_def request_msg_def upstream_bytes_def by presburger+

text \<open>The two kinds of reply a handshake waits for.\<close>

definition auth_reply :: "byte \<Rightarrow> bytes" where
  "auth_reply mth = [5, mth] @ (if mth = 2 then [1, 0] else [])"

definition response_ok :: "bytes \<Rightarrow> bool" where
  "response_ok res \<longleftrightarrow> (\<exists>rsv ty body. res = [5, 0, rsv, ty] @ body \<and>
     (ty = 1 \<and> length body = 6 \<or> ty = 4 \<and> length body = 18))"

lemma response_okI:
  "res = [5, 0, rsv, ty] \<Longrightarrow> ty = 1 \<and> length body = 6 \<or> ty = 4 \<and> length body = 18 \<Longrightarrow> response_ok (res @ body)"
  by (simp add: response_ok_def)

section \<open>What success means\<close>

lemma write_auth_methods_spec:
  assumes "hev_socks5_client_write_auth_methods s = (r, s')"
  obtains n where "tx_only s s' (take n (methods_msg s))" "r = 0 \<and> 0 < n \<or> r = - 1"
proof -
  obtain q t where io: "io_send (methods_msg s) s = (q, t)" by force
  then have "r = (if q \<le> 0 then - 1 else 0)" "s' = t"
    using assms by (simp_all add: hev_socks5_client_write_auth_methods_def methods_msg_def Let_def split: if_splits)
  moreover obtain n where "tx_only s t (take n (methods_msg s))" "if q > 0 then q = int n else n = 0"
    using io_send_spec [OF io] by blast
  ultimately show ?thesis using that [of n] by (auto split: if_splits)
qed

lemma write_auth_creds_spec:
  assumes "hev_socks5_client_write_auth_creds s = (r, s')"
  obtains n where "tx_only s s' (take n (creds_msg s))" "r = 0 \<or> r = - 1"
proof (cases "auth_user s = None \<or> auth_pass s = None")
  case True
  then have "s' = s" "r = 0" "creds_msg s = []"
    using assms by (auto simp: hev_socks5_client_write_auth_creds_def creds_msg_def split: option.splits)
  then show ?thesis using that [of 0] by (simp add: tx_only_def)
next
  case False
  then have "r = (if fst (io_send (creds_msg s) s) \<le> 0 then - 1 else 0)" "s' = snd (io_send (creds_msg s) s)"
    using assms
    by (auto simp: hev_socks5_client_write_auth_creds_def creds_msg_def io_sendmsg_eq Let_def unat_of_nat take_bit_eq_mod
        split: prod.splits if_splits)
  then show ?thesis
    using io_send_spec [of "creds_msg s" s] that by (cases "io_send (creds_msg s) s") (fastforce split: if_splits)
qed

lemma read_auth_method_spec:
  assumes "hev_socks5_client_read_auth_method s = (r, s')"
  shows "rx_only s s'" "r < 0 \<or> (\<exists>m. r = uint m \<and> stream (rx s) = [5, m] @ stream (rx s'))"
proof -
  obtain q buf t where io: "io_recv 2 s = (q, buf, t)" by (metis prod_cases3)
  have t: "s' = t" using assms io by (auto simp: hev_socks5_client_read_auth_method_def split: if_splits)
  show "rx_only s s'" using io_recv_spec [OF io] t by simp
  show "r < 0 \<or> (\<exists>m. r = uint m \<and> stream (rx s) = [5, m] @ stream (rx s'))"
  proof (cases "q = 2")
    case True
    then have "stream (rx s) = buf @ stream (rx t)" "length buf = 2" using io_recv_ok [of 2 s buf t] io by auto
    then show ?thesis using assms io t two_bytes [of buf] True
      by (auto simp: hev_socks5_client_read_auth_method_def split: if_splits)
  qed (use assms io in \<open>simp add: hev_socks5_client_read_auth_method_def\<close>)
qed

lemma read_auth_creds_spec:
  assumes "hev_socks5_client_read_auth_creds s = (r, s')"
  shows "rx_only s s'" "r < 0 \<or> r = 0 \<and> stream (rx s) = [1, 0] @ stream (rx s')"
proof -
  obtain q buf t where io: "io_recv 2 s = (q, buf, t)" by (metis prod_cases3)
  have t: "s' = t" using assms io by (auto simp: hev_socks5_client_read_auth_creds_def split: if_splits)
  show "rx_only s s'" using io_recv_spec [OF io] t by simp
  show "r < 0 \<or> r = 0 \<and> stream (rx s) = [1, 0] @ stream (rx s')"
  proof (cases "q = 2")
    case True
    then have "stream (rx s) = buf @ stream (rx t)" "length buf = 2" using io_recv_ok [of 2 s buf t] io by auto
    then show ?thesis using assms io t two_bytes [of buf] True
      by (auto simp: hev_socks5_client_read_auth_creds_def split: if_splits)
  qed (use assms io in \<open>simp add: hev_socks5_client_read_auth_creds_def\<close>)
qed

lemma get_upstream_spec:
  assumes "get_upstream_addr s = (Some addr, s')"
  shows "addr = upstream_bytes s" "rx s' = rx s" "tx s' = tx s" "sent s' = sent s"
    "cclass s' = cclass s" "stype s' = stype s" "open_fds s' = open_fds s" "fd s' = fd s" "udp_fd s' = udp_fd s"
    "auth_user s' = auth_user s" "auth_pass s' = auth_pass s" "addr_family s' = addr_family s"
    "cclass s = CLIENT_TCP \<Longrightarrow> blocks s' = blocks s \<and> up_addr s' = None"
    "cclass s = CLIENT_UDP \<Longrightarrow> blocks s' = blocks s + 1 \<and> up_addr s' = up_addr s"
    "socks s' = socks s" "conns s' = conns s" "opts s' = opts s" "dialled s' = dialled s"
  using assms
  by (auto simp: get_upstream_addr_def upstream_bytes_def hev_socks5_client_tcp_get_upstream_addr_def
      hev_socks5_client_udp_get_upstream_addr_def hev_socks5_get_addr_family_def sys_malloc_def
      split: HevSocks5ClientClass.splits HevSocks5AddrFamily.splits prod.splits if_splits list.splits)

text \<open>The address block of a request is given back only when the request went out.\<close>

lemma write_request_spec:
  assumes "hev_socks5_client_write_request s = Some (r, s')" "request_cmd (stype s) \<noteq> None"
  obtains n where "sent s' = sent s @ take n (request_msg s)" "r = 0 \<and> 0 < n \<or> r = - 1" "rx s' = rx s"
    "stype s' = stype s" "cclass s' = cclass s" "open_fds s' = open_fds s" "fd s' = fd s" "udp_fd s' = udp_fd s"
    "cclass s = CLIENT_TCP \<Longrightarrow> up_addr s' = None"
    "blocks s' = blocks s + (if cclass s = CLIENT_TCP then 0 else 1) - (if r = 0 then 1 else 0)"
    "socks s' = socks s"
proof -
  obtain cmd where cmd: "request_cmd (stype s) = Some cmd" using assms(2) by auto
  obtain addr t where a: "get_upstream_addr s = (Some addr, t)"
    using assms(1) cmd by (cases "get_upstream_addr s"; cases "fst (get_upstream_addr s)")
      (auto simp: hev_socks5_client_write_request_def)
  note g = get_upstream_spec [OF a]
  have b: "blocks t = blocks s + (if cclass s = CLIENT_TCP then 0 else 1)" "cclass s = CLIENT_TCP \<Longrightarrow> up_addr t = None"
    using g(13,14) by (cases "cclass s"; simp)+
  show ?thesis
  proof (cases "request_addrlen addr")
    case None
    then have "r = - 1" "s' = t" using assms(1) cmd a by (auto simp: hev_socks5_client_write_request_def)
    then show ?thesis using that [of 0] g b by simp
  next
    case (Some len)
    have msg: "request_msg s = [5, cmd, 0] @ take len addr"
      using g(1) Some cmd by (simp add: request_msg_def)
    obtain q u where io: "io_send (request_msg s) t = (q, u)" by force
    then have r: "r = (if q \<le> 0 then - 1 else 0)" "s' = (if q \<le> 0 then u else sys_free u)"
      using assms(1) cmd a Some msg
      by (simp_all add: hev_socks5_client_write_request_def io_sendmsg_eq split: if_splits)
    obtain n where n: "tx_only t u (take n (request_msg s))" "if q > 0 then q = int n else n = 0"
      using io_send_spec [OF io] by blast
    show ?thesis
      using that [of n] r n(2) g b tx_only_fields [OF n(1)] client_fields [OF tx_only_same [OF n(1)]]
      by (simp add: sys_free_def split: if_splits)
  qed
qed

text \<open>The two authentication dialogues.\<close>

lemma uint_two: "uint (m :: byte) = 2 \<Longrightarrow> m = 2"
  by (metis word_of_int_uint word_of_int_numeral)

lemma auth_standard_spec:
  assumes "client_auth_standard s = (r, s')"
  shows "same_obj s s' \<and> (r = - 1 \<or> r = 0 \<and> (\<exists>m n. (m = 0 \<or> m = 2) \<and> stream (rx s) = auth_reply m @ stream (rx s') \<and>
    sent s' = sent s @ (if m = 2 then take n (creds_msg s) else [])))"
proof -
  obtain q s1 where a: "hev_socks5_client_read_auth_method s = (q, s1)" by force
  note am = read_auth_method_spec [OF a] and f1 = rx_only_fields [OF read_auth_method_spec(1) [OF a]]
  have sc1: "same_obj s s1" using am(1) by (rule rx_only_same)
  consider "q < 0 \<or> q \<noteq> 2 \<and> q \<noteq> 0" | "q = 0" | "q = 2" by linarith
  then show ?thesis
  proof cases
    case 1
    then have "r = - 1 \<and> s' = s1" using assms a by (auto simp: client_auth_standard_def split: if_splits)
    then show ?thesis using sc1 by simp
  next
    case 2
    then have "r = 0 \<and> s' = s1" using assms a by (auto simp: client_auth_standard_def)
    moreover have "stream (rx s) = auth_reply 0 @ stream (rx s1)"
      using am(2) 2 by (auto simp: auth_reply_def uint_0_iff)
    ultimately show ?thesis using sc1 f1 by (intro conjI disjI2) auto
  next
    case 3
    obtain p s2 where b: "hev_socks5_client_write_auth_creds s1 = (p, s2)" by force
    obtain n where t: "tx_only s1 s2 (take n (creds_msg s1))" and p: "p = 0 \<or> p = - 1"
      using write_auth_creds_spec [OF b] by blast
    obtain k s3 where c: "hev_socks5_client_read_auth_creds s2 = (k, s3)" by force
    note ac = read_auth_creds_spec [OF c] and f2 = tx_only_fields [OF t]
    have sc2: "same_obj s s2" using sc1 tx_only_same [OF t] by (rule same_obj_trans)
    then have sc3: "same_obj s s3" using rx_only_same [OF ac(1)] by (rule same_obj_trans)
    have m: "stream (rx s) = [5, 2] @ stream (rx s1)"
      using am(2) 3 by (auto dest: uint_two)
    show ?thesis
    proof (cases "p = 0 \<and> k = 0")
      case True
      then have "r = 0 \<and> s' = s3" using assms a b c 3 by (auto simp: client_auth_standard_def)
      moreover have "stream (rx s) = auth_reply 2 @ stream (rx s3)"
        using m ac(2) True f2(1) by (simp add: auth_reply_def)
      moreover have "sent s3 = sent s @ take n (creds_msg s)"
        using rx_only_fields(2) [OF ac(1)] f2(2) f1(2) msg_same [OF sc1] by simp
      ultimately show ?thesis
        using sc3 by (intro conjI disjI2 exI [of _ 2] exI [of _ n]) simp_all
    next
      case False
      then have "r = - 1 \<and> (s' = s2 \<or> s' = s3)"
        using assms a b c 3 p ac(2) by (auto simp: client_auth_standard_def)
      then show ?thesis using sc2 sc3 by auto
    qed
  qed
qed

lemma auth_pipeline_spec:
  assumes "client_auth_pipeline s = (r, s')"
  shows "same_obj s s' \<and> sent s' = sent s \<and> (r = - 1 \<or> r = 0 \<and> (\<exists>m. (m = 0 \<or> m = 2) \<and> stream (rx s) = auth_reply m @ stream (rx s')))"
proof -
  obtain q s1 where a: "hev_socks5_client_read_auth_method s = (q, s1)" by force
  note am = read_auth_method_spec [OF a] and f1 = rx_only_fields [OF read_auth_method_spec(1) [OF a]]
  have sc1: "same_obj s s1" using am(1) by (rule rx_only_same)
  consider "q < 0 \<or> q \<noteq> 2 \<and> q \<noteq> 0" | "q = 0" | "q = 2" by linarith
  then show ?thesis
  proof cases
    case 1
    then have "r = - 1 \<and> s' = s1" using assms a by (auto simp: client_auth_pipeline_def split: if_splits)
    then show ?thesis using sc1 f1 by simp
  next
    case 2
    then have "r = 0 \<and> s' = s1" using assms a by (auto simp: client_auth_pipeline_def)
    moreover have "stream (rx s) = auth_reply 0 @ stream (rx s1)"
      using am(2) 2 by (auto simp: auth_reply_def uint_0_iff)
    ultimately show ?thesis using sc1 f1 by auto
  next
    case 3
    obtain k s3 where c: "hev_socks5_client_read_auth_creds s1 = (k, s3)" by force
    note ac = read_auth_creds_spec [OF c]
    have sc3: "same_obj s s3" using sc1 rx_only_same [OF ac(1)] by (rule same_obj_trans)
    have se: "sent s3 = sent s" using rx_only_fields(2) [OF ac(1)] f1(2) by simp
    have m: "stream (rx s) = [5, 2] @ stream (rx s1)"
      using am(2) 3 by (auto dest: uint_two)
    have r: "r = (if k < 0 then - 1 else 0) \<and> s' = s3"
      using assms a c 3 by (auto simp: client_auth_pipeline_def split: if_splits)
    then show ?thesis
      using m ac(2) sc3 se by (auto simp: auth_reply_def)
  qed
qed

text \<open>A handshake that returns zero: what was received and sent, and the state it leaves.\<close>

definition handshake_done :: "bool \<Rightarrow> 'a HevSocks5Client_scheme \<Rightarrow> 'a HevSocks5Client_scheme \<Rightarrow> bool" where
  "handshake_done pipeline s s' \<longleftrightarrow> request_cmd (stype s) \<noteq> None \<and>
     (\<exists>mth res n1 n2 n3. (mth = 0 \<or> mth = 2) \<and> response_ok res \<and> stream (rx s) = auth_reply mth @ res @ stream (rx s') \<and>
       sent s' = sent s @ take n1 (methods_msg s) @ (if pipeline \<or> mth = 2 then take n2 (creds_msg s) else []) @
         take n3 (request_msg s) \<and> 0 < n1 \<and> 0 < n3) \<and>
     fd s' = fd s \<and> cclass s' = cclass s \<and> (cclass s = CLIENT_TCP \<longrightarrow> up_addr s' = None \<and> blocks s' = blocks s - 1) \<and>
     open_fds s' = (if associating s then insert (udp_fd s') (open_fds s) else open_fds s)"

text \<open>The client's lemmas hold for any bind hook.\<close>

locale client_bind = bind_hook bnd
  for bnd :: "'a HevSocks5Client_scheme bind_fun"
begin

lemma open_upstream_spec:
  assumes "open_upstream bnd sa s = (d, s')" "fresh_socks s"
  shows "rx s' = rx s \<and> sent s' = sent s \<and> blocks s' = blocks s \<and> HevSocks5.more s' = HevSocks5.more s \<and>
    fd s' = fd s \<and> stype s' = stype s \<and> addr_family s' = addr_family s \<and>
    (if d < 0 then open_fds s' = open_fds s \<and> dialled s' = dialled s
     else open_fds s' = insert d (open_fds s) \<and> d \<notin> open_fds s \<and> dialled s' = dialled s @ [(d, sa)])"
proof -
  obtain e s1 where so: "hev_socks5_socket s = (e, s1)" by force
  obtain ds os where s1: "s1 = s\<lparr>socks := ds, opts := os, open_fds := (if e < 0 then open_fds s else insert e (open_fds s))\<rparr>"
    and e: "e < 0 \<or> e \<in> set (socks s)"
    using socket_spec [OF so assms(2) [unfolded fresh_socks_def]] by blast
  show ?thesis
  proof (cases "e < 0")
    case True
    then have "d = - 1" "s' = s1" using assms(1) so by (auto simp: open_upstream_def)
    with True s1 show ?thesis by simp
  next
    case False
    have fresh: "e \<notin> open_fds s" using e False assms(2) by (auto simp: fresh_socks_def)
    obtain r s2 where b: "bnd e sa s1 = (r, s2)" by force
    obtain os2 where s2: "s2 = s1\<lparr>opts := os2\<rparr>" using bnd_frame [of e sa s1] b by auto
    obtain q s3 where c: "hev_task_io_socket_connect e sa s2 = (q, s3)" by force
    note cs = connect_spec [OF c]
    then have n: "conn_norm s3 = conn_norm s2" by simp
    show ?thesis
      using assms(1) so False b c cs fresh s1 s2 conn_norm_fields [OF n]
      by (auto simp: open_upstream_def Let_def sys_close_def split: if_splits)
  qed
qed

lemma set_upstream_spec:
  assumes "set_upstream_addr rs bnd addr s = (r, s')" "associating s \<longrightarrow> fresh_socks s"
  shows "rx s' = rx s \<and> sent s' = sent s \<and> blocks s' = blocks s \<and> fd s' = fd s \<and> stype s' = stype s \<and>
    cclass s' = cclass s \<and> up_addr s' = up_addr s \<and>
    (if r = 0 \<and> associating s
     then udp_associated s' \<and> 0 \<le> udp_fd s' \<and> udp_fd s' \<notin> open_fds s \<and> open_fds s' = insert (udp_fd s') (open_fds s) \<and>
       dialled s' = dialled s @ [(udp_fd s', fst (snd (hev_socks5_addr_into_sockaddr6 rs addr blank_saddr (addr_family s))))]
     else udp_fd s' = udp_fd s \<and> open_fds s' = open_fds s \<and> dialled s' = dialled s)"
proof (cases "associating s")
  case False
  then have "s' = s" using assms(1)
    by (cases "cclass s") (auto simp: associating_def set_upstream_addr_def hev_socks5_client_tcp_set_upstream_addr_def
      hev_socks5_client_udp_set_upstream_addr_def split: if_splits)
  with False show ?thesis by simp
next
  case True
  obtain q sa f where a: "hev_socks5_addr_into_sockaddr6 rs addr blank_saddr (addr_family s) = (q, sa, f)"
    by (metis prod_cases3)
  obtain d t where o: "open_upstream bnd sa s = (d, t)" by force
  note os = open_upstream_spec [OF o assms(2) [rule_format, OF True]]
  then have m: "HevSocks5.more t = HevSocks5.more s" by simp
  show ?thesis
    using assms(1) True a o os client_more [OF m]
    by (auto simp: associating_def set_upstream_addr_def hev_socks5_client_udp_set_upstream_addr_def hev_socks5_get_addr_family_def Let_def
        split: if_splits)
qed

text \<open>Reading a response: success means that an accepting response was the next thing in the stream.\<close>

lemma read_response_spec:
  assumes "hev_socks5_client_read_response rs bnd s = (r, s')" "associating s \<longrightarrow> fresh_socks s"
  shows "sent s' = sent s \<and> blocks s' = blocks s \<and> fd s' = fd s \<and> stype s' = stype s \<and>
    cclass s' = cclass s \<and> up_addr s' = up_addr s \<and>
    (r = - 1 \<and> open_fds s' = open_fds s \<or>
     r = 0 \<and> (\<exists>res. response_ok res \<and> stream (rx s) = res @ stream (rx s')) \<and>
      open_fds s' = (if associating s then insert (udp_fd s') (open_fds s) else open_fds s))"
proof -
  obtain q res s1 where io: "io_recv 4 s = (q, res, s1)" by (metis prod_cases3)
  have ro: "rx_only s s1" using io_recv_spec [OF io] by simp
  note f1 = rx_only_fields [OF ro] client_fields [OF rx_only_same [OF ro]]
  show ?thesis
  proof (cases "q = 4 \<and> res ! 0 = 5 \<and> res ! 1 = 0 \<and> response_addrlen (res ! 3) \<noteq> None")
    case False
    then have "r = - 1 \<and> s' = s1"
      using assms(1) io by (auto simp: hev_socks5_client_read_response_def split: if_splits)
    then show ?thesis using f1 by simp
  next
    case True
    then obtain len where len: "response_addrlen (res ! 3) = Some len" by auto
    obtain p buf s2 where io2: "io_recv len s1 = (p, buf, s2)" by (metis prod_cases3)
    have ro2: "rx_only s1 s2" using io_recv_spec [OF io2] by simp
    note f2 = rx_only_fields [OF ro2] client_fields [OF rx_only_same [OF ro2]]
    show ?thesis
    proof (cases "p = int len")
      case False
      then have "r = - 1 \<and> s' = s2"
        using assms(1) io io2 len True by (auto simp: hev_socks5_client_read_response_def)
      then show ?thesis using f1 f2 by simp
    next
      case P: True
      let ?addr = "blank_addr\<lparr>atype := res ! 3, abody := mem_put (abody blank_addr) 0 buf\<rparr>"
      obtain k t where su: "set_upstream_addr rs bnd ?addr s2 = (k, t)" by force
      have r: "r = (if k < 0 then - 1 else 0)" "s' = t"
        using assms(1) io io2 len True P su by (auto simp: hev_socks5_client_read_response_def split: if_splits)
      have fr: "associating s2 \<longrightarrow> fresh_socks s2" using assms(2) f1 f2 by (simp add: associating_def fresh_socks_def)
      note ss = set_upstream_spec [OF su fr]
      have "stream (rx s) = res @ buf @ stream (rx s2)" "length res = 4" "length buf = len"
        using io_recv_ok [of 4 s res s1] io_recv_ok [of len s1 buf s2] io io2 True P by simp_all
      then have "\<exists>out. response_ok out \<and> stream (rx s) = out @ stream (rx s2)"
        using True len four_bytes [of res]
        by (intro exI [of _ "res @ buf"] conjI response_okI [of res "res ! 2" "res ! 3" buf])
          (auto simp: response_addrlen_def split: if_splits)
      moreover have "k = 0 \<or> k < 0"
        using su by (auto simp: set_upstream_addr_def hev_socks5_client_tcp_set_upstream_addr_def
          hev_socks5_client_udp_set_upstream_addr_def Let_def split: HevSocks5ClientClass.splits prod.splits if_splits)
      ultimately show ?thesis using r ss f1 f2 by (auto simp: associating_def split: if_splits)
    qed
  qed
qed

lemma handshake_standard_done:
  assumes "hev_socks5_client_handshake_standard rs bnd s = Some (0, s')" "associating s \<longrightarrow> fresh_socks s"
  shows "handshake_done False s s'"
proof -
  obtain r1 s1 where a: "hev_socks5_client_write_auth_methods s = (r1, s1)" by force
  obtain r2 s2 where b: "client_auth_standard s1 = (r2, s2)" by force
  have r1: "r1 = 0" using assms(1) a write_auth_methods_spec [OF a]
    by (auto simp: hev_socks5_client_handshake_standard_def split: if_splits)
  have r2: "r2 = 0" using assms(1) a b r1 auth_standard_spec [OF b]
    by (auto simp: hev_socks5_client_handshake_standard_def split: if_splits)
  obtain r3 s3 where c: "hev_socks5_client_write_request s2 = Some (r3, s3)" "0 \<le> r3"
    "hev_socks5_client_read_response rs bnd s3 = (0, s')"
    using assms(1) a b r1 r2 by (auto simp: hev_socks5_client_handshake_standard_def split: option.splits if_splits)
  obtain n1 where n1: "tx_only s s1 (take n1 (methods_msg s))" "0 < n1"
    using write_auth_methods_spec [OF a] r1 by auto
  note sc1 = tx_only_same [OF n1(1)] and f1 = tx_only_fields [OF n1(1)]
  obtain mth n2 where m: "same_obj s1 s2" "mth = 0 \<or> mth = 2" "stream (rx s1) = auth_reply mth @ stream (rx s2)"
    "sent s2 = sent s1 @ (if mth = 2 then take n2 (creds_msg s1) else [])"
    using auth_standard_spec [OF b] r2 by auto
  have sc2: "same_obj s s2" using sc1 m(1) by (rule same_obj_trans)
  note f2 = client_fields [OF sc2]
  have cmd: "request_cmd (stype s2) \<noteq> None"
    using c(1,2) by (auto simp: hev_socks5_client_write_request_def split: option.splits)
  obtain n3 where n3: "sent s3 = sent s2 @ take n3 (request_msg s2)" "0 < n3" "rx s3 = rx s2"
    "stype s3 = stype s2" "cclass s3 = cclass s2" "open_fds s3 = open_fds s2" "fd s3 = fd s2"
    "cclass s2 = CLIENT_TCP \<Longrightarrow> up_addr s3 = None"
    "blocks s3 = blocks s2 + (if cclass s2 = CLIENT_TCP then 0 else 1) - 1" "socks s3 = socks s2"
    using write_request_spec [OF c(1) cmd] c(2) by (smt (verit))
  have socks: "socks s2 = socks s" using sc2 by (simp add: same_obj_def)
  have fr: "associating s3 \<longrightarrow> fresh_socks s3"
    using assms(2) n3(4-6,10) f2(3,7,11) socks by (simp add: associating_def fresh_socks_def)
  note rr = read_response_spec [OF c(3) fr]
  then obtain res where res: "response_ok res" "stream (rx s3) = res @ stream (rx s')" by auto
  have st: "stream (rx s) = auth_reply mth @ res @ stream (rx s')" using m(3) res(2) n3(3) f1(1) by simp
  have se: "sent s' = sent s @ take n1 (methods_msg s) @ (if False \<or> mth = 2 then take n2 (creds_msg s) else []) @
      take n3 (request_msg s)"
    using rr n3(1) m(4) f1(2) msg_same [OF sc1] msg_same [OF sc2] by simp
  have fi: "fd s' = fd s" "cclass s' = cclass s" "cclass s = CLIENT_TCP \<longrightarrow> up_addr s' = None \<and> blocks s' = blocks s - 1"
    "open_fds s' = (if associating s then insert (udp_fd s') (open_fds s) else open_fds s)"
    using rr n3(4-9) f2 by (auto simp: associating_def)
  show ?thesis
    unfolding handshake_done_def using cmd f2(7) m(2) res(1) st se n1(2) n3(2) fi by metis
qed

lemma handshake_pipeline_done:
  assumes "hev_socks5_client_handshake_pipeline rs bnd s = Some (0, s')" "associating s \<longrightarrow> fresh_socks s"
  shows "handshake_done True s s'"
proof -
  obtain r1 s1 where a: "hev_socks5_client_write_auth_methods s = (r1, s1)" by force
  obtain r2 s2 where b: "hev_socks5_client_write_auth_creds s1 = (r2, s2)" by force
  have r1: "r1 = 0" using assms(1) a write_auth_methods_spec [OF a]
    by (auto simp: hev_socks5_client_handshake_pipeline_def split: if_splits)
  have r2: "r2 = 0" using assms(1) a b r1 write_auth_creds_spec [OF b]
    by (auto simp: hev_socks5_client_handshake_pipeline_def split: if_splits)
  obtain r3 s3 r4 s4 where c: "hev_socks5_client_write_request s2 = Some (r3, s3)" "0 \<le> r3"
    "client_auth_pipeline s3 = (r4, s4)" "0 \<le> r4" "hev_socks5_client_read_response rs bnd s4 = (0, s')"
    using assms(1) a b r1 r2
    by (auto simp: hev_socks5_client_handshake_pipeline_def split: option.splits prod.splits if_splits)
  obtain n1 where n1: "tx_only s s1 (take n1 (methods_msg s))" "0 < n1"
    using write_auth_methods_spec [OF a] r1 by auto
  note sc1 = tx_only_same [OF n1(1)] and f1 = tx_only_fields [OF n1(1)]
  obtain n2 where n2: "tx_only s1 s2 (take n2 (creds_msg s1))" using write_auth_creds_spec [OF b] by auto
  note g2 = tx_only_fields [OF n2]
  have sc2: "same_obj s s2" using sc1 tx_only_same [OF n2] by (rule same_obj_trans)
  note f2 = client_fields [OF sc2]
  have cmd: "request_cmd (stype s2) \<noteq> None"
    using c(1,2) by (auto simp: hev_socks5_client_write_request_def split: option.splits)
  obtain n3 where n3: "sent s3 = sent s2 @ take n3 (request_msg s2)" "0 < n3" "rx s3 = rx s2"
    "stype s3 = stype s2" "cclass s3 = cclass s2" "open_fds s3 = open_fds s2" "fd s3 = fd s2"
    "cclass s2 = CLIENT_TCP \<Longrightarrow> up_addr s3 = None"
    "blocks s3 = blocks s2 + (if cclass s2 = CLIENT_TCP then 0 else 1) - 1" "socks s3 = socks s2"
    using write_request_spec [OF c(1) cmd] c(2) by (smt (verit))
  obtain mth where m: "same_obj s3 s4" "sent s4 = sent s3" "mth = 0 \<or> mth = 2"
    "stream (rx s3) = auth_reply mth @ stream (rx s4)"
    using auth_pipeline_spec [OF c(3)] c(4) by auto
  note f4 = client_fields [OF m(1)]
  have socks: "socks s2 = socks s" "socks s4 = socks s3" using sc2 m(1) by (simp_all add: same_obj_def)
  have fr: "associating s4 \<longrightarrow> fresh_socks s4"
    using assms(2) n3(4-6,10) f2(3,7,11) f4(3,7,11) socks by (simp add: associating_def fresh_socks_def)
  note rr = read_response_spec [OF c(5) fr]
  then obtain res where res: "response_ok res" "stream (rx s4) = res @ stream (rx s')" by auto
  have st: "stream (rx s) = auth_reply mth @ res @ stream (rx s')" using m(4) res(2) n3(3) f1(1) g2(1) by simp
  have se: "sent s' = sent s @ take n1 (methods_msg s) @ (if True \<or> mth = 2 then take n2 (creds_msg s) else []) @
      take n3 (request_msg s)"
    using rr n3(1) m(2) f1(2) g2(2) msg_same [OF sc1] msg_same [OF sc2] by simp
  have fi: "fd s' = fd s" "cclass s' = cclass s" "cclass s = CLIENT_TCP \<longrightarrow> up_addr s' = None \<and> blocks s' = blocks s - 1"
    "open_fds s' = (if associating s then insert (udp_fd s') (open_fds s) else open_fds s)"
    using rr n3(4-9) f2 f4 by (auto simp: associating_def)
  show ?thesis
    unfolding handshake_done_def using cmd f2(7) m(3) res(1) st se n1(2) n3(2) fi by metis
qed

end

interpretation dflt_client: client_bind hev_socks5_bind
  by unfold_locales

end
