(* ===== verification/Socks5ClientOk.thy ===== *)
theory Socks5ClientOk
  imports Socks5Client
begin

text \<open>
  Properties of the SOCKS5 client: soundness of the handshake, its completeness against a peer that
  answers, and the balance of descriptors and heap blocks over a client's life.
\<close>

lemma methods_ready:
  assumes "ready (Suc k) st s"
  obtains s' where "hev_socks5_client_write_auth_methods s = (0, s')" "ready k st s'" "same_obj s s'"
    "sent s' = sent s @ methods_msg s"
proof -
  have "methods_msg s \<noteq> []" "length (methods_msg s) \<le> 513" by (simp_all add: methods_msg_def)
  then obtain t where t: "io_send (methods_msg s) s = (int (length (methods_msg s)), t)" "ready k st t" "same_obj s t"
      "sent t = sent s @ methods_msg s"
    by (rule ready_send [OF assms])
  have "hev_socks5_client_write_auth_methods s = (0, t)"
    using t(1) by (simp add: hev_socks5_client_write_auth_methods_def methods_msg_def Let_def)
  then show ?thesis using t(2-4) by (rule that)
qed

lemma creds_ready:
  assumes "ready (Suc k) st s"
  obtains s' where "hev_socks5_client_write_auth_creds s = (0, s')" "ready k st s'" "same_obj s s'"
    "sent s' = sent s @ creds_msg s"
proof (cases "auth_user s = None \<or> auth_pass s = None")
  case True
  then have "hev_socks5_client_write_auth_creds s = (0, s)" "creds_msg s = []"
    by (auto simp: hev_socks5_client_write_auth_creds_def creds_msg_def split: option.splits)
  then show ?thesis using that [of s] ready_mono [OF assms] by simp
next
  case False
  then obtain u p where up: "auth_user s = Some u" "auth_pass s = Some p" by auto
  have "length u mod 256 < 256" "length p mod 256 < 256" by simp_all
  then have "creds_msg s \<noteq> []" "length (creds_msg s) \<le> 513" by (simp_all add: creds_msg_def up)
  then obtain t where "io_send (creds_msg s) s = (int (length (creds_msg s)), t)" "ready k st t" "same_obj s t"
      "sent t = sent s @ creds_msg s"
    by (rule ready_send [OF assms])
  moreover from this(1) \<open>creds_msg s \<noteq> []\<close> have "hev_socks5_client_write_auth_creds s = (0, t)"
    by (simp add: hev_socks5_client_write_auth_creds_def up io_sendmsg_eq creds_msg_def unat_of_nat take_bit_eq_mod)
  ultimately show ?thesis using that by blast
qed

lemma auth_method_ready:
  assumes "ready k ([5, m] @ st) s"
  obtains s' where "hev_socks5_client_read_auth_method s = (uint m, s')" "ready k st s'" "same_obj s s'" "sent s' = sent s"
proof -
  have "length ([5, m] :: bytes) = 2" by simp
  then obtain t where t: "io_recv 2 s = (int 2, [5, m], t)" "ready k st t" "same_obj s t" "sent t = sent s"
    by (rule ready_recv [OF assms])
  have "hev_socks5_client_read_auth_method s = (uint m, t)" using t(1) by (simp add: hev_socks5_client_read_auth_method_def)
  then show ?thesis using t(2-4) by (rule that)
qed

lemma auth_creds_ready:
  assumes "ready k ([1, 0] @ st) s"
  obtains s' where "hev_socks5_client_read_auth_creds s = (0, s')" "ready k st s'" "same_obj s s'" "sent s' = sent s"
proof -
  have "length ([1, 0] :: bytes) = 2" by simp
  then obtain t where t: "io_recv 2 s = (int 2, [1, 0], t)" "ready k st t" "same_obj s t" "sent t = sent s"
    by (rule ready_recv [OF assms])
  have "hev_socks5_client_read_auth_creds s = (0, t)" using t(1) by (simp add: hev_socks5_client_read_auth_creds_def)
  then show ?thesis using t(2-4) by (rule that)
qed

lemma auth_standard_ready:
  assumes "ready (Suc k) (auth_reply m @ st) s" "m = 0 \<or> m = 2"
  obtains s' where "client_auth_standard s = (0, s')" "ready k st s'" "same_obj s s'"
    "sent s' = sent s @ (if m = 2 then creds_msg s else [])"
proof (cases "m = 2")
  case False
  with assms have m: "m = 0" by simp
  obtain t where "hev_socks5_client_read_auth_method s = (uint (0 :: byte), t)" "ready (Suc k) st t" "same_obj s t" "sent t = sent s"
    using auth_method_ready [of "Suc k" 0 st s] assms(1) m by (auto simp: auth_reply_def)
  then show ?thesis using that [of t] m by (auto simp: client_auth_standard_def ready_mono)
next
  case m: True
  obtain t where t: "hev_socks5_client_read_auth_method s = (uint (2 :: byte), t)" "ready (Suc k) ([1, 0] @ st) t" "same_obj s t" "sent t = sent s"
    using auth_method_ready [of "Suc k" 2 "[1, 0] @ st" s] assms(1) m by (auto simp: auth_reply_def)
  obtain u where u: "hev_socks5_client_write_auth_creds t = (0, u)" "ready k ([1, 0] @ st) u" "same_obj t u" "sent u = sent t @ creds_msg t"
    using creds_ready [OF t(2)] by blast
  obtain v where v: "hev_socks5_client_read_auth_creds u = (0, v)" "ready k st v" "same_obj u v" "sent v = sent u"
    using auth_creds_ready [OF u(2)] by blast
  show ?thesis
  proof (rule that)
    show "client_auth_standard s = (0, v)" using t(1) u(1) v(1) by (simp add: client_auth_standard_def)
    show "same_obj s v" using t(3) u(3) v(3) by (blast intro: same_obj_trans)
    show "sent v = sent s @ (if m = 2 then creds_msg s else [])"
      using t(4) u(4) v(4) m msg_same [OF t(3)] by simp
  qed (rule v(2))
qed

lemma auth_pipeline_ready:
  assumes "ready k (auth_reply m @ st) s" "m = 0 \<or> m = 2"
  obtains s' where "client_auth_pipeline s = (0, s')" "ready k st s'" "same_obj s s'" "sent s' = sent s"
proof (cases "m = 2")
  case False
  with assms have m: "m = 0" by simp
  obtain t where "hev_socks5_client_read_auth_method s = (uint (0 :: byte), t)" "ready k st t" "same_obj s t" "sent t = sent s"
    using auth_method_ready [of k 0 st s] assms(1) m by (auto simp: auth_reply_def)
  then show ?thesis using that [of t] m by (auto simp: client_auth_pipeline_def)
next
  case m: True
  obtain t where t: "hev_socks5_client_read_auth_method s = (uint (2 :: byte), t)" "ready k ([1, 0] @ st) t" "same_obj s t" "sent t = sent s"
    using auth_method_ready [of k 2 "[1, 0] @ st" s] assms(1) m by (auto simp: auth_reply_def)
  obtain v where v: "hev_socks5_client_read_auth_creds t = (0, v)" "ready k st v" "same_obj t v" "sent v = sent t"
    using auth_creds_ready [OF t(2)] by blast
  show ?thesis
  proof (rule that)
    show "client_auth_pipeline s = (0, v)" using t(1) v(1) by (simp add: client_auth_pipeline_def)
    show "same_obj s v" using t(3) v(3) by (rule same_obj_trans)
  qed (use t(4) v in simp_all)
qed

text \<open>An object that has an upstream address to ask for.\<close>

definition can_request :: "'a HevSocks5Client_scheme \<Rightarrow> bool" where
  "can_request s \<longleftrightarrow> request_cmd (stype s) \<noteq> None \<and>
     (\<exists>a t. get_upstream_addr s = (Some a, t) \<and> request_addrlen a = Some (length a))"

lemma can_request_same:
  assumes "same_obj s s'"
  shows "can_request s' \<longleftrightarrow> can_request s"
  using client_fields [OF assms]
  by (cases "cclass s"; cases "addr_family s"; cases "mallocs s")
     (auto simp: can_request_def get_upstream_addr_def hev_socks5_client_tcp_get_upstream_addr_def
       hev_socks5_client_udp_get_upstream_addr_def hev_socks5_get_addr_family_def sys_malloc_def)

lemma request_addrlen_bound: "request_addrlen a = Some n \<Longrightarrow> 0 < n \<and> n \<le> 259"
  using unsigned_less [of "a ! 1", where 'a = nat] by (auto simp: request_addrlen_def split: if_splits)

lemma request_ready:
  assumes "ready (Suc k) st s" "can_request s"
  obtains s' where "hev_socks5_client_write_request s = Some (0, s')" "ready k st s'" "sent s' = sent s @ request_msg s"
    "stype s' = stype s" "cclass s' = cclass s"
proof -
  obtain cmd a t where a: "request_cmd (stype s) = Some cmd" "get_upstream_addr s = (Some a, t)"
      "request_addrlen a = Some (length a)"
    using assms(2) by (auto simp: can_request_def)
  note g = get_upstream_spec [OF a(2)]
  have msg: "request_msg s = [5, cmd, 0] @ a" using g(1) a by (simp add: request_msg_def)
  have "ready (Suc k) st t" using assms(1) g by (simp add: ready_def)
  moreover have "request_msg s \<noteq> []" "length (request_msg s) \<le> 513"
    using msg request_addrlen_bound [OF a(3)] by simp_all
  ultimately obtain u where u: "io_send (request_msg s) t = (int (length (request_msg s)), u)" "ready k st u" "same_obj t u"
      "sent u = sent t @ request_msg s"
    by (rule ready_send)
  have "hev_socks5_client_write_request s = Some (0, sys_free u)"
    using a u(1) msg by (simp add: hev_socks5_client_write_request_def io_sendmsg_eq)
  moreover have "ready k st (sys_free u)" using u(2) by (simp add: ready_def sys_free_def)
  moreover have "sent (sys_free u) = sent s @ request_msg s" using u(4) g(4) by (simp add: sys_free_def)
  moreover have "stype (sys_free u) = stype s" "cclass (sys_free u) = cclass s"
    using client_fields [OF u(3)] g by (simp_all add: sys_free_def)
  ultimately show ?thesis by (rule that)
qed

lemma response_ready:
  assumes "ready k (res @ st) s" "response_ok res" "\<not> associating s"
  obtains s' where "hev_socks5_client_read_response rs bnd s = (0, s')" "ready k st s'" "sent s' = sent s"
proof -
  obtain rsv ty body where res: "res = [5, 0, rsv, ty] @ body" "ty = 1 \<and> length body = 6 \<or> ty = 4 \<and> length body = 18"
    using assms(2) by (auto simp: response_ok_def)
  have "ready k ([5, 0, rsv, ty] @ (body @ st)) s" using assms(1) res(1) by simp
  moreover have "length ([5, 0, rsv, ty]) = 4" by simp
  ultimately obtain t where t: "io_recv 4 s = (int 4, [5, 0, rsv, ty], t)" "ready k (body @ st) t" "same_obj s t" "sent t = sent s"
    by (rule ready_recv)
  obtain u where u: "io_recv (length body) t = (int (length body), body, u)" "ready k st u" "same_obj t u" "sent u = sent t"
    using ready_recv [OF t(2) refl] by blast
  have "\<not> associating u"
    using assms(3) client_fields [OF t(3)] client_fields [OF u(3)] by (simp add: associating_def)
  then have up: "set_upstream_addr rs bnd addr u = (0, u)" for addr
    by (cases "cclass u") (simp_all add: associating_def set_upstream_addr_def
      hev_socks5_client_tcp_set_upstream_addr_def hev_socks5_client_udp_set_upstream_addr_def)
  have "response_addrlen ty = Some (length body)" using res(2) by (auto simp: response_addrlen_def)
  then have "hev_socks5_client_read_response rs bnd s = (0, u)"
    using t(1) u(1) up by (simp add: hev_socks5_client_read_response_def Let_def)
  moreover have "sent u = sent s" using u(4) t(4) by simp
  ultimately show ?thesis using that u(2) by blast
qed

lemma handshake_standard_ready:
  assumes "ready 3 (auth_reply mth @ res @ rest) s" "mth = 0 \<or> mth = 2" "response_ok res" "can_request s" "\<not> associating s"
  shows "\<exists>s'. hev_socks5_client_handshake_standard rs bnd s = Some (0, s') \<and> stream (rx s') = rest \<and>
    sent s' = sent s @ methods_msg s @ (if mth = 2 then creds_msg s else []) @ request_msg s"
proof -
  have "ready (Suc 2) (auth_reply mth @ res @ rest) s" using assms(1) by (simp add: numeral_eq_Suc)
  then obtain t where t: "hev_socks5_client_write_auth_methods s = (0, t)" "ready 2 (auth_reply mth @ res @ rest) t"
      "same_obj s t" "sent t = sent s @ methods_msg s"
    by (rule methods_ready)
  have "ready (Suc 1) (auth_reply mth @ res @ rest) t" using t(2) by (simp add: numeral_eq_Suc)
  then obtain u where u: "client_auth_standard t = (0, u)" "ready 1 (res @ rest) u" "same_obj t u"
      "sent u = sent t @ (if mth = 2 then creds_msg t else [])"
    using assms(2) by (rule auth_standard_ready)
  have su: "same_obj s u" using t(3) u(3) by (rule same_obj_trans)
  have "ready (Suc 0) (res @ rest) u" using u(2) by simp
  moreover have "can_request u" using can_request_same [OF su] assms(4) by simp
  ultimately obtain v where v: "hev_socks5_client_write_request u = Some (0, v)" "ready 0 (res @ rest) v"
      "sent v = sent u @ request_msg u" "stype v = stype u" "cclass v = cclass u"
    by (rule request_ready)
  have "\<not> associating v" using v(4,5) assms(5) client_fields [OF su] by (simp add: associating_def)
  then obtain w where w: "hev_socks5_client_read_response rs bnd v = (0, w)" "ready 0 rest w" "sent w = sent v"
    by (rule response_ready [OF v(2) assms(3)])
  have "hev_socks5_client_handshake_standard rs bnd s = Some (0, w)"
    using t(1) u(1) v(1) w(1) by (simp add: hev_socks5_client_handshake_standard_def)
  moreover have "sent w = sent s @ methods_msg s @ (if mth = 2 then creds_msg s else []) @ request_msg s"
    using w(3) v(3) u(4) t(4) msg_same [OF t(3)] msg_same [OF su] by simp
  ultimately show ?thesis using w(2) by (auto simp: ready_def)
qed

lemma handshake_pipeline_ready:
  assumes "ready 3 (auth_reply mth @ res @ rest) s" "mth = 0 \<or> mth = 2" "response_ok res" "can_request s" "\<not> associating s"
  shows "\<exists>s'. hev_socks5_client_handshake_pipeline rs bnd s = Some (0, s') \<and> stream (rx s') = rest \<and>
    sent s' = sent s @ methods_msg s @ creds_msg s @ request_msg s"
proof -
  let ?in = "auth_reply mth @ res @ rest"
  have "ready (Suc 2) ?in s" using assms(1) by (simp add: numeral_eq_Suc)
  then obtain t where t: "hev_socks5_client_write_auth_methods s = (0, t)" "ready 2 ?in t"
      "same_obj s t" "sent t = sent s @ methods_msg s"
    by (rule methods_ready)
  have "ready (Suc 1) ?in t" using t(2) by (simp add: numeral_eq_Suc)
  then obtain u where u: "hev_socks5_client_write_auth_creds t = (0, u)" "ready 1 ?in u" "same_obj t u"
      "sent u = sent t @ creds_msg t"
    by (rule creds_ready)
  have su: "same_obj s u" using t(3) u(3) by (rule same_obj_trans)
  have "ready (Suc 0) ?in u" using u(2) by simp
  moreover have "can_request u" using can_request_same [OF su] assms(4) by simp
  ultimately obtain v where v: "hev_socks5_client_write_request u = Some (0, v)" "ready 0 ?in v"
      "sent v = sent u @ request_msg u" "stype v = stype u" "cclass v = cclass u"
    by (rule request_ready)
  obtain x where x: "client_auth_pipeline v = (0, x)" "ready 0 (res @ rest) x" "same_obj v x" "sent x = sent v"
    using auth_pipeline_ready [OF v(2) assms(2)] by blast
  have "\<not> associating x" using v(4,5) assms(5) client_fields [OF su] client_fields [OF x(3)]
    by (simp add: associating_def)
  then obtain w where w: "hev_socks5_client_read_response rs bnd x = (0, w)" "ready 0 rest w" "sent w = sent x"
    by (rule response_ready [OF x(2) assms(3)])
  have "hev_socks5_client_handshake_pipeline rs bnd s = Some (0, w)"
    using t(1) u(1) v(1) x(1) w(1) by (simp add: hev_socks5_client_handshake_pipeline_def)
  moreover have "sent w = sent s @ methods_msg s @ creds_msg s @ request_msg s"
    using w(3) x(4) v(3) u(4) t(4) msg_same [OF t(3)] msg_same [OF su] by simp
  ultimately show ?thesis using w(2) by (auto simp: ready_def)
qed

lemma timeout_frame [simp]:
  "stream (rx (hev_socks5_set_timeout t s)) = stream (rx s)" "sent (hev_socks5_set_timeout t s) = sent s"
  "handshake_done pl (hev_socks5_set_timeout t s) s' \<longleftrightarrow> handshake_done pl s s'"
  "handshake_done pl s (hev_socks5_set_timeout t s') \<longleftrightarrow> handshake_done pl s s'"
  unfolding handshake_done_def msg_same [OF same_obj_timeout] associating_def
  by (simp_all add: hev_socks5_set_timeout_def)

lemma handshake_ready:
  assumes "ready 3 (auth_reply mth @ res @ rest) s" "mth = 0 \<or> mth = 2" "response_ok res" "can_request s"
    and "stype s \<noteq> TYPE_UDP_IN_UDP"
  shows "\<exists>s'. hev_socks5_client_handshake m rs bnd pipeline s = Some (0, s') \<and> stream (rx s') = rest \<and>
    sent s' = sent s @ methods_msg s @ (if pipeline \<or> mth = 2 then creds_msg s else []) @ request_msg s"
proof -
  let ?s = "hev_socks5_set_timeout (hev_socks5_get_tcp_timeout m) s"
  have r: "ready 3 (auth_reply mth @ res @ rest) ?s" "can_request ?s" "\<not> associating ?s"
    using assms can_request_same [OF same_obj_timeout]
    by (auto simp: ready_def hev_socks5_set_timeout_def associating_def)
  have "methods_msg ?s = methods_msg s" "creds_msg ?s = creds_msg s" "request_msg ?s = request_msg s"
    using msg_same [OF same_obj_timeout] by blast+
  note msgs = this
  obtain t where "(if pipeline then hev_socks5_client_handshake_pipeline rs bnd ?s
      else hev_socks5_client_handshake_standard rs bnd ?s) = Some (0, t)" "stream (rx t) = rest"
      "sent t = sent s @ methods_msg s @ (if pipeline \<or> mth = 2 then creds_msg s else []) @ request_msg s"
    using handshake_standard_ready [OF r(1) assms(2,3) r(2,3), of rs bnd]
      handshake_pipeline_ready [OF r(1) assms(2,3) r(2,3), of rs bnd]
    unfolding msgs timeout_frame by (cases pipeline) auto
  then show ?thesis by (auto simp: hev_socks5_client_handshake_def Let_def)
qed

section \<open>Properties\<close>

lemma handshake_sound:
  assumes "client_bind bnd" "associating s \<longrightarrow> fresh_socks s"
    and "hev_socks5_client_handshake m rs bnd pipeline s = Some (0, s')"
  shows "handshake_done pipeline s s'"
proof -
  let ?s = "hev_socks5_set_timeout (hev_socks5_get_tcp_timeout m) s"
  obtain t where t: "(if pipeline then hev_socks5_client_handshake_pipeline rs bnd ?s
      else hev_socks5_client_handshake_standard rs bnd ?s) = Some (0, t)"
    and s': "s' = t \<or> s' = hev_socks5_set_timeout (hev_socks5_get_udp_timeout m) t"
    using assms(3) by (auto simp: hev_socks5_client_handshake_def Let_def split: option.splits if_splits)
  have fr: "associating ?s \<longrightarrow> fresh_socks ?s"
    using assms(2) by (simp add: hev_socks5_set_timeout_def associating_def fresh_socks_def)
  have "handshake_done pipeline ?s t"
    using t client_bind.handshake_pipeline_done [OF assms(1) _ fr] client_bind.handshake_standard_done [OF assms(1) _ fr]
    by (cases pipeline) auto
  then show ?thesis using s' by auto
qed

text \<open>
  C10. Soundness of the client handshake, in both modes: zero is returned only when the server's stream
  began with an accepting method reply (and, for user/password, the accepting status) and an accepting
  response, which are consumed exactly; what was sent is non-empty prefixes of the method offer and of the
  request, with the credentials between them exactly when they were due. The address block of a TCP
  client has been given back, and no descriptor was opened except the relay socket of a UDP association.
\<close>

theorem client_handshake_sound:
  assumes "client_bind bnd" "associating s \<longrightarrow> fresh_socks s"
    and "hev_socks5_client_handshake m rs bnd pipeline s = Some (0, s')"
  shows "handshake_done pipeline s s'"
  using assms by (rule handshake_sound)

text \<open>A client against a server that chooses user/password authentication, with its data in two pieces.\<close>

definition demo_client :: HevSocks5Client where
  "demo_client = \<lparr>rx = [Data [5, 2, 1, 0, 5], Data [0, 0, 1, 10, 0, 0, 1, 0, 80, 42]], tx = replicate 3 (Accept 600), sent = [],
     conns = [], dialled = [], socks = [], opts = [], sleeps = [], mallocs = [], open_fds = {7}, blocks = 2, eagain = False, drx = (\<lambda>_. []), dtx = (\<lambda>_. []), dsent = (\<lambda>_. []),
     fd = 7, timeout = 0, udp_associated = False, stype = TYPE_TCP, addr_family = FAMILY_IPV4,
     auth_user = Some [117], auth_pass = Some [112, 119], cclass = CLIENT_TCP,
     up_addr = Some [1, 10, 0, 0, 9, 0, 80], udp_fd = 0\<rparr>"

lemma demo_ready: "ready 3 (auth_reply 2 @ ([5, 0, 0, 1] @ [10, 0, 0, 1, 0, 80]) @ [42]) demo_client"
  by (auto simp: ready_def demo_client_def flowing_def auth_reply_def)

lemma demo_can_request: "can_request demo_client"
  by (simp add: can_request_def demo_client_def request_cmd_def get_upstream_addr_def
      hev_socks5_client_tcp_get_upstream_addr_def request_addrlen_def)

lemma demo_stype: "stype demo_client \<noteq> TYPE_UDP_IN_UDP"
  by (simp add: demo_client_def)

lemma demo_response: "response_ok ([5, 0, 0, 1] @ [10, 0, 0, 1, 0, 80])"
  by (rule response_okI) auto

lemma demo_handshake:
  obtains t where "hev_socks5_client_handshake misc_defaults no_resolver hev_socks5_bind pipeline demo_client = Some (0, t)"
  using handshake_ready [OF demo_ready _ demo_response demo_can_request demo_stype] by blast

lemma client_bind_default: "client_bind hev_socks5_bind"
  by unfold_locales

text \<open>
  C11. Completeness of the client handshake: against a server that answers with an accepting method reply
  and response, and whose side of the connection takes what is written, the handshake of a TCP or UDP-in-TCP
  client succeeds in both modes, having sent exactly the method offer, the credentials when they are due,
  and the request, and leaves the rest of the stream for the relay.
\<close>

theorem client_handshake_complete:
  assumes "ready 3 (auth_reply mth @ res @ rest) s" "mth = 0 \<or> mth = 2" "response_ok res" "can_request s"
    and "stype s \<noteq> TYPE_UDP_IN_UDP"
  shows "\<exists>s'. hev_socks5_client_handshake m rs bnd pipeline s = Some (0, s') \<and> stream (rx s') = rest \<and>
    sent s' = sent s @ methods_msg s @ (if pipeline \<or> mth = 2 then creds_msg s else []) @ request_msg s"
  using assms by (rule handshake_ready)

theorem client_handshake_complete_witness:
  "\<exists>s'. hev_socks5_client_handshake misc_defaults no_resolver hev_socks5_bind True demo_client = Some (0, s') \<and>
    stream (rx s') = [42] \<and> sent s' = [5, 1, 2] @ [1, 1, 117, 2, 112, 119] @ [5, 1, 0, 1, 10, 0, 0, 9, 0, 80]"
proof -
  have "sent demo_client = []" "methods_msg demo_client = [5, 1, 2]" "creds_msg demo_client = [1, 1, 117, 2, 112, 119]"
    "request_msg demo_client = [5, 1, 0, 1, 10, 0, 0, 9, 0, 80]"
    by (simp_all add: demo_client_def methods_msg_def creds_msg_def request_msg_def request_cmd_def upstream_bytes_def request_addrlen_def)
  then show ?thesis
    using client_handshake_complete [OF demo_ready _ demo_response demo_can_request demo_stype,
        of misc_defaults no_resolver hev_socks5_bind True] by simp
qed

theorem client_handshake_sound_witness:
  "\<exists>s'. hev_socks5_client_handshake misc_defaults no_resolver hev_socks5_bind False demo_client = Some (0, s') \<and>
    handshake_done False demo_client s'"
proof -
  obtain t where t: "hev_socks5_client_handshake misc_defaults no_resolver hev_socks5_bind False demo_client = Some (0, t)"
    by (rule demo_handshake)
  have "associating demo_client \<longrightarrow> fresh_socks demo_client" by (simp add: demo_client_def fresh_socks_def)
  from client_handshake_sound [OF client_bind_default this t] t show ?thesis by blast
qed

lemma connect_fields:
  assumes "client_bind bnd" "fresh_socks s" "hev_socks5_client_connect m rs bnd addr port s = (r, s')"
  shows "blocks s' = blocks s \<and> HevSocks5.more s' = HevSocks5.more s \<and> stype s' = stype s \<and> sent s' = sent s \<and> rx s' = rx s"
    and "r = 0 \<and> (\<exists>sa family. hev_socks5_name_into_sockaddr6 rs addr port blank_saddr (addr_family s) = (0, sa, family) \<and>
        addr_family s' = family \<and> dialled s' = dialled s @ [(fd s', sa)]) \<and>
        0 \<le> fd s' \<and> fd s' \<notin> open_fds s \<and> open_fds s' = insert (fd s') (open_fds s) \<or>
      r = - 1 \<and> fd s' = fd s \<and> addr_family s' = addr_family s \<and> open_fds s' = open_fds s \<and> dialled s' = dialled s"
proof -
  let ?s = "hev_socks5_set_timeout (hev_socks5_get_connect_timeout m) s"
  obtain q sa f where n: "hev_socks5_name_into_sockaddr6 rs addr port blank_saddr (addr_family s) = (q, sa, f)"
    by (metis prod_cases3)
  have q: "q = 0 \<or> q = - 1"
    using n by (auto simp: hev_socks5_name_into_sockaddr6_def hev_socks5_name_resolve_name_def Let_def
      split: prod.splits if_splits gai_result.splits)
  obtain d t where o: "open_upstream bnd sa ?s = (d, t)" by force
  have "fresh_socks ?s" using assms(2) by (simp add: fresh_socks_def hev_socks5_set_timeout_def)
  note os = client_bind.open_upstream_spec [OF assms(1) o this]
  have u: "hev_socks5_client_connect m rs bnd addr port s =
      (if q < 0 then (- 1, ?s) else if d < 0 then (- 1, t) else (0, hev_socks5_set_addr_family f (t\<lparr>fd := d\<rparr>)))"
    using n o by (simp add: hev_socks5_client_connect_def hev_socks5_set_timeout_def hev_socks5_get_addr_family_def)
  show "blocks s' = blocks s \<and> HevSocks5.more s' = HevSocks5.more s \<and> stype s' = stype s \<and> sent s' = sent s \<and> rx s' = rx s"
    using assms(3) u os
    by (auto simp: hev_socks5_set_timeout_def hev_socks5_set_addr_family_def split: if_splits)
  show "r = 0 \<and> (\<exists>sa family. hev_socks5_name_into_sockaddr6 rs addr port blank_saddr (addr_family s) = (0, sa, family) \<and>
        addr_family s' = family \<and> dialled s' = dialled s @ [(fd s', sa)]) \<and>
        0 \<le> fd s' \<and> fd s' \<notin> open_fds s \<and> open_fds s' = insert (fd s') (open_fds s) \<or>
      r = - 1 \<and> fd s' = fd s \<and> addr_family s' = addr_family s \<and> open_fds s' = open_fds s \<and> dialled s' = dialled s"
  proof (cases "q < 0 \<or> d < 0")
    case True
    then have "r = - 1" "s' = ?s \<or> d < 0 \<and> s' = t" using assms(3) u by (auto split: if_splits)
    then show ?thesis using os by (auto simp: hev_socks5_set_timeout_def)
  next
    case False
    then have "r = 0" "s' = hev_socks5_set_addr_family f (t\<lparr>fd := d\<rparr>)" using assms(3) u by auto
    then show ?thesis using os n q False by (simp add: hev_socks5_set_timeout_def hev_socks5_set_addr_family_def)
  qed
qed



text \<open>
  The life of a TCP client leaks nothing when its handshake succeeds: after creation, connection, a
  successful handshake and destruction the number of heap blocks is what it was, and exactly the descriptors
  that were open before are open.
\<close>

lemma client_tcp_lifecycle:
  assumes "client_bind bnd" "fresh_socks s"
    and "hev_socks5_client_tcp_new_ipv4 ip port s = (True, s1)"
    and "hev_socks5_client_connect m rs bnd server sport s1 = (0, s2)"
    and "hev_socks5_client_handshake m rs bnd pipeline s2 = Some (0, s3)"
  shows "blocks (hev_socks5_client_tcp_destruct s3) = blocks s \<and>
    open_fds (hev_socks5_client_tcp_destruct s3) = open_fds s"
proof -
  have s1: "blocks s1 = blocks s + 2" "open_fds s1 = open_fds s" "socks s1 = socks s" "cclass s1 = CLIENT_TCP"
    using assms(3)
    by (auto simp: hev_socks5_client_tcp_new_ipv4_def client_tcp_new_def hev_socks5_client_tcp_construct_def
        hev_socks5_client_construct_def hev_socks5_construct_def sys_malloc_def client_zero_def Let_def
        hev_socks5_addr_from_ipv4_def addr_len_type split: list.splits if_splits)
  have "fresh_socks s1" using assms(2) s1 by (simp add: fresh_socks_def)
  note c = connect_fields [OF assms(1) this assms(4)]
  have m: "HevSocks5.more s2 = HevSocks5.more s1" using c(1) by simp
  have c2: "cclass s2 = CLIENT_TCP" using client_more [OF m] s1 by simp
  then have na: "associating s2 \<longrightarrow> fresh_socks s2" by (simp add: associating_def)
  have t: "blocks s3 = blocks s2 - 1" "up_addr s3 = None" "fd s3 = fd s2" "open_fds s3 = open_fds s2"
    using handshake_sound [OF assms(1) na assms(5)] c2 by (simp_all add: handshake_done_def associating_def)
  show ?thesis
    using t c s1 by (simp add: hev_socks5_client_tcp_destruct_def hev_socks5_client_destruct_def hev_socks5_destruct_def
      sys_free_def sys_close_def)
qed

definition demo_start :: HevSocks5Client where
  "demo_start = demo_client\<lparr>socks := [9], conns := [Connected]\<rparr>"

abbreviation demo_resolver :: resolver where
  "demo_resolver \<equiv> no_resolver\<lparr>pton4 := \<lambda>_. Some [127, 0, 0, 1]\<rparr>"

lemmas new_simps = hev_socks5_client_tcp_new_ipv4_def client_tcp_new_def hev_socks5_client_tcp_construct_def
  hev_socks5_client_construct_def hev_socks5_construct_def sys_malloc_def client_zero_def
  hev_socks5_addr_from_ipv4_def addr_len_type

lemmas connect_simps = hev_socks5_client_connect_def hev_socks5_name_into_sockaddr6_def no_resolver_def
  hev_socks5_name_resolve_ipv4_def blank_saddr_def open_upstream_def hev_socks5_socket_def sys_opt_def hev_socks5_bind_def
  hev_task_io_socket_connect.simps hev_socks5_task_io_yielder_def hev_task_sleep_def hev_socks5_set_timeout_def
  hev_socks5_set_addr_family_def hev_socks5_get_connect_timeout_def

lemma demo_life:
  fixes ts :: "tx_event list"
  obtains s1 s2 where
    "hev_socks5_client_tcp_new_ipv4 [10, 0, 0, 9] 0x5000 (demo_start\<lparr>tx := ts\<rparr>) = (True, s1)"
    "hev_socks5_client_connect misc_defaults demo_resolver hev_socks5_bind [49] 1080 s1 = (0, s2)"
    "rx s2 = rx demo_client" "tx s2 = ts" "stype s2 = TYPE_TCP" "cclass s2 = CLIENT_TCP"
    "up_addr s2 = Some (take 7 (1 # abody (blank_addr\<lparr>abody := mem_put (mem_put (abody blank_addr) 0 [10, 0, 0, 9]) 4 (le16 0x5000)\<rparr>)))"
    "blocks s2 = 4" "open_fds s2 = {7, 9}" "fd s2 = 9" "auth_user s2 = None"
proof -
  let ?new = "hev_socks5_client_tcp_new_ipv4 [10, 0, 0, 9] 0x5000 (demo_start\<lparr>tx := ts\<rparr>)"
  let ?con = "hev_socks5_client_connect misc_defaults demo_resolver hev_socks5_bind [49] 1080 (snd ?new)"
  have n: "?new = (True, snd ?new)" by (simp add: demo_start_def demo_client_def new_simps)
  have c: "?con = (0, snd ?con)" by (simp add: demo_start_def demo_client_def new_simps connect_simps)
  show ?thesis
    by (rule that [OF n c]) (simp_all add: demo_start_def demo_client_def new_simps connect_simps addr_bytes_def insert_commute)
qed

lemma demo_life_ready:
  assumes "rx s2 = rx demo_client" "tx s2 = replicate 3 (Accept 600)" "stype s2 = TYPE_TCP" "cclass s2 = CLIENT_TCP"
    "up_addr s2 = Some (take 7 (1 # abody (blank_addr\<lparr>abody := mem_put (mem_put (abody blank_addr) 0 [10, 0, 0, 9]) 4 (le16 0x5000)\<rparr>)))"
  obtains s3 where "hev_socks5_client_handshake misc_defaults demo_resolver hev_socks5_bind False s2 = Some (0, s3)"
proof -
  have "ready 3 (auth_reply 2 @ ([5, 0, 0, 1] @ [10, 0, 0, 1, 0, 80]) @ [42]) s2"
    using demo_ready assms(1,2) by (auto simp: ready_def)
  moreover have "can_request s2"
    using assms(3-5) by (simp add: can_request_def request_cmd_def get_upstream_addr_def
      hev_socks5_client_tcp_get_upstream_addr_def request_addrlen_def blank_addr_def)
  moreover have "stype s2 \<noteq> TYPE_UDP_IN_UDP" using assms(3) by simp
  ultimately show ?thesis
    using handshake_ready [OF _ _ demo_response, of 2 "[42]" s2 misc_defaults demo_resolver hev_socks5_bind False] that by blast
qed

lemma client_tcp_lifecycle_witness:
  "\<exists>s1 s2 s3. hev_socks5_client_tcp_new_ipv4 [10, 0, 0, 9] 0x5000 (demo_start\<lparr>tx := replicate 3 (Accept 600)\<rparr>) = (True, s1) \<and>
    hev_socks5_client_connect misc_defaults demo_resolver hev_socks5_bind [49] 1080 s1 = (0, s2) \<and>
    hev_socks5_client_handshake misc_defaults demo_resolver hev_socks5_bind False s2 = Some (0, s3) \<and>
    blocks (hev_socks5_client_tcp_destruct s3) = 2 \<and> open_fds (hev_socks5_client_tcp_destruct s3) = {7}"
proof -
  let ?s = "demo_start\<lparr>tx := replicate 3 (Accept 600)\<rparr>"
  obtain s1 s2 where c: "hev_socks5_client_tcp_new_ipv4 [10, 0, 0, 9] 0x5000 ?s = (True, s1)"
    "hev_socks5_client_connect misc_defaults demo_resolver hev_socks5_bind [49] 1080 s1 = (0, s2)"
    "rx s2 = rx demo_client" "tx s2 = replicate 3 (Accept 600)" "stype s2 = TYPE_TCP" "cclass s2 = CLIENT_TCP"
    "up_addr s2 = Some (take 7 (1 # abody (blank_addr\<lparr>abody := mem_put (mem_put (abody blank_addr) 0 [10, 0, 0, 9]) 4 (le16 0x5000)\<rparr>)))"
    by (rule demo_life)
  obtain s3 where h: "hev_socks5_client_handshake misc_defaults demo_resolver hev_socks5_bind False s2 = Some (0, s3)"
    using c(3-7) by (rule demo_life_ready)
  have f: "fresh_socks ?s" "blocks ?s = 2" "open_fds ?s = {7}" by (simp_all add: fresh_socks_def demo_start_def demo_client_def)
  show ?thesis using client_tcp_lifecycle [OF client_bind_default f(1) c(1,2) h] f c h by auto
qed

text \<open>When the request cannot be written, its address block is neither freed nor kept in the object: the object
  no longer points to it, and destruction leaves one block too many.\<close>

lemma client_request_leak:
  "\<exists>s'. hev_socks5_client_handshake misc_defaults no_resolver hev_socks5_bind False
      (demo_client\<lparr>tx := [Accept 600, Accept 600, TxFail]\<rparr>) = Some (- 1, s') \<and>
    up_addr s' = None \<and> blocks (hev_socks5_client_tcp_destruct s') = blocks demo_client - 1"
  by (simp add: demo_client_def hev_socks5_client_handshake_def hev_socks5_client_handshake_standard_def Let_def
      hev_socks5_client_write_auth_methods_def io_send_def hev_task_io_socket_send.simps hev_socks5_set_timeout_def
      client_auth_standard_def hev_socks5_client_read_auth_method_def io_recv_def hev_task_io_socket_recv.simps
      hev_socks5_client_write_auth_creds_def io_sendmsg_eq hev_socks5_client_read_auth_creds_def
      hev_socks5_client_write_request_def request_cmd_def get_upstream_addr_def hev_socks5_client_tcp_get_upstream_addr_def
      request_addrlen_def hev_socks5_client_tcp_destruct_def hev_socks5_client_destruct_def hev_socks5_destruct_def
      sys_free_def sys_close_def)

end
