(* ===== verification/Socks5Auth.thy ===== *)
theory Socks5Auth
  imports HevRBTreeIndex
begin

text \<open>
  The user database of the SOCKS5 server: \<^verbatim>\<open>core/src/hev-socks5-user.c\<close> and
  \<^verbatim>\<open>core/src/hev-socks5-authenticator.c\<close>. A user is named by the address of its tree node; its object is
  counted by references, as in \<^verbatim>\<open>hev-object-atomic.c\<close>. The tree is used through the index contract, with the
  order on lengths and bytes of the names, and refines a finite map from names to passwords.
\<close>

section \<open>Users\<close>

text \<open>A name or password with its length field is a list of bytes.\<close>

record HevSocks5User =
  us_name :: bytes
  us_pass :: bytes
  us_ref :: nat

text \<open>The two \<^verbatim>\<open>malloc\<close> results are not tested: copying to a NULL block is the result \<open>None\<close>.\<close>

definition hev_socks5_user_construct ::
    "bool \<Rightarrow> bool \<Rightarrow> bytes \<Rightarrow> bytes \<Rightarrow> HevSocks5User \<Rightarrow> (int \<times> HevSocks5User) option" where
  "hev_socks5_user_construct ok1 ok2 name pass self =
     (let self = self\<lparr>us_ref := 1\<rparr>
      in if \<not> ok1 \<and> name \<noteq> [] then None
         else
           let self = self\<lparr>us_name := name\<rparr>
           in if \<not> ok2 \<and> pass \<noteq> [] then None
              else Some (0, self\<lparr>us_pass := pass\<rparr>))"

definition hev_socks5_user_checker :: "HevSocks5User \<Rightarrow> bytes \<Rightarrow> int" where
  "hev_socks5_user_checker self pass =
     (if length (us_pass self) \<noteq> length pass then - 1
      else if memcmp (us_pass self) pass \<noteq> 0 then - 1
      else 0)"

definition hev_socks5_user_check :: "HevSocks5User \<Rightarrow> bytes \<Rightarrow> int" where
  "hev_socks5_user_check self pass = hev_socks5_user_checker self pass"

section \<open>The authenticator\<close>

record HevSocks5Authenticator =
  au_tree :: HevRBTree
  au_users :: "ptr \<Rightarrow> HevSocks5User"
  au_live :: "ptr set"

text \<open>\<^verbatim>\<open>calloc\<close> gives \<open>p\<close>, the address of the node in the new object, or NULL.\<close>

definition hev_socks5_user_new ::
    "ptr \<Rightarrow> bool \<Rightarrow> bool \<Rightarrow> bytes \<Rightarrow> bytes \<Rightarrow> HevSocks5Authenticator \<Rightarrow> (ptr \<times> HevSocks5Authenticator) option" where
  "hev_socks5_user_new p ok1 ok2 name pass s =
     (if p = NULL then Some (NULL, s)
      else
        case hev_socks5_user_construct ok1 ok2 name pass
               \<lparr>us_name = [], us_pass = [], us_ref = 0\<rparr> of
          None \<Rightarrow> None
        | Some (res, u) \<Rightarrow>
            if res < 0 then Some (NULL, s)
            else Some (p, s\<lparr>au_users := (au_users s)(p := u), au_live := insert p (au_live s)\<rparr>))"

definition hev_socks5_user_destruct :: "ptr \<Rightarrow> HevSocks5Authenticator \<Rightarrow> HevSocks5Authenticator" where
  "hev_socks5_user_destruct p s = s\<lparr>au_live := au_live s - {p}\<rparr>"

definition hev_object_unref :: "ptr \<Rightarrow> HevSocks5Authenticator \<Rightarrow> HevSocks5Authenticator" where
  "hev_object_unref p s =
     (let rc = us_ref (au_users s p);
          s = s\<lparr>au_users := (au_users s)(p := (au_users s p)\<lparr>us_ref := rc - 1\<rparr>)\<rparr>
      in if rc > 1 then s else hev_socks5_user_destruct p s)"

text \<open>The comparison all three search loops make.\<close>

definition name_cmp :: "bytes \<Rightarrow> bytes \<Rightarrow> int" where
  "name_cmp a b = (if length a < length b then - 1 else if length a > length b then 1 else memcmp a b)"

definition hev_socks5_authenticator_add ::
    "ptr \<Rightarrow> HevSocks5Authenticator \<Rightarrow> (int \<times> HevSocks5Authenticator) option" where
  "hev_socks5_authenticator_add user self =
     (case rb_descend (\<lambda>n. name_cmp (us_name (au_users self n)) (us_name (au_users self user))) (au_tree self) Root NULL of
        None \<Rightarrow> None
      | Some (Inl _) \<Rightarrow> Some (- 1, self)
      | Some (Inr (parent, new)) \<Rightarrow>
          (case hev_rbtree_insert_color user (hev_rbtree_node_link user parent new (au_tree self)) of
             None \<Rightarrow> None
           | Some t \<Rightarrow> Some (0, self\<lparr>au_tree := t\<rparr>)))"

definition hev_socks5_authenticator_del ::
    "bytes \<Rightarrow> HevSocks5Authenticator \<Rightarrow> (int \<times> HevSocks5Authenticator) option" where
  "hev_socks5_authenticator_del name self =
     (case rb_find (\<lambda>n. name_cmp (us_name (au_users self n)) name) (au_tree self) (rb_root (au_tree self)) of
        None \<Rightarrow> None
      | Some node \<Rightarrow>
          if node = NULL then Some (- 1, self)
          else
            case hev_rbtree_erase node (au_tree self) of
              None \<Rightarrow> None
            | Some t \<Rightarrow> Some (0, hev_object_unref node (self\<lparr>au_tree := t\<rparr>)))"

definition hev_socks5_authenticator_get :: "bytes \<Rightarrow> HevSocks5Authenticator \<Rightarrow> ptr option" where
  "hev_socks5_authenticator_get name self =
     rb_find (\<lambda>n. name_cmp (us_name (au_users self n)) name) (au_tree self) (rb_root (au_tree self))"

partial_function (option) hev_socks5_authenticator_clear ::
    "HevSocks5Authenticator \<Rightarrow> HevSocks5Authenticator option" where
  "hev_socks5_authenticator_clear self =
     (case hev_rbtree_first (au_tree self) of
        None \<Rightarrow> None
      | Some n \<Rightarrow>
          if n = NULL then Some self
          else
            case hev_rbtree_erase n (au_tree self) of
              None \<Rightarrow> None
            | Some t \<Rightarrow> hev_socks5_authenticator_clear (hev_object_unref n (self\<lparr>au_tree := t\<rparr>)))"

definition hev_socks5_authenticator_construct :: "HevSocks5Authenticator \<Rightarrow> int \<times> HevSocks5Authenticator" where
  "hev_socks5_authenticator_construct self = (0, self)"

text \<open>\<^verbatim>\<open>calloc\<close> gives an object with an empty tree, or NULL (\<open>None\<close>); the users are in the heap the caller
  has.\<close>

definition hev_socks5_authenticator_new ::
    "bool \<Rightarrow> (ptr \<Rightarrow> HevSocks5User) \<Rightarrow> ptr set \<Rightarrow> HevSocks5Authenticator option" where
  "hev_socks5_authenticator_new ok users live =
     (if \<not> ok then None
      else
        let self = \<lparr>au_tree = \<lparr>rb_root = NULL,
                rb_mem = (\<lambda>_. \<lparr>rb_parent_color = 0, rb_right = NULL, rb_left = NULL\<rparr>)\<rparr>,
              au_users = users, au_live = live\<rparr>;
            (res, self) = hev_socks5_authenticator_construct self
        in if res < 0 then None else Some self)"

definition hev_socks5_authenticator_destruct :: "HevSocks5Authenticator \<Rightarrow> HevSocks5Authenticator option" where
  "hev_socks5_authenticator_destruct self = hev_socks5_authenticator_clear self"

section \<open>Refinement to a map of passwords\<close>

lemma name_cmp_eq_0: "name_cmp a b = 0 \<longleftrightarrow> a = b"
  by (auto simp: name_cmp_def memcmp_eq_0)

lemma name_cmp_antisym: "name_cmp a b = - name_cmp b a"
  using memcmp_antisym [of a b] by (auto simp: name_cmp_def)

lemma name_cmp_trans: "name_cmp a b < 0 \<Longrightarrow> name_cmp b c < 0 \<Longrightarrow> name_cmp a c < 0"
  using memcmp_trans [of a b c] by (auto simp: name_cmp_def split: if_splits)

interpretation ui: key_index name_cmp "\<lambda>_. True"
  by unfold_locales (simp add: name_cmp_eq_0, rule name_cmp_antisym, rule name_cmp_trans)

definition au_key :: "HevSocks5Authenticator \<Rightarrow> ptr \<Rightarrow> bytes" where
  "au_key s p = us_name (au_users s p)"

definition user_ok :: "HevSocks5User \<Rightarrow> bool" where
  "user_ok u \<longleftrightarrow> 0 < us_ref u"

text \<open>The users registered are the nodes \<open>A\<close> of the tree, all alive, and \<open>m\<close> maps their names to their
  passwords.\<close>

definition auth_nodes :: "HevSocks5Authenticator \<Rightarrow> ptr set \<Rightarrow> bool" where
  "auth_nodes s A \<longleftrightarrow> ui.index (au_tree s) (au_key s) A \<and> A \<subseteq> au_live s \<and> (\<forall>p\<in>A. user_ok (au_users s p))"

definition auth_map :: "HevSocks5Authenticator \<Rightarrow> ptr set \<Rightarrow> bytes \<Rightarrow> bytes option" where
  "auth_map s A name = (if name \<in> au_key s ` A then Some (us_pass (au_users s (inv_into A (au_key s) name))) else None)"

definition auth_at :: "HevSocks5Authenticator \<Rightarrow> (bytes \<rightharpoonup> bytes) \<Rightarrow> bool" where
  "auth_at s m \<longleftrightarrow> (\<exists>A. auth_nodes s A \<and> m = auth_map s A)"

lemma auth_map_node:
  assumes "auth_nodes s A" "p \<in> A"
  shows "auth_map s A (au_key s p) = Some (us_pass (au_users s p))"
proof -
  have "inj_on (au_key s) A" using assms(1) ui.index_inj by (auto simp: auth_nodes_def)
  then show ?thesis using assms(2) by (simp add: auth_map_def inv_into_f_f)
qed

lemma auth_map_none: "name \<notin> au_key s ` A \<Longrightarrow> auth_map s A name = None"
  by (simp add: auth_map_def)

lemma auth_map_eqI:
  assumes "auth_nodes s A" "\<And>p. p \<in> A \<Longrightarrow> m (au_key s p) = Some (us_pass (au_users s p))"
    "\<And>name. name \<notin> au_key s ` A \<Longrightarrow> m name = None"
  shows "m = auth_map s A"
proof
  fix name
  show "m name = auth_map s A name"
  proof (cases "name \<in> au_key s ` A")
    case True
    then obtain p where "p \<in> A" "name = au_key s p" by auto
    then show ?thesis using assms(2) auth_map_node [OF assms(1)] by simp
  qed (simp add: assms(3) auth_map_none)
qed

lemma auth_get_spec:
  assumes "auth_nodes s A"
  shows "\<exists>n. hev_socks5_authenticator_get name s = Some n \<and>
    (if n = NULL then name \<notin> au_key s ` A else n \<in> A \<and> au_key s n = name)"
  using ui.index_find [of "au_tree s" "au_key s" A name] assms
  by (simp add: hev_socks5_authenticator_get_def auth_nodes_def au_key_def)

lemma user_check_iff: "user_ok u \<Longrightarrow> hev_socks5_user_check u pass = 0 \<longleftrightarrow> pass = us_pass u"
  by (auto simp: hev_socks5_user_check_def hev_socks5_user_checker_def user_ok_def memcmp_eq_0)

text \<open>Dropping a reference to a user that is no longer in the tree.\<close>

lemma unref_frame [simp]:
  "au_tree (hev_object_unref p s) = au_tree s" "q \<noteq> p \<Longrightarrow> au_users (hev_object_unref p s) q = au_users s q"
  "us_name (au_users (hev_object_unref p s) q) = us_name (au_users s q)"
  "au_live (hev_object_unref p s) = (if us_ref (au_users s p) > 1 then au_live s else au_live s - {p})"
  by (simp_all add: hev_object_unref_def hev_socks5_user_destruct_def Let_def)

lemma auth_erase:
  assumes "auth_nodes s A" "n \<in> A"
  obtains t where "hev_rbtree_erase n (au_tree s) = Some t"
    "auth_nodes (hev_object_unref n (s\<lparr>au_tree := t\<rparr>)) (A - {n})"
    "auth_map (hev_object_unref n (s\<lparr>au_tree := t\<rparr>)) (A - {n}) = (auth_map s A)(au_key s n := None)"
proof -
  have ix: "ui.index (au_tree s) (au_key s) A" using assms(1) by (simp add: auth_nodes_def)
  then obtain t where t: "hev_rbtree_erase n (au_tree s) = Some t" "ui.index t (au_key s) (A - {n})"
    using ui.index_erase [OF _ assms(2)] by blast
  let ?s = "hev_object_unref n (s\<lparr>au_tree := t\<rparr>)"
  have k: "au_key ?s = au_key s" by (auto simp: au_key_def)
  have nodes: "auth_nodes ?s (A - {n})"
    using assms(1) t(2) k by (auto simp: auth_nodes_def)
  have inj: "inj_on (au_key s) A" using ui.index_inj [OF ix] .
  have "(auth_map s A)(au_key s n := None) = auth_map ?s (A - {n})"
  proof (rule auth_map_eqI [OF nodes])
    fix p assume p: "p \<in> A - {n}"
    then have "au_key s p \<noteq> au_key s n" using inj assms(2) by (auto simp: inj_on_def)
    then show "((auth_map s A)(au_key s n := None)) (au_key ?s p) = Some (us_pass (au_users ?s p))"
      using p auth_map_node [OF assms(1)] k by simp
  next
    fix name assume "name \<notin> au_key ?s ` (A - {n})"
    then show "((auth_map s A)(au_key s n := None)) name = None"
      using k by (cases "name \<in> au_key s ` A") (auto simp: auth_map_none)
  qed
  then show ?thesis using that [OF t(1) nodes] by simp
qed

section \<open>Properties\<close>

lemma auth_add_spec:
  assumes "auth_nodes s A" "p \<in> au_live s" "p \<noteq> NULL" "aligned p" "p \<notin> A" "user_ok (au_users s p)"
  shows "\<exists>r s'. hev_socks5_authenticator_add p s = Some (r, s') \<and>
    (if au_key s p \<in> au_key s ` A then r = - 1 \<and> s' = s
     else r = 0 \<and> auth_nodes s' (insert p A) \<and> auth_map s' (insert p A) = (auth_map s A)(au_key s p \<mapsto> us_pass (au_users s p)))"
proof -
  have ix: "ui.index (au_tree s) (au_key s) A" using assms(1) by (simp add: auth_nodes_def)
  let ?d = "rb_descend (\<lambda>n. name_cmp (us_name (au_users s n)) (us_name (au_users s p))) (au_tree s) Root NULL"
  from ui.index_descend [OF ix, of "au_key s p"]
  consider n where "?d = Some (Inl n)" "n \<in> A" "au_key s n = au_key s p"
    | par l where "?d = Some (Inr (par, l))" "au_key s p \<notin> au_key s ` A"
      "\<forall>node key'. node \<noteq> NULL \<longrightarrow> aligned node \<longrightarrow> node \<notin> A \<longrightarrow> key' node = au_key s p \<longrightarrow>
        (\<forall>x\<in>A. key' x = au_key s x) \<longrightarrow>
        (\<exists>s'. hev_rbtree_insert_color node (hev_rbtree_node_link node par l (au_tree s)) = Some s' \<and>
          ui.index s' key' (insert node A))"
    unfolding au_key_def by blast
  then show ?thesis
  proof cases
    case 1
    then have "au_key s p \<in> au_key s ` A" by (metis imageI)
    with 1(1) show ?thesis by (simp add: hev_socks5_authenticator_add_def)
  next
    case 2
    then obtain t where t: "hev_rbtree_insert_color p (hev_rbtree_node_link p par l (au_tree s)) = Some t"
        "ui.index t (au_key s) (insert p A)"
      using assms(3-5) by blast
    let ?s = "s\<lparr>au_tree := t\<rparr>"
    have k: "au_key ?s = au_key s" by (auto simp: au_key_def)
    have nodes: "auth_nodes ?s (insert p A)"
      using assms t(2) k by (auto simp: auth_nodes_def)
    have "(auth_map s A)(au_key s p \<mapsto> us_pass (au_users s p)) = auth_map ?s (insert p A)"
    proof (rule auth_map_eqI [OF nodes])
      fix q assume q: "q \<in> insert p A"
      have "q \<in> A \<Longrightarrow> au_key s q \<noteq> au_key s p" using 2(2) by (metis imageI)
      with q show "((auth_map s A)(au_key s p \<mapsto> us_pass (au_users s p))) (au_key ?s q) = Some (us_pass (au_users ?s q))"
        using auth_map_node [OF assms(1), of q] k by auto
    next
      fix name assume "name \<notin> au_key ?s ` insert p A"
      then show "((auth_map s A)(au_key s p \<mapsto> us_pass (au_users s p))) name = None"
        using k by (auto simp: auth_map_none)
    qed
    then show ?thesis using 2 t(1) nodes by (auto simp: hev_socks5_authenticator_add_def)
  qed
qed

text \<open>
  C13. The authenticator is a finite map from user names to passwords: \<^verbatim>\<open>add\<close> registers a new user or refuses a
  name that is taken, \<^verbatim>\<open>del\<close> removes a name or reports that there is none, and \<^verbatim>\<open>get\<close> finds exactly the registered
  names, with a user object whose \<^verbatim>\<open>check\<close> accepts exactly the registered password. Every operation returns.
\<close>

theorem authenticator_ok:
  assumes "auth_at s m"
  shows "(\<forall>p. p \<in> au_live s \<and> p \<noteq> NULL \<and> aligned p \<and> user_ok (au_users s p) \<and> (\<forall>A. auth_nodes s A \<longrightarrow> p \<notin> A) \<longrightarrow>
        (\<exists>r s'. hev_socks5_authenticator_add p s = Some (r, s') \<and>
          (if us_name (au_users s p) \<in> dom m then r = - 1 \<and> s' = s
           else r = 0 \<and> auth_at s' (m(us_name (au_users s p) \<mapsto> us_pass (au_users s p)))))) \<and>
    (\<forall>name. \<exists>r s'. hev_socks5_authenticator_del name s = Some (r, s') \<and>
        (if name \<in> dom m then r = 0 \<and> auth_at s' (m(name := None)) else r = - 1 \<and> s' = s)) \<and>
    (\<forall>name. \<exists>n. hev_socks5_authenticator_get name s = Some n \<and>
        (if n = NULL then m name = None
         else \<exists>pass. m name = Some pass \<and> (\<forall>w. hev_socks5_user_check (au_users s n) w = 0 \<longleftrightarrow> w = pass)))"
proof -
  from assms obtain A where A: "auth_nodes s A" "m = auth_map s A" by (auto simp: auth_at_def)
  have dom: "name \<in> dom m \<longleftrightarrow> name \<in> au_key s ` A" for name
    using A(2) by (auto simp: auth_map_def split: if_splits)
  have get: "\<exists>n. hev_socks5_authenticator_get name s = Some n \<and>
        (if n = NULL then name \<notin> au_key s ` A else n \<in> A \<and> au_key s n = name)" for name
    by (rule auth_get_spec [OF A(1)])
  have del: "\<exists>r s'. hev_socks5_authenticator_del name s = Some (r, s') \<and>
        (if name \<in> dom m then r = 0 \<and> auth_at s' (m(name := None)) else r = - 1 \<and> s' = s)" for name
  proof -
    obtain n where n: "hev_socks5_authenticator_get name s = Some n"
        "if n = NULL then name \<notin> au_key s ` A else n \<in> A \<and> au_key s n = name" using get by blast
    show ?thesis
    proof (cases "n = NULL")
      case True
      with n dom show ?thesis
        by (auto simp: hev_socks5_authenticator_del_def hev_socks5_authenticator_get_def)
    next
      case False
      with n have n': "n \<in> A" "au_key s n = name" by auto
      from auth_erase [OF A(1) n'(1)] obtain t where "hev_rbtree_erase n (au_tree s) = Some t"
        "auth_nodes (hev_object_unref n (s\<lparr>au_tree := t\<rparr>)) (A - {n})"
        "auth_map (hev_object_unref n (s\<lparr>au_tree := t\<rparr>)) (A - {n}) = m(name := None)"
        using A(2) n'(2) by auto
      with False n n' dom show ?thesis
        by (auto simp: hev_socks5_authenticator_del_def hev_socks5_authenticator_get_def auth_at_def intro: exI [of _ "A - {n}"])
    qed
  qed
  have chk: "\<exists>n. hev_socks5_authenticator_get name s = Some n \<and>
        (if n = NULL then m name = None
         else \<exists>pass. m name = Some pass \<and> (\<forall>w. hev_socks5_user_check (au_users s n) w = 0 \<longleftrightarrow> w = pass))" for name
  proof -
    obtain n where n: "hev_socks5_authenticator_get name s = Some n"
        "if n = NULL then name \<notin> au_key s ` A else n \<in> A \<and> au_key s n = name" using get by blast
    moreover have "n \<in> A \<Longrightarrow> user_ok (au_users s n)" using A(1) by (simp add: auth_nodes_def)
    ultimately show ?thesis
      using A auth_map_node [OF A(1), of n] by (auto simp: auth_map_none user_check_iff split: if_splits)
  qed
  have add: "\<exists>r s'. hev_socks5_authenticator_add p s = Some (r, s') \<and>
          (if us_name (au_users s p) \<in> dom m then r = - 1 \<and> s' = s
           else r = 0 \<and> auth_at s' (m(us_name (au_users s p) \<mapsto> us_pass (au_users s p))))"
    if "p \<in> au_live s" "p \<noteq> NULL" "aligned p" "user_ok (au_users s p)" "p \<notin> A" for p
    using auth_add_spec [OF A(1) that(1-3,5,4)] A(2) dom [of "us_name (au_users s p)"]
    unfolding auth_at_def au_key_def [of s p] by (auto split: if_splits) metis
  show ?thesis using add del chk A(1) by blast
qed

definition demo_auth :: HevSocks5Authenticator where
  "demo_auth = \<lparr>au_tree = \<lparr>rb_root = NULL, rb_mem = (\<lambda>_. \<lparr>rb_parent_color = 0, rb_right = NULL, rb_left = NULL\<rparr>)\<rparr>,
     au_users = (\<lambda>_. \<lparr>us_name = [117], us_pass = [112, 119], us_ref = 1\<rparr>), au_live = {16}\<rparr>"

lemma demo_auth_nodes: "auth_nodes demo_auth {}"
  by (simp add: auth_nodes_def demo_auth_def ui.index_empty)

lemma auth_map_empty: "auth_map s {} = Map.empty"
  by (auto simp: auth_map_def)

lemma demo_auth_at: "auth_at demo_auth Map.empty"
  using demo_auth_nodes by (auto simp: auth_at_def auth_map_empty)

text \<open>A map with a user in it is reached by adding one.\<close>

lemma demo_auth_user:
  obtains s A where "hev_socks5_authenticator_add 16 demo_auth = Some (0, s)" "auth_nodes s A" "auth_map s A = [[117] \<mapsto> [112, 119]]"
    "\<And>n. us_ref (au_users s n) = 1"
proof -
  have r: "us_ref (au_users s' n) = 1" if "hev_socks5_authenticator_add 16 demo_auth = Some (0, s')" for s' n
    using that by (auto simp: hev_socks5_authenticator_add_def demo_auth_def split: option.splits sum.splits)
  have "aligned (16 :: ptr)" by (simp add: aligned_def)
  then show ?thesis
    using auth_add_spec [OF demo_auth_nodes, of 16] that r
    by (auto simp: demo_auth_def user_ok_def au_key_def auth_map_empty)
qed

theorem authenticator_ok_witness:
  "\<exists>s n. hev_socks5_authenticator_add 16 demo_auth = Some (0, s) \<and>
    hev_socks5_authenticator_get [117] s = Some n \<and> n \<noteq> NULL \<and> hev_socks5_user_check (au_users s n) [112, 119] = 0 \<and>
    hev_socks5_user_check (au_users s n) [112] \<noteq> 0"
proof -
  obtain s A where s: "hev_socks5_authenticator_add 16 demo_auth = Some (0, s)" "auth_nodes s A"
      "auth_map s A = [[117] \<mapsto> [112, 119]]"
    by (rule demo_auth_user)
  then have "auth_at s [[117] \<mapsto> [112, 119]]" by (auto simp: auth_at_def)
  note ok = authenticator_ok [OF this, THEN conjunct2, THEN conjunct2, THEN spec [of _ "[117]"]]
  then show ?thesis using s(1) by (auto split: if_splits)
qed

lemma minus_split: "n \<in> S \<longleftrightarrow> \<not> b \<Longrightarrow> (if b then L else L - {n}) - (S - {n}) = L - S"
  by (cases b) auto

lemma auth_clear_spec:
  assumes "auth_nodes s A"
  shows "\<exists>s'. hev_socks5_authenticator_clear s = Some s' \<and> auth_nodes s' {} \<and>
    au_live s' = au_live s - {p\<in>A. us_ref (au_users s p) \<le> 1}"
proof -
  have "finite A" using assms ui.index_finite by (auto simp: auth_nodes_def)
  then show ?thesis using assms
  proof (induction A arbitrary: s rule: finite_psubset_induct)
    case (psubset A)
    have ix: "ui.index (au_tree s) (au_key s) A" using psubset.prems by (simp add: auth_nodes_def)
    obtain n where n: "hev_rbtree_first (au_tree s) = Some n" "if n = NULL then A = {} else n \<in> A"
      using ui.index_first [OF ix] by blast
    show ?case
    proof (cases "n = NULL")
      case True
      with n psubset.prems show ?thesis by (subst hev_socks5_authenticator_clear.simps) auto
    next
      case False
      with n have nA: "n \<in> A" by simp
      obtain t where t: "hev_rbtree_erase n (au_tree s) = Some t"
        "auth_nodes (hev_object_unref n (s\<lparr>au_tree := t\<rparr>)) (A - {n})"
        using auth_erase [OF psubset.prems nA] by blast
      have "A - {n} \<subset> A" using nA by auto
      from psubset.IH [OF this t(2)] obtain s' where
        s': "hev_socks5_authenticator_clear (hev_object_unref n (s\<lparr>au_tree := t\<rparr>)) = Some s'" "auth_nodes s' {}"
          "au_live s' = au_live (hev_object_unref n (s\<lparr>au_tree := t\<rparr>)) -
            {p\<in>A - {n}. us_ref (au_users (hev_object_unref n (s\<lparr>au_tree := t\<rparr>)) p) \<le> 1}" by blast
      have "hev_socks5_authenticator_clear s = Some s'"
        using False n(1) t(1) s'(1) by (subst hev_socks5_authenticator_clear.simps) simp
      moreover have "au_live s' = au_live s - {p\<in>A. us_ref (au_users s p) \<le> 1}"
      proof -
        have "{p\<in>A - {n}. us_ref (au_users (hev_object_unref n (s\<lparr>au_tree := t\<rparr>)) p) \<le> 1} =
            {p\<in>A. us_ref (au_users s p) \<le> 1} - {n}" by auto
        then have l: "au_live s' = (if us_ref (au_users s n) > 1 then au_live s else au_live s - {n}) -
            ({p\<in>A. us_ref (au_users s p) \<le> 1} - {n})"
          unfolding s'(3) by simp
        have "n \<in> {p\<in>A. us_ref (au_users s p) \<le> 1} \<longleftrightarrow> \<not> us_ref (au_users s n) > 1" using nA by auto
        then show ?thesis unfolding l by (rule minus_split)
      qed
      ultimately show ?thesis using s'(2) by blast
    qed
  qed
qed

text \<open>
  Destroying the authenticator returns for every database, leaves it empty, and frees exactly the users nobody
  else holds a reference to.
\<close>

theorem authenticator_destruct_ok:
  assumes "auth_nodes s A"
  shows "\<exists>s'. hev_socks5_authenticator_destruct s = Some s' \<and> auth_at s' Map.empty \<and>
    au_live s' = au_live s - {p\<in>A. us_ref (au_users s p) \<le> 1}"
proof -
  have "auth_at s' Map.empty" if "auth_nodes s' {}" for s'
    using that auth_map_empty [of s'] unfolding auth_at_def by metis
  then show ?thesis
    using auth_clear_spec [OF assms] by (auto simp: hev_socks5_authenticator_destruct_def)
qed

theorem authenticator_destruct_ok_witness:
  "\<exists>s s'. hev_socks5_authenticator_add 16 demo_auth = Some (0, s) \<and> hev_socks5_authenticator_destruct s = Some s' \<and>
    auth_at s' Map.empty"
proof -
  obtain s A where "hev_socks5_authenticator_add 16 demo_auth = Some (0, s)" "auth_nodes s A" by (rule demo_auth_user)
  with authenticator_destruct_ok show ?thesis by blast
qed

end
