(* ===== verification/Socks5Server.thy ===== *)
theory Socks5Server
  imports TaskIO Socks5Auth
begin

text \<open>
  The SOCKS5 server of \<^verbatim>\<open>core/src/hev-socks5-server.c\<close>: method negotiation, user/password authentication
  against the authenticator, requests, and the sockets of the three commands. The object the server holds (the
  union \<^verbatim>\<open>obj\<close>/\<^verbatim>\<open>auth\<close>/\<^verbatim>\<open>user\<close>) is a tag; the authenticator it points to is in the state, with its reference
  count. A value \<open>None\<close> is a dereference of a missing object. \<^verbatim>\<open>getsockname\<close> answers from a script; the
  relay loops and the bind hook are arguments.
\<close>

section \<open>The object\<close>

datatype server_obj = OBJ_NULL | OBJ_AUTH | OBJ_USER ptr

record HevSocks5Server = HevSocks5 +
  fds0 :: int
  fds1 :: int
  sobj :: server_obj
  authdb :: HevSocks5Authenticator
  auth_ref :: nat
  sock_names :: "sockaddr_in6 option list"

type_synonym 'a server_bind_fun = "int \<Rightarrow> sockaddr_in6 \<Rightarrow> 'a HevSocks5Server_scheme \<Rightarrow> int \<times> 'a HevSocks5Server_scheme"

definition hev_socks5_server_construct ::
    "int \<Rightarrow> 'a HevSocks5Server_scheme \<Rightarrow> int \<times> 'a HevSocks5Server_scheme" where
  "hev_socks5_server_construct d self =
     (let (res, self) = hev_socks5_construct TYPE_NONE self
      in if res < 0 then (res, self) else (0, self\<lparr>fd := d, fds0 := - 1, fds1 := - 1\<rparr>))"

definition hev_socks5_server_new ::
    "int \<Rightarrow> 'a HevSocks5Server_scheme \<Rightarrow> bool \<times> 'a HevSocks5Server_scheme" where
  "hev_socks5_server_new d s =
     (case sys_malloc s of (ok, s) \<Rightarrow>
        if \<not> ok then (False, s)
        else
          let s = s\<lparr>udp_associated := False, sobj := OBJ_NULL\<rparr>;
              (res, s) = hev_socks5_server_construct d s
          in if res < 0 then (False, sys_free s) else (True, s))"

text \<open>Dropping the server's reference to its authenticator.\<close>

definition auth_unref :: "'a HevSocks5Server_scheme \<Rightarrow> 'a HevSocks5Server_scheme option" where
  "auth_unref self =
     (if auth_ref self > 1 then Some (self\<lparr>auth_ref := auth_ref self - 1\<rparr>)
      else map_option (\<lambda>db. self\<lparr>authdb := db, auth_ref := 0\<rparr>) (hev_socks5_authenticator_destruct (authdb self)))"

definition obj_unref :: "'a HevSocks5Server_scheme \<Rightarrow> 'a HevSocks5Server_scheme option" where
  "obj_unref self =
     (case sobj self of
        OBJ_NULL \<Rightarrow> Some self
      | OBJ_AUTH \<Rightarrow> auth_unref self
      | OBJ_USER p \<Rightarrow> Some (self\<lparr>authdb := hev_object_unref p (authdb self)\<rparr>))"

text \<open>The authenticator given, \<open>db\<close> with \<open>refs\<close> references, is another one than the object held before.\<close>

definition hev_socks5_server_set_auth ::
    "HevSocks5Authenticator \<Rightarrow> nat \<Rightarrow> 'a HevSocks5Server_scheme \<Rightarrow> 'a HevSocks5Server_scheme option" where
  "hev_socks5_server_set_auth db refs self =
     map_option (\<lambda>self. self\<lparr>sobj := OBJ_AUTH, authdb := db, auth_ref := refs + 1\<rparr>) (obj_unref self)"

definition hev_socks5_server_destruct :: "'a HevSocks5Server_scheme \<Rightarrow> 'a HevSocks5Server_scheme option" where
  "hev_socks5_server_destruct self =
     (let self = (if fds0 self \<ge> 0 then sys_close (fds0 self) self else self);
          self = (if fds1 self \<ge> 0 then sys_close (fds1 self) self else self)
      in map_option hev_socks5_destruct (obj_unref self))"

section \<open>Authentication\<close>

text \<open>The method the server wants is the result when it is among those offered, otherwise -1.\<close>

definition hev_socks5_server_read_auth_method ::
    "'a HevSocks5Server_scheme \<Rightarrow> int \<times> 'a HevSocks5Server_scheme" where
  "hev_socks5_server_read_auth_method self =
     (case io_recv 2 self of (res, auth, self) \<Rightarrow>
        if res \<noteq> 2 then (- 1, self)
        else if auth ! 0 \<noteq> HEV_SOCKS5_VERSION_5 then (- 1, self)
        else
          case io_recv (unat (auth ! 1)) self of (res, methods, self) \<Rightarrow>
            if res \<noteq> uint (auth ! 1) then (- 1, self)
            else
              let mth = (if sobj self \<noteq> OBJ_NULL then HEV_SOCKS5_AUTH_METHOD_USER else HEV_SOCKS5_AUTH_METHOD_NONE)
              in (if mth \<in> set methods then uint mth else - 1, self))"

definition hev_socks5_server_write_auth_method ::
    "int \<Rightarrow> 'a HevSocks5Server_scheme \<Rightarrow> int \<times> 'a HevSocks5Server_scheme" where
  "hev_socks5_server_write_auth_method auth_method self =
     (let (res, self) = io_send [HEV_SOCKS5_VERSION_5, word_of_int auth_method] self
      in if res \<le> 0 then (- 1, self) else (0, self))"

text \<open>The end of \<^verbatim>\<open>hev_socks5_server_read_auth_user\<close>: the look-up, the check and the change of the object held.\<close>

definition server_check_user ::
    "bytes \<Rightarrow> bytes \<Rightarrow> 'a HevSocks5Server_scheme \<Rightarrow> (int \<times> 'a HevSocks5Server_scheme) option" where
  "server_check_user name pass self =
     (if sobj self \<noteq> OBJ_AUTH then None
      else
        case hev_socks5_authenticator_get name (authdb self) of
          None \<Rightarrow> None
        | Some user \<Rightarrow>
            if user = NULL then Some (- 1, self)
            else if hev_socks5_user_check (au_users (authdb self) user) pass < 0 then Some (- 1, self)
            else
              let db = authdb self;
                  u = au_users db user;
                  db = db\<lparr>au_users := (au_users db)(user := u\<lparr>us_ref := us_ref u + 1\<rparr>)\<rparr>
              in map_option (\<lambda>self. (0, self\<lparr>sobj := OBJ_USER user\<rparr>)) (auth_unref (self\<lparr>authdb := db\<rparr>)))"

definition hev_socks5_server_read_auth_user ::
    "'a HevSocks5Server_scheme \<Rightarrow> (int \<times> 'a HevSocks5Server_scheme) option" where
  "hev_socks5_server_read_auth_user self =
     (case io_recv 2 self of (res, hd2, self) \<Rightarrow>
        if res \<noteq> 2 then Some (- 1, self)
        else if hd2 ! 0 \<noteq> 1 then Some (- 1, self)
        else
          let nlen = unat (hd2 ! 1)
          in if nlen = 0 then Some (- 1, self)
             else
               case io_recv (nlen + 1) self of (res, name, self) \<Rightarrow>
                 if res \<noteq> int (nlen + 1) then Some (- 1, self)
                 else
                   let plen = unat (name ! nlen)
                   in if plen = 0 then Some (- 1, self)
                      else
                        case io_recv plen self of (res, pass, self) \<Rightarrow>
                          if res \<noteq> int plen then Some (- 1, self)
                          else server_check_user (take nlen name) (take plen pass) self)"

definition hev_socks5_server_write_auth_user ::
    "int \<Rightarrow> 'a HevSocks5Server_scheme \<Rightarrow> int \<times> 'a HevSocks5Server_scheme" where
  "hev_socks5_server_write_auth_user auth_res self =
     (let (res, self) = io_send [1, word_of_int auth_res] self
      in if res \<le> 0 then (- 1, self) else (0, self))"

definition hev_socks5_server_auth ::
    "'a HevSocks5Server_scheme \<Rightarrow> (int \<times> 'a HevSocks5Server_scheme) option" where
  "hev_socks5_server_auth self =
     (case hev_socks5_server_read_auth_method self of (mth, self) \<Rightarrow>
        case hev_socks5_server_write_auth_method mth self of (res, self) \<Rightarrow>
          if res < 0 then Some (- 1, self)
          else if mth = uint HEV_SOCKS5_AUTH_METHOD_NONE then Some (0, self)
          else if mth = uint HEV_SOCKS5_AUTH_METHOD_USER then
            (case hev_socks5_server_read_auth_user self of
               None \<Rightarrow> None
             | Some (res, self) \<Rightarrow>
                 (case hev_socks5_server_write_auth_user res self of (w, self) \<Rightarrow>
                    if res OR w < 0 then Some (- 1, self) else Some (0, self)))
          else Some (- 1, self))"

section \<open>Requests\<close>

definition server_addrlen :: "byte \<Rightarrow> byte \<Rightarrow> nat option" where
  "server_addrlen ty b =
     (if ty = HEV_SOCKS5_ADDR_TYPE_IPV4 then Some 5
      else if ty = HEV_SOCKS5_ADDR_TYPE_IPV6 then Some 17
      else if ty = HEV_SOCKS5_ADDR_TYPE_NAME then Some (2 + unat b)
      else None)"

text \<open>The out parameters \<^verbatim>\<open>*cmd\<close>, \<^verbatim>\<open>*rep\<close> and \<^verbatim>\<open>*addr\<close> are a record passed through.\<close>

record request =
  rq_cmd :: byte
  rq_rep :: byte
  rq_addr :: sockaddr_in6

definition hev_socks5_server_read_request ::
    "resolver \<Rightarrow> request \<Rightarrow> 'a HevSocks5Server_scheme \<Rightarrow> int \<times> request \<times> 'a HevSocks5Server_scheme" where
  "hev_socks5_server_read_request rs rq self =
     (case io_recv 5 self of (res, req, self) \<Rightarrow>
        if res \<noteq> 5 then (- 1, rq, self)
        else if req ! 0 \<noteq> HEV_SOCKS5_VERSION_5 then (0, rq\<lparr>rq_rep := HEV_SOCKS5_RES_REP_FAIL\<rparr>, self)
        else
          case server_addrlen (req ! 3) (req ! 4) of
            None \<Rightarrow> (0, rq\<lparr>rq_rep := HEV_SOCKS5_RES_REP_ADDR\<rparr>, self)
          | Some addrlen \<Rightarrow>
              (case io_recv addrlen self of (res, buf, self) \<Rightarrow>
                 if res \<noteq> int addrlen then (0, rq\<lparr>rq_rep := HEV_SOCKS5_RES_REP_ADDR\<rparr>, self)
                 else
                   let addr = \<lparr>atype = req ! 3, abody = mem_put (replicate 259 0) 0 (req ! 4 # buf)\<rparr>
                   in case hev_socks5_addr_into_sockaddr6 rs addr (rq_addr rq) (hev_socks5_get_addr_family self) of
                        (res, saddr, family) \<Rightarrow>
                          if res < 0 then (0, rq\<lparr>rq_rep := HEV_SOCKS5_RES_REP_ADDR, rq_addr := saddr\<rparr>, self)
                          else (0, rq\<lparr>rq_cmd := req ! 1, rq_addr := saddr\<rparr>, hev_socks5_set_addr_family family self)))"

definition hev_socks5_server_write_response ::
    "byte \<Rightarrow> sockaddr_in6 \<Rightarrow> 'a HevSocks5Server_scheme \<Rightarrow> int \<times> 'a HevSocks5Server_scheme" where
  "hev_socks5_server_write_response rep addr self =
     (case hev_socks5_addr_from_sockaddr6 \<lparr>atype = 0, abody = replicate 259 0\<rparr> addr of (ret, raddr) \<Rightarrow>
        let (ret, self) = io_send ([HEV_SOCKS5_VERSION_5, rep, 0] @ take (nat ret) (addr_bytes raddr)) self
        in if ret \<le> 0 then (- 1, self) else (0, self))"

section \<open>Sockets\<close>

definition hev_socks5_server_connect ::
    "HevSocks5Misc \<Rightarrow> 'a server_bind_fun \<Rightarrow> sockaddr_in6 \<Rightarrow> 'a HevSocks5Server_scheme \<Rightarrow>
      int \<times> 'a HevSocks5Server_scheme" where
  "hev_socks5_server_connect m bnd addr self =
     (let (d, self) = hev_socks5_socket self
      in if d < 0 then (- 1, self)
         else
           let (res, self) = bnd d addr self
           in if res < 0 then (- 1, sys_close d self)
              else
                let self = hev_socks5_set_timeout (hev_socks5_get_connect_timeout m) self;
                    (res, self) = hev_task_io_socket_connect d addr self
                in if res < 0 then (- 1, sys_close d self)
                   else (0, (hev_socks5_set_timeout (hev_socks5_get_tcp_timeout m) self)\<lparr>fds0 := d\<rparr>))"

definition sys_getsockname :: "'a HevSocks5Server_scheme \<Rightarrow> sockaddr_in6 option \<times> 'a HevSocks5Server_scheme" where
  "sys_getsockname s = (case sock_names s of [] \<Rightarrow> (None, s) | a # as \<Rightarrow> (a, s\<lparr>sock_names := as\<rparr>))"

text \<open>The new socket is bound to the address of the control connection with port 0; \<open>src\<close> is in and out.\<close>

definition hev_socks5_server_udp_bind ::
    "sockaddr_in6 \<Rightarrow> 'a HevSocks5Server_scheme \<Rightarrow> int \<times> sockaddr_in6 \<times> 'a HevSocks5Server_scheme" where
  "hev_socks5_server_udp_bind src self =
     (case sys_getsockname self of
        (None, self) \<Rightarrow> (- 1, src, self)
      | (Some a, self) \<Rightarrow>
          let src = a\<lparr>sin6_port := [0, 0]\<rparr>;
              (res, self) = sys_opt self
          in if res < 0 then (- 1, src, self)
             else
               case sys_getsockname self of
                 (None, self) \<Rightarrow> (- 1, src, self)
               | (Some a, self) \<Rightarrow> (0, a, self))"

text \<open>\<open>None\<close> for \<open>addr\<close> is the NULL of the UDP-in-TCP command.\<close>

definition hev_socks5_server_bind ::
    "sockaddr_in6 option \<Rightarrow> 'a HevSocks5Server_scheme \<Rightarrow> int \<times> sockaddr_in6 option \<times> 'a HevSocks5Server_scheme" where
  "hev_socks5_server_bind addr self =
     (let (d, self) = hev_socks5_socket self
      in if d < 0 then (- 1, addr, self)
         else
           let self = self\<lparr>fds0 := d\<rparr>
           in case addr of
                None \<Rightarrow> (0, addr, self)
              | Some src \<Rightarrow>
                  let (d, self) = hev_socks5_socket self
                  in if d < 0 then (- 1, addr, self)
                     else
                       let (res, self) = sys_opt self
                       in if res < 0 then (- 1, addr, sys_close d self)
                          else
                            case hev_socks5_server_udp_bind src self of (res, src, self) \<Rightarrow>
                              if res < 0 then (- 1, Some src, sys_close d self)
                              else (0, Some src, self\<lparr>fds1 := d\<rparr>))"

section \<open>The handshake and the service\<close>

text \<open>The \<^verbatim>\<open>switch\<close> on the command: the reply code, the address and the state.\<close>

definition server_command ::
    "HevSocks5Misc \<Rightarrow> 'a server_bind_fun \<Rightarrow> request \<Rightarrow> 'a HevSocks5Server_scheme \<Rightarrow>
      request \<times> 'a HevSocks5Server_scheme" where
  "server_command m bnd rq self =
     (if rq_cmd rq = HEV_SOCKS5_REQ_CMD_CONNECT then
        (let (res, self) = hev_socks5_server_connect m bnd (rq_addr rq) self
         in (if res < 0 then rq\<lparr>rq_rep := HEV_SOCKS5_RES_REP_HOST\<rparr> else rq, self\<lparr>stype := TYPE_TCP\<rparr>))
      else if rq_cmd rq = HEV_SOCKS5_REQ_CMD_UDP_ASC then
        (case hev_socks5_server_bind (Some (rq_addr rq)) self of (res, addr, self) \<Rightarrow>
           let rq = rq\<lparr>rq_addr := the addr\<rparr>
           in (if res < 0 then rq\<lparr>rq_rep := HEV_SOCKS5_RES_REP_FAIL\<rparr> else rq, self\<lparr>stype := TYPE_UDP_IN_UDP\<rparr>))
      else if rq_cmd rq = HEV_SOCKS5_REQ_CMD_FWD_UDP then
        (case hev_socks5_server_bind None self of (res, _, self) \<Rightarrow>
           (if res < 0 then rq\<lparr>rq_rep := HEV_SOCKS5_RES_REP_FAIL\<rparr> else rq, self\<lparr>stype := TYPE_UDP_IN_TCP\<rparr>))
      else (rq\<lparr>rq_rep := HEV_SOCKS5_RES_REP_IMPL\<rparr>, self))"

text \<open>\<open>junk\<close> is what the stack holds where \<^verbatim>\<open>addr\<close> and \<^verbatim>\<open>cmd\<close> are declared.\<close>

definition hev_socks5_server_handshake ::
    "HevSocks5Misc \<Rightarrow> resolver \<Rightarrow> 'a server_bind_fun \<Rightarrow> request \<Rightarrow> 'a HevSocks5Server_scheme \<Rightarrow>
      (int \<times> 'a HevSocks5Server_scheme) option" where
  "hev_socks5_server_handshake m rs bnd junk self =
     (case hev_socks5_server_auth (hev_socks5_set_timeout (hev_socks5_get_tcp_timeout m) self) of
        None \<Rightarrow> None
      | Some (res, self) \<Rightarrow>
          if res < 0 then Some (- 1, self)
          else
            case hev_socks5_server_read_request rs (junk\<lparr>rq_rep := HEV_SOCKS5_RES_REP_SUCC\<rparr>) self of (res, rq, self) \<Rightarrow>
              if res < 0 then Some (- 1, self)
              else
                let (rq, self) = (if rq_rep rq = HEV_SOCKS5_RES_REP_SUCC then server_command m bnd rq self else (rq, self));
                    (res, self) = hev_socks5_server_write_response (rq_rep rq) (rq_addr rq) self
                in if res < 0 \<or> rq_rep rq \<noteq> HEV_SOCKS5_RES_REP_SUCC then Some (- 1, self) else Some (0, self))"

definition hev_socks5_server_service ::
    "HevSocks5Misc \<Rightarrow> (int \<Rightarrow> 'a HevSocks5Server_scheme \<Rightarrow> 'a HevSocks5Server_scheme) \<Rightarrow>
      (int \<Rightarrow> 'a HevSocks5Server_scheme \<Rightarrow> 'a HevSocks5Server_scheme) \<Rightarrow>
      'a HevSocks5Server_scheme \<Rightarrow> int \<times> 'a HevSocks5Server_scheme" where
  "hev_socks5_server_service m tcp_splice udp_splice self =
     (case stype self of
        TYPE_TCP \<Rightarrow> (0, tcp_splice (fds0 self) self)
      | TYPE_UDP_IN_UDP \<Rightarrow> (0, udp_splice (fds0 self) (hev_socks5_set_timeout (hev_socks5_get_udp_timeout m) self))
      | TYPE_UDP_IN_TCP \<Rightarrow> (0, udp_splice (fds0 self) (hev_socks5_set_timeout (hev_socks5_get_udp_timeout m) self))
      | TYPE_NONE \<Rightarrow> (- 1, self))"

definition hev_socks5_server_run ::
    "HevSocks5Misc \<Rightarrow> resolver \<Rightarrow> 'a server_bind_fun \<Rightarrow> request \<Rightarrow>
      (int \<Rightarrow> 'a HevSocks5Server_scheme \<Rightarrow> 'a HevSocks5Server_scheme) \<Rightarrow>
      (int \<Rightarrow> 'a HevSocks5Server_scheme \<Rightarrow> 'a HevSocks5Server_scheme) \<Rightarrow>
      'a HevSocks5Server_scheme \<Rightarrow> (int \<times> 'a HevSocks5Server_scheme) option" where
  "hev_socks5_server_run m rs bnd junk tcp_splice udp_splice self =
     (case hev_socks5_server_handshake m rs bnd junk self of
        None \<Rightarrow> None
      | Some (res, self) \<Rightarrow>
          if res < 0 then Some (- 1, self)
          else
            let (res, self) = hev_socks5_server_service m tcp_splice udp_splice self
            in if res < 0 then Some (- 1, self) else Some (0, self))"

definition hev_socks5_server_get_fd :: "'a HevSocks5Server_scheme \<Rightarrow> int" where
  "hev_socks5_server_get_fd self =
     (case stype self of
        TYPE_UDP_IN_TCP \<Rightarrow> fd self
      | TYPE_UDP_IN_UDP \<Rightarrow> fds1 self
      | _ \<Rightarrow> - 1)"

section \<open>What the steps of the handshake do\<close>

lemma rx_only_refl [simp]: "rx_only s s"
  by (simp add: rx_only_def)

lemma rx_only_trans: "rx_only s t \<Longrightarrow> rx_only t u \<Longrightarrow> rx_only s u"
  by (simp add: rx_only_def)

lemma server_more:
  assumes "HevSocks5.more s' = HevSocks5.more s"
  shows "fds0 s' = fds0 s" "fds1 s' = fds1 s" "sobj s' = sobj s" "authdb s' = authdb s" "auth_ref s' = auth_ref s"
    "sock_names s' = sock_names s"
  using assms by (cases s; cases s'; simp)+

lemmas rx_only_server = server_more [OF rx_only_fields(15)]
lemmas tx_only_server = server_more [OF tx_only_fields(15)]

definition wanted_method :: "'a HevSocks5Server_scheme \<Rightarrow> byte" where
  "wanted_method s = (if sobj s \<noteq> OBJ_NULL then 2 else 0)"

definition methods_offer :: "bytes \<Rightarrow> bytes" where
  "methods_offer methods = [5, of_nat (length methods)] @ methods"

definition creds :: "bytes \<Rightarrow> bytes \<Rightarrow> bytes" where
  "creds name pass = [1, of_nat (length name)] @ name @ [of_nat (length pass)] @ pass"

lemma io_recv_okI:
  assumes "io_recv n s = (r, buf, s')" "r = int n"
  shows "stream (rx s) = buf @ stream (rx s')" "length buf = n"
  using io_recv_ok [of n s buf s'] assms by simp_all

lemma server_read_method_spec:
  assumes "hev_socks5_server_read_auth_method s = (r, s')"
  shows "rx_only s s'"
    and "r = - 1 \<or> r = uint (wanted_method s) \<and> (\<exists>methods. length methods < 256 \<and> wanted_method s \<in> set methods \<and>
      stream (rx s) = methods_offer methods @ stream (rx s'))"
proof -
  obtain q auth s1 where a: "io_recv 2 s = (q, auth, s1)" by (metis prod_cases3)
  obtain p ms s2 where b: "io_recv (unat (auth ! 1)) s1 = (p, ms, s2)" by (metis prod_cases3)
  have ro: "rx_only s s1" "rx_only s1 s2" using io_recv_spec [OF a] io_recv_spec [OF b] by simp_all
  then have ro2: "rx_only s s2" by (blast intro: rx_only_trans)
  have so: "sobj s2 = sobj s" using rx_only_server(3) [OF ro2] .
  show "rx_only s s'"
    using assms a b ro(1) ro2 by (auto simp: hev_socks5_server_read_auth_method_def Let_def split: if_splits)
  show "r = - 1 \<or> r = uint (wanted_method s) \<and> (\<exists>methods. length methods < 256 \<and> wanted_method s \<in> set methods \<and>
      stream (rx s) = methods_offer methods @ stream (rx s'))"
  proof (cases "r = - 1")
    case False
    then have c: "q = 2" "auth ! 0 = 5" "p = uint (auth ! 1)" "wanted_method s \<in> set ms" "r = uint (wanted_method s)" "s' = s2"
      using assms a b so
      by (auto simp: hev_socks5_server_read_auth_method_def wanted_method_def Let_def split: if_splits)
    have l: "stream (rx s) = auth @ stream (rx s1)" "length auth = 2"
      using io_recv_okI [OF a] c(1) by simp_all
    have l2: "stream (rx s1) = ms @ stream (rx s2)" "length ms = unat (auth ! 1)"
      using io_recv_okI [OF b] c(3) by simp_all
    have "auth = [5, of_nat (length ms)]" using two_bytes [OF l(2)] c(2) l2(2) by simp
    moreover have "length ms < 256" using l2(2) unsigned_less [of "auth ! 1", where 'a = nat] by simp
    ultimately show ?thesis using c l(1) l2(1) by (auto simp: methods_offer_def)
  qed simp
qed

lemma server_write_method_spec:
  assumes "hev_socks5_server_write_auth_method mth s = (r, s')"
  obtains n where "tx_only s s' (take n [5, word_of_int mth])" "r = 0 \<and> 0 < n \<or> r = - 1"
proof -
  obtain q t where io: "io_send [5, word_of_int mth] s = (q, t)" by force
  then have "r = (if q \<le> 0 then - 1 else 0)" "s' = t"
    using assms by (simp_all add: hev_socks5_server_write_auth_method_def Let_def split: if_splits)
  moreover obtain n where "tx_only s t (take n [5, word_of_int mth])" "if q > 0 then q = int n else n = 0"
    using io_send_spec [OF io] by blast
  ultimately show ?thesis using that [of n] by (auto split: if_splits)
qed

lemma server_write_user_spec:
  assumes "hev_socks5_server_write_auth_user res s = (r, s')"
  obtains n where "tx_only s s' (take n [1, word_of_int res])" "r = 0 \<and> 0 < n \<or> r = - 1"
proof -
  obtain q t where io: "io_send [1, word_of_int res] s = (q, t)" by force
  then have "r = (if q \<le> 0 then - 1 else 0)" "s' = t"
    using assms by (simp_all add: hev_socks5_server_write_auth_user_def Let_def split: if_splits)
  moreover obtain n where "tx_only s t (take n [1, word_of_int res])" "if q > 0 then q = int n else n = 0"
    using io_send_spec [OF io] by blast
  ultimately show ?thesis using that [of n] by (auto split: if_splits)
qed

text \<open>Checking a user against the database: the user object is kept alive by the server's own reference even when the
  database goes away.\<close>

lemma server_check_user_spec:
  assumes "sobj s = OBJ_AUTH" "auth_nodes (authdb s) A"
  shows "\<exists>r s'. server_check_user name pass s = Some (r, s') \<and>
    (if auth_map (authdb s) A name = Some pass
     then r = 0 \<and> (\<exists>p db k. s' = s\<lparr>authdb := db, auth_ref := k, sobj := OBJ_USER p\<rparr> \<and> p \<in> au_live db \<and>
       p \<in> A \<and> us_name (au_users (authdb s) p) = name)
     else r = - 1 \<and> s' = s)"
proof -
  let ?db = "authdb s"
  obtain n where g: "hev_socks5_authenticator_get name ?db = Some n"
      "if n = NULL then name \<notin> au_key ?db ` A else n \<in> A \<and> au_key ?db n = name"
    using auth_get_spec [OF assms(2)] by blast
  have ok: "n \<in> A \<Longrightarrow> user_ok (au_users ?db n)" using assms(2) by (simp add: auth_nodes_def)
  show ?thesis
  proof (cases "n \<noteq> NULL \<and> hev_socks5_user_check (au_users ?db n) pass = 0")
    case False
    have "hev_socks5_user_check u pass < 0 \<or> hev_socks5_user_check u pass = 0" for u
      by (simp add: hev_socks5_user_check_def hev_socks5_user_checker_def)
    moreover have "auth_map ?db A name \<noteq> Some pass"
      using False g(2) ok auth_map_node [OF assms(2), of n] by (auto simp: auth_map_none user_check_iff split: if_splits)
    ultimately show ?thesis using False g(1) assms(1) by (auto simp: server_check_user_def split: if_splits)
  next
    case True
    with g have n: "n \<in> A" "au_key ?db n = name" by auto
    let ?u = "au_users ?db n"
    let ?db1 = "?db\<lparr>au_users := (au_users ?db)(n := ?u\<lparr>us_ref := us_ref ?u + 1\<rparr>)\<rparr>"
    have k: "au_key ?db1 = au_key ?db" by (auto simp: au_key_def)
    have a1: "auth_nodes ?db1 A" using assms(2) k by (auto simp: auth_nodes_def user_ok_def)
    have pass: "auth_map ?db A name = Some pass"
      using auth_map_node [OF assms(2) n(1)] n(2) True user_check_iff [OF ok [OF n(1)]] by simp
    have live: "n \<in> au_live ?db" using assms(2) n(1) by (auto simp: auth_nodes_def)
    obtain db2 where d: "hev_socks5_authenticator_destruct ?db1 = Some db2"
        "au_live db2 = au_live ?db1 - {p\<in>A. us_ref (au_users ?db1 p) \<le> 1}"
      using auth_clear_spec [OF a1] by (auto simp: hev_socks5_authenticator_destruct_def)
    have "0 < us_ref ?u" using ok [OF n(1)] by (simp add: user_ok_def)
    then have live2: "n \<in> au_live db2" using d(2) live by simp
    have un: "auth_unref (s\<lparr>authdb := ?db1\<rparr>) =
        Some (if auth_ref s > 1 then s\<lparr>authdb := ?db1, auth_ref := auth_ref s - 1\<rparr> else s\<lparr>authdb := db2, auth_ref := 0\<rparr>)"
      using d(1) by (simp add: auth_unref_def)
    have nm: "us_name (au_users ?db n) = name" using n(2) by (simp add: au_key_def)
    let ?r = "if auth_ref s > 1 then s\<lparr>authdb := ?db1, auth_ref := auth_ref s - 1\<rparr> else s\<lparr>authdb := db2, auth_ref := 0\<rparr>"
    have "server_check_user name pass s = Some (0, ?r\<lparr>sobj := OBJ_USER n\<rparr>)"
      using True g(1) assms(1) un by (simp add: server_check_user_def Let_def)
    moreover have "\<exists>p db k. ?r\<lparr>sobj := OBJ_USER n\<rparr> = s\<lparr>authdb := db, auth_ref := k, sobj := OBJ_USER p\<rparr> \<and> p \<in> au_live db \<and>
       p \<in> A \<and> us_name (au_users ?db p) = name"
    proof (cases "auth_ref s > 1")
      case True
      then show ?thesis using live n(1) nm
        by (intro exI [of _ n] exI [of _ ?db1] exI [of _ "auth_ref s - 1"]) simp
    next
      case False
      then show ?thesis using live2 n(1) nm
        by (intro exI [of _ n] exI [of _ db2] exI [of _ 0]) simp
    qed
    ultimately show ?thesis using pass by auto
  qed
qed

lemma server_read_user_spec:
  assumes "sobj s = OBJ_AUTH" "auth_nodes (authdb s) A"
  shows "\<exists>r s'. hev_socks5_server_read_auth_user s = Some (r, s') \<and>
    (r = - 1 \<and> rx_only s s' \<or> r = 0 \<and> (\<exists>name pass t p db k. auth_map (authdb s) A name = Some pass \<and>
       name \<noteq> [] \<and> length name < 256 \<and> pass \<noteq> [] \<and> length pass < 256 \<and> rx_only s t \<and>
       stream (rx s) = creds name pass @ stream (rx t) \<and>
       s' = t\<lparr>authdb := db, auth_ref := k, sobj := OBJ_USER p\<rparr> \<and> p \<in> au_live db \<and> p \<in> A \<and>
       us_name (au_users (authdb s) p) = name))"
proof -
  obtain q hd2 s1 where a: "io_recv 2 s = (q, hd2, s1)" by (metis prod_cases3)
  let ?nlen = "unat (hd2 ! 1)"
  obtain q2 name s2 where b: "io_recv (?nlen + 1) s1 = (q2, name, s2)" by (metis prod_cases3)
  let ?plen = "unat (name ! ?nlen)"
  obtain q3 pass s3 where c: "io_recv ?plen s2 = (q3, pass, s3)" by (metis prod_cases3)
  have ro: "rx_only s s1" "rx_only s1 s2" "rx_only s2 s3"
    using io_recv_spec [OF a] io_recv_spec [OF b] io_recv_spec [OF c] by simp_all
  then have ro2: "rx_only s s2" "rx_only s s3" by (blast intro: rx_only_trans)+
  let ?C = "q = 2 \<and> hd2 ! 0 = 1 \<and> ?nlen \<noteq> 0 \<and> q2 = int (?nlen + 1) \<and> ?plen \<noteq> 0 \<and> q3 = int ?plen"
  show ?thesis
  proof (cases ?C)
    case False
    then have "\<exists>s'. hev_socks5_server_read_auth_user s = Some (- 1, s') \<and> rx_only s s'"
      using a b c ro(1) ro2 unfolding hev_socks5_server_read_auth_user_def Let_def a b c prod.case
      by (cases "q = 2"; cases "hd2 ! 0 = 1"; cases "?nlen = 0"; cases "q2 = int (?nlen + 1)"; cases "?plen = 0"; simp)
    then show ?thesis by blast
  next
    case True
    have l: "stream (rx s) = hd2 @ stream (rx s1)" "length hd2 = 2" using io_recv_okI [OF a] True by simp_all
    have l2: "stream (rx s1) = name @ stream (rx s2)" "length name = ?nlen + 1" using io_recv_okI [OF b] True by simp_all
    have l3: "stream (rx s2) = pass @ stream (rx s3)" "length pass = ?plen" using io_recv_okI [OF c] True by simp_all
    let ?name = "take ?nlen name"
    have "name = ?name @ [name ! ?nlen]" using l2(2) take_Suc_conv_app_nth [of ?nlen name] by simp
    then have nm: "name = ?name @ [of_nat ?plen]" by simp
    have h: "hd2 = [1, of_nat ?nlen]" using two_bytes [OF l(2)] True by simp
    have st: "stream (rx s) = creds ?name pass @ stream (rx s3)"
      using l(1) l2 l3 h nm by (simp add: creds_def)
    have len: "?nlen < 256" "?plen < 256"
      using unsigned_less [of "hd2 ! 1", where 'a = nat] unsigned_less [of "name ! ?nlen", where 'a = nat] by simp_all
    have ne: "?name \<noteq> []" "length ?name < 256" "pass \<noteq> []" "length pass < 256"
      using True len l2(2) l3(2) by auto
    have u: "hev_socks5_server_read_auth_user s = server_check_user ?name pass s3"
      using a b c True l3(2) unfolding hev_socks5_server_read_auth_user_def Let_def a b c prod.case by simp
    have sv: "sobj s3 = OBJ_AUTH" "authdb s3 = authdb s" using rx_only_server [OF ro2(2)] assms(1) by simp_all
    obtain r s' where r: "server_check_user ?name pass s3 = Some (r, s')"
      "if auth_map (authdb s) A ?name = Some pass
       then r = 0 \<and> (\<exists>p db k. s' = s3\<lparr>authdb := db, auth_ref := k, sobj := OBJ_USER p\<rparr> \<and> p \<in> au_live db \<and>
         p \<in> A \<and> us_name (au_users (authdb s) p) = ?name)
       else r = - 1 \<and> s' = s3"
      using server_check_user_spec [OF sv(1), of A ?name pass, unfolded sv(2), OF assms(2)] by blast
    show ?thesis
    proof (cases "auth_map (authdb s) A ?name = Some pass")
      case True
      then obtain p db k where k: "r = 0" "s' = s3\<lparr>authdb := db, auth_ref := k, sobj := OBJ_USER p\<rparr>" "p \<in> au_live db"
         "p \<in> A" "us_name (au_users (authdb s) p) = ?name" using r(2) by auto
      have "\<exists>name pass t p db k. auth_map (authdb s) A name = Some pass \<and>
         name \<noteq> [] \<and> length name < 256 \<and> pass \<noteq> [] \<and> length pass < 256 \<and> rx_only s t \<and>
         stream (rx s) = creds name pass @ stream (rx t) \<and>
         s' = t\<lparr>authdb := db, auth_ref := k, sobj := OBJ_USER p\<rparr> \<and> p \<in> au_live db \<and> p \<in> A \<and>
         us_name (au_users (authdb s) p) = name"
        by (rule exI [of _ ?name], rule exI [of _ pass], rule exI [of _ s3], rule exI [of _ p], rule exI [of _ db], rule exI [of _ k])
           (use True ne ro2(2) st k in simp)
      moreover have "hev_socks5_server_read_auth_user s = Some (0, s')" using u r(1) k(1) by simp
      ultimately show ?thesis by blast
    next
      case False
      with u r ro2(2) show ?thesis by auto
    qed
  qed
qed

text \<open>What it takes to authenticate: without a database, offering no authentication; with one, a registered name with its
  password.\<close>

definition authenticated :: "(bytes \<rightharpoonup> bytes) option \<Rightarrow> bytes \<Rightarrow> bytes \<Rightarrow> bool" where
  "authenticated db st rest \<longleftrightarrow>
     (case db of
        None \<Rightarrow> \<exists>methods. length methods < 256 \<and> 0 \<in> set methods \<and> st = methods_offer methods @ rest
      | Some m \<Rightarrow> \<exists>methods name pass. length methods < 256 \<and> 2 \<in> set methods \<and> m name = Some pass \<and>
          length name < 256 \<and> length pass < 256 \<and> st = methods_offer methods @ creds name pass @ rest)"

definition server_db :: "'a HevSocks5Server_scheme \<Rightarrow> (bytes \<rightharpoonup> bytes) option \<Rightarrow> bool" where
  "server_db s db \<longleftrightarrow>
     (case db of
        None \<Rightarrow> sobj s = OBJ_NULL
      | Some m \<Rightarrow> sobj s = OBJ_AUTH \<and> auth_at (authdb s) m)"

lemma int_or_neg: "r = 0 \<or> r = - 1 \<Longrightarrow> w = 0 \<or> w = (- 1 :: int) \<Longrightarrow> (r OR w < 0) = (r < 0 \<or> w < 0)"
  by auto

text \<open>What authentication may change of the server.\<close>

definition auth_frame :: "'a HevSocks5Server_scheme \<Rightarrow> 'a HevSocks5Server_scheme \<Rightarrow> bool" where
  "auth_frame s s' \<longleftrightarrow> fd s' = fd s \<and> stype s' = stype s \<and> open_fds s' = open_fds s \<and> socks s' = socks s \<and>
     fds0 s' = fds0 s \<and> fds1 s' = fds1 s \<and> addr_family s' = addr_family s \<and> conns s' = conns s \<and> opts s' = opts s \<and>
     sock_names s' = sock_names s \<and> dialled s' = dialled s \<and> blocks s' = blocks s"

lemma auth_frame_trans: "auth_frame s t \<Longrightarrow> auth_frame t u \<Longrightarrow> auth_frame s u"
  by (simp add: auth_frame_def)

lemma rx_only_auth_frame: "rx_only s s' \<Longrightarrow> auth_frame s s'"
  by (simp add: auth_frame_def rx_only_fields rx_only_server)

lemma tx_only_auth_frame: "tx_only s s' bs \<Longrightarrow> auth_frame s s'"
  by (simp add: auth_frame_def tx_only_fields tx_only_server)

text \<open>The object the server holds is as before, or a user.\<close>

definition obj_kept :: "'a HevSocks5Server_scheme \<Rightarrow> 'a HevSocks5Server_scheme \<Rightarrow> bool" where
  "obj_kept s s' \<longleftrightarrow> sobj s' = sobj s \<and> authdb s' = authdb s \<or> (\<exists>p. sobj s' = OBJ_USER p)"

text \<open>Credentials read and answered.\<close>

lemma server_user_step:
  assumes "sobj s = OBJ_AUTH" "auth_nodes (authdb s) A" "hev_socks5_server_read_auth_user s = Some (r, t)"
    and "hev_socks5_server_write_auth_user r t = (v, s')"
  shows "auth_frame s s'" "obj_kept s s'" "r = 0 \<or> r = - 1" "v = 0 \<or> v = - 1"
    "r = 0 \<Longrightarrow> \<exists>name pass p. auth_map (authdb s) A name = Some pass \<and> length name < 256 \<and> length pass < 256 \<and>
       stream (rx s) = creds name pass @ stream (rx s') \<and> sobj s' = OBJ_USER p \<and> p \<in> au_live (authdb s')"
proof -
  have r: "r = - 1 \<and> rx_only s t \<or> r = 0 \<and> (\<exists>name pass u p d k. auth_map (authdb s) A name = Some pass \<and>
       length name < 256 \<and> length pass < 256 \<and> rx_only s u \<and> stream (rx s) = creds name pass @ stream (rx u) \<and>
       t = u\<lparr>authdb := d, auth_ref := k, sobj := OBJ_USER p\<rparr> \<and> p \<in> au_live d)"
    using server_read_user_spec [OF assms(1,2)] unfolding assms(3) option.inject prod.inject by blast
  obtain n where n: "tx_only t s' (take n [1, word_of_int r])" "v = 0 \<or> v = - 1"
    using server_write_user_spec [OF assms(4)] by blast
  show "r = 0 \<or> r = - 1" "v = 0 \<or> v = - 1" using r n(2) by blast+
  have "auth_frame s (u\<lparr>authdb := d, auth_ref := j, sobj := ob\<rparr>)" if "rx_only s u" for u d j ob
    using rx_only_auth_frame [OF that] by (simp add: auth_frame_def)
  then have "auth_frame s t" using r rx_only_auth_frame [of s t] by blast
  then show "auth_frame s s'" using tx_only_auth_frame [OF n(1)] by (blast intro: auth_frame_trans)
  have "obj_kept s (u\<lparr>authdb := d, auth_ref := j, sobj := OBJ_USER p\<rparr>)" for u d j p by (simp add: obj_kept_def)
  moreover have "obj_kept s u" if "rx_only s u" for u using rx_only_server [OF that] by (simp add: obj_kept_def)
  ultimately have "obj_kept s t" using r by blast
  then show "obj_kept s s'" using tx_only_server [OF n(1)] by (auto simp: obj_kept_def)
  assume "r = 0"
  then obtain name pass u p d k where q: "auth_map (authdb s) A name = Some pass" "length name < 256" "length pass < 256"
      "stream (rx s) = creds name pass @ stream (rx u)" "t = u\<lparr>authdb := d, auth_ref := k, sobj := OBJ_USER p\<rparr>" "p \<in> au_live d"
    using r by auto
  then show "\<exists>name pass p. auth_map (authdb s) A name = Some pass \<and> length name < 256 \<and> length pass < 256 \<and>
       stream (rx s) = creds name pass @ stream (rx s') \<and> sobj s' = OBJ_USER p \<and> p \<in> au_live (authdb s')"
    using tx_only_fields(1) [OF n(1)] tx_only_server [OF n(1)] by auto
qed

lemma server_auth_spec:
  assumes "server_db s db"
  shows "\<exists>r s'. hev_socks5_server_auth s = Some (r, s') \<and> auth_frame s s' \<and> obj_kept s s' \<and>
    (r = - 1 \<or> r = 0 \<and> authenticated db (stream (rx s)) (stream (rx s')) \<and>
      (db \<noteq> None \<longrightarrow> (\<exists>p. sobj s' = OBJ_USER p \<and> p \<in> au_live (authdb s'))))"
proof -
  obtain mth s1 where a: "hev_socks5_server_read_auth_method s = (mth, s1)" by force
  obtain w s2 where b: "hev_socks5_server_write_auth_method mth s1 = (w, s2)" by force
  note am = server_read_method_spec [OF a]
  obtain n where n: "tx_only s1 s2 (take n [5, word_of_int mth])" "w = 0 \<or> w = - 1"
    using server_write_method_spec [OF b] by blast
  have f: "auth_frame s s2"
    using rx_only_auth_frame [OF am(1)] tx_only_auth_frame [OF n(1)] by (rule auth_frame_trans)
  have db2: "sobj s2 = sobj s" "authdb s2 = authdb s" "rx s2 = rx s1"
    using rx_only_server [OF am(1)] tx_only_server [OF n(1)] tx_only_fields(1) [OF n(1)] by simp_all
  have ok2: "obj_kept s s2" using db2 by (simp add: obj_kept_def)
  consider "w < 0 \<or> mth \<noteq> 0 \<and> mth \<noteq> 2" | "w = 0" "mth = 0" | "w = 0" "mth = 2" using n(2) by linarith
  then show ?thesis
  proof cases
    case 1
    then have "hev_socks5_server_auth s = Some (- 1, s2)" using a b by (auto simp: hev_socks5_server_auth_def)
    then show ?thesis using f ok2 by blast
  next
    case 2
    then have "wanted_method s = 0" using am(2) by (auto simp: wanted_method_def split: if_splits)
    then have "sobj s = OBJ_NULL" by (simp add: wanted_method_def split: if_splits)
    then have "db = None" using assms by (auto simp: server_db_def split: option.splits)
    moreover have "hev_socks5_server_auth s = Some (0, s2)" using a b 2 by (simp add: hev_socks5_server_auth_def)
    moreover obtain methods where "length methods < 256" "wanted_method s \<in> set methods"
        "stream (rx s) = methods_offer methods @ stream (rx s1)" using am(2) 2 by auto
    ultimately show ?thesis using f ok2 db2(3) \<open>wanted_method s = 0\<close> by (auto simp: authenticated_def)
  next
    case 3
    then have wm: "wanted_method s = 2" using am(2) by (auto simp: wanted_method_def split: if_splits)
    then have "sobj s \<noteq> OBJ_NULL" by (simp add: wanted_method_def split: if_splits)
    then obtain m where m: "db = Some m" "sobj s = OBJ_AUTH" "auth_at (authdb s) m"
      using assms by (auto simp: server_db_def split: option.splits)
    then obtain A where A: "auth_nodes (authdb s2) A" "auth_map (authdb s2) A = m" using db2(2) by (auto simp: auth_at_def)
    obtain methods where ms: "length methods < 256" "2 \<in> set methods"
        "stream (rx s) = methods_offer methods @ stream (rx s2)" using am(2) 3 wm db2(3) by auto
    have au: "sobj s2 = OBJ_AUTH" using m(2) db2(1) by simp
    obtain r s3 where r: "hev_socks5_server_read_auth_user s2 = Some (r, s3)" using server_read_user_spec [OF au A(1)] by blast
    obtain v s4 where v: "hev_socks5_server_write_auth_user r s3 = (v, s4)" by force
    note st = server_user_step [OF au A(1) r v, unfolded A(2)]
    have u: "hev_socks5_server_auth s = Some (if r < 0 \<or> v < 0 then - 1 else 0, s4)"
      using a b 3 r v int_or_neg [OF st(3,4)] by (simp add: hev_socks5_server_auth_def)
    have f4: "auth_frame s s4" using f st(1) by (rule auth_frame_trans)
    have ok4: "obj_kept s s4" using st(2) db2 by (auto simp: obj_kept_def)
    show ?thesis
    proof (cases "r < 0 \<or> v < 0")
      case True
      with u f4 ok4 show ?thesis by simp
    next
      case False
      then have "r = 0" using st(3) by auto
      from st(5) [OF this] obtain name pass p where q: "m name = Some pass" "length name < 256" "length pass < 256"
         "stream (rx s2) = creds name pass @ stream (rx s4)" "sobj s4 = OBJ_USER p" "p \<in> au_live (authdb s4)" by blast
      have "authenticated db (stream (rx s)) (stream (rx s4))" using ms q(1-4) m(1) by (auto simp: authenticated_def)
      then show ?thesis using u f4 ok4 False q(5,6) by auto
    qed
  qed
qed

end
