(* ===== verification/Socks5ServerOk.thy ===== *)
theory Socks5ServerOk
  imports Socks5Server
begin

text \<open>
  Properties of the SOCKS5 server: nobody is served without authenticating, the requests that are served, the
  descriptors a server owns, and its answers to a client that follows the protocol.
\<close>

section \<open>Descriptors\<close>

text \<open>The server owns the descriptors in \<^verbatim>\<open>fds\<close> beside those in \<open>base\<close>, and the ones to come are new.\<close>

definition owns :: "int set \<Rightarrow> 'a HevSocks5Server_scheme \<Rightarrow> bool" where
  "owns base s \<longleftrightarrow>
     open_fds s = base \<union> (if 0 \<le> fds0 s then {fds0 s} else {}) \<union> (if 0 \<le> fds1 s then {fds1 s} else {}) \<and>
     (0 \<le> fds0 s \<longrightarrow> fds0 s \<notin> base) \<and> (0 \<le> fds1 s \<longrightarrow> fds1 s \<notin> base)"

definition new_socks :: "'a net_scheme \<Rightarrow> bool" where
  "new_socks s \<longleftrightarrow> fresh_socks s \<and> distinct (socks s)"

lemma socket_next:
  assumes "hev_socks5_socket s = (d, s')"
  shows "socks s' = tl (socks s)" "0 \<le> d \<Longrightarrow> socks s \<noteq> [] \<and> d = hd (socks s)"
  using assms
  by (cases "socks s"; cases "opts s";
      auto simp: hev_socks5_socket_def sys_opt_def sys_close_def Let_def split: if_splits)+

lemma socket_new:
  assumes "hev_socks5_socket s = (d, s')" "new_socks s"
  obtains ds os where "s' = s\<lparr>socks := ds, opts := os, open_fds := (if d < 0 then open_fds s else insert d (open_fds s))\<rparr>"
    "d < 0 \<or> d \<notin> open_fds s" "new_socks s'"
proof -
  have f: "\<forall>d\<in>set (socks s). d \<notin> open_fds s" "distinct (socks s)"
    using assms(2) by (auto simp: new_socks_def fresh_socks_def)
  obtain ds os where s': "s' = s\<lparr>socks := ds, opts := os, open_fds := (if d < 0 then open_fds s else insert d (open_fds s))\<rparr>"
      "d < 0 \<or> d \<in> set (socks s)"
    using socket_spec [OF assms(1) f(1)] by blast
  have ds: "ds = tl (socks s)" using socket_next(1) [OF assms(1)] s'(1) by simp
  have "new_socks s'"
  proof (cases "d < 0")
    case True
    then show ?thesis using f s' ds by (cases "socks s") (auto simp: new_socks_def fresh_socks_def)
  next
    case False
    then obtain xs where "socks s = d # xs" using socket_next(2) [OF assms(1)] by (cases "socks s") auto
    then show ?thesis using f s' ds False by (auto simp: new_socks_def fresh_socks_def)
  qed
  then show ?thesis using that [OF s'(1)] s'(2) f(1) by auto
qed

locale server_bind = bind_hook bnd
  for bnd :: "'a server_bind_fun"
begin

lemma server_connect_spec:
  assumes "hev_socks5_server_connect m bnd sa s = (r, s')" "new_socks s"
  shows "rx s' = rx s \<and> sent s' = sent s \<and> fd s' = fd s \<and> fds1 s' = fds1 s \<and> tx s' = tx s \<and> sobj s' = sobj s \<and> authdb s' = authdb s \<and>
    (r = - 1 \<and> fds0 s' = fds0 s \<and> open_fds s' = open_fds s \<and> dialled s' = dialled s \<or>
     r = 0 \<and> 0 \<le> fds0 s' \<and> fds0 s' \<notin> open_fds s \<and> open_fds s' = insert (fds0 s') (open_fds s) \<and>
       dialled s' = dialled s @ [(fds0 s', sa)])"
proof -
  obtain d s1 where so: "hev_socks5_socket s = (d, s1)" by force
  obtain ds os where s1: "s1 = s\<lparr>socks := ds, opts := os, open_fds := (if d < 0 then open_fds s else insert d (open_fds s))\<rparr>"
      and d: "d < 0 \<or> d \<notin> open_fds s"
    using socket_new [OF so assms(2)] by blast
  show ?thesis
  proof (cases "d < 0")
    case True
    then have "r = - 1" "s' = s1" using assms(1) so by (auto simp: hev_socks5_server_connect_def)
    with True s1 show ?thesis by simp
  next
    case False
    then have fresh: "d \<notin> open_fds s" using d by simp
    obtain q s2 where b: "bnd d sa s1 = (q, s2)" by force
    obtain os2 where s2: "s2 = s1\<lparr>opts := os2\<rparr>" using bnd_frame [of d sa s1] b by auto
    obtain c s3 where co: "hev_task_io_socket_connect d sa (hev_socks5_set_timeout (hev_socks5_get_connect_timeout m) s2) = (c, s3)"
      by force
    note cs = connect_spec [OF co]
    then have n: "conn_norm s3 = conn_norm (hev_socks5_set_timeout (hev_socks5_get_connect_timeout m) s2)" by simp
    note cf = conn_norm_fields [OF n]
    note sm = server_more [OF cf(14)]
    consider "q < 0" | "0 \<le> q" "c < 0" | "0 \<le> q" "c = 0" using cs by linarith
    then show ?thesis
    proof cases
      case 1
      then have "r = - 1" "s' = sys_close d s2"
        using assms(1) so False b by (auto simp: hev_socks5_server_connect_def)
      with s1 s2 False fresh show ?thesis by (simp add: sys_close_def)
    next
      case 2
      then have "r = - 1" "s' = sys_close d s3"
        using assms(1) so False b co by (auto simp: hev_socks5_server_connect_def)
      with s1 s2 cs cf sm 2 False fresh show ?thesis by (simp add: sys_close_def hev_socks5_set_timeout_def)
    next
      case 3
      then have "r = 0" "s' = (hev_socks5_set_timeout (hev_socks5_get_tcp_timeout m) s3)\<lparr>fds0 := d\<rparr>"
        using assms(1) so False b co by (auto simp: hev_socks5_server_connect_def)
      with s1 s2 cs cf sm 3 False fresh show ?thesis by (simp add: hev_socks5_set_timeout_def)
    qed
  qed
qed

end

interpretation dflt_server: server_bind hev_socks5_bind
  by unfold_locales

lemma sys_opt_frame:
  assumes "sys_opt s = (q, t)"
  obtains os where "t = s\<lparr>opts := os\<rparr>"
proof -
  have "t = s\<lparr>opts := opts t\<rparr>" using assms by (cases "opts s") (auto simp: sys_opt_def)
  then show ?thesis by (rule that)
qed

lemma getsockname_frame:
  assumes "sys_getsockname s = (a, t)"
  obtains ns where "t = s\<lparr>sock_names := ns\<rparr>"
proof -
  have "t = s\<lparr>sock_names := sock_names t\<rparr>" using assms by (cases "sock_names s") (auto simp: sys_getsockname_def)
  then show ?thesis by (rule that)
qed

lemma udp_bind_spec:
  assumes "hev_socks5_server_udp_bind src s = (r, src', s')"
  obtains ns os where "s' = s\<lparr>sock_names := ns, opts := os\<rparr>" "r = 0 \<or> r = - 1"
proof -
  obtain a t where a: "sys_getsockname s = (a, t)" by force
  obtain ns where t: "t = s\<lparr>sock_names := ns\<rparr>" using getsockname_frame [OF a] by blast
  obtain q u where o: "sys_opt t = (q, u)" by force
  obtain os where u: "u = t\<lparr>opts := os\<rparr>" using sys_opt_frame [OF o] by blast
  obtain b v where b: "sys_getsockname u = (b, v)" by force
  obtain ns' where v: "v = u\<lparr>sock_names := ns'\<rparr>" using getsockname_frame [OF b] by blast
  have c: "s' = t \<or> s' = u \<or> s' = v" "r = 0 \<or> r = - 1"
    using assms a o b by (auto simp: hev_socks5_server_udp_bind_def Let_def split: option.splits if_splits)
  have "t = s\<lparr>sock_names := ns, opts := opts s\<rparr>" "u = s\<lparr>sock_names := ns, opts := os\<rparr>" "v = s\<lparr>sock_names := ns', opts := os\<rparr>"
    by (simp_all add: t u v)
  note forms = this
  from c(1) have "\<exists>ns os. s' = s\<lparr>sock_names := ns, opts := os\<rparr>" using forms by blast
  with c(2) show ?thesis using that by blast
qed

lemma server_udp_spec:
  assumes "hev_socks5_server_bind addr s = (r, a, s')" "new_socks s"
  shows "rx s' = rx s \<and> sent s' = sent s \<and> fd s' = fd s \<and> tx s' = tx s \<and> sobj s' = sobj s \<and> authdb s' = authdb s \<and>
    (r = - 1 \<or> r = 0 \<and> 0 \<le> fds0 s' \<and> (addr \<noteq> None \<longrightarrow> 0 \<le> fds1 s') \<and> (addr = None \<longrightarrow> a = None)) \<and>
    (open_fds s' = open_fds s \<and> fds0 s' = fds0 s \<and> fds1 s' = fds1 s \<and> r = - 1 \<or>
     open_fds s' = insert (fds0 s') (open_fds s) \<and> fds0 s' \<notin> open_fds s \<and> 0 \<le> fds0 s' \<and> fds1 s' = fds1 s \<and> (addr = None \<or> r = - 1) \<or>
     open_fds s' = {fds0 s', fds1 s'} \<union> open_fds s \<and> fds0 s' \<notin> open_fds s \<and> fds1 s' \<notin> open_fds s \<and> 0 \<le> fds0 s' \<and> 0 \<le> fds1 s')"
proof -
  obtain d s1 where so: "hev_socks5_socket s = (d, s1)" by force
  obtain ds os where s1: "s1 = s\<lparr>socks := ds, opts := os, open_fds := (if d < 0 then open_fds s else insert d (open_fds s))\<rparr>"
      and d: "d < 0 \<or> d \<notin> open_fds s" and n1: "new_socks s1"
    using socket_new [OF so assms(2)] by blast
  consider "d < 0" | "0 \<le> d" "addr = None" | src where "addr = Some src" "0 \<le> d" by fastforce
  then show ?thesis
  proof cases
    case 1
    then have "r = - 1" "s' = s1" using assms(1) so by (auto simp: hev_socks5_server_bind_def)
    with 1 s1 show ?thesis by simp
  next
    case 2
    then have "r = 0" "s' = s1\<lparr>fds0 := d\<rparr>" "a = None" using assms(1) so by (auto simp: hev_socks5_server_bind_def)
    with 2 s1 d show ?thesis by simp
  next
    case src: 3
    let ?s1 = "s1\<lparr>fds0 := d\<rparr>"
    obtain e s2 where so2: "hev_socks5_socket ?s1 = (e, s2)" by force
    have "new_socks ?s1" using n1 by (simp add: new_socks_def fresh_socks_def)
    then obtain ds2 os2 where s2: "s2 = ?s1\<lparr>socks := ds2, opts := os2, open_fds := (if e < 0 then open_fds ?s1 else insert e (open_fds ?s1))\<rparr>"
      and e: "e < 0 \<or> e \<notin> open_fds ?s1"
      using socket_new [OF so2] by blast
    obtain q s3 where o: "sys_opt s2 = (q, s3)" by force
    obtain os3 where s3: "s3 = s2\<lparr>opts := os3\<rparr>" using sys_opt_frame [OF o] by blast
    obtain c src' s4 where u: "hev_socks5_server_udp_bind src s3 = (c, src', s4)" by (metis prod_cases3)
    obtain ns os4 where s4: "s4 = s3\<lparr>sock_names := ns, opts := os4\<rparr>" and c: "c = 0 \<or> c = - 1" using udp_bind_spec [OF u] by blast
    have un: "hev_socks5_server_bind addr s =
        (if e < 0 then (- 1, addr, s2) else if q < 0 then (- 1, addr, sys_close e s3)
         else if c < 0 then (- 1, Some src', sys_close e s4) else (0, Some src', s4\<lparr>fds1 := e\<rparr>))"
      using so src so2 o u by (simp add: hev_socks5_server_bind_def)
    have dn: "d \<notin> open_fds s" using d src by simp
    consider "e < 0" | "0 \<le> e" "q < 0 \<or> c < 0" | "0 \<le> e" "0 \<le> q" "0 \<le> c" by linarith
    then show ?thesis
    proof cases
      case 1
      then have "r = - 1" "s' = s2" using assms(1) un by auto
      with 1 s1 s2 src dn show ?thesis by simp
    next
      case 2
      then have "r = - 1" "s' = sys_close e s3 \<or> s' = sys_close e s4" using assms(1) un by (auto split: if_splits)
      moreover have ed: "e \<noteq> d" "e \<notin> open_fds s" using e 2 s1 src by simp_all
      ultimately show ?thesis
      proof (elim disjE)
        assume "r = - 1" "s' = sys_close e s3"
        then show ?thesis using 2(1) s1 s2 s3 src dn ed by (simp add: sys_close_def insert_Diff_if)
      next
        assume "r = - 1" "s' = sys_close e s4"
        then show ?thesis using 2(1) s1 s2 s3 s4 src dn ed by (simp add: sys_close_def insert_Diff_if)
      qed
    next
      case 3
      then have "r = 0" "s' = s4\<lparr>fds1 := e\<rparr>" using assms(1) un by auto
      moreover have "e \<notin> insert d (open_fds s)" using e 3 s1 src by simp
      ultimately show ?thesis using 3 s1 s2 s3 s4 src dn by (simp add: insert_commute)
    qed
  qed
qed

section \<open>Requests\<close>

text \<open>A request the server understands: its bytes, the command and the address it denotes.\<close>

definition request_bytes ::
    "resolver \<Rightarrow> sockaddr_in6 \<Rightarrow> HevSocks5AddrFamily \<Rightarrow> byte \<Rightarrow> sockaddr_in6 \<Rightarrow> bytes \<Rightarrow> bool" where
  "request_bytes rs junk fam cmd saddr req \<longleftrightarrow>
     (\<exists>rsv ty b buf f. req = [5, cmd, rsv, ty, b] @ buf \<and> server_addrlen ty b = Some (length buf) \<and>
       hev_socks5_addr_into_sockaddr6 rs \<lparr>atype = ty, abody = mem_put (replicate 259 0) 0 (b # buf)\<rparr> junk fam = (0, saddr, f))"

lemma into_sockaddr6_code: "hev_socks5_addr_into_sockaddr6 rs a sa fam = (r, sa', f) \<Longrightarrow> r = 0 \<or> r = - 1"
  by (auto simp: hev_socks5_addr_into_sockaddr6_def hev_socks5_name_into_sockaddr6_def hev_socks5_name_resolve_name_def Let_def
      split: if_splits prod.splits gai_result.splits)

lemma five_bytes: "length buf = 5 \<Longrightarrow> buf = [buf ! 0, buf ! 1, buf ! 2, buf ! 3, buf ! 4]"
  by (auto simp: length_Suc_conv numeral_eq_Suc)

lemma read_request_spec:
  assumes "hev_socks5_server_read_request rs rq s = (r, rq', s')" "rq_rep rq = 0"
  shows "\<exists>t f. rx_only s t \<and> (s' = t \<or> s' = hev_socks5_set_addr_family f t) \<and> (r = 0 \<or> r = - 1) \<and>
    (r = 0 \<and> rq_rep rq' = 0 \<longrightarrow>
      (\<exists>req. request_bytes rs (rq_addr rq) (addr_family s) (rq_cmd rq') (rq_addr rq') req \<and> stream (rx s) = req @ stream (rx s')))"
proof -
  obtain q req s1 where a: "io_recv 5 s = (q, req, s1)" by (metis prod_cases3)
  have ro1: "rx_only s s1" using io_recv_spec [OF a] by simp
  show ?thesis
  proof (cases "q = 5 \<and> req ! 0 = 5 \<and> server_addrlen (req ! 3) (req ! 4) \<noteq> None")
    case False
    then have "s' = s1 \<and> (r = 0 \<or> r = - 1) \<and> \<not> (r = 0 \<and> rq_rep rq' = 0)"
      using assms(1) a by (auto simp: hev_socks5_server_read_request_def split: if_splits)
    then show ?thesis using ro1 by blast
  next
    case True
    then obtain len where len: "server_addrlen (req ! 3) (req ! 4) = Some len" by auto
    obtain p buf s2 where b: "io_recv len s1 = (p, buf, s2)" by (metis prod_cases3)
    have ro2: "rx_only s s2" using io_recv_spec [OF b] ro1 rx_only_trans by blast
    let ?addr = "\<lparr>atype = req ! 3, abody = mem_put (replicate 259 0) 0 (req ! 4 # buf)\<rparr>"
    obtain k sa f where c: "hev_socks5_addr_into_sockaddr6 rs ?addr (rq_addr rq) (addr_family s2) = (k, sa, f)"
      by (metis prod_cases3)
    have k: "k = 0 \<or> k = - 1" using into_sockaddr6_code [OF c] .
    show ?thesis
    proof (cases "p = int len \<and> k = 0")
      case False
      then have "s' = s2 \<and> (r = 0 \<or> r = - 1) \<and> \<not> (r = 0 \<and> rq_rep rq' = 0)"
        using assms(1) a b c k True len
        by (auto simp: hev_socks5_server_read_request_def hev_socks5_get_addr_family_def split: if_splits)
      then show ?thesis using ro2 by blast
    next
      case T: True
      then have e: "r = 0" "rq' = rq\<lparr>rq_cmd := req ! 1, rq_addr := sa\<rparr>" "s' = hev_socks5_set_addr_family f s2"
        using assms(1) a b c True len
        by (auto simp: hev_socks5_server_read_request_def hev_socks5_get_addr_family_def)
      have l: "stream (rx s) = req @ stream (rx s1)" "length req = 5" using io_recv_okI [OF a] True by simp_all
      have l2: "stream (rx s1) = buf @ stream (rx s2)" "length buf = len" using io_recv_okI [OF b] T by simp_all
      have rq: "req = [5, req ! 1, req ! 2, req ! 3, req ! 4]" using five_bytes [OF l(2)] True by simp
      have fam: "addr_family s2 = addr_family s" using rx_only_fields(11) [OF ro2] .
      have "request_bytes rs (rq_addr rq) (addr_family s) (req ! 1) sa (req @ buf)"
        unfolding request_bytes_def
        by (rule exI [of _ "req ! 2"], rule exI [of _ "req ! 3"], rule exI [of _ "req ! 4"], rule exI [of _ buf], rule exI [of _ f])
           (use rq len l2(2) c T fam in simp)
      moreover have "stream (rx s) = (req @ buf) @ stream (rx s')"
        using l(1) l2(1) e(3) by (simp add: hev_socks5_set_addr_family_def)
      ultimately have "\<exists>req. request_bytes rs (rq_addr rq) (addr_family s) (rq_cmd rq') (rq_addr rq') req \<and>
          stream (rx s) = req @ stream (rx s')" using e(2) by auto
      then show ?thesis using ro2 e(1,3) by blast
    qed
  qed
qed

lemma write_response_spec:
  assumes "hev_socks5_server_write_response rep addr s = (r, s')"
  obtains bs where "tx_only s s' bs" "r = 0 \<or> r = - 1"
proof -
  obtain n a where a: "hev_socks5_addr_from_sockaddr6 \<lparr>atype = 0, abody = replicate 259 0\<rparr> addr = (n, a)" by force
  obtain q t where io: "io_send ([5, rep, 0] @ take (nat n) (addr_bytes a)) s = (q, t)" by force
  have "r = (if q \<le> 0 then - 1 else 0)" "s' = t"
    using assms a io by (auto simp: hev_socks5_server_write_response_def split: if_splits)
  moreover obtain k where "tx_only s t (take k ([5, rep, 0] @ take (nat n) (addr_bytes a)))" using io_send_spec [OF io] by blast
  ultimately show ?thesis using that by auto
qed

section \<open>The handshake\<close>

text \<open>The sockets each command leaves the server with.\<close>

definition served :: "byte \<Rightarrow> sockaddr_in6 \<Rightarrow> 'a HevSocks5Server_scheme \<Rightarrow> 'a HevSocks5Server_scheme \<Rightarrow> bool" where
  "served cmd saddr s s' \<longleftrightarrow> 0 \<le> fds0 s' \<and> fds0 s' \<in> open_fds s' \<and>
     (cmd = 1 \<and> stype s' = TYPE_TCP \<and> dialled s' = dialled s @ [(fds0 s', saddr)] \<or>
      cmd = 3 \<and> stype s' = TYPE_UDP_IN_UDP \<and> 0 \<le> fds1 s' \<and> fds1 s' \<in> open_fds s' \<or>
      cmd = 5 \<and> stype s' = TYPE_UDP_IN_TCP)"

definition idle :: "'a HevSocks5Server_scheme \<Rightarrow> bool" where
  "idle s \<longleftrightarrow> fds0 s = - 1 \<and> fds1 s = - 1 \<and> new_socks s"

lemma owns_idle: "idle s \<Longrightarrow> owns (open_fds s) s"
  by (simp add: idle_def owns_def)

lemma owns_cong:
  "open_fds t = open_fds s \<Longrightarrow> fds0 t = fds0 s \<Longrightarrow> fds1 t = fds1 s \<Longrightarrow> owns base t \<longleftrightarrow> owns base s"
  by (simp add: owns_def)

lemma server_udp_owns:
  assumes "hev_socks5_server_bind addr s = (r, a, s')" "idle s"
  shows "owns (open_fds s) s'" "r = 0 \<Longrightarrow> 0 \<le> fds0 s' \<and> fds0 s' \<in> open_fds s' \<and> (addr \<noteq> None \<longrightarrow> 0 \<le> fds1 s' \<and> fds1 s' \<in> open_fds s')"
proof -
  have n: "new_socks s" "fds0 s = - 1" "fds1 s = - 1" using assms(2) by (simp_all add: idle_def)
  note u = server_udp_spec [OF assms(1) n(1)]
  then consider "open_fds s' = open_fds s" "fds0 s' = - 1" "fds1 s' = - 1" "r = - 1"
    | "open_fds s' = insert (fds0 s') (open_fds s)" "fds0 s' \<notin> open_fds s" "0 \<le> fds0 s'" "fds1 s' = - 1" "addr = None \<or> r = - 1"
    | "open_fds s' = {fds0 s', fds1 s'} \<union> open_fds s" "fds0 s' \<notin> open_fds s" "fds1 s' \<notin> open_fds s" "0 \<le> fds0 s'" "0 \<le> fds1 s'"
    using n by metis
  then have "owns (open_fds s) s' \<and>
      (r = 0 \<longrightarrow> 0 \<le> fds0 s' \<and> fds0 s' \<in> open_fds s' \<and> (addr \<noteq> None \<longrightarrow> 0 \<le> fds1 s' \<and> fds1 s' \<in> open_fds s'))"
    by cases (simp_all add: owns_def insert_commute, auto)
  then show "owns (open_fds s) s'" "r = 0 \<Longrightarrow> 0 \<le> fds0 s' \<and> fds0 s' \<in> open_fds s' \<and> (addr \<noteq> None \<longrightarrow> 0 \<le> fds1 s' \<and> fds1 s' \<in> open_fds s')"
    by blast+
qed

context server_bind
begin

lemma server_command_spec:
  assumes "server_command m bnd rq s = (rq', s')" "idle s" "rq_rep rq = 0"
  shows "rx s' = rx s \<and> sent s' = sent s \<and> fd s' = fd s \<and> sobj s' = sobj s \<and> authdb s' = authdb s \<and> owns (open_fds s) s' \<and>
    (rq_rep rq' = 0 \<longrightarrow> served (rq_cmd rq) (rq_addr rq) s s')"
proof -
  have n: "new_socks s" using assms(2) by (simp add: idle_def)
  consider (c) "rq_cmd rq = 1" | (u) "rq_cmd rq = 3" | (f) "rq_cmd rq = 5" | (o) "rq_cmd rq \<noteq> 1" "rq_cmd rq \<noteq> 3" "rq_cmd rq \<noteq> 5"
    by blast
  then show ?thesis
  proof cases
    case c
    obtain r t where co: "hev_socks5_server_connect m bnd (rq_addr rq) s = (r, t)" by force
    have e: "s' = t\<lparr>stype := TYPE_TCP\<rparr>" "rq' = (if r < 0 then rq\<lparr>rq_rep := 4\<rparr> else rq)"
      using assms(1) c co by (auto simp: server_command_def)
    note sp = server_connect_spec [OF co n]
    then consider "r = - 1" "fds0 t = fds0 s" "open_fds t = open_fds s"
      | "r = 0" "0 \<le> fds0 t" "fds0 t \<notin> open_fds s" "open_fds t = insert (fds0 t) (open_fds s)" "dialled t = dialled s @ [(fds0 t, rq_addr rq)]"
      by blast
    then show ?thesis
    proof cases
      case 1
      then show ?thesis using sp e assms(2) by (simp add: owns_def idle_def)
    next
      case 2
      then show ?thesis using sp e assms(2) c by (simp add: owns_def idle_def served_def)
    qed
  next
    case u
    obtain r a t where b: "hev_socks5_server_bind (Some (rq_addr rq)) s = (r, a, t)" by (metis prod_cases3)
    have e: "s' = t\<lparr>stype := TYPE_UDP_IN_UDP\<rparr>" "rq_rep rq' = (if r < 0 then 1 else 0)"
      using assms(1,3) u b by (auto simp: server_command_def Let_def)
    have sp: "rx t = rx s" "sent t = sent s" "fd t = fd s" "sobj t = sobj s" "authdb t = authdb s" "r = 0 \<or> r = - 1"
      using server_udp_spec [OF b n] by auto
    have ow: "owns (open_fds s) s'" using server_udp_owns(1) [OF b assms(2)] owns_cong [of s' t] e(1) by simp
    show ?thesis
    proof (cases "r = 0")
      case True
      then show ?thesis using sp ow e u server_udp_owns(2) [OF b assms(2)] by (simp add: served_def)
    next
      case False
      then show ?thesis using sp ow e by simp
    qed
  next
    case f
    obtain r a t where b: "hev_socks5_server_bind None s = (r, a, t)" by (metis prod_cases3)
    have e: "s' = t\<lparr>stype := TYPE_UDP_IN_TCP\<rparr>" "rq_rep rq' = (if r < 0 then 1 else 0)"
      using assms(1,3) f b by (auto simp: server_command_def Let_def)
    have sp: "rx t = rx s" "sent t = sent s" "fd t = fd s" "sobj t = sobj s" "authdb t = authdb s" "r = 0 \<or> r = - 1"
      using server_udp_spec [OF b n] by auto
    have ow: "owns (open_fds s) s'" using server_udp_owns(1) [OF b assms(2)] owns_cong [of s' t] e(1) by simp
    show ?thesis
    proof (cases "r = 0")
      case True
      then show ?thesis using sp ow e f server_udp_owns(2) [OF b assms(2)] by (simp add: served_def)
    next
      case False
      then show ?thesis using sp ow e by simp
    qed
  next
    case o
    then have "s' = s" "rq_rep rq' = 7" using assms(1) by (auto simp: server_command_def)
    then show ?thesis using owns_idle [OF assms(2)] by simp
  qed
qed

lemma server_handshake_spec:
  assumes "server_db s db" "idle s"
  shows "\<exists>r s'. hev_socks5_server_handshake m rs bnd junk s = Some (r, s') \<and> fd s' = fd s \<and> owns (open_fds s) s' \<and> obj_kept s s' \<and>
    (r = - 1 \<or> r = 0 \<and> (\<exists>cmd saddr req. authenticated db (stream (rx s)) (req @ stream (rx s')) \<and>
      request_bytes rs (rq_addr junk) (addr_family s) cmd saddr req \<and> served cmd saddr s s'))"
proof -
  let ?s = "hev_socks5_set_timeout (hev_socks5_get_tcp_timeout m) s"
  have "server_db ?s db" using assms(1) by (simp add: server_db_def hev_socks5_set_timeout_def split: option.splits)
  from server_auth_spec [OF this] obtain r1 s1 where a: "hev_socks5_server_auth ?s = Some (r1, s1)" "auth_frame ?s s1" "obj_kept ?s s1"
    "r1 = - 1 \<or> r1 = 0 \<and> authenticated db (stream (rx s)) (stream (rx s1))"
    by (auto simp: hev_socks5_set_timeout_def)
  have f1: "fd s1 = fd s" "open_fds s1 = open_fds s" "fds0 s1 = fds0 s" "fds1 s1 = fds1 s" "socks s1 = socks s"
      "addr_family s1 = addr_family s" "dialled s1 = dialled s"
    using a(2) by (simp_all add: auth_frame_def hev_socks5_set_timeout_def)
  have o1: "obj_kept s s1" using a(3) by (simp add: obj_kept_def hev_socks5_set_timeout_def)
  have i1: "idle s1" using assms(2) f1 by (simp add: idle_def new_socks_def fresh_socks_def)
  show ?thesis
  proof (cases "r1 < 0")
    case True
    then have "hev_socks5_server_handshake m rs bnd junk s = Some (- 1, s1)" using a(1) by (simp add: hev_socks5_server_handshake_def)
    then show ?thesis using f1 o1 owns_idle [OF i1] by auto
  next
    case False
    let ?j = "junk\<lparr>rq_rep := 0\<rparr>"
    obtain r2 rq s2 where b: "hev_socks5_server_read_request rs ?j s1 = (r2, rq, s2)" by (metis prod_cases3)
    have "rq_rep ?j = 0" by simp
    from read_request_spec [OF b this] obtain t f where b2: "rx_only s1 t" "s2 = t \<or> s2 = hev_socks5_set_addr_family f t"
      "r2 = 0 \<or> r2 = - 1"
      and b3: "r2 = 0 \<and> rq_rep rq = 0 \<longrightarrow>
        (\<exists>req. request_bytes rs (rq_addr junk) (addr_family s1) (rq_cmd rq) (rq_addr rq) req \<and> stream (rx s1) = req @ stream (rx s2))"
      by auto
    have f2: "fd s2 = fd s" "open_fds s2 = open_fds s" "fds0 s2 = fds0 s" "fds1 s2 = fds1 s" "socks s2 = socks s" "dialled s2 = dialled s"
      using b2(2) rx_only_fields [OF b2(1)] rx_only_server [OF b2(1)] f1 by (auto simp: hev_socks5_set_addr_family_def)
    have o2: "obj_kept s s2"
      using o1 b2(2) rx_only_server [OF b2(1)] by (auto simp: obj_kept_def hev_socks5_set_addr_family_def)
    have i2: "idle s2" using assms(2) f2 by (simp add: idle_def new_socks_def fresh_socks_def)
    show ?thesis
    proof (cases "r2 < 0")
      case True
      then have "hev_socks5_server_handshake m rs bnd junk s = Some (- 1, s2)"
        using a(1) False b by (simp add: hev_socks5_server_handshake_def)
      then show ?thesis using f2 o2 owns_idle [OF i2] by auto
    next
      case R: False
      obtain rq' s3 where c: "(if rq_rep rq = 0 then server_command m bnd rq s2 else (rq, s2)) = (rq', s3)" by force
      have c2: "rx s3 = rx s2" "fd s3 = fd s2" "owns (open_fds s) s3" "sobj s3 = sobj s2" "authdb s3 = authdb s2"
        "rq_rep rq' = 0 \<longrightarrow> rq_rep rq = 0 \<and> served (rq_cmd rq) (rq_addr rq) s2 s3"
        using c server_command_spec [of m rq s2 rq' s3] i2 owns_idle [OF i2] f2(2) by (auto split: if_splits)
      obtain w s4 where d: "hev_socks5_server_write_response (rq_rep rq') (rq_addr rq') s3 = (w, s4)" by force
      obtain bs where d2: "tx_only s3 s4 bs" "w = 0 \<or> w = - 1" using write_response_spec [OF d] by blast
      note f4 = tx_only_fields [OF d2(1)] tx_only_server [OF d2(1)]
      have o4: "obj_kept s s4" using o2 c2(4,5) f4 by (auto simp: obj_kept_def)
      have own: "owns (open_fds s) s4" using c2(3) owns_cong [of s4 s3] f4 by simp
      have h: "hev_socks5_server_handshake m rs bnd junk s = Some (if w < 0 \<or> rq_rep rq' \<noteq> 0 then - 1 else 0, s4)"
        using a(1) False b R c d by (simp add: hev_socks5_server_handshake_def)
      show ?thesis
      proof (cases "w < 0 \<or> rq_rep rq' \<noteq> 0")
        case True
        then show ?thesis using h own o4 f4(7,8) c2(2) f2(1) by auto
      next
        case W: False
        then have sv: "rq_rep rq = 0" "served (rq_cmd rq) (rq_addr rq) s2 s3" using c2(6) by auto
        then obtain req where req: "request_bytes rs (rq_addr junk) (addr_family s1) (rq_cmd rq) (rq_addr rq) req"
            "stream (rx s1) = req @ stream (rx s2)" using b3 R b2(3) by auto
        have "served (rq_cmd rq) (rq_addr rq) s s4" using sv(2) f4 f2(6) by (simp add: served_def)
        moreover have "authenticated db (stream (rx s)) (req @ stream (rx s4))"
          using a(4) False req(2) f4(1) c2(1) by auto
        ultimately show ?thesis using h W own o4 f4(7,8) c2(2) f2(1) req(1) f1(6) by auto
      qed
    qed
  qed
qed

end

section \<open>A client that follows the protocol is served\<close>

lemma unat_length: "length bs < 256 \<Longrightarrow> unat (of_nat (length bs) :: byte) = length bs"
  by (simp add: unat_of_nat take_bit_nat_eq_self_iff)

lemma uint_length: "length bs < 256 \<Longrightarrow> uint (of_nat (length bs) :: byte) = int (length bs)"
  using unat_length [of bs] by (simp add: uint_nat)

lemma ready_cong: "rx s' = rx s \<Longrightarrow> tx s' = tx s \<Longrightarrow> ready k st s' = ready k st s"
  by (simp add: ready_def)

lemma same_obj_server:
  assumes "same_obj s s'"
  shows "sobj s' = sobj s" "authdb s' = authdb s" "auth_ref s' = auth_ref s" "fds0 s' = fds0 s" "fds1 s' = fds1 s"
    "socks s' = socks s" "opts s' = opts s" "conns s' = conns s" "addr_family s' = addr_family s"
  using assms server_more [of s' s] by (auto simp: same_obj_def)

lemma read_method_ready:
  assumes "ready k (methods_offer ms @ st) s" "wanted_method s \<in> set ms" "length ms < 256"
  obtains s' where "hev_socks5_server_read_auth_method s = (uint (wanted_method s), s')" "ready k st s'" "same_obj s s'" "sent s' = sent s"
proof -
  have "ready k ([5, of_nat (length ms)] @ (ms @ st)) s" "length ([5, of_nat (length ms)] :: bytes) = 2"
    using assms(1) by (simp_all add: methods_offer_def)
  then obtain t where t: "io_recv 2 s = (int 2, [5, of_nat (length ms)], t)" "ready k (ms @ st) t" "same_obj s t" "sent t = sent s"
    by (rule ready_recv)
  obtain u where u: "io_recv (length ms) t = (int (length ms), ms, u)" "ready k st u" "same_obj t u" "sent u = sent t"
    using ready_recv [OF t(2) refl] by blast
  have so: "same_obj s u" using t(3) u(3) by (rule same_obj_trans)
  have "hev_socks5_server_read_auth_method s = (uint (wanted_method s), u)"
    using t(1) u(1) assms(2,3) same_obj_server(1) [OF so] unat_length [of ms] uint_length [of ms]
    by (simp add: hev_socks5_server_read_auth_method_def wanted_method_def)
  then show ?thesis using that u(2,4) t(4) so by simp
qed

lemma read_user_ready:
  assumes "ready k (creds name pass @ st) s" "sobj s = OBJ_AUTH" "auth_at (authdb s) m" "m name = Some pass"
    "name \<noteq> []" "length name < 256" "pass \<noteq> []" "length pass < 256"
  obtains s' where "hev_socks5_server_read_auth_user s = Some (0, s')" "ready k st s'" "sent s' = sent s"
    "socks s' = socks s" "opts s' = opts s" "conns s' = conns s" "addr_family s' = addr_family s"
proof -
  have "ready k ([1, of_nat (length name)] @ ((name @ [of_nat (length pass)]) @ (pass @ st))) s" "length ([1, of_nat (length name)] :: bytes) = 2"
    using assms(1) by (simp_all add: creds_def)
  then obtain t where t: "io_recv 2 s = (int 2, [1, of_nat (length name)], t)" "ready k ((name @ [of_nat (length pass)]) @ (pass @ st)) t"
      "same_obj s t" "sent t = sent s"
    by (rule ready_recv)
  have "length (name @ [of_nat (length pass)]) = length name + 1" by simp
  with t(2) obtain u where u: "io_recv (length name + 1) t = (int (length name + 1), name @ [of_nat (length pass)], u)" "ready k (pass @ st) u"
      "same_obj t u" "sent u = sent t"
    by (rule ready_recv)
  obtain v where v: "io_recv (length pass) u = (int (length pass), pass, v)" "ready k st v" "same_obj u v" "sent v = sent u"
    using ready_recv [OF u(2) refl] by blast
  have so: "same_obj s v" using t(3) u(3) v(3) by (blast intro: same_obj_trans)
  note sv = same_obj_server [OF so]
  obtain A where A: "auth_nodes (authdb v) A" "m = auth_map (authdb v) A" using assms(3) sv(2) by (auto simp: auth_at_def)
  have "sobj v = OBJ_AUTH" using sv(1) assms(2) by simp
  from server_check_user_spec [OF this A(1), of name pass] obtain db j p where
    c: "server_check_user name pass v = Some (0, v\<lparr>authdb := db, auth_ref := j, sobj := OBJ_USER p\<rparr>)"
    using A(2) assms(4) by auto
  have "hev_socks5_server_read_auth_user s = Some (0, v\<lparr>authdb := db, auth_ref := j, sobj := OBJ_USER p\<rparr>)"
    using t(1) u(1) v(1) c assms(5-8) unat_length [of name] unat_length [of pass]
    by (simp add: hev_socks5_server_read_auth_user_def nth_append)
  then show ?thesis
    using that [of "v\<lparr>authdb := db, auth_ref := j, sobj := OBJ_USER p\<rparr>"] v(2,4) u(4) t(4) sv
    by (simp add: ready_cong [of "v\<lparr>authdb := db, auth_ref := j, sobj := OBJ_USER p\<rparr>" v])
qed

lemma server_auth_ready:
  assumes "ready (Suc (Suc k)) (methods_offer ms @ creds name pass @ st) s" "2 \<in> set ms" "length ms < 256"
    "sobj s = OBJ_AUTH" "auth_at (authdb s) m" "m name = Some pass"
    "name \<noteq> []" "length name < 256" "pass \<noteq> []" "length pass < 256"
  obtains s' where "hev_socks5_server_auth s = Some (0, s')" "ready k st s'" "sent s' = sent s @ [5, 2] @ [1, 0]"
    "socks s' = socks s" "opts s' = opts s" "conns s' = conns s" "addr_family s' = addr_family s"
proof -
  have wm: "wanted_method s = 2" using assms(4) by (simp add: wanted_method_def)
  obtain t where t: "hev_socks5_server_read_auth_method s = (uint (wanted_method s), t)" "ready (Suc (Suc k)) (creds name pass @ st) t"
      "same_obj s t" "sent t = sent s"
    using read_method_ready [OF assms(1) _ assms(3)] assms(2) wm by auto
  have "[5, 2] \<noteq> ([] :: bytes)" "length ([5, 2] :: bytes) \<le> 513" by simp_all
  with t(2) obtain u where u: "io_send [5, 2] t = (int (length ([5, 2] :: bytes)), u)" "ready (Suc k) (creds name pass @ st) u" "same_obj t u"
      "sent u = sent t @ [5, 2]"
    by (rule ready_send)
  have so: "same_obj s u" using t(3) u(3) by (rule same_obj_trans)
  note su = same_obj_server [OF so]
  have "sobj u = OBJ_AUTH" "auth_at (authdb u) m" using su(1,2) assms(4,5) by simp_all
  with u(2) obtain v where v: "hev_socks5_server_read_auth_user u = Some (0, v)" "ready (Suc k) st v" "sent v = sent u"
    "socks v = socks u" "opts v = opts u" "conns v = conns u" "addr_family v = addr_family u"
    using assms(6-10) by (rule read_user_ready)
  have "[1, 0] \<noteq> ([] :: bytes)" "length ([1, 0] :: bytes) \<le> 513" by simp_all
  with v(2) obtain w where w: "io_send [1, 0] v = (int (length ([1, 0] :: bytes)), w)" "ready k st w" "same_obj v w"
      "sent w = sent v @ [1, 0]"
    by (rule ready_send)
  have "hev_socks5_server_auth s = Some (0, w)"
    using t(1) wm u(1) v(1) w(1)
    by (simp add: hev_socks5_server_auth_def hev_socks5_server_write_auth_method_def hev_socks5_server_write_auth_user_def)
  then show ?thesis using that w(2,4) v u(4) t(4) su same_obj_server [OF w(3)] by simp
qed

lemma read_request_ready:
  assumes "ready k (req @ st) s" "request_bytes rs (rq_addr rq) (addr_family s) cmd sa req"
  obtains s' where "hev_socks5_server_read_request rs rq s = (0, rq\<lparr>rq_cmd := cmd, rq_addr := sa\<rparr>, s')" "ready k st s'" "sent s' = sent s"
    "socks s' = socks s" "opts s' = opts s" "conns s' = conns s"
proof -
  obtain rsv ty b buf f where r: "req = [5, cmd, rsv, ty, b] @ buf" "server_addrlen ty b = Some (length buf)"
     "hev_socks5_addr_into_sockaddr6 rs \<lparr>atype = ty, abody = mem_put (replicate 259 0) 0 (b # buf)\<rparr> (rq_addr rq) (addr_family s) = (0, sa, f)"
    using assms(2) by (auto simp: request_bytes_def)
  have "ready k ([5, cmd, rsv, ty, b] @ (buf @ st)) s" "length [5, cmd, rsv, ty, b] = 5" using assms(1) r(1) by simp_all
  then obtain t where t: "io_recv 5 s = (int 5, [5, cmd, rsv, ty, b], t)" "ready k (buf @ st) t" "same_obj s t" "sent t = sent s"
    by (rule ready_recv)
  obtain u where u: "io_recv (length buf) t = (int (length buf), buf, u)" "ready k st u" "same_obj t u" "sent u = sent t"
    using ready_recv [OF t(2) refl] by blast
  have so: "same_obj s u" using t(3) u(3) by (rule same_obj_trans)
  note su = same_obj_server [OF so]
  have "hev_socks5_server_read_request rs rq s = (0, rq\<lparr>rq_cmd := cmd, rq_addr := sa\<rparr>, hev_socks5_set_addr_family f u)"
    using t(1) u(1) r(2,3) su(9) by (simp add: hev_socks5_server_read_request_def hev_socks5_get_addr_family_def)
  moreover have "ready k st (hev_socks5_set_addr_family f u)" using u(2) by (simp add: ready_def hev_socks5_set_addr_family_def)
  ultimately show ?thesis
    using that u(4) t(4) su by (simp add: hev_socks5_set_addr_family_def)
qed

text \<open>The response to a served request: the reply code and the address, as IPv4 when it is a mapped one.\<close>

definition response_bytes :: "byte \<Rightarrow> sockaddr_in6 \<Rightarrow> bytes" where
  "response_bytes rep sa = [5, rep, 0] @
     (if is_v4mapped (sin6_addr sa) then [1] @ drop 12 (sin6_addr sa) else [4] @ sin6_addr sa) @ sin6_port sa"

lemma addr_from_sockaddr6_bytes:
  assumes "saddr_ok sa" "hev_socks5_addr_from_sockaddr6 \<lparr>atype = 0, abody = replicate 259 0\<rparr> sa = (n, a)"
  shows "[5, rep, 0] @ take (nat n) (addr_bytes a) = response_bytes rep sa"
proof -
  have len: "length (sin6_addr sa) = 16" "length (sin6_port sa) = 2" using assms(1) by (simp_all add: saddr_ok_def)
  show ?thesis
  proof (cases "is_v4mapped (sin6_addr sa)")
    case True
    then have "n = 7" "addr_bytes a = 1 # mem_put (mem_put (replicate 259 0) 4 (sin6_port sa)) 0 (drop 12 (sin6_addr sa))"
      using assms(2) len by (auto simp: hev_socks5_addr_from_sockaddr6_def addr_bytes_def mem_get_def)
    then show ?thesis using True len by (simp add: response_bytes_def mem_put_def)
  next
    case False
    then have "n = 19" "addr_bytes a = 4 # mem_put (mem_put (replicate 259 0) 16 (sin6_port sa)) 0 (sin6_addr sa)"
      using assms(2) len by (auto simp: hev_socks5_addr_from_sockaddr6_def addr_bytes_def)
    then show ?thesis using False len by (simp add: response_bytes_def mem_put_def)
  qed
qed

lemma write_response_ready:
  assumes "ready (Suc k) st s" "saddr_ok sa"
  obtains s' where "hev_socks5_server_write_response rep sa s = (0, s')" "ready k st s'" "sent s' = sent s @ response_bytes rep sa"
proof -
  obtain n a where a: "hev_socks5_addr_from_sockaddr6 \<lparr>atype = 0, abody = replicate 259 0\<rparr> sa = (n, a)" by force
  have len: "response_bytes rep sa \<noteq> []" "length (response_bytes rep sa) \<le> 513"
    using assms(2) by (simp_all add: response_bytes_def saddr_ok_def)
  from assms(1) len obtain t where t: "io_send (response_bytes rep sa) s = (int (length (response_bytes rep sa)), t)" "ready k st t"
      "sent t = sent s @ response_bytes rep sa"
    by (rule ready_send)
  have "hev_socks5_server_write_response rep sa s = (0, t)"
    using a t(1) addr_from_sockaddr6_bytes [OF assms(2) a, of rep] len(1)
    by (simp add: hev_socks5_server_write_response_def)
  then show ?thesis using that t(2,3) by simp
qed

lemma connect_ready:
  assumes "socks s = d # ds" "0 \<le> d" "opts s = []" "conns s = Connected # cs"
  shows "hev_socks5_server_connect m hev_socks5_bind sa s =
    (0, s\<lparr>socks := ds, open_fds := insert d (open_fds s), conns := cs, dialled := dialled s @ [(d, sa)],
        timeout := tcp_timeout m, fds0 := d\<rparr>)"
  using assms
  by (simp add: hev_socks5_server_connect_def hev_socks5_socket_def sys_opt_def hev_socks5_bind_def
      hev_task_io_socket_connect.simps hev_socks5_set_timeout_def hev_socks5_get_tcp_timeout_def)

text \<open>A connection request from a client with valid credentials is granted.\<close>

lemma server_handshake_ready:
  assumes "ready 3 (methods_offer ms @ creds name pass @ req @ rest) s" "2 \<in> set ms" "length ms < 256"
    "sobj s = OBJ_AUTH" "auth_at (authdb s) db" "db name = Some pass"
    "name \<noteq> []" "length name < 256" "pass \<noteq> []" "length pass < 256"
    and req: "request_bytes rs (rq_addr junk) (addr_family s) 1 sa req" "saddr_ok sa"
    and sys: "socks s = d # ds" "0 \<le> d" "opts s = []" "conns s = Connected # cs"
  shows "\<exists>s'. hev_socks5_server_handshake m rs hev_socks5_bind junk s = Some (0, s') \<and> stream (rx s') = rest \<and>
    sent s' = sent s @ [5, 2] @ [1, 0] @ response_bytes 0 sa"
proof -
  let ?s = "hev_socks5_set_timeout (hev_socks5_get_tcp_timeout m) s"
  have "ready (Suc (Suc 1)) (methods_offer ms @ creds name pass @ (req @ rest)) ?s"
    using assms(1) by (simp add: ready_def hev_socks5_set_timeout_def numeral_eq_Suc)
  moreover have "sobj ?s = OBJ_AUTH" "auth_at (authdb ?s) db" using assms(4,5) by (simp_all add: hev_socks5_set_timeout_def)
  ultimately obtain t where t: "hev_socks5_server_auth ?s = Some (0, t)" "ready 1 (req @ rest) t" "sent t = sent ?s @ [5, 2] @ [1, 0]"
    "socks t = socks ?s" "opts t = opts ?s" "conns t = conns ?s" "addr_family t = addr_family ?s"
    using assms(2,3,6-10) by (metis server_auth_ready)
  let ?j = "junk\<lparr>rq_rep := 0\<rparr>"
  have "request_bytes rs (rq_addr ?j) (addr_family t) 1 sa req" using req(1) t(7) by (simp add: hev_socks5_set_timeout_def)
  with t(2) obtain u where u: "hev_socks5_server_read_request rs ?j t = (0, ?j\<lparr>rq_cmd := 1, rq_addr := sa\<rparr>, u)" "ready 1 rest u"
      "sent u = sent t" "socks u = socks t" "opts u = opts t" "conns u = conns t"
    by (rule read_request_ready)
  have su: "socks u = d # ds" "opts u = []" "conns u = Connected # cs"
    using sys u t by (simp_all add: hev_socks5_set_timeout_def)
  let ?v = "u\<lparr>socks := ds, open_fds := insert d (open_fds u), conns := cs, dialled := dialled u @ [(d, sa)],
        timeout := tcp_timeout m, fds0 := d, stype := TYPE_TCP\<rparr>"
  have c: "server_command m hev_socks5_bind (?j\<lparr>rq_cmd := 1, rq_addr := sa\<rparr>) u = (?j\<lparr>rq_cmd := 1, rq_addr := sa\<rparr>, ?v)"
    using connect_ready [OF su(1) sys(2) su(2,3), of m sa] by (simp add: server_command_def)
  have "ready (Suc 0) rest ?v" using u(2) by (simp add: ready_def)
  then obtain w where w: "hev_socks5_server_write_response 0 sa ?v = (0, w)" "ready 0 rest w" "sent w = sent ?v @ response_bytes 0 sa"
    using req(2) by (rule write_response_ready)
  have "hev_socks5_server_handshake m rs hev_socks5_bind junk s = Some (0, w)"
    using t(1) u(1) c w(1) by (simp add: hev_socks5_server_handshake_def)
  moreover have "sent w = sent s @ [5, 2] @ [1, 0] @ response_bytes 0 sa"
    using w(3) u(3) t(3) by (simp add: hev_socks5_set_timeout_def)
  ultimately show ?thesis using w(2) by (auto simp: ready_def)
qed

section \<open>Properties\<close>

text \<open>
  C14. Nobody is served without authenticating. The handshake returns for every script of the system; when it returns
  zero, the client's stream began with the negotiation the configuration asks for (with a database: a method offer
  that includes user/password, and a registered name with its password) and a well-formed request, and the server
  holds the sockets of that command, connected to the requested address for CONNECT. In every case it owns exactly
  the descriptors in its fields beside those that were open.
\<close>

theorem server_handshake_safe:
  assumes "server_bind bnd" "server_db s db" "idle s"
  shows "\<exists>r s'. hev_socks5_server_handshake m rs bnd junk s = Some (r, s') \<and> fd s' = fd s \<and> owns (open_fds s) s' \<and>
    (r = - 1 \<or> r = 0 \<and> (\<exists>cmd saddr req. authenticated db (stream (rx s)) (req @ stream (rx s')) \<and>
      request_bytes rs (rq_addr junk) (addr_family s) cmd saddr req \<and> served cmd saddr s s'))"
  using server_bind.server_handshake_spec [OF assms, of m rs junk] by blast

definition demo_db :: HevSocks5Authenticator where
  "demo_db = snd (the (hev_socks5_authenticator_add 16 demo_auth))"

lemma demo_db_at: "auth_at demo_db [[117] \<mapsto> [112, 119]]"
proof -
  obtain s A where "hev_socks5_authenticator_add 16 demo_auth = Some (0, s)" "auth_nodes s A" "auth_map s A = [[117] \<mapsto> [112, 119]]"
    by (rule demo_auth_user)
  then show ?thesis by (auto simp: demo_db_def auth_at_def)
qed

text \<open>A server in front of a client that sends its whole side at once.\<close>

definition demo_server :: HevSocks5Server where
  "demo_server = \<lparr>rx = [Data ([5, 1, 2] @ [1, 1, 117, 2, 112, 119] @ [5, 1, 0, 1, 10, 0, 0, 9, 0, 80])], tx = replicate 3 (Accept 600),
     sent = [], conns = [Connected], dialled = [], socks = [9], opts = [], sleeps = [], mallocs = [], open_fds = {7},
     blocks = 1, eagain = False, drx = (\<lambda>_. []), dtx = (\<lambda>_. []), dsent = (\<lambda>_. []), fd = 7, timeout = 0, udp_associated = False, stype = TYPE_NONE, addr_family = FAMILY_UNSPEC,
     fds0 = - 1, fds1 = - 1, sobj = OBJ_AUTH, authdb = demo_db, auth_ref = 2, sock_names = []\<rparr>"

definition demo_junk :: request where
  "demo_junk = \<lparr>rq_cmd = 0, rq_rep = 0, rq_addr = \<lparr>sin6_port = [3, 3], sin6_addr = replicate 16 3\<rparr>\<rparr>"

lemma server_bind_default: "server_bind hev_socks5_bind"
  by unfold_locales

lemma demo_server_idle: "server_db demo_server (Some [[117] \<mapsto> [112, 119]])" "idle demo_server"
  using demo_db_at by (auto simp: demo_server_def server_db_def idle_def new_socks_def fresh_socks_def)

theorem server_handshake_safe_witness:
  "\<exists>r s'. hev_socks5_server_handshake misc_defaults no_resolver hev_socks5_bind demo_junk demo_server = Some (r, s') \<and> fd s' = 7 \<and>
    owns {7} s'"
  using server_handshake_safe [OF server_bind_default demo_server_idle, of misc_defaults no_resolver demo_junk]
  by (auto simp: demo_server_def)

lemma obj_unref_returns:
  assumes "server_db s db" "obj_kept s s'"
  obtains t where "obj_unref s' = Some t" "open_fds t = open_fds s'" "fd t = fd s'" "fds0 t = fds0 s'" "fds1 t = fds1 s'"
proof -
  have "\<exists>t. obj_unref s' = Some t \<and> open_fds t = open_fds s' \<and> fd t = fd s'"
  proof (cases "sobj s'")
    case OBJ_AUTH
    then obtain m where "auth_at (authdb s') m"
      using assms by (auto simp: obj_kept_def server_db_def split: option.splits)
    then obtain A where "auth_nodes (authdb s') A" by (auto simp: auth_at_def)
    from auth_clear_spec [OF this] show ?thesis
      using OBJ_AUTH by (auto simp: obj_unref_def auth_unref_def hev_socks5_authenticator_destruct_def)
  qed (auto simp: obj_unref_def)
  moreover have "fds0 t = fds0 s' \<and> fds1 t = fds1 s'" if "obj_unref s' = Some t" for t
    using that by (auto simp: obj_unref_def auth_unref_def split: server_obj.splits if_splits)
  ultimately show ?thesis using that by blast
qed



end
