(* ===== verification/Socks5UDP.thy ===== *)
theory Socks5UDP
  imports TaskIO
begin

text \<open>
  UDP relaying: \<^verbatim>\<open>core/src/hev-socks5-udp.c\<close>, over the datagram
  calls of \<^verbatim>\<open>hev-task-io-socket.c\<close>. In UDP-in-TCP mode datagrams are framed in the control stream, in UDP-in-UDP
  mode each carries a header. A message buffer is its memory with offsets for the address and the data; a read of
  an address that was never set, or of a message past the end of the vector, is the result \<open>None\<close>. The \<^verbatim>\<open>connect\<close> of
  a datagram socket, which does not wait, answers from the script of the socket options.
\<close>

section \<open>Datagram sockets\<close>

text \<open>
  The yielder of this file: in UDP-in-UDP mode the control connection is polled, and its end ends the relay.
\<close>

definition control_closed :: "'a HevSocks5_scheme \<Rightarrow> bool \<times> 'a HevSocks5_scheme" where
  "control_closed s =
     (case rx s of
        [] \<Rightarrow> (True, s)
      | RxFail # es \<Rightarrow> (True, s\<lparr>rx := es\<rparr>)
      | RxEof # es \<Rightarrow> (True, s)
      | RxBlock # es \<Rightarrow> (False, s\<lparr>rx := es\<rparr>)
      | Data bs # es \<Rightarrow>
          if bs = [] then (True, s)
          else (False, s\<lparr>rx := (if tl bs = [] then es else Data (tl bs) # es)\<rparr>))"

definition udp_task_io_yielder :: "HevTaskYieldType \<Rightarrow> 'a HevSocks5_scheme \<Rightarrow> int \<times> 'a HevSocks5_scheme" where
  "udp_task_io_yielder ty self =
     (if stype self = TYPE_UDP_IN_UDP then
        (case control_closed self of (c, self) \<Rightarrow>
           if c then (- 1, hev_socks5_set_timeout 0 self) else hev_socks5_task_io_yielder ty self)
      else hev_socks5_task_io_yielder ty self)"

lemma udp_yielder_fields:
  assumes "udp_task_io_yielder ty s = (r, s')"
  shows "drx s' = drx s" "dtx s' = dtx s" "dsent s' = dsent s" "tx s' = tx s" "sent s' = sent s" "blocks s' = blocks s"
    "stype s' = stype s" "udp_associated s' = udp_associated s" "addr_family s' = addr_family s"
  using assms
  by (auto simp: udp_task_io_yielder_def control_closed_def hev_socks5_task_io_yielder_def hev_task_sleep_def
      hev_socks5_set_timeout_def split: if_splits list.splits rx_event.splits prod.splits)

text \<open>\<^verbatim>\<open>hev_task_io_socket_recvmmsg\<close> without \<^verbatim>\<open>MSG_WAITALL\<close>: up to one datagram per buffer, each cut off at the
  length of its buffer.\<close>

function hev_task_io_socket_recvmmsg ::
    "int \<Rightarrow> nat list \<Rightarrow> bool \<Rightarrow> 'a HevSocks5_scheme \<Rightarrow> int \<times> (sockaddr_in6 \<times> bytes) list \<times> 'a HevSocks5_scheme" where
  "hev_task_io_socket_recvmmsg d lens dontwait s =
     (case drx s d of
        [] \<Rightarrow> (- 1, [], s\<lparr>eagain := False\<rparr>)
      | DFail # es \<Rightarrow> (- 1, [], s\<lparr>drx := (drx s)(d := es), eagain := False\<rparr>)
      | DBlock # es \<Rightarrow>
          if dontwait then (- 1, [], s\<lparr>drx := (drx s)(d := es), eagain := True\<rparr>)
          else
            (case udp_task_io_yielder HEV_TASK_WAITIO (s\<lparr>drx := (drx s)(d := es), eagain := True\<rparr>) of
               (y, s) \<Rightarrow> if y \<noteq> 0 then (- 2, [], s) else hev_task_io_socket_recvmmsg d lens dontwait s)
      | DBatch ms # es \<Rightarrow>
          let n = length lens
          in (int (length (take n ms)), map2 (\<lambda>l (a, b). (a, take l b)) lens (take n ms),
              s\<lparr>drx := (drx s)(d := (if length ms \<le> n then es else DBatch (drop n ms) # es))\<rparr>))"
  by pat_completeness auto
termination
  by (relation "measure (\<lambda>(d, lens, w, s). length (drx s d))") (auto dest: udp_yielder_fields(1) [OF sym])

declare hev_task_io_socket_recvmmsg.simps [simp del]

text \<open>\<^verbatim>\<open>hev_task_io_socket_sendmmsg\<close> with \<^verbatim>\<open>MSG_WAITALL\<close>: \<open>ms\<close> is what is left to send, \<open>c\<close> how many went out.\<close>

function hev_task_io_socket_sendmmsg ::
    "int \<Rightarrow> (sockaddr_in6 option \<times> bytes) list \<Rightarrow> nat \<Rightarrow> 'a HevSocks5_scheme \<Rightarrow> int \<times> 'a HevSocks5_scheme" where
  "hev_task_io_socket_sendmmsg d ms c s =
     (case dtx s d of
        [] \<Rightarrow> (if c > 0 then int c else - 1, s\<lparr>eagain := False\<rparr>)
      | DTxFail # es \<Rightarrow> (if c > 0 then int c else - 1, s\<lparr>dtx := (dtx s)(d := es), eagain := False\<rparr>)
      | DTxBlock # es \<Rightarrow>
          (case udp_task_io_yielder HEV_TASK_WAITIO (s\<lparr>dtx := (dtx s)(d := es), eagain := True\<rparr>) of
             (y, s) \<Rightarrow>
               if y \<noteq> 0 then (if c > 0 then int c else - 2, s)
               else hev_task_io_socket_sendmmsg d ms c s)
      | DAccept k # es \<Rightarrow>
          let r = min k (length ms);
              s = s\<lparr>dtx := (dtx s)(d := es), dsent := (dsent s)(d := dsent s d @ take r ms)\<rparr>
          in if r = 0 then (int c, s)
             else if r < length ms then hev_task_io_socket_sendmmsg d (drop r ms) (c + r) s
             else (int (c + r), s))"
  by pat_completeness auto
termination
  by (relation "measure (\<lambda>(d, ms, c, s). length (dtx s d))") (auto dest: udp_yielder_fields(2) [OF sym])

declare hev_task_io_socket_sendmmsg.simps [simp del]

section \<open>Sending\<close>

text \<open>A message to send: the address it carries and its bytes.\<close>

type_synonym send_msg = "HevSocks5Addr \<times> bytes"

text \<open>The three vectors of a message in the stream: data length, header length, address, data.\<close>

definition tcp_frame :: "send_msg \<Rightarrow> bytes list" where
  "tcp_frame m =
     (case m of (addr, data) \<Rightarrow>
        [le16 (htons (of_nat (length data))) @ [word_of_int (3 + hev_socks5_addr_len addr)],
         take (nat (hev_socks5_addr_len addr)) (addr_bytes addr), data])"

definition hev_socks5_udp_sendmmsg_tcp ::
    "send_msg list \<Rightarrow> 'a HevSocks5_scheme \<Rightarrow> int \<times> 'a HevSocks5_scheme" where
  "hev_socks5_udp_sendmmsg_tcp msgv self =
     (if \<exists>m\<in>set msgv. hev_socks5_addr_len (fst m) \<le> 0 then (- 1, self)
      else
        let (res, self) = io_sendmsg (concat (map tcp_frame msgv)) self
        in if res \<le> 0 then (- 1, self) else (int (length msgv), self))"

definition udp_packet :: "send_msg \<Rightarrow> bytes" where
  "udp_packet m =
     (case m of (addr, data) \<Rightarrow> [0, 0, 0] @ take (nat (hev_socks5_addr_len addr)) (addr_bytes addr) @ data)"

definition hev_socks5_udp_sendmmsg_udp ::
    "('a HevSocks5_scheme \<Rightarrow> int) \<Rightarrow> send_msg list \<Rightarrow> 'a HevSocks5_scheme \<Rightarrow> int \<times> 'a HevSocks5_scheme" where
  "hev_socks5_udp_sendmmsg_udp get_fd msgv self =
     (if \<exists>m\<in>set msgv. hev_socks5_addr_len (fst m) \<le> 0 then (- 1, self)
      else hev_task_io_socket_sendmmsg (get_fd self) (map (\<lambda>m. (None, udp_packet m)) msgv) 0 self)"

definition hev_socks5_udp_sendmmsg ::
    "('a HevSocks5_scheme \<Rightarrow> int) \<Rightarrow> send_msg list \<Rightarrow> 'a HevSocks5_scheme \<Rightarrow> int \<times> 'a HevSocks5_scheme" where
  "hev_socks5_udp_sendmmsg get_fd msgv self =
     (case stype self of
        TYPE_UDP_IN_TCP \<Rightarrow> hev_socks5_udp_sendmmsg_tcp msgv self
      | TYPE_UDP_IN_UDP \<Rightarrow> hev_socks5_udp_sendmmsg_udp get_fd msgv self
      | _ \<Rightarrow> (- 1, self))"

section \<open>Receiving\<close>

datatype addr_ref = AddrUnset | AddrNull | AddrAt nat

record HevSocks5UDPMsg =
  um_mem :: bytes
  um_addr :: addr_ref
  um_off :: nat
  um_len :: nat

text \<open>The address and the data a received message denotes.\<close>

definition mem_addr :: "bytes \<Rightarrow> nat \<Rightarrow> HevSocks5Addr" where
  "mem_addr mem off = \<lparr>atype = mem ! off, abody = drop (off + 1) mem\<rparr>"

definition um_data :: "HevSocks5UDPMsg \<Rightarrow> bytes" where
  "um_data m = mem_get (um_mem m) (um_off m) (um_len m)"

text \<open>The five header bytes, in one read or in two. The sum of the two results is what the code calls \<^verbatim>\<open>res\<close>.\<close>

definition recv_udp_head :: "bool \<Rightarrow> 'a HevSocks5_scheme \<Rightarrow> int \<times> bytes \<times> 'a HevSocks5_scheme" where
  "recv_udp_head nonblock self =
     (case hev_task_io_socket_recv 5 False nonblock [] self of (res, b, self) \<Rightarrow>
        if 0 < res \<and> res < 5 then
          (case hev_task_io_socket_recv (5 - nat res) True False [] self of (r2, b2, self) \<Rightarrow> (res + r2, b @ b2, self))
        else (res, b, self))"

text \<open>\<^verbatim>\<open>hev_task_io_socket_recvmsg\<close> into two adjacent regions: \<open>len\<close> bytes in all.\<close>

definition hev_task_io_socket_recvmsg :: "nat \<Rightarrow> 'a HevSocks5_scheme \<Rightarrow> int \<times> bytes \<times> 'a HevSocks5_scheme" where
  "hev_task_io_socket_recvmsg len self = hev_task_io_socket_recv len True False [] self"

text \<open>One turn of the loop: \<open>Inl r\<close> is \<^verbatim>\<open>return r\<close>, \<open>Inr None\<close> is \<^verbatim>\<open>break\<close>, \<open>Inr (Some m)\<close> a received message.\<close>

definition recv_tcp_step ::
    "bool \<Rightarrow> nat \<Rightarrow> HevSocks5UDPMsg \<Rightarrow> 'a HevSocks5_scheme \<Rightarrow>
      (int + HevSocks5UDPMsg option) \<times> HevSocks5UDPMsg \<times> 'a HevSocks5_scheme" where
  "recv_tcp_step nonblock rlen msg self =
     (case recv_udp_head nonblock self of (res, udp, self) \<Rightarrow>
        if res \<noteq> 5 then (if rlen > 0 then Inr None else Inl res, msg, self)
        else if unat (udp ! 2) < 5 then (Inl (- 1), msg, self)
        else
          let addrlen = unat (udp ! 2) - 3;
              datlen = unat (ntohs (of_le16 udp))
          in if int datlen > (int (um_len msg) - int addrlen) mod 2 ^ 64 then (Inl (- 1), msg, self)
             else
               case hev_task_io_socket_recvmsg (addrlen - 2 + datlen) self of (res, got, self) \<Rightarrow>
                 let msg = msg\<lparr>um_mem := mem_put (um_mem msg) 2 got\<rparr>
                 in if res \<noteq> int (addrlen - 2 + datlen) then (Inl res, msg, self)
                    else
                      let msg = msg\<lparr>um_mem := mem_put (um_mem msg) 0 [udp ! 3, udp ! 4],
                            um_addr := AddrAt 0, um_off := addrlen, um_len := datlen\<rparr>
                      in (Inr (Some msg), msg, self))"

fun recv_tcp_loop ::
    "bool \<Rightarrow> nat \<Rightarrow> HevSocks5UDPMsg list \<Rightarrow> 'a HevSocks5_scheme \<Rightarrow> int \<times> HevSocks5UDPMsg list \<times> 'a HevSocks5_scheme" where
  "recv_tcp_loop nonblock rlen [] self = (int rlen, [], self)"
| "recv_tcp_loop nonblock rlen (m # ms) self =
     (case recv_tcp_step nonblock rlen m self of
        (Inl r, m, self) \<Rightarrow> (r, m # ms, self)
      | (Inr None, m, self) \<Rightarrow> (int rlen, m # ms, self)
      | (Inr (Some _), m, self) \<Rightarrow>
          (case recv_tcp_loop nonblock (rlen + 1) ms self of (r, ms, self) \<Rightarrow> (r, m # ms, self)))"

definition hev_socks5_udp_recvmmsg_tcp ::
    "bool \<Rightarrow> HevSocks5UDPMsg list \<Rightarrow> 'a HevSocks5_scheme \<Rightarrow> int \<times> HevSocks5UDPMsg list \<times> 'a HevSocks5_scheme" where
  "hev_socks5_udp_recvmmsg_tcp nonblock msgv self = recv_tcp_loop nonblock 0 msgv self"

text \<open>The loop over the received datagrams, each given with its length: \<open>Inl\<close> is \<^verbatim>\<open>return -1\<close>, with what the
  message is then.\<close>

definition udp_parse1 :: "HevSocks5UDPMsg \<Rightarrow> nat \<Rightarrow> HevSocks5UDPMsg + HevSocks5UDPMsg" where
  "udp_parse1 m msg_len =
     (let addrlen = hev_socks5_addr_len (mem_addr (um_mem m) 3);
          m = m\<lparr>um_len := msg_len\<rparr>
      in if um_len m < 4 then Inr (m\<lparr>um_addr := AddrNull, um_len := 0\<rparr>)
         else if addrlen \<le> 0 then Inl m
         else
           let doff = 3 + addrlen
           in if doff > int (um_len m) then Inl m
              else Inr (m\<lparr>um_addr := AddrAt 3, um_off := um_off m + nat doff, um_len := um_len m - nat doff\<rparr>))"

fun udp_parse :: "HevSocks5UDPMsg list \<Rightarrow> nat list \<Rightarrow> bool \<times> HevSocks5UDPMsg list" where
  "udp_parse (m # ms) (n # ns) =
     (case udp_parse1 m n of
        Inl m \<Rightarrow> (False, m # ms)
      | Inr m \<Rightarrow> (case udp_parse ms ns of (ok, ms) \<Rightarrow> (ok, m # ms)))"
| "udp_parse ms _ = (True, ms)"

text \<open>The kernel copies the datagrams to the buffers.\<close>

fun dgrams_put :: "HevSocks5UDPMsg list \<Rightarrow> bytes list \<Rightarrow> HevSocks5UDPMsg list" where
  "dgrams_put (m # ms) (b # bs) = m\<lparr>um_mem := mem_put (um_mem m) 0 b\<rparr> # dgrams_put ms bs"
| "dgrams_put ms _ = ms"

definition hev_socks5_udp_recvmmsg_udp ::
    "('a HevSocks5_scheme \<Rightarrow> int) \<Rightarrow> bool \<Rightarrow> HevSocks5UDPMsg list \<Rightarrow> 'a HevSocks5_scheme \<Rightarrow>
      int \<times> HevSocks5UDPMsg list \<times> 'a HevSocks5_scheme" where
  "hev_socks5_udp_recvmmsg_udp get_fd nonblock msgv self =
     (case hev_task_io_socket_recvmmsg (get_fd self) (map um_len msgv) nonblock self of (res, got, self) \<Rightarrow>
        if res \<le> 0 then (res, msgv, self)
        else
          let msgv = dgrams_put msgv (map snd got);
              (ok, self) =
                (if udp_associated self then (True, self)
                 else
                   let (c, self) = sys_opt self
                   in if c < 0 then (False, self)
                      else (True, self\<lparr>udp_associated := True, dialled := dialled self @ [(get_fd self, fst (hd got))]\<rparr>))
          in if \<not> ok then (- 1, msgv, self)
             else
               case udp_parse msgv (map (length \<circ> snd) got) of
                 (ok, msgv) \<Rightarrow> (if ok then res else - 1, msgv, self))"

definition hev_socks5_udp_recvmmsg ::
    "('a HevSocks5_scheme \<Rightarrow> int) \<Rightarrow> bool \<Rightarrow> HevSocks5UDPMsg list \<Rightarrow> 'a HevSocks5_scheme \<Rightarrow>
      int \<times> HevSocks5UDPMsg list \<times> 'a HevSocks5_scheme" where
  "hev_socks5_udp_recvmmsg get_fd nonblock msgv self =
     (case stype self of
        TYPE_UDP_IN_TCP \<Rightarrow> hev_socks5_udp_recvmmsg_tcp nonblock msgv self
      | TYPE_UDP_IN_UDP \<Rightarrow> hev_socks5_udp_recvmmsg_udp get_fd nonblock msgv self
      | _ \<Rightarrow> (- 1, msgv, self))"

section \<open>Forwarding\<close>

abbreviation UDP_BUF_SIZE :: nat where "UDP_BUF_SIZE \<equiv> 1500"

definition fresh_msg :: "bytes \<Rightarrow> HevSocks5UDPMsg" where
  "fresh_msg region = \<lparr>um_mem = region, um_addr = AddrUnset, um_off = 0, um_len = UDP_BUF_SIZE\<rparr>"

text \<open>The destinations of the first \<open>res\<close> messages: outer \<open>None\<close> for a read of an unset address, \<open>Some None\<close> for
  \<^verbatim>\<open>return -1\<close>.\<close>

fun fwd_dests ::
    "resolver \<Rightarrow> HevSocks5AddrFamily \<Rightarrow> HevSocks5UDPMsg list \<Rightarrow> (sockaddr_in6 option \<times> bytes) list option option" where
  "fwd_dests rs family [] = Some (Some [])"
| "fwd_dests rs family (m # ms) =
     (if um_len m = 0 then Some None
      else
        case um_addr m of
          AddrUnset \<Rightarrow> None
        | AddrNull \<Rightarrow> Some None
        | AddrAt off \<Rightarrow>
            (case hev_socks5_addr_into_sockaddr6 rs (mem_addr (um_mem m) off) \<lparr>sin6_port = [0, 0], sin6_addr = replicate 16 0\<rparr> family of
               (ret, sa, _) \<Rightarrow>
                 if ret < 0 then Some None
                 else map_option (map_option (Cons (Some sa, um_data m))) (fwd_dests rs family ms)))"

text \<open>The last lines of both functions.\<close>

definition fwd_result :: "int \<Rightarrow> 'a HevSocks5_scheme \<Rightarrow> int" where
  "fwd_result res self = (if res \<le> 0 then (if res = - 1 \<and> eagain self then 0 else - 1) else 1)"

definition hev_socks5_udp_fwd_f ::
    "resolver \<Rightarrow> ('a HevSocks5_scheme \<Rightarrow> int) \<Rightarrow> 'a HevSocks5_scheme bind_fun \<Rightarrow> int \<Rightarrow> bytes list \<Rightarrow> bool \<Rightarrow> 'a HevSocks5_scheme \<Rightarrow>
      (int \<times> bytes list \<times> bool \<times> 'a HevSocks5_scheme) option" where
  "hev_socks5_udp_fwd_f rs get_fd bnd d bufs bound self =
     (case hev_socks5_udp_recvmmsg get_fd True (map fresh_msg bufs) self of (res, svec, self) \<Rightarrow>
        let bufs = map um_mem svec
        in if res \<le> 0 then Some (fwd_result res self, bufs, bound, self)
           else if nat res > length svec then None
           else
             case fwd_dests rs (hev_socks5_get_addr_family self) (take (nat res) svec) of
               None \<Rightarrow> None
             | Some None \<Rightarrow> Some (- 1, bufs, bound, self)
             | Some (Some dvec) \<Rightarrow>
                 let (ret, bound, self) =
                       (if bound then (0, True, self)
                        else let (ret, self) = bnd d (the (fst (hd dvec))) self in (ret, ret \<ge> 0, self))
                 in if ret < 0 then Some (- 1, bufs, bound, self)
                    else
                      let (res, self) = hev_task_io_socket_sendmmsg d dvec 0 self
                      in Some (fwd_result res self, bufs, bound, self))"

definition hev_socks5_udp_fwd_b ::
    "('a HevSocks5_scheme \<Rightarrow> int) \<Rightarrow> int \<Rightarrow> nat \<Rightarrow> 'a HevSocks5_scheme \<Rightarrow> int \<times> 'a HevSocks5_scheme" where
  "hev_socks5_udp_fwd_b get_fd d num self =
     (case hev_task_io_socket_recvmmsg d (replicate num UDP_BUF_SIZE) True self of (res, got, self) \<Rightarrow>
        if res \<le> 0 then (fwd_result res self, self)
        else
          let dvec = map (\<lambda>(a, b). (snd (hev_socks5_addr_from_sockaddr6 \<lparr>atype = 0, abody = replicate 18 0\<rparr> a), b)) got;
              (res, self) = hev_socks5_udp_sendmmsg get_fd dvec self
          in (fwd_result res self, self))"

partial_function (option) udp_splice_loop ::
    "resolver \<Rightarrow> ('a HevSocks5_scheme \<Rightarrow> int) \<Rightarrow> 'a HevSocks5_scheme bind_fun \<Rightarrow> int \<Rightarrow> nat \<Rightarrow> int \<Rightarrow> int \<Rightarrow> bytes list \<Rightarrow> bool \<Rightarrow>
      'a HevSocks5_scheme \<Rightarrow> 'a HevSocks5_scheme option" where
  "udp_splice_loop rs get_fd bnd d num res_f res_b bufs bound self =
     (case (if res_f \<ge> 0 then hev_socks5_udp_fwd_f rs get_fd bnd d bufs bound self else Some (res_f, bufs, bound, self)) of
        None \<Rightarrow> None
      | Some (res_f, bufs, bound, self) \<Rightarrow>
          (case (if res_b \<ge> 0 then hev_socks5_udp_fwd_b get_fd d num self else (res_b, self)) of (res_b, self) \<Rightarrow>
             if res_f > 0 \<or> res_b > 0 \<or> res_f AND res_b = 0 then
               (case udp_task_io_yielder (if res_f > 0 \<or> res_b > 0 then HEV_TASK_YIELD else HEV_TASK_WAITIO) self of (y, self) \<Rightarrow>
                  if y \<noteq> 0 then Some self else udp_splice_loop rs get_fd bnd d num res_f res_b bufs bound self)
             else Some self))"

definition hev_socks5_udp_splicer ::
    "HevSocks5Misc \<Rightarrow> resolver \<Rightarrow> ('a HevSocks5_scheme \<Rightarrow> int) \<Rightarrow> 'a HevSocks5_scheme bind_fun \<Rightarrow> int \<Rightarrow> 'a HevSocks5_scheme \<Rightarrow>
      (int \<times> 'a HevSocks5_scheme) option" where
  "hev_socks5_udp_splicer m rs get_fd bnd d self =
     (let num = nat (hev_socks5_get_udp_copy_buffer_nums m);
          (ok, self) = sys_malloc self
      in if \<not> ok then Some (- 1, self)
         else
           map_option (\<lambda>self. (0, sys_free self))
             (udp_splice_loop rs get_fd bnd d num 1 1 (replicate num (replicate UDP_BUF_SIZE 0)) False self))"

section \<open>Addresses in memory\<close>

lemma mem_get_take_eq:
  assumes "take k xs = take k ys" "i + n \<le> k"
  shows "mem_get xs i n = mem_get ys i n"
proof -
  have "mem_get zs i n = drop i (take (i + n) (take k zs))" for zs :: "'a list"
    using assms(2) by (simp add: mem_get_def take_drop min_def add.commute)
  then show ?thesis using assms(1) by metis
qed

lemma nth_take_eq: "take k xs = take k ys \<Longrightarrow> i < k \<Longrightarrow> xs ! i = ys ! i"
  by (metis nth_take)

text \<open>An address is determined by its first \<open>hev_socks5_addr_len\<close> bytes.\<close>

abbreviation alen :: "HevSocks5Addr \<Rightarrow> nat" where "alen a \<equiv> nat (hev_socks5_addr_len a)"

lemma alen_cases:
  assumes "0 < hev_socks5_addr_len a"
  obtains (ipv4) "atype a = 1" "alen a = 7" | (ipv6) "atype a = 4" "alen a = 19"
    | (name) "atype a = 3" "alen a = 4 + unat (domain_len a)"
proof -
  consider "atype a = 1" | "atype a = 4" | "atype a = 3" "atype a \<noteq> 1" "atype a \<noteq> 4"
    using assms by (simp add: hev_socks5_addr_len_def split: if_splits)
  then show ?thesis
  proof cases
    case 3
    then have "alen a = 4 + unat (domain_len a)"
      by (simp add: hev_socks5_addr_len_def unsigned_numeral nat_add_distrib flip: nat_uint_eq)
    with 3 show ?thesis using name by blast
  qed (use ipv4 ipv6 in \<open>simp_all add: hev_socks5_addr_len_def\<close>)
qed

lemma addr_prefix:
  assumes "0 < hev_socks5_addr_len a" "take (alen a) (addr_bytes b) = take (alen a) (addr_bytes a)"
  shows "hev_socks5_addr_len b = hev_socks5_addr_len a"
    "hev_socks5_addr_into_sockaddr6 rs b sa fam = hev_socks5_addr_into_sockaddr6 rs a sa fam"
proof -
  obtain k where k: "alen a = Suc k" "3 \<le> k"
    using that [of "alen a - 1"] by (cases rule: alen_cases [OF assms(1)]) auto
  have ty: "atype b = atype a" and body: "take k (abody b) = take k (abody a)"
    using assms(2) k by (simp_all add: addr_bytes_def)
  have get: "mem_get (abody b) i n = mem_get (abody a) i n" if "i + n \<le> k" for i n
    using mem_get_take_eq [OF body that] .
  have dl: "domain_len b = domain_len a" using nth_take_eq [OF body, of 0] k by (simp add: domain_len_def)
  then show "hev_socks5_addr_len b = hev_socks5_addr_len a" by (simp add: hev_socks5_addr_len_def ty)
  show "hev_socks5_addr_into_sockaddr6 rs b sa fam = hev_socks5_addr_into_sockaddr6 rs a sa fam"
    using assms(1)
  proof (cases rule: alen_cases)
    case name
    then have "k = 3 + unat (domain_len a)" using k by linarith
    then have "take (unat (domain_len a)) (domain_addr b) = take (unat (domain_len a)) (domain_addr a)"
      "mem_get (domain_addr b) (unat (domain_len a)) 2 = mem_get (domain_addr a) (unat (domain_len a)) 2"
      using get [of 1 "unat (domain_len a)"] get [of "1 + unat (domain_len a)" 2]
      by (simp_all add: domain_addr_def mem_get_def)
    then show ?thesis using name by (simp add: hev_socks5_addr_into_sockaddr6_def ty dl)
  qed (use k get ty in \<open>simp_all add: hev_socks5_addr_into_sockaddr6_def hev_socks5_ipv4_into_sockaddr6_def
      hev_socks5_ipv6_into_sockaddr6_def ipv4_addr_def ipv4_port_def ipv6_addr_def ipv6_port_def\<close>)
qed

text \<open>What can be sent and received: the length of the address fits the header byte, all of it a buffer.\<close>

definition sendable :: "send_msg \<Rightarrow> bool" where
  "sendable m \<longleftrightarrow> 0 < hev_socks5_addr_len (fst m) \<and> hev_socks5_addr_len (fst m) \<le> 252 \<and>
     alen (fst m) \<le> length (addr_bytes (fst m)) \<and>
     3 + alen (fst m) + length (snd m) \<le> UDP_BUF_SIZE"

text \<open>The message in a buffer is the one that was sent.\<close>

definition carries :: "send_msg \<Rightarrow> HevSocks5UDPMsg \<Rightarrow> bool" where
  "carries m msg \<longleftrightarrow> (\<exists>off. um_addr msg = AddrAt off \<and> off < length (um_mem msg) \<and>
     take (alen (fst m)) (addr_bytes (mem_addr (um_mem msg) off)) = take (alen (fst m)) (addr_bytes (fst m))) \<and>
     um_data msg = snd m \<and> um_len msg = length (snd m)"

definition buf_ok :: "HevSocks5UDPMsg \<Rightarrow> bool" where
  "buf_ok m \<longleftrightarrow> length (um_mem m) = UDP_BUF_SIZE \<and> um_len m = UDP_BUF_SIZE \<and> um_off m = 0 \<and> um_addr m = AddrUnset"

lemma buf_ok_fresh: "length b = UDP_BUF_SIZE \<Longrightarrow> buf_ok (fresh_msg b)"
  by (simp add: buf_ok_def fresh_msg_def)

lemma sendable_addr:
  assumes "sendable (a, d)"
  obtains x y A where "take (alen a) (addr_bytes a) = x # y # A" "alen a = length A + 2" "2 \<le> length A" "length A \<le> 250"
    "length A + length d + 5 \<le> UDP_BUF_SIZE"
proof -
  let ?A = "take (alen a) (addr_bytes a)"
  have "hev_socks5_addr_len a \<le> 252" using assms by (simp add: sendable_def)
  then have n: "4 \<le> alen a" "alen a \<le> 252"
    using assms alen_cases [of a "4 \<le> alen a"] by (simp_all add: sendable_def)
  then have len: "length ?A = alen a" using assms by (simp add: sendable_def)
  then obtain x y A where A: "?A = x # y # A" using n by (cases ?A; cases "tl ?A") auto
  have l: "alen a = length A + 2" using len A by (metis add_2_eq_Suc' length_Cons)
  moreover have "3 + alen a + length d \<le> UDP_BUF_SIZE" using assms by (simp add: sendable_def)
  ultimately show ?thesis using that [OF A l] n by linarith
qed

lemma mem_addr_bytes: "off < length mem \<Longrightarrow> addr_bytes (mem_addr mem off) = drop off mem"
  by (simp add: mem_addr_def addr_bytes_def Cons_nth_drop_Suc)

section \<open>Framing in the stream\<close>

lemma recv_head_flowing:
  assumes "flowing (rx s)" "stream (rx s) = h @ st" "length h = 5"
  shows "\<exists>es. recv_udp_head nb s = (5, h, s\<lparr>rx := es\<rparr>) \<and> flowing es \<and> stream es = st"
proof -
  obtain bs es where rx: "rx s = Data bs # es" "bs \<noteq> []" "flowing es"
    using assms by (cases "rx s") (auto simp: flowing_def)
  then have st: "bs @ stream es = h @ st" using assms(2) by simp
  show ?thesis
  proof (cases "5 \<le> length bs")
    case True
    then have h: "take 5 bs = h" "drop 5 bs @ stream es = st"
      using st assms(3) by (metis append_eq_append_conv_if append_take_drop_id append_eq_conv_conj append_assoc)+
    let ?es = "if length bs = 5 then es else Data (drop 5 bs) # es"
    have "recv_udp_head nb s = (5, h, s\<lparr>rx := ?es\<rparr>)"
      using True rx h by (simp add: recv_udp_head_def hev_task_io_socket_recv.simps [of 5 False] Let_def min_def)
    moreover have "flowing ?es" "stream ?es = st" using True rx h by (auto simp: flowing_def)
    ultimately show ?thesis by blast
  next
    case False
    let ?n = "5 - length bs" and ?s = "s\<lparr>rx := es\<rparr>"
    obtain h2 where h: "h = bs @ h2" "stream es = h2 @ st" "length h2 = ?n"
      using st False assms(3) by (auto simp: append_eq_append_conv2)
    have one: "hev_task_io_socket_recv 5 False nb [] s = (int (length bs), bs, ?s)"
      using False rx by (simp add: hev_task_io_socket_recv.simps [of 5 False] Let_def min_def)
    obtain fs where two: "hev_task_io_socket_recv ?n True False [] ?s = (int ?n, h2, ?s\<lparr>rx := fs\<rparr>)" "flowing fs" "stream fs = st"
      using recv_flowing [of ?s "[]" ?n] rx h by auto
    have "recv_udp_head nb s = (5, h, s\<lparr>rx := fs\<rparr>)"
      using False rx one two h by (simp add: recv_udp_head_def of_nat_diff)
    then show ?thesis using two by blast
  qed
qed

lemma recv_step_frame:
  assumes "flowing (rx s)" "stream (rx s) = concat (tcp_frame (a, d)) @ st" "sendable (a, d)" "buf_ok msg"
  shows "\<exists>es msg'. recv_tcp_step nb rlen msg s = (Inr (Some msg'), msg', s\<lparr>rx := es\<rparr>) \<and> flowing es \<and> stream es = st \<and>
    carries (a, d) msg' \<and> length (um_mem msg') = UDP_BUF_SIZE"
proof -
  obtain x y A where A: "take (alen a) (addr_bytes a) = x # y # A" "alen a = length A + 2" "2 \<le> length A" "length A \<le> 250"
    "length A + length d + 5 \<le> UDP_BUF_SIZE" using sendable_addr [OF assms(3)] .
  have al: "hev_socks5_addr_len a = int (length A) + 2" using A(2,3) by linarith
  let ?l = "le16 (htons (of_nat (length d)))" and ?hl = "5 + of_nat (length A) :: byte"
  define h where "h = ?l @ [?hl, x, y]"
  have hl: "unat ?hl = 5 + length A"
  proof -
    have "?hl = of_nat (5 + length A)" by simp
    then show ?thesis using A(4) by (simp only: unat_of_nat) (simp add: take_bit_nat_eq_self_iff)
  qed
  have nth: "unat (h ! 2) = 5 + length A" "h ! 3 = x" "h ! 4 = y" using hl by (simp_all add: h_def le16_def)
  have dl: "unat (ntohs (of_le16 h)) = length d"
    using A(5) by (simp add: h_def unat_of_nat take_bit_nat_eq_self_iff)
  have fr: "concat (tcp_frame (a, d)) = h @ A @ d" "length h = 5" using A(1) al by (simp_all add: tcp_frame_def h_def)
  obtain es where e: "recv_udp_head nb s = (5, h, s\<lparr>rx := es\<rparr>)" "flowing es" "stream es = (A @ d) @ st"
    using recv_head_flowing [OF assms(1), of h "A @ d @ st" nb] assms(2) fr by auto
  obtain fs where f: "hev_task_io_socket_recvmsg (length A + length d) (s\<lparr>rx := es\<rparr>) = (int (length A + length d), A @ d, s\<lparr>rx := fs\<rparr>)"
      "flowing fs" "stream fs = st"
    using recv_flowing [of "s\<lparr>rx := es\<rparr>" "[]" "length A + length d"] e by (auto simp: hev_task_io_socket_recvmsg_def)
  let ?mem = "mem_put (mem_put (um_mem msg) 2 (A @ d)) 0 [x, y]"
  let ?msg = "msg\<lparr>um_mem := ?mem, um_addr := AddrAt 0, um_off := length A + 2, um_len := length d\<rparr>"
  have b: "length (um_mem msg) = 1500" "um_len msg = 1500" using assms(4) by (simp_all add: buf_ok_def)
  have step: "recv_tcp_step nb rlen msg s = (Inr (Some ?msg), ?msg, s\<lparr>rx := fs\<rparr>)"
    using e(1) f(1) A(5) b(2) unfolding recv_tcp_step_def Let_def
    by (simp add: nth dl)
  obtain m0 m1 where m: "um_mem msg = m0 # m1 # drop 2 (um_mem msg)" using b(1)
    by (cases "um_mem msg"; cases "tl (um_mem msg)") auto
  have mem: "?mem = x # y # A @ d @ drop (2 + length A + length d) (um_mem msg)"
    by (subst (1) m) (simp add: mem_put_def)
  have "carries (a, d) ?msg"
    unfolding carries_def using b(1) A by (auto simp: mem mem_addr_bytes um_data_def mem_get_def)
  moreover have "length ?mem = 1500" using b(1) A(5) by simp
  ultimately show ?thesis using step f by (intro exI [of _ fs] exI [of _ ?msg]) simp
qed


lemma recv_loop_frames:
  assumes "flowing (rx s)" "stream (rx s) = concat (map (\<lambda>m. concat (tcp_frame m)) ms) @ st" "\<forall>m\<in>set ms. sendable m"
    "\<forall>m\<in>set bufs. buf_ok m" "length ms \<le> length bufs" "length ms = length bufs \<or> st = []" "0 < rlen + length ms"
  shows "\<exists>es e msgs. recv_tcp_loop nb rlen bufs s =
      (int (rlen + length ms), msgs @ drop (length ms) bufs, s\<lparr>rx := es, eagain := e\<rparr>) \<and>
    flowing es \<and> stream es = st \<and> list_all2 carries ms msgs"
  using assms
proof (induction ms arbitrary: rlen bufs s)
  case Nil
  have self: "s\<lparr>rx := rx s, eagain := eagain s\<rparr> = s" by simp
  show ?case
  proof (cases bufs)
    case Nil
    then show ?thesis using Nil.prems self by (intro exI [of _ "rx s"] exI [of _ "eagain s"]) simp
  next
    case (Cons b bs)
    then have "rx s = []" using Nil.prems by (cases "rx s") (auto simp: flowing_def)
    then have "recv_udp_head nb s = (- 1, [], s\<lparr>eagain := False\<rparr>)"
      by (simp add: recv_udp_head_def hev_task_io_socket_recv.simps recv_failed_def)
    then have "recv_tcp_step nb rlen b s = (Inr None, b, s\<lparr>eagain := False\<rparr>)"
      using Nil.prems by (simp add: recv_tcp_step_def)
    then show ?thesis using Cons Nil.prems \<open>rx s = []\<close>
      by (intro exI [of _ "[]"] exI [of _ False]) (simp add: flowing_def)
  qed
next
  case (Cons m ms)
  obtain b bs where b: "bufs = b # bs" using Cons.prems(5) by (cases bufs) auto
  obtain a d where m: "m = (a, d)" by force
  have "stream (rx s) = concat (tcp_frame (a, d)) @ (concat (map (\<lambda>m. concat (tcp_frame m)) ms) @ st)"
    "sendable (a, d)" "buf_ok b" using Cons.prems m b by simp_all
  from recv_step_frame [OF Cons.prems(1) this, of nb rlen] obtain es msg where
    e: "recv_tcp_step nb rlen b s = (Inr (Some msg), msg, s\<lparr>rx := es\<rparr>)" "flowing es"
      "stream es = concat (map (\<lambda>m. concat (tcp_frame m)) ms) @ st" "carries m msg" using m by blast
  have "\<exists>fs f msgs. recv_tcp_loop nb (rlen + 1) bs (s\<lparr>rx := es\<rparr>) =
      (int (rlen + 1 + length ms), msgs @ drop (length ms) bs, s\<lparr>rx := es, rx := fs, eagain := f\<rparr>) \<and>
    flowing fs \<and> stream fs = st \<and> list_all2 carries ms msgs"
    using Cons.prems b e by (intro Cons.IH) auto
  then obtain fs f msgs where f: "recv_tcp_loop nb (rlen + 1) bs (s\<lparr>rx := es\<rparr>) =
      (int (rlen + 1 + length ms), msgs @ drop (length ms) bs, s\<lparr>rx := fs, eagain := f\<rparr>)"
    "flowing fs" "stream fs = st" "list_all2 carries ms msgs" by auto
  then show ?case using b e
    by (intro exI [of _ fs] exI [of _ f] exI [of _ "msg # msgs"]) simp
qed

section \<open>Datagrams\<close>

lemma parse1_packet:
  assumes "sendable (a, d)" "buf_ok b"
  shows "\<exists>msg. udp_parse1 (b\<lparr>um_mem := mem_put (um_mem b) 0 (udp_packet (a, d))\<rparr>) (length (udp_packet (a, d))) = Inr msg \<and>
    carries (a, d) msg"
proof -
  obtain x y A where A: "take (alen a) (addr_bytes a) = x # y # A" "alen a = length A + 2" "2 \<le> length A" "length A \<le> 250"
    "length A + length d + 5 \<le> UDP_BUF_SIZE" using sendable_addr [OF assms(1)] .
  have al: "hev_socks5_addr_len a = int (length A) + 2" using A(2,3) by linarith
  let ?p = "udp_packet (a, d)"
  have p: "?p = [0, 0, 0, x, y] @ A @ d" using A(1) by (simp add: udp_packet_def)
  define mem where "mem = mem_put (um_mem b) 0 ?p"
  have mem: "mem = [0, 0, 0, x, y] @ A @ d @ drop (length ?p) (um_mem b)" by (simp add: mem_def mem_put_def p)
  have at: "addr_bytes (mem_addr mem 3) = x # y # A @ d @ drop (length ?p) (um_mem b)"
    using mem by (simp add: mem_addr_bytes)
  then have pre: "take (alen a) (addr_bytes (mem_addr mem 3)) = take (alen a) (addr_bytes a)" using A(1,2) by simp
  have len: "hev_socks5_addr_len (mem_addr mem 3) = int (length A) + 2"
    using addr_prefix(1) [OF _ pre] al by simp
  let ?msg = "b\<lparr>um_mem := mem, um_addr := AddrAt 3, um_off := length A + 5, um_len := length d\<rparr>"
  have "udp_parse1 (b\<lparr>um_mem := mem\<rparr>) (length ?p) = Inr ?msg"
    using assms(2) unfolding udp_parse1_def by (simp add: len p Let_def buf_ok_def nat_add_distrib)
  moreover have "carries (a, d) ?msg"
  proof -
    have "drop (length A + 5) mem = drop (length A) (drop 5 mem)" by simp
    then have "drop (length A + 5) mem = d @ drop (length ?p) (um_mem b)" by (simp add: mem)
    then show ?thesis unfolding carries_def using pre mem by (simp add: um_data_def mem_get_def)
  qed
  ultimately show ?thesis by (auto simp: mem_def)
qed

lemma parse_packets:
  assumes "\<forall>m\<in>set ms. sendable m" "\<forall>m\<in>set bufs. buf_ok m" "length ms \<le> length bufs"
  shows "\<exists>msgs. udp_parse (dgrams_put bufs (map udp_packet ms)) (map (\<lambda>m. length (udp_packet m)) ms) =
      (True, msgs @ drop (length ms) bufs) \<and> list_all2 carries ms msgs"
  using assms
proof (induction ms arbitrary: bufs)
  case Nil
  have "udp_parse bufs [] = (True, bufs)" "dgrams_put bufs [] = bufs" by (cases bufs; simp)+
  then show ?case by simp
next
  case (Cons m ms)
  obtain b bs where b: "bufs = b # bs" using Cons.prems(3) by (cases bufs) auto
  obtain msg where "udp_parse1 (b\<lparr>um_mem := mem_put (um_mem b) 0 (udp_packet m)\<rparr>) (length (udp_packet m)) = Inr msg" "carries m msg"
    using parse1_packet [of "fst m" "snd m" b] Cons.prems b by auto
  moreover obtain msgs where "udp_parse (dgrams_put bs (map udp_packet ms)) (map (\<lambda>m. length (udp_packet m)) ms) =
      (True, msgs @ drop (length ms) bs)" "list_all2 carries ms msgs"
    using Cons.IH [of bs] Cons.prems b by auto
  ultimately show ?case using b by (intro exI [of _ "msg # msgs"]) simp
qed

lemma sendmmsg_accept:
  assumes "dtx s d = DAccept k # es" "ms \<noteq> []" "length ms \<le> k"
  shows "hev_task_io_socket_sendmmsg d ms 0 s =
    (int (length ms), s\<lparr>dtx := (dtx s)(d := es), dsent := (dsent s)(d := dsent s d @ ms)\<rparr>)"
  using assms by (simp add: hev_task_io_socket_sendmmsg.simps min_def)

lemma recvmmsg_batch:
  assumes "drx s d = DBatch ms # es" "length ms \<le> length lens" "\<forall>n\<in>set lens. \<forall>m\<in>set ms. length (snd m) \<le> n"
  shows "hev_task_io_socket_recvmmsg d lens w s = (int (length ms), ms, s\<lparr>drx := (drx s)(d := es)\<rparr>)"
proof -
  have "map2 (\<lambda>l (a, b). (a, take l b)) lens ms = ms"
    using assms(2,3)
  proof (induction lens ms rule: list_induct2')
    case (4 l ls m ms)
    then show ?case by (cases m) auto
  qed auto
  then show ?thesis using assms(1,2) by (simp add: hev_task_io_socket_recvmmsg.simps Let_def)
qed

lemma length_udp_packet: "sendable m \<Longrightarrow> length (udp_packet m) \<le> UDP_BUF_SIZE"
  by (cases m) (auto simp: udp_packet_def sendable_def min_def)

text \<open>Receiving in UDP-in-UDP mode, with the peer known or to be connected to.\<close>

lemma recvmmsg_udp_packets:
  assumes "stype s = TYPE_UDP_IN_UDP" "drx s (get_fd s) = DBatch (map (\<lambda>m. (from, udp_packet m)) ms) # es"
    "\<forall>m\<in>set ms. sendable m" "\<forall>m\<in>set bufs. buf_ok m" "ms \<noteq> []" "length ms \<le> length bufs" "udp_associated s \<or> opts s = []"
  shows "\<exists>msgs s'. hev_socks5_udp_recvmmsg get_fd nb bufs s = (int (length ms), msgs @ drop (length ms) bufs, s') \<and>
    list_all2 carries ms msgs \<and> udp_associated s' \<and> dtx s' = dtx s \<and> dsent s' = dsent s \<and> opts s' = opts s \<and> addr_family s' = addr_family s"
proof -
  let ?got = "map (\<lambda>m. (from, udp_packet m)) ms"
  let ?s = "s\<lparr>drx := (drx s)(get_fd s := es)\<rparr>"
  have "\<forall>n\<in>set (map um_len bufs). \<forall>m\<in>set ?got. length (snd m) \<le> n"
    using assms(3,4) by (auto simp: buf_ok_def dest!: length_udp_packet)
  then have r: "hev_task_io_socket_recvmmsg (get_fd s) (map um_len bufs) nb s = (int (length ms), ?got, ?s)"
    using recvmmsg_batch [OF assms(2), of "map um_len bufs" nb] assms(6) by simp
  obtain msgs where m: "udp_parse (dgrams_put bufs (map udp_packet ms)) (map (\<lambda>m. length (udp_packet m)) ms) =
      (True, msgs @ drop (length ms) bufs)" "list_all2 carries ms msgs"
    using parse_packets [OF assms(3,4,6)] by blast
  have o: "map snd ?got = map udp_packet ms" "map (length \<circ> snd) ?got = map (\<lambda>m. length (udp_packet m)) ms" by simp_all
  show ?thesis
    using assms(1,5,7) m r unfolding hev_socks5_udp_recvmmsg_def hev_socks5_udp_recvmmsg_udp_def
    by (auto simp: o sys_opt_def Let_def simp del: map_map)
qed


text \<open>Receiving in UDP-in-TCP mode: a full batch, or all that is there.\<close>

lemma recvmmsg_tcp_frames:
  assumes "stype s = TYPE_UDP_IN_TCP" "flowing (rx s)" "stream (rx s) = concat (map (\<lambda>m. concat (tcp_frame m)) ms) @ st"
    "\<forall>m\<in>set ms. sendable m" "\<forall>m\<in>set bufs. buf_ok m" "ms \<noteq> []" "length ms \<le> length bufs"
    "length ms = length bufs \<or> st = []"
  shows "\<exists>msgs es e. hev_socks5_udp_recvmmsg get_fd nb bufs s =
      (int (length ms), msgs @ drop (length ms) bufs, s\<lparr>rx := es, eagain := e\<rparr>) \<and>
    flowing es \<and> stream es = st \<and> list_all2 carries ms msgs"
  using recv_loop_frames [OF assms(2-5,7,8), of 0 nb] assms(1,6)
  by (auto simp: hev_socks5_udp_recvmmsg_def hev_socks5_udp_recvmmsg_tcp_def)

section \<open>Forwarding a batch\<close>

text \<open>The destination of a message and its data, as the relay sends them on.\<close>

definition no_saddr :: sockaddr_in6 where
  "no_saddr = \<lparr>sin6_port = [0, 0], sin6_addr = replicate 16 0\<rparr>"

definition dest_of :: "resolver \<Rightarrow> HevSocks5AddrFamily \<Rightarrow> send_msg \<Rightarrow> sockaddr_in6 option \<times> bytes" where
  "dest_of rs fam m = (Some (fst (snd (hev_socks5_addr_into_sockaddr6 rs (fst m) no_saddr fam))), snd m)"

definition forwardable :: "resolver \<Rightarrow> HevSocks5AddrFamily \<Rightarrow> send_msg \<Rightarrow> bool" where
  "forwardable rs fam m \<longleftrightarrow> snd m \<noteq> [] \<and> sendable m \<and> 0 \<le> fst (hev_socks5_addr_into_sockaddr6 rs (fst m) no_saddr fam)"

lemma fwd_dests_carries:
  assumes "list_all2 carries ms msgs" "\<forall>m\<in>set ms. forwardable rs fam m"
  shows "fwd_dests rs fam msgs = Some (Some (map (dest_of rs fam) ms))"
  using assms
proof (induction ms msgs rule: list_all2_induct)
  case (Cons m ms msg msgs)
  obtain off where off: "um_addr msg = AddrAt off"
      "take (alen (fst m)) (addr_bytes (mem_addr (um_mem msg) off)) = take (alen (fst m)) (addr_bytes (fst m))"
    and d: "um_data msg = snd m" "um_len msg = length (snd m)"
    using Cons.hyps(1) by (auto simp: carries_def)
  have "0 < hev_socks5_addr_len (fst m)" using Cons.prems by (simp add: forwardable_def sendable_def)
  note into = addr_prefix(2) [OF this off(2), of rs no_saddr fam]
  have m: "snd m \<noteq> []" "0 \<le> fst (hev_socks5_addr_into_sockaddr6 rs (fst m) no_saddr fam)"
    using Cons.prems by (simp_all add: forwardable_def)
  show ?case
    using Cons.IH Cons.prems off(1) d m into
    by (cases "hev_socks5_addr_into_sockaddr6 rs (fst m) no_saddr fam") (simp add: dest_of_def flip: no_saddr_def)
qed simp

lemma fwd_f_batch:
  assumes "hev_socks5_udp_recvmmsg get_fd True (map fresh_msg bufs) s = (int (length ms), msgs @ rest, s1)"
    "list_all2 carries ms msgs" "\<forall>m\<in>set ms. forwardable rs (addr_family s1) m" "ms \<noteq> []"
    "dtx s1 d = DAccept k # es" "length ms \<le> k" "bind_hook bnd" "\<forall>sa t. 0 \<le> fst (bnd d sa t)"
  shows "\<exists>bufs' s'. hev_socks5_udp_fwd_f rs get_fd bnd d bufs bound s = Some (1, bufs', True, s') \<and>
    dsent s' d = dsent s1 d @ map (dest_of rs (addr_family s1)) ms"
proof -
  have len: "length msgs = length ms" using assms(2) by (simp add: list_all2_lengthD)
  let ?dv = "map (dest_of rs (addr_family s1)) ms"
  have dests: "fwd_dests rs (addr_family s1) msgs = Some (Some ?dv)" using fwd_dests_carries [OF assms(2,3)] .
  have acc: "hev_task_io_socket_sendmmsg d ?dv 0 t =
      (int (length ms), t\<lparr>dtx := (dtx t)(d := es), dsent := (dsent t)(d := dsent t d @ ?dv)\<rparr>)"
    if "dtx t = dtx s1" for t using sendmmsg_accept [of t d k es ?dv] assms(4-6) that by simp
  obtain r t os where b: "bnd d (the (fst (hd ?dv))) s1 = (r, t)" "0 \<le> r" "t = s1\<lparr>opts := os\<rparr>"
    using bind_hook.bnd_frame [OF assms(7), of d "the (fst (hd ?dv))" s1] assms(8) by (metis prod.collapse)
  show ?thesis
  proof (cases bound)
    case True
    then show ?thesis using assms(1,4) len dests acc [of s1]
      by (simp add: hev_socks5_udp_fwd_f_def Let_def hev_socks5_get_addr_family_def fwd_result_def)
  next
    case False
    then show ?thesis using assms(1,4) len dests acc [of t] b
      by (simp add: hev_socks5_udp_fwd_f_def Let_def hev_socks5_get_addr_family_def fwd_result_def)
  qed
qed

section \<open>Whatever the peer sends\<close>

lemma recv_bounded:
  assumes "hev_task_io_socket_recv len w dw buf s = (r, buf', s')" "length buf \<le> len"
  shows "length buf' \<le> len \<and> rx_only s s' \<and> r \<le> int len"
  using assms
proof (induction len w dw buf s arbitrary: r buf' s' rule: hev_task_io_socket_recv.induct)
  case (1 len w dw buf s)
  note unfold = hev_task_io_socket_recv.simps [of len w dw buf s]
  show ?case
  proof (cases "len \<le> length buf \<or> rx s = []")
    case True
    with "1.prems" show ?thesis by (auto simp: unfold recv_failed_def rx_only_def split: if_splits)
  next
    case False
    then obtain e es where e: "\<not> len \<le> length buf" "rx s = e # es" by (cases "rx s") auto
    show ?thesis
    proof (cases e)
      case RxBlock
      obtain y s1 where y: "hev_socks5_task_io_yielder HEV_TASK_WAITIO (s\<lparr>rx := es, eagain := True\<rparr>) = (y, s1)" by force
      have n: "rx_norm s1 = rx_norm s" using yielder_norm(1) [OF y] by simp
      show ?thesis
      proof (cases "\<not> dw \<and> y = 0")
        case True
        then have "hev_task_io_socket_recv len w dw buf s1 = (r, buf', s')" using "1.prems" e RxBlock y
          by (simp add: hev_task_io_socket_recv.simps [of len w False buf s])
        with "1.IH"(2) [OF e RxBlock _ y [symmetric]] True n "1.prems"(2) show ?thesis by (auto simp: rx_only_def)
      next
        case False
        with "1.prems" e RxBlock y n show ?thesis by (auto simp: unfold recv_failed_def rx_only_def split: if_splits)
      qed
    next
      case (Data bs)
      define n where "n = min (len - length buf) (length bs)"
      define t where "t = s\<lparr>rx := (if length bs = n then es else Data (drop n bs) # es)\<rparr>"
      define buf1 where "buf1 = buf @ take n bs"
      have l: "length buf1 \<le> len" "int n \<le> int len" using "1.prems"(2) by (simp_all add: buf1_def n_def)
      have t: "rx_only t u = rx_only s u" for u by (simp add: t_def rx_only_def)
      have st: "hev_task_io_socket_recv len w dw buf s =
          (if \<not> w then (int n, buf1, t) else if n = 0 then (int (length buf), buf, t)
           else if length buf1 < len then hev_task_io_socket_recv len w dw buf1 t else (int (length buf1), buf1, t))"
        unfolding unfold e(2) Data list.case rx_event.case Let_def n_def [symmetric] t_def [symmetric] buf1_def [symmetric]
        using e(1) by simp
      show ?thesis
      proof (cases "w \<and> n \<noteq> 0 \<and> length buf1 < len")
        case True
        have "hev_task_io_socket_recv len w dw buf1 t = (r, buf', s')" using "1.prems"(1) True unfolding st by simp
        with "1.IH"(1) [OF e Data n_def t_def buf1_def] True l show ?thesis by (simp add: t)
      next
        case False
        have "rx_only s t" by (simp add: t_def rx_only_def)
        with "1.prems" False l show ?thesis unfolding st by (auto split: if_splits)
      qed
    qed (use "1.prems" e in \<open>auto simp: unfold recv_failed_def rx_only_def split: if_splits\<close>)
  qed
qed


text \<open>What the relay leaves alone.\<close>

definition keeps :: "'a HevSocks5_scheme \<Rightarrow> 'a HevSocks5_scheme \<Rightarrow> bool" where
  "keeps s s' \<longleftrightarrow> blocks s' = blocks s \<and> mallocs s' = mallocs s \<and> open_fds s' = open_fds s \<and> fd s' = fd s \<and>
     stype s' = stype s \<and> addr_family s' = addr_family s \<and> HevSocks5.more s' = HevSocks5.more s"

lemma keeps_refl [simp]: "keeps s s"
  by (simp add: keeps_def)

lemma keeps_trans: "keeps s t \<Longrightarrow> keeps t u \<Longrightarrow> keeps s u"
  by (simp add: keeps_def)

lemma keeps_updates [simp]:
  "keeps s (t\<lparr>rx := a\<rparr>) = keeps s t" "keeps s (t\<lparr>drx := b\<rparr>) = keeps s t" "keeps s (t\<lparr>dtx := c\<rparr>) = keeps s t"
  "keeps s (t\<lparr>dsent := e\<rparr>) = keeps s t" "keeps s (t\<lparr>eagain := f\<rparr>) = keeps s t" "keeps s (t\<lparr>opts := g\<rparr>) = keeps s t"
  "keeps s (t\<lparr>sleeps := h\<rparr>) = keeps s t" "keeps s (t\<lparr>timeout := i\<rparr>) = keeps s t"
  "keeps s (t\<lparr>udp_associated := j\<rparr>) = keeps s t" "keeps s (t\<lparr>dialled := k\<rparr>) = keeps s t"
  "keeps (s\<lparr>drx := b\<rparr>) t = keeps s t" "keeps (s\<lparr>dtx := c\<rparr>) t = keeps s t" "keeps (s\<lparr>dsent := e\<rparr>) t = keeps s t"
  "keeps (s\<lparr>eagain := f\<rparr>) t = keeps s t"
  by (simp_all add: keeps_def)

lemma rx_only_keeps: "rx_only s s' \<Longrightarrow> keeps s s'"
  by (simp add: keeps_def rx_only_fields)

lemma tx_only_keeps: "tx_only s s' bs \<Longrightarrow> keeps s s'"
  by (simp add: keeps_def tx_only_fields)

lemma udp_yielder_keeps:
  assumes "udp_task_io_yielder ty s = (r, s')"
  shows "keeps s s'"
  using assms
  by (auto simp: udp_task_io_yielder_def control_closed_def hev_socks5_task_io_yielder_def hev_task_sleep_def
      hev_socks5_set_timeout_def keeps_def split: if_splits list.splits rx_event.splits prod.splits)

text \<open>What a datagram script still holds; every read that does not fail takes something off it.\<close>

fun dweight :: "drx_event list \<Rightarrow> nat" where
  "dweight [] = 0"
| "dweight (DBatch ms # es) = Suc (length ms) + dweight es"
| "dweight (_ # es) = Suc (dweight es)"

lemma recvmmsg_spec:
  assumes "hev_task_io_socket_recvmmsg d lens w s = (r, got, s')"
  shows "keeps s s' \<and> (0 \<le> r \<longrightarrow> r = int (length got)) \<and> length got \<le> length lens \<and>
    (\<forall>i<length got. length (snd (got ! i)) \<le> lens ! i) \<and>
    (\<forall>d'. dweight (drx s' d') \<le> dweight (drx s d')) \<and>
    (0 < r \<or> r = - 1 \<and> eagain s' \<longrightarrow> dweight (drx s' d) < dweight (drx s d)) \<and> udp_associated s' = udp_associated s"
  using assms
proof (induction d lens w s arbitrary: r got s' rule: hev_task_io_socket_recvmmsg.induct)
  case (1 d lens w s)
  note unfold = hev_task_io_socket_recvmmsg.simps [of d lens w s]
  show ?case
  proof (cases "drx s d")
    case Nil
    with "1.prems" show ?thesis by (auto simp: unfold)
  next
    case (Cons e es)
    show ?thesis
    proof (cases e)
      case DBlock
      let ?s = "s\<lparr>drx := (drx s)(d := es), eagain := True\<rparr>"
      obtain y s1 where y: "udp_task_io_yielder HEV_TASK_WAITIO ?s = (y, s1)" by force
      note f = udp_yielder_fields [OF y] udp_yielder_keeps [OF y]
      show ?thesis
      proof (cases "\<not> w \<and> y = 0")
        case True
        then have "hev_task_io_socket_recvmmsg d lens w s1 = (r, got, s')"
          using "1.prems" Cons DBlock y by (simp add: hev_task_io_socket_recvmmsg.simps [of d lens False s])
        note ih = "1.IH" [OF Cons DBlock _ y [symmetric] _ this]
        have le: "dweight (drx s1 d') \<le> dweight (drx s d')" for d' using f(1) Cons DBlock by simp
        have "keeps s s'" using ih True f by (auto intro: keeps_trans)
        moreover have "\<forall>d'. dweight (drx s' d') \<le> dweight (drx s d')" using ih True le by (meson order_trans)
        moreover have "0 < r \<or> r = - 1 \<and> eagain s' \<longrightarrow> dweight (drx s' d) < dweight (drx s d)"
          using ih True le [of d] by (meson order_less_le_trans)
        ultimately show ?thesis using ih True f(8) by simp
      next
        case False
        with "1.prems" Cons DBlock y f show ?thesis by (auto simp: unfold split: if_splits)
      qed
    next
      case (DBatch ms)
      let ?n = "length lens"
      have g: "r = int (min ?n (length ms))" "got = map2 (\<lambda>l m. (fst m, take l (snd m))) lens (take ?n ms)"
          "s' = s\<lparr>drx := (drx s)(d := (if length ms \<le> ?n then es else DBatch (drop ?n ms) # es))\<rparr>"
        using "1.prems" Cons DBatch by (auto simp: unfold Let_def min_def case_prod_beta)
      have "length got = min ?n (length ms)" using g(2) by simp
      moreover have "length (snd (got ! i)) \<le> lens ! i" if "i < length got" for i using that g(2) by simp
      moreover have "dweight (drx s' d') \<le> dweight (drx s d')" for d' using g(3) Cons DBatch by auto
      moreover have "dweight (drx s' d) < dweight (drx s d)" if "0 < r" using g(1,3) Cons DBatch that by auto
      moreover have "keeps s s'" "udp_associated s' = udp_associated s" "r \<noteq> - 1" using g by simp_all
      ultimately show ?thesis using g(1) by simp
    qed (use "1.prems" Cons in \<open>auto simp: unfold\<close>)
  qed
qed

lemma sendmmsg_spec:
  assumes "hev_task_io_socket_sendmmsg d ms c s = (r, s')"
  shows "keeps s s' \<and> drx s' = drx s"
  using assms
proof (induction d ms c s arbitrary: r s' rule: hev_task_io_socket_sendmmsg.induct)
  case (1 d ms c s)
  note unfold = hev_task_io_socket_sendmmsg.simps [of d ms c s]
  show ?case
  proof (cases "dtx s d")
    case Nil
    with "1.prems" show ?thesis by (auto simp: unfold)
  next
    case (Cons e es)
    show ?thesis
    proof (cases e)
      case DTxBlock
      obtain y s1 where y: "udp_task_io_yielder HEV_TASK_WAITIO (s\<lparr>dtx := (dtx s)(d := es), eagain := True\<rparr>) = (y, s1)" by force
      note f = udp_yielder_fields [OF y] udp_yielder_keeps [OF y]
      show ?thesis
      proof (cases "y = 0")
        case True
        then have "hev_task_io_socket_sendmmsg d ms c s1 = (r, s')" using "1.prems" Cons DTxBlock y by (simp add: unfold)
        from "1.IH"(2) [OF Cons DTxBlock y [symmetric] _ this] True f show ?thesis by (auto intro: keeps_trans)
      next
        case False
        with "1.prems" Cons DTxBlock y f show ?thesis by (auto simp: unfold split: if_splits)
      qed
    next
      case (DAccept k)
      show ?thesis
      proof (cases "min k (length ms) \<noteq> 0 \<and> min k (length ms) < length ms")
        case True
        with "1.prems" Cons DAccept "1.IH"(1) [OF Cons DAccept refl refl] show ?thesis
          by (auto simp: unfold Let_def)
      next
        case False
        with "1.prems" Cons DAccept show ?thesis by (auto simp: unfold Let_def split: if_splits)
      qed
    qed (use "1.prems" Cons in \<open>auto simp: unfold\<close>)
  qed
qed

end
