(* ===== verification/Socks5UDPOk.thy ===== *)
theory Socks5UDPOk
  imports Socks5UDP Socks5Client Socks5Server
begin

text \<open>
  The properties of the UDP relay: nothing a peer sends makes a read leave its buffer, messages survive both
  framings, the relay sends each on to its destination, and it gives back its buffer when it ends.
\<close>

section \<open>The descriptor hook\<close>

text \<open>The virtual function for the descriptor the datagrams travel on: it depends on the fields the relay leaves
  alone.\<close>

locale udp_hook =
  fixes get_fd :: "'a HevSocks5_scheme \<Rightarrow> int"
  assumes get_fd_keeps: "keeps s s' \<Longrightarrow> get_fd s' = get_fd s"

lemma keeps_fields:
  assumes "keeps s s'"
  shows "fd s' = fd s" "stype s' = stype s" "HevSocks5.more s' = HevSocks5.more s" "addr_family s' = addr_family s"
  using assms by (simp_all add: keeps_def)

lemma client_udp_fd_keeps: "keeps s s' \<Longrightarrow> udp_fd s' = udp_fd (s :: 'a HevSocks5Client_scheme)"
  by (cases s; cases s') (simp add: keeps_def)

lemma server_fds1_keeps: "keeps s s' \<Longrightarrow> fds1 s' = fds1 (s :: 'a HevSocks5Server_scheme)"
  by (cases s; cases s') (simp add: keeps_def)

interpretation client_fd: udp_hook hev_socks5_client_udp_get_fd
  by unfold_locales (auto simp: hev_socks5_client_udp_get_fd_def keeps_fields(2) split: HevSocks5Type.split dest: keeps_fields(1) client_udp_fd_keeps)

interpretation server_fd: udp_hook hev_socks5_server_get_fd
  by unfold_locales (auto simp: hev_socks5_server_get_fd_def keeps_fields(2) split: HevSocks5Type.split dest: keeps_fields(1) server_fds1_keeps)

section \<open>Memory safety\<close>

definition msg_ok :: "HevSocks5UDPMsg \<Rightarrow> bool" where
  "msg_ok m \<longleftrightarrow> length (um_mem m) = UDP_BUF_SIZE \<and>
     (case um_addr m of
        AddrUnset \<Rightarrow> True
      | AddrNull \<Rightarrow> um_len m = 0
      | AddrAt off \<Rightarrow> off < um_off m \<and> um_off m + um_len m \<le> UDP_BUF_SIZE)"

lemma buf_ok_msg_ok: "buf_ok m \<Longrightarrow> msg_ok m"
  by (simp add: buf_ok_def msg_ok_def)

lemma recv_head_only:
  assumes "recv_udp_head nb s = (r, h, s')"
  shows "rx_only s s'"
proof -
  obtain r1 b1 s1 where one: "hev_task_io_socket_recv 5 False nb [] s = (r1, b1, s1)" by (metis prod_cases3)
  obtain r2 b2 s2 where two: "hev_task_io_socket_recv (5 - nat r1) True False [] s1 = (r2, b2, s2)" by (metis prod_cases3)
  have "rx_only s s1" "rx_only s1 s2" using recv_bounded [OF one] recv_bounded [OF two] by simp_all
  then show ?thesis using assms one two by (auto simp: recv_udp_head_def rx_only_def split: if_splits)
qed

lemma recv_step_safe:
  assumes "recv_tcp_step nb rlen m s = (out, m', s')" "buf_ok m"
  shows "msg_ok m' \<and> rx_only s s'"
proof -
  obtain r h s1 where h: "recv_udp_head nb s = (r, h, s1)" by (metis prod_cases3)
  note s1 = recv_head_only [OF h]
  have m: "length (um_mem m) = 1500" "um_len m = 1500" "um_addr m = AddrUnset" using assms(2) by (simp_all add: buf_ok_def)
  define al where "al = unat (h ! 2) - 3"
  define dl where "dl = unat (ntohs (of_le16 h))"
  have "unat (h ! 2) < 2 ^ 8" using unsigned_less [of "h ! 2"] by simp
  then have al: "al \<le> 252" by (simp add: al_def)
  then have md: "(1500 - int al) mod 2 ^ 64 = int (1500 - al)" by simp
  obtain r2 got s2 where g: "hev_task_io_socket_recvmsg (al - 2 + dl) s1 = (r2, got, s2)" by (metis prod_cases3)
  have got: "length got \<le> al - 2 + dl" "rx_only s1 s2"
    using recv_bounded [OF g [unfolded hev_task_io_socket_recvmsg_def]] by simp_all
  have mo: "msg_ok m" using assms(2) by (rule buf_ok_msg_ok)
  note st = assms(1) [unfolded recv_tcp_step_def h prod.case Let_def al_def [symmetric] dl_def [symmetric] m(2)
      of_nat_numeral md g]
  consider "r \<noteq> 5" | "r = 5" "unat (h ! 2) < 5" | "r = 5" "5 \<le> unat (h ! 2)" "dl > 1500 - al"
    | "r = 5" "5 \<le> unat (h ! 2)" "dl \<le> 1500 - al" by linarith
  then show ?thesis
  proof cases
    case 4
    then have two: "2 \<le> al" by (simp add: al_def)
    from 4 st have "msg_ok m' \<and> s' = s2"
      using m got(1) al two by (auto simp: msg_ok_def split: if_splits)
    then show ?thesis using s1 got(2) by (simp add: rx_only_def)
  qed (use st s1 mo in auto)
qed

lemma recv_loop_safe:
  assumes "recv_tcp_loop nb rlen bufs s = (r, msgs, s')" "\<forall>m\<in>set bufs. buf_ok m"
  shows "length msgs = length bufs \<and> (\<forall>m\<in>set msgs. msg_ok m) \<and> rx_only s s'"
  using assms
proof (induction bufs arbitrary: rlen s r msgs s')
  case (Cons b bs)
  obtain out m s1 where st: "recv_tcp_step nb rlen b s = (out, m, s1)" by (metis prod_cases3)
  obtain r2 ms s2 where lp: "recv_tcp_loop nb (rlen + 1) bs s1 = (r2, ms, s2)" by (metis prod_cases3)
  have "msg_ok m" "rx_only s s1" using recv_step_safe [OF st] Cons.prems(2) by simp_all
  moreover have "length ms = length bs \<and> (\<forall>m\<in>set ms. msg_ok m) \<and> rx_only s1 s2"
    using Cons.IH [OF lp] Cons.prems(2) by simp
  moreover have "\<forall>m\<in>set bs. msg_ok m" using Cons.prems(2) by (simp add: buf_ok_msg_ok)
  ultimately show ?case using Cons.prems(1) st lp
    by (auto simp: rx_only_def split: sum.splits option.splits)
qed (simp add: rx_only_def)

lemma parse1_safe:
  assumes "length (um_mem m) = UDP_BUF_SIZE" "um_off m = 0" "um_addr m = AddrUnset" "n \<le> UDP_BUF_SIZE"
  shows "case udp_parse1 m n of Inl m' \<Rightarrow> msg_ok m' | Inr m' \<Rightarrow> msg_ok m' \<and> um_addr m' \<noteq> AddrUnset"
  using assms by (auto simp: udp_parse1_def Let_def msg_ok_def nat_add_distrib)

lemma dgrams_put_safe:
  assumes "\<forall>m\<in>set bufs. buf_ok m" "\<forall>b\<in>set bs. length b \<le> UDP_BUF_SIZE"
  shows "length (dgrams_put bufs bs) = length bufs \<and> (\<forall>m\<in>set (dgrams_put bufs bs). msg_ok m)"
  using assms by (induction bufs bs rule: dgrams_put.induct) (auto simp: buf_ok_msg_ok, auto simp: buf_ok_def msg_ok_def)

lemma parse_safe:
  assumes "udp_parse (dgrams_put bufs bs) (map length bs) = (ok, msgs)" "\<forall>m\<in>set bufs. buf_ok m"
    "length bs \<le> length bufs" "\<forall>b\<in>set bs. length b \<le> UDP_BUF_SIZE"
  shows "length msgs = length bufs \<and> (\<forall>m\<in>set msgs. msg_ok m) \<and>
    (ok \<longrightarrow> (\<forall>m\<in>set (take (length bs) msgs). um_addr m \<noteq> AddrUnset))"
  using assms
proof (induction bufs bs arbitrary: ok msgs rule: dgrams_put.induct)
  case (1 m ms b bs)
  let ?m = "m\<lparr>um_mem := mem_put (um_mem m) 0 b\<rparr>"
  obtain ok2 msgs2 where rest: "udp_parse (dgrams_put ms bs) (map length bs) = (ok2, msgs2)" by force
  have put: "length (dgrams_put ms bs) = length ms" "\<forall>m\<in>set (dgrams_put ms bs). msg_ok m"
    using dgrams_put_safe [of ms bs] "1.prems" by simp_all
  have "length (um_mem ?m) = UDP_BUF_SIZE" "um_off ?m = 0" "um_addr ?m = AddrUnset" "length b \<le> UDP_BUF_SIZE"
    using "1.prems"(2,4) by (simp_all add: buf_ok_def)
  note head = parse1_safe [OF this]
  show ?case
  proof (cases "udp_parse1 ?m (length b)")
    case (Inl m')
    then show ?thesis using "1.prems"(1) head put by auto
  next
    case (Inr m')
    have "length msgs2 = length ms \<and> (\<forall>m\<in>set msgs2. msg_ok m) \<and>
        (ok2 \<longrightarrow> (\<forall>m\<in>set (take (length bs) msgs2). um_addr m \<noteq> AddrUnset))"
      using "1.IH" [OF rest] "1.prems" by simp
    then show ?thesis using Inr "1.prems"(1) rest head by auto
  qed
qed (auto simp: buf_ok_msg_ok)

lemma recvmmsg_udp_safe:
  assumes "hev_socks5_udp_recvmmsg_udp get_fd nb bufs s = (r, msgs, s')" "\<forall>m\<in>set bufs. buf_ok m"
  shows "length msgs = length bufs \<and> (\<forall>m\<in>set msgs. msg_ok m) \<and> keeps s s' \<and>
    (0 < r \<longrightarrow> nat r \<le> length bufs \<and> (\<forall>m\<in>set (take (nat r) msgs). um_addr m \<noteq> AddrUnset)) \<and>
    (\<forall>d. dweight (drx s' d) \<le> dweight (drx s d)) \<and>
    (0 < r \<or> r = - 1 \<and> eagain s' \<longrightarrow> dweight (drx s' (get_fd s)) < dweight (drx s (get_fd s)))"
proof -
  obtain n got s1 where g: "hev_task_io_socket_recvmmsg (get_fd s) (map um_len bufs) nb s = (n, got, s1)" by (metis prod_cases3)
  note sp = recvmmsg_spec [OF g]
  show ?thesis
  proof (cases "n \<le> 0")
    case True
    then show ?thesis using assms g sp by (simp add: hev_socks5_udp_recvmmsg_udp_def buf_ok_msg_ok)
  next
    case False
    let ?b = "map snd got"
    have len: "length got \<le> length bufs" "n = int (length got)" using sp False by simp_all
    have "length b \<le> UDP_BUF_SIZE" if bb: "b \<in> set ?b" for b
    proof -
      obtain i where i: "i < length got" "b = snd (got ! i)" using bb by (auto simp: in_set_conv_nth)
      then have "length b \<le> um_len (bufs ! i)" "bufs ! i \<in> set bufs" using sp len by simp_all
      then show ?thesis using assms(2) by (auto simp: buf_ok_def)
    qed
    then have b: "\<forall>b\<in>set ?b. length b \<le> UDP_BUF_SIZE" by blast
    obtain ok ms where p: "udp_parse (dgrams_put bufs ?b) (map length ?b) = (ok, ms)" by force
    have l: "map (length \<circ> snd) got = map length ?b" by simp
    note ps = parse_safe [OF p assms(2) _ b] dgrams_put_safe [OF assms(2) b]
    have "(r = - 1 \<and> msgs = dgrams_put bufs ?b \<or> r = (if ok then n else - 1) \<and> msgs = ms) \<and> keeps s1 s' \<and> drx s' = drx s1"
      using assms(1) False unfolding hev_socks5_udp_recvmmsg_udp_def g prod.case l p Let_def
      by (auto simp: sys_opt_def split: if_splits list.splits)
    then show ?thesis using ps sp len False keeps_trans [of s s1 s'] by (auto split: if_splits)
  qed
qed


lemma only_drx:
  "rx_only s s' \<Longrightarrow> drx s' = drx s" "tx_only s s' bs \<Longrightarrow> drx s' = drx s"
  unfolding rx_only_def tx_only_def rx_norm_def tx_norm_def by (cases s; cases s'; simp)+

lemma udp_recvmmsg_safe:
  assumes "hev_socks5_udp_recvmmsg get_fd nb bufs s = (r, msgs, s')" "\<forall>m\<in>set bufs. buf_ok m"
  shows "length msgs = length bufs \<and> (\<forall>m\<in>set msgs. msg_ok m) \<and> keeps s s'"
proof (cases "stype s")
  case TYPE_UDP_IN_TCP
  then show ?thesis using assms recv_loop_safe [of nb 0 bufs s r msgs s']
    by (simp add: hev_socks5_udp_recvmmsg_def hev_socks5_udp_recvmmsg_tcp_def rx_only_keeps)
next
  case TYPE_UDP_IN_UDP
  then show ?thesis using assms recvmmsg_udp_safe [of get_fd nb bufs s r msgs s']
    by (simp add: hev_socks5_udp_recvmmsg_def)
qed (use assms in \<open>auto simp: hev_socks5_udp_recvmmsg_def buf_ok_msg_ok\<close>)

lemma udp_sendmmsg_keeps:
  assumes "hev_socks5_udp_sendmmsg get_fd msgv s = (r, s')"
  shows "keeps s s' \<and> drx s' = drx s"
proof (cases "stype s")
  case TYPE_UDP_IN_TCP
  obtain n t where n: "io_sendmsg (concat (map tcp_frame msgv)) s = (n, t)" by force
  then obtain k where "tx_only s t (take k (concat (concat (map tcp_frame msgv))))"
    using io_send_spec [of "concat (concat (map tcp_frame msgv))" s n t] by (auto simp: io_sendmsg_eq)
  then show ?thesis using assms TYPE_UDP_IN_TCP n
    by (auto simp: hev_socks5_udp_sendmmsg_def hev_socks5_udp_sendmmsg_tcp_def only_drx(2) intro: tx_only_keeps split: if_splits)
next
  case TYPE_UDP_IN_UDP
  then show ?thesis using assms sendmmsg_spec [of "get_fd s" "map (\<lambda>m. (None, udp_packet m)) msgv" 0 s r s']
    by (auto simp: hev_socks5_udp_sendmmsg_def hev_socks5_udp_sendmmsg_udp_def split: if_splits)
qed (use assms in \<open>auto simp: hev_socks5_udp_sendmmsg_def\<close>)

lemma fwd_dests_defined: "\<forall>m\<in>set msgs. um_addr m \<noteq> AddrUnset \<Longrightarrow> fwd_dests rs fam msgs \<noteq> None"
  by (induction msgs) (auto split: addr_ref.splits prod.splits)

text \<open>What the relay hands back: the answer of the receive, or of the send.\<close>

lemma fwd_f_cases:
  assumes "hev_socks5_udp_recvmmsg get_fd True (map fresh_msg bufs) s = (r, msgs, s1)"
    "hev_socks5_udp_fwd_f rs get_fd bnd d bufs bound s = Some (res, bufs', b', s')" "bind_hook bnd"
  shows "bufs' = map um_mem msgs \<and> keeps s1 s' \<and> drx s' = drx s1 \<and> (res < 0 \<or> 0 < r \<or> r = - 1 \<and> eagain s1)"
proof (cases "r \<le> 0")
  case True
  then show ?thesis using assms(1,2) by (auto simp: hev_socks5_udp_fwd_f_def Let_def fwd_result_def split: if_splits)
next
  case False
  then obtain out where out: "fwd_dests rs (addr_family s1) (take (nat r) msgs) = Some out" "nat r \<le> length msgs"
    using assms(1,2) by (auto simp: hev_socks5_udp_fwd_f_def Let_def hev_socks5_get_addr_family_def split: option.splits if_splits)
  show ?thesis
  proof (cases out)
    case None
    then show ?thesis using False assms(1,2) out
      by (simp add: hev_socks5_udp_fwd_f_def Let_def hev_socks5_get_addr_family_def)
  next
    case (Some dvec)
    define t where "t = (if bound then s1 else snd (bnd d (the (fst (hd dvec))) s1))"
    have t: "keeps s1 t" "drx t = drx s1"
      using bind_hook.bnd_frame [OF assms(3), of d "the (fst (hd dvec))" s1] by (auto simp: t_def)
    obtain n t2 where n: "hev_task_io_socket_sendmmsg d dvec 0 t = (n, t2)" by force
    have t2: "keeps s1 t2" "drx t2 = drx s1" using sendmmsg_spec [OF n] t by (auto intro: keeps_trans)
    have "bufs' = map um_mem msgs \<and> (s' = t \<or> s' = t2)"
      using False Some assms(1,2) out n
      by (auto simp: hev_socks5_udp_fwd_f_def Let_def hev_socks5_get_addr_family_def t_def split: if_splits prod.splits)
    then show ?thesis using False t t2 by auto
  qed
qed

lemma fwd_f_safe:
  assumes "hev_socks5_udp_fwd_f rs get_fd bnd d bufs bound s = Some (res, bufs', b', s')" "bind_hook bnd"
    "\<forall>b\<in>set bufs. length b = UDP_BUF_SIZE"
  shows "keeps s s' \<and> (\<forall>b\<in>set bufs'. length b = UDP_BUF_SIZE) \<and> length bufs' = length bufs \<and>
    (stype s = TYPE_UDP_IN_UDP \<longrightarrow> (\<forall>d. dweight (drx s' d) \<le> dweight (drx s d)) \<and>
      (0 \<le> res \<longrightarrow> dweight (drx s' (get_fd s)) < dweight (drx s (get_fd s))))"
proof -
  obtain r msgs s1 where r: "hev_socks5_udp_recvmmsg get_fd True (map fresh_msg bufs) s = (r, msgs, s1)" by (metis prod_cases3)
  have ok: "\<forall>m\<in>set (map fresh_msg bufs). buf_ok m" using assms(3) by (simp add: buf_ok_fresh)
  note c = fwd_f_cases [OF r assms(1,2)] and sf = udp_recvmmsg_safe [OF r ok]
  have "keeps s s'" using c sf by (auto intro: keeps_trans)
  moreover have "\<forall>b\<in>set bufs'. length b = UDP_BUF_SIZE" "length bufs' = length bufs"
    using c sf by (auto simp: msg_ok_def)
  moreover have "(\<forall>d. dweight (drx s' d) \<le> dweight (drx s d)) \<and>
      (0 \<le> res \<longrightarrow> dweight (drx s' (get_fd s)) < dweight (drx s (get_fd s)))" if "stype s = TYPE_UDP_IN_UDP"
    using r that c recvmmsg_udp_safe [of get_fd True "map fresh_msg bufs" s r msgs s1] ok
    by (auto simp: hev_socks5_udp_recvmmsg_def)
  ultimately show ?thesis by blast
qed

lemma fwd_f_defined:
  assumes "stype s = TYPE_UDP_IN_UDP" "\<forall>b\<in>set bufs. length b = UDP_BUF_SIZE"
  shows "hev_socks5_udp_fwd_f rs get_fd bnd d bufs bound s \<noteq> None"
proof -
  obtain r msgs s1 where r: "hev_socks5_udp_recvmmsg get_fd True (map fresh_msg bufs) s = (r, msgs, s1)" by (metis prod_cases3)
  have ok: "\<forall>m\<in>set (map fresh_msg bufs). buf_ok m" using assms(2) by (simp add: buf_ok_fresh)
  have "0 < r \<Longrightarrow> nat r \<le> length msgs \<and> fwd_dests rs (addr_family s1) (take (nat r) msgs) \<noteq> None"
    using r assms(1) recvmmsg_udp_safe [OF _ ok, of get_fd True s r msgs s1] fwd_dests_defined [of "take (nat r) msgs"]
    by (auto simp: hev_socks5_udp_recvmmsg_def)
  then show ?thesis using r
    by (cases "r \<le> 0") (auto simp: hev_socks5_udp_fwd_f_def Let_def hev_socks5_get_addr_family_def split: option.splits prod.splits)
qed

lemma fwd_b_safe:
  assumes "hev_socks5_udp_fwd_b get_fd d num s = (res, s')"
  shows "keeps s s' \<and> (\<forall>d'. dweight (drx s' d') \<le> dweight (drx s d')) \<and>
    (0 \<le> res \<longrightarrow> dweight (drx s' d) < dweight (drx s d))"
proof -
  obtain r got s1 where r: "hev_task_io_socket_recvmmsg d (replicate num UDP_BUF_SIZE) True s = (r, got, s1)" by (metis prod_cases3)
  note sp = recvmmsg_spec [OF r]
  define dvec where "dvec = map (\<lambda>(a, b). (snd (hev_socks5_addr_from_sockaddr6 \<lparr>atype = 0, abody = replicate 18 0\<rparr> a), b)) got"
  obtain n s2 where n: "hev_socks5_udp_sendmmsg get_fd dvec s1 = (n, s2)" by force
  note sn = udp_sendmmsg_keeps [OF n]
  show ?thesis
  proof (cases "r \<le> 0")
    case True
    then show ?thesis using assms r sp by (auto simp: hev_socks5_udp_fwd_b_def fwd_result_def split: if_splits)
  next
    case False
    then have "s' = s2" using assms r n by (auto simp: hev_socks5_udp_fwd_b_def Let_def dvec_def split: prod.splits)
    then show ?thesis using False sp sn by (auto intro: keeps_trans)
  qed
qed


section \<open>The relay\<close>

lemma splice_loop_keeps:
  assumes "udp_splice_loop rs get_fd bnd d num res_f res_b bufs bound s = Some s'"
  shows "bind_hook bnd \<longrightarrow> (\<forall>b\<in>set bufs. length b = UDP_BUF_SIZE) \<longrightarrow> keeps s s'"
proof (rule udp_splice_loop.raw_induct [OF _ assms, where P =
    "\<lambda>rs get_fd bnd d num res_f res_b bufs bound s s'.
       bind_hook bnd \<longrightarrow> (\<forall>b\<in>set bufs. length b = UDP_BUF_SIZE) \<longrightarrow> keeps s s'"], intro impI)
  fix loop rs get_fd d num bufs bound and bnd :: "'b HevSocks5_scheme bind_fun" and res_f res_b :: int and s s' :: "'b HevSocks5_scheme"
  assume ih: "\<And>rs get_fd bnd d num res_f res_b bufs bound s s'.
        loop rs get_fd bnd d num res_f res_b bufs bound s = Some s' \<Longrightarrow>
        bind_hook bnd \<longrightarrow> (\<forall>b\<in>set bufs. length b = UDP_BUF_SIZE) \<longrightarrow> keeps s s'"
    and st: "(case (if res_f \<ge> 0 then hev_socks5_udp_fwd_f rs get_fd bnd d bufs bound s else Some (res_f, bufs, bound, s)) of
        None \<Rightarrow> None
      | Some (res_f, bufs, bound, self) \<Rightarrow>
          (case (if res_b \<ge> 0 then hev_socks5_udp_fwd_b get_fd d num self else (res_b, self)) of (res_b, self) \<Rightarrow>
             if res_f > 0 \<or> res_b > 0 \<or> res_f AND res_b = 0 then
               (case udp_task_io_yielder (if res_f > 0 \<or> res_b > 0 then HEV_TASK_YIELD else HEV_TASK_WAITIO) self of (y, self) \<Rightarrow>
                  if y \<noteq> 0 then Some self else loop rs get_fd bnd d num res_f res_b bufs bound self)
             else Some self)) = Some s'"
    and bnd: "bind_hook bnd" and len: "\<forall>b\<in>set bufs. length b = UDP_BUF_SIZE"
  obtain rf bufs1 bound1 s1 where f: "(if res_f \<ge> 0 then hev_socks5_udp_fwd_f rs get_fd bnd d bufs bound s
      else Some (res_f, bufs, bound, s)) = Some (rf, bufs1, bound1, s1)"
    using st by (auto split: option.splits)
  obtain rb s2 where b: "(if res_b \<ge> 0 then hev_socks5_udp_fwd_b get_fd d num s1 else (res_b, s1)) = (rb, s2)" by force
  obtain y s3 where y: "udp_task_io_yielder (if rf > 0 \<or> rb > 0 then HEV_TASK_YIELD else HEV_TASK_WAITIO) s2 = (y, s3)" by force
  have 1: "keeps s s1" "\<forall>b\<in>set bufs1. length b = UDP_BUF_SIZE"
    using f len fwd_f_safe [OF _ bnd len, of rs get_fd d bound s] by (auto split: if_splits)
  have 2: "keeps s1 s2" using b fwd_b_safe [of get_fd d num s1 rb s2] by (auto split: if_splits)
  have 3: "keeps s2 s3" by (rule udp_yielder_keeps [OF y])
  have "s' = s2 \<or> s' = s3 \<or> loop rs get_fd bnd d num rf rb bufs1 bound1 s3 = Some s'"
    using st unfolding f b option.case prod.case y by (auto split: if_splits)
  then show "keeps s s'" using 1 2 3 ih [of rs get_fd bnd d num rf rb bufs1 bound1 s3 s'] bnd
    by (auto intro: keeps_trans)
qed

lemma fwd_result_range: "fwd_result r s \<in> {- 1, 0, 1}"
  by (simp add: fwd_result_def)

lemma fwd_f_range:
  "hev_socks5_udp_fwd_f rs get_fd bnd d bufs bound s = Some (res, x) \<Longrightarrow> res \<in> {- 1, 0, 1}"
  by (auto simp: hev_socks5_udp_fwd_f_def Let_def fwd_result_def split: prod.splits if_splits option.splits)

lemma fwd_b_range: "fst (hev_socks5_udp_fwd_b get_fd d num s) \<in> {- 1, 0, 1}"
  by (simp add: hev_socks5_udp_fwd_b_def Let_def fwd_result_def split: prod.split)

text \<open>Every turn of the loop that goes on has taken something off one of the two scripts.\<close>

lemma splice_loop_returns:
  assumes "stype s = TYPE_UDP_IN_UDP" "udp_hook get_fd" "bind_hook bnd" "\<forall>b\<in>set bufs. length b = UDP_BUF_SIZE"
    and "res_f \<in> {- 1, 0, 1}" "res_b \<in> {- 1, 0, 1}"
  shows "udp_splice_loop rs get_fd bnd d num res_f res_b bufs bound s \<noteq> None"
  using assms(1,4-6)
proof (induction "dweight (drx s (get_fd s)) + dweight (drx s d)" arbitrary: res_f res_b bufs bound s rule: less_induct)
  case less
  obtain rf bufs1 bound1 s1 where f: "(if res_f \<ge> 0 then hev_socks5_udp_fwd_f rs get_fd bnd d bufs bound s
      else Some (res_f, bufs, bound, s)) = Some (rf, bufs1, bound1, s1)"
    using fwd_f_defined [OF less.prems(1,2), of rs get_fd bnd d bound] by fastforce
  obtain rb s2 where b: "(if res_b \<ge> 0 then hev_socks5_udp_fwd_b get_fd d num s1 else (res_b, s1)) = (rb, s2)" by force
  obtain y s3 where y: "udp_task_io_yielder (if rf > 0 \<or> rb > 0 then HEV_TASK_YIELD else HEV_TASK_WAITIO) s2 = (y, s3)" by force
  have 1: "keeps s s1" "\<forall>b\<in>set bufs1. length b = UDP_BUF_SIZE" "\<forall>d. dweight (drx s1 d) \<le> dweight (drx s d)"
      "0 \<le> rf \<longrightarrow> dweight (drx s1 (get_fd s)) < dweight (drx s (get_fd s))"
    using f less.prems fwd_f_safe [OF _ assms(3) less.prems(2), of rs get_fd d bound s] by (auto split: if_splits)
  have 2: "keeps s1 s2" "\<forall>d. dweight (drx s2 d) \<le> dweight (drx s1 d)" "0 \<le> rb \<longrightarrow> dweight (drx s2 d) < dweight (drx s1 d)"
    using b fwd_b_safe [of get_fd d num s1 rb s2] by (auto split: if_splits)
  have 3: "keeps s2 s3" "drx s3 = drx s2" using udp_yielder_keeps [OF y] udp_yielder_fields(1) [OF y] by simp_all
  have rf: "rf \<in> {- 1, 0, 1}" using f less.prems(3) fwd_f_range [of rs get_fd bnd d bufs bound s rf] by (auto split: if_splits)
  have rb: "rb \<in> {- 1, 0, 1}" using b less.prems(4) fwd_b_range [of get_fd d num s1] by (auto split: if_splits)
  have k: "keeps s s3" using 1(1) 2(1) 3(1) by (blast intro: keeps_trans)
  have ih: "udp_splice_loop rs get_fd bnd d num rf rb bufs1 bound1 s3 \<noteq> None" if "0 \<le> rf \<or> 0 \<le> rb"
  proof (rule less.hyps)
    have g: "get_fd s3 = get_fd s" using udp_hook.get_fd_keeps [OF assms(2) k] .
    have "dweight (drx s3 (get_fd s)) \<le> dweight (drx s1 (get_fd s))" "dweight (drx s1 (get_fd s)) \<le> dweight (drx s (get_fd s))"
        "dweight (drx s3 d) \<le> dweight (drx s1 d)" "dweight (drx s1 d) \<le> dweight (drx s d)"
      using 1(3) 2(2) 3(2) by simp_all
    then show "dweight (drx s3 (get_fd s3)) + dweight (drx s3 d) < dweight (drx s (get_fd s)) + dweight (drx s d)"
      using that 1(4) 2(3) 3(2) g by auto
  qed (use k less.prems(1) 1(2) rf rb in \<open>auto simp: keeps_def\<close>)
  have "(if rf > 0 \<or> rb > 0 \<or> rf AND rb = 0 then
      (if y \<noteq> 0 then Some s3 else udp_splice_loop rs get_fd bnd d num rf rb bufs1 bound1 s3) else Some s2) \<noteq> None"
    using ih rf rb by auto
  then show ?case
    by (subst udp_splice_loop.simps) (unfold f b option.case prod.case y, simp split: if_splits)
qed

section \<open>Batches\<close>

text \<open>The bytes a batch takes in the stream.\<close>

definition wire_size :: "send_msg list \<Rightarrow> nat" where
  "wire_size ms = sum_list (map (\<lambda>m. 3 + alen (fst m) + length (snd m)) ms)"

text \<open>A batch that has arrived: all there is in the stream or as much as there are buffers, or a batch of
  datagrams.\<close>

definition arrived :: "('a HevSocks5_scheme \<Rightarrow> int) \<Rightarrow> nat \<Rightarrow> send_msg list \<Rightarrow> 'a HevSocks5_scheme \<Rightarrow> bool" where
  "arrived get_fd num ms t \<longleftrightarrow>
     stype t = TYPE_UDP_IN_TCP \<and> flowing (rx t) \<and>
       (\<exists>st. stream (rx t) = concat (map (\<lambda>m. concat (tcp_frame m)) ms) @ st \<and> (length ms = num \<or> st = [])) \<or>
     stype t = TYPE_UDP_IN_UDP \<and>
       (\<exists>from es. drx t (get_fd t) = DBatch (map (\<lambda>m. (from, udp_packet m)) ms) # es) \<and> (udp_associated t \<or> opts t = [])"

lemma length_tcp_addr: "sendable (a, d) \<Longrightarrow> length (take (alen a) (addr_bytes a)) = alen a"
  by (rule sendable_addr [of a d]) simp_all

lemma length_frames:
  "\<forall>m\<in>set ms. sendable m \<Longrightarrow> length (concat (map (\<lambda>m. concat (tcp_frame m)) ms)) = wire_size ms"
  by (induction ms) (auto simp: wire_size_def tcp_frame_def split: prod.splits dest: length_tcp_addr)

lemma sendmmsg_tcp_accept:
  assumes "stype s = TYPE_UDP_IN_TCP" "\<forall>m\<in>set ms. sendable m" "ms \<noteq> []" "tx s = Accept k # es" "wire_size ms \<le> k"
  shows "hev_socks5_udp_sendmmsg get_fd ms s =
    (int (length ms), s\<lparr>tx := es, sent := sent s @ concat (map (\<lambda>m. concat (tcp_frame m)) ms)\<rparr>)"
proof -
  let ?w = "concat (map (\<lambda>m. concat (tcp_frame m)) ms)"
  have w: "concat (concat (map tcp_frame ms)) = ?w" by (induction ms) simp_all
  have len: "length ?w = wire_size ms" using length_frames [OF assms(2)] .
  have pos: "0 < wire_size ms" using assms(3) by (cases ms) (simp_all add: wire_size_def)
  have "?w \<noteq> []" using len pos by (metis length_0_conv less_irrefl)
  then have "io_sendmsg (concat (map tcp_frame ms)) s = (int (length ?w), s\<lparr>tx := es, sent := sent s @ ?w\<rparr>)" "0 < int (length ?w)"
    using io_send_accept [OF assms(4), of ?w] assms(5) len pos by (simp_all add: io_sendmsg_eq w)
  moreover have "\<not> (\<exists>m\<in>set ms. hev_socks5_addr_len (fst m) \<le> 0)" using assms(2) by (auto simp: sendable_def)
  ultimately show ?thesis using assms(1)
    by (simp add: hev_socks5_udp_sendmmsg_def hev_socks5_udp_sendmmsg_tcp_def del: length_concat length_map)
qed

lemma sendmmsg_udp_accept:
  assumes "stype s = TYPE_UDP_IN_UDP" "\<forall>m\<in>set ms. sendable m" "ms \<noteq> []" "dtx s (get_fd s) = DAccept k # es" "length ms \<le> k"
  shows "hev_socks5_udp_sendmmsg get_fd ms s = (int (length ms), s\<lparr>dtx := (dtx s)(get_fd s := es),
      dsent := (dsent s)(get_fd s := dsent s (get_fd s) @ map (\<lambda>m. (None, udp_packet m)) ms)\<rparr>)"
proof -
  have "\<not> (\<exists>m\<in>set ms. hev_socks5_addr_len (fst m) \<le> 0)" using assms(2) by (auto simp: sendable_def)
  then show ?thesis using assms(1,3,5) sendmmsg_accept [OF assms(4), of "map (\<lambda>m. (None, udp_packet m)) ms"]
    by (simp add: hev_socks5_udp_sendmmsg_def hev_socks5_udp_sendmmsg_udp_def)
qed

text \<open>Endpoints and a message for the witnesses.\<close>

definition demo_end :: "HevSocks5Type \<Rightarrow> rx_event list \<Rightarrow> drx_event list \<Rightarrow> HevSocks5Client" where
  "demo_end ty r b = \<lparr>rx = r, tx = [Accept 100], sent = [], conns = [], dialled = [], socks = [], opts = [], sleeps = [],
     mallocs = [], open_fds = {7, 8, 9}, blocks = 2, eagain = False, drx = (\<lambda>_. b), dtx = (\<lambda>_. [DAccept 5]), dsent = (\<lambda>_. []),
     fd = 7, timeout = 0, udp_associated = False, stype = ty, addr_family = FAMILY_IPV4,
     auth_user = None, auth_pass = None, cclass = CLIENT_UDP, up_addr = None, udp_fd = 8\<rparr>"

definition demo_msg :: send_msg where
  "demo_msg = (\<lparr>atype = 1, abody = [10, 0, 0, 9, 0, 53]\<rparr>, [1, 2, 3])"

abbreviation demo_buf :: bytes where "demo_buf \<equiv> replicate 1500 0"

lemma demo_sendable: "sendable demo_msg" "wire_size [demo_msg] = 13" "fst demo_msg = \<lparr>atype = 1, abody = [10, 0, 0, 9, 0, 53]\<rparr>" "snd demo_msg = [1, 2, 3]"
  by (simp_all add: sendable_def demo_msg_def hev_socks5_addr_len_def addr_bytes_def wire_size_def)

lemma demo_fields [simp]:
  "rx (demo_end ty r b) = r" "tx (demo_end ty r b) = [Accept 100]" "sent (demo_end ty r b) = []" "stype (demo_end ty r b) = ty"
  "drx (demo_end ty r b) d = b" "dtx (demo_end ty r b) d = [DAccept 5]" "dsent (demo_end ty r b) d = []" "opts (demo_end ty r b) = []"
  "addr_family (demo_end ty r b) = FAMILY_IPV4"
  by (simp_all add: demo_end_def)

lemma demo_frame: "concat (tcp_frame demo_msg) = [0, 3, 10, 1, 10, 0, 0, 9, 0, 53, 1, 2, 3]"
  by (simp add: tcp_frame_def demo_msg_def hev_socks5_addr_len_def addr_bytes_def le16_def htons_def)

section \<open>Properties\<close>

text \<open>
  C16. Nothing a peer sends makes a receive leave its buffers. For every script of the control stream and of the
  datagram socket, in both modes, the buffers keep their size and every message that was parsed lies inside its
  buffer, the address before the data. In UDP-in-UDP mode the value returned is at most the number of buffers and
  every message it counts was parsed, so that the forwarding step never reads an address that was not set.
\<close>

theorem udp_receive_safe:
  assumes "\<forall>b\<in>set bufs. length b = UDP_BUF_SIZE"
    and "hev_socks5_udp_recvmmsg get_fd nb (map fresh_msg bufs) s = (r, msgs, s')"
  shows "length msgs = length bufs \<and>
    (\<forall>m\<in>set msgs. length (um_mem m) = UDP_BUF_SIZE \<and>
      (\<forall>off. um_addr m = AddrAt off \<longrightarrow> off < um_off m \<and> um_off m + um_len m \<le> UDP_BUF_SIZE)) \<and>
    (stype s = TYPE_UDP_IN_UDP \<longrightarrow> r \<le> int (length bufs) \<and>
      (\<forall>m\<in>set (take (nat r) msgs). um_addr m \<noteq> AddrUnset) \<and>
      hev_socks5_udp_fwd_f rs get_fd bnd d bufs bound s \<noteq> None)"
proof -
  have ok: "\<forall>m\<in>set (map fresh_msg bufs). buf_ok m" using assms(1) by (simp add: buf_ok_fresh)
  have "\<forall>m\<in>set msgs. msg_ok m" "length msgs = length bufs" using udp_recvmmsg_safe [OF assms(2) ok] by simp_all
  moreover have "r \<le> int (length bufs) \<and> (\<forall>m\<in>set (take (nat r) msgs). um_addr m \<noteq> AddrUnset)" if "stype s = TYPE_UDP_IN_UDP"
    using recvmmsg_udp_safe [OF _ ok, of get_fd nb s r msgs s'] assms(2) that
    by (cases "0 < r") (auto simp: hev_socks5_udp_recvmmsg_def)
  ultimately show ?thesis using fwd_f_defined [OF _ assms(1), of s rs get_fd bnd d bound] by (fastforce simp: msg_ok_def)
qed

theorem udp_receive_safe_witness:
  "\<exists>r msgs s'. hev_socks5_udp_recvmmsg hev_socks5_client_udp_get_fd True (map fresh_msg [demo_buf])
      (demo_end TYPE_UDP_IN_UDP [] [DBatch [(no_saddr, [0, 0, 0, 3, 255])]]) = (r, msgs, s') \<and> length msgs = 1 \<and>
    hev_socks5_udp_fwd_f no_resolver hev_socks5_client_udp_get_fd hev_socks5_bind 9 [demo_buf] False
      (demo_end TYPE_UDP_IN_UDP [] [DBatch [(no_saddr, [0, 0, 0, 3, 255])]]) \<noteq> None"
proof -
  let ?s = "demo_end TYPE_UDP_IN_UDP [] [DBatch [(no_saddr, [0, 0, 0, 3, 255])]]"
  obtain r msgs s' where r: "hev_socks5_udp_recvmmsg hev_socks5_client_udp_get_fd True (map fresh_msg [demo_buf]) ?s = (r, msgs, s')"
    by (metis prod_cases3)
  show ?thesis
    using udp_receive_safe [OF _ r, of no_resolver hev_socks5_bind 9 False] r by auto
qed

text \<open>
  C17. The relay ends and gives back its buffer. In UDP-in-UDP mode it returns for every script of the system, and
  whenever it returns, in either mode, the buffer has been freed and no descriptor opened or closed.
\<close>

theorem udp_splicer_ok:
  assumes "udp_hook get_fd" "bind_hook bnd"
  shows "(stype s = TYPE_UDP_IN_UDP \<longrightarrow> hev_socks5_udp_splicer m rs get_fd bnd d s \<noteq> None) \<and>
    (\<forall>r s'. hev_socks5_udp_splicer m rs get_fd bnd d s = Some (r, s') \<longrightarrow>
      r \<in> {- 1, 0} \<and> blocks s' = blocks s \<and> open_fds s' = open_fds s)"
proof -
  let ?n = "nat (udp_copy_buffer_nums m)"
  let ?b = "replicate ?n (replicate UDP_BUF_SIZE 0) :: bytes list"
  obtain ok t where m: "sys_malloc s = (ok, t)" by force
  have t: "open_fds t = open_fds s" "blocks t = blocks s + (if ok then 1 else 0)" "stype t = stype s"
    using m by (auto simp: sys_malloc_def split: list.splits)
  have len: "\<forall>b\<in>set ?b. length b = UDP_BUF_SIZE" by simp
  have "keeps t u" if "udp_splice_loop rs get_fd bnd d ?n 1 1 ?b False t = Some u" for u
    using splice_loop_keeps [OF that] assms(2) len by blast
  moreover have "udp_splice_loop rs get_fd bnd d ?n 1 1 ?b False t \<noteq> None" if "stype s = TYPE_UDP_IN_UDP"
    using splice_loop_returns [OF _ assms len, of t 1 1] that t(3) by simp
  moreover have "hev_socks5_udp_splicer m rs get_fd bnd d s = (if \<not> ok then Some (- 1, t)
      else map_option (\<lambda>self. (0, sys_free self)) (udp_splice_loop rs get_fd bnd d ?n 1 1 ?b False t))"
    by (simp add: hev_socks5_udp_splicer_def hev_socks5_get_udp_copy_buffer_nums_def Let_def m)
  ultimately show ?thesis
    using t by (auto simp: sys_free_def keeps_def split: if_splits)
qed

theorem udp_splicer_ok_witness:
  "hev_socks5_udp_splicer misc_defaults no_resolver hev_socks5_client_udp_get_fd hev_socks5_bind 9 (demo_end TYPE_UDP_IN_UDP [] []) \<noteq> None"
  using udp_splicer_ok [OF client_fd.udp_hook_axioms dflt.bind_hook_axioms,
      of "demo_end TYPE_UDP_IN_UDP [] []" misc_defaults no_resolver 9] by simp








lemma from_sockaddr6_sendable:
  assumes "saddr_ok a" "length b \<le> 1478"
  shows "sendable (snd (hev_socks5_addr_from_sockaddr6 \<lparr>atype = 0, abody = replicate 18 0\<rparr> a), b)"
  using assms by (auto simp: hev_socks5_addr_from_sockaddr6_def sendable_def saddr_ok_def hev_socks5_addr_len_def addr_bytes_def)

text \<open>
  Answers go back to the client. When datagrams arrive from outside, one backward step returns 1 and has sent the
  client each datagram with its sender's address, framed in the stream or as datagrams with a header; by the round
  trips above the client reads off exactly these senders and data.
\<close>

theorem udp_backward_ok:
  assumes "drx t d = DBatch got # es" "got \<noteq> []" "length got \<le> num" "\<forall>(a, b)\<in>set got. saddr_ok a \<and> length b \<le> 1478"
    and "ms = map (\<lambda>(a, b). (snd (hev_socks5_addr_from_sockaddr6 \<lparr>atype = 0, abody = replicate 18 0\<rparr> a), b)) got"
    and "stype t = TYPE_UDP_IN_TCP \<and> tx t = Accept k # fs \<and> wire_size ms \<le> k \<or>
      stype t = TYPE_UDP_IN_UDP \<and> dtx t (get_fd t) = DAccept n # gs \<and> length ms \<le> n" "udp_hook get_fd"
  shows "\<exists>t'. hev_socks5_udp_fwd_b get_fd d num t = (1, t') \<and>
    (if stype t = TYPE_UDP_IN_TCP then sent t' = sent t @ concat (map (\<lambda>m. concat (tcp_frame m)) ms)
     else dsent t' (get_fd t) = dsent t (get_fd t) @ map (\<lambda>m. (None, udp_packet m)) ms)"
proof -
  have ne: "ms \<noteq> []" "length ms = length got" using assms(2,5) by simp_all
  have sm: "\<forall>m\<in>set ms. sendable m"
    using assms(4,5) by (auto simp: from_sockaddr6_sendable)
  have "\<forall>n\<in>set (replicate num UDP_BUF_SIZE). \<forall>m\<in>set got. length (snd m) \<le> n" using assms(4) by auto
  then have r: "hev_task_io_socket_recvmmsg d (replicate num UDP_BUF_SIZE) True t = (int (length got), got, t\<lparr>drx := (drx t)(d := es)\<rparr>)"
    using recvmmsg_batch [OF assms(1), of "replicate num UDP_BUF_SIZE" True] assms(3) by simp
  let ?t = "t\<lparr>drx := (drx t)(d := es)\<rparr>"
  have g: "get_fd ?t = get_fd t" using udp_hook.get_fd_keeps [OF assms(7), of t ?t] by simp
  have step: "hev_socks5_udp_fwd_b get_fd d num t = (fwd_result n s', s')" if "hev_socks5_udp_sendmmsg get_fd ms ?t = (n, s')" for n s'
    using r assms(2,5) that by (simp add: hev_socks5_udp_fwd_b_def)
  show ?thesis
  proof (cases "stype t = TYPE_UDP_IN_TCP")
    case True
    then show ?thesis
      using step [OF sendmmsg_tcp_accept [OF _ sm ne(1), of ?t k fs get_fd]] assms(2,6) ne(2) by (simp add: fwd_result_def)
  next
    case False
    then have a: "stype ?t = TYPE_UDP_IN_UDP" "dtx ?t (get_fd ?t) = DAccept n # gs" "length ms \<le> n" using assms(6) g by simp_all
    show ?thesis
      using step [OF sendmmsg_udp_accept [of ?t ms get_fd n gs, OF a(1) sm ne(1) a(2,3)]] assms(2) ne(2) g False by (simp add: fwd_result_def)
  qed
qed

theorem udp_backward_ok_witness:
  "\<exists>t'. hev_socks5_udp_fwd_b hev_socks5_client_udp_get_fd 9 10
    (demo_end TYPE_UDP_IN_UDP [] [DBatch [(no_saddr, [1, 2, 3])]]) = (1, t')"
  using udp_backward_ok [of "demo_end TYPE_UDP_IN_UDP [] [DBatch [(no_saddr, [1, 2, 3])]]" 9 "[(no_saddr, [1, 2, 3])]" "[]" 10
      _ 0 "[]" hev_socks5_client_udp_get_fd 5 "[]", OF _ _ _ _ refl _ client_fd.udp_hook_axioms]
  by (auto simp: saddr_ok_def no_saddr_def)

section \<open>Where the receive miscounts\<close>

text \<open>
  In UDP-in-TCP mode a stream that ends inside a frame makes the receive return the number of payload bytes it got.
  The forwarding step takes it for a number of messages: when it exceeds the number of buffers, the step reads
  messages behind the end of the vector.
\<close>

lemma recvmmsg_tcp_truncated:
  assumes "stype s = TYPE_UDP_IN_TCP" "rx s = [Data (h @ part), RxEof]" "length h = 5" "5 \<le> unat (h ! 2)"
    "part \<noteq> []" "length part < unat (h ! 2) - 5 + unat (ntohs (of_le16 h))"
    "unat (h ! 2) - 3 + unat (ntohs (of_le16 h)) \<le> UDP_BUF_SIZE"
  shows "fst (hev_socks5_udp_recvmmsg get_fd nb (map fresh_msg (b # bs)) s) = int (length part)"
proof -
  define al where "al = unat (h ! 2) - 3"
  define dl where "dl = unat (ntohs (of_le16 h))"
  have "unat (h ! 2) < 2 ^ 8" using unsigned_less [of "h ! 2"] by simp
  then have md: "(1500 - int al) mod 2 ^ 64 = int (1500 - al)" by (simp add: al_def)
  have n: "2 \<le> al" "length part < al - 2 + dl" "dl \<le> 1500 - al" using assms(4,6,7) by (simp_all add: al_def dl_def)
  let ?s = "s\<lparr>rx := [Data part, RxEof]\<rparr>" and ?t = "s\<lparr>rx := [RxEof]\<rparr>"
  have hd: "recv_udp_head nb s = (5, h, ?s)"
    using assms(2,3,5) by (simp add: recv_udp_head_def hev_task_io_socket_recv.simps [of 5 False] Let_def min_def)
  have "hev_task_io_socket_recv (al - 2 + dl) True False part ?t = (int (length part), part, ?t)"
    using n(2) assms(5) by (simp add: hev_task_io_socket_recv.simps recv_failed_def)
  then have rm: "hev_task_io_socket_recvmsg (al - 2 + dl) ?s = (int (length part), part, ?t)"
    using n(2) assms(5)
    by (auto simp: hev_task_io_socket_recvmsg_def hev_task_io_socket_recv.simps [of "al - 2 + dl" True False "[]"] Let_def min_def)
  have "recv_tcp_step nb 0 (fresh_msg b) s = (Inl (int (length part)), (fresh_msg b)\<lparr>um_mem := mem_put b 2 part\<rparr>, ?t)"
    unfolding recv_tcp_step_def hd prod.case Let_def al_def [symmetric] dl_def [symmetric]
    using rm n md assms(4) by (simp add: fresh_msg_def)
  then show ?thesis using assms(1) by (simp add: hev_socks5_udp_recvmmsg_def hev_socks5_udp_recvmmsg_tcp_def)
qed

lemma udp_truncated_frame_overread:
  assumes "stype s = TYPE_UDP_IN_TCP" "rx s = [Data (h @ part), RxEof]" "length h = 5" "5 \<le> unat (h ! 2)"
    "length bufs < length part" "bufs \<noteq> []" "length part < unat (h ! 2) - 5 + unat (ntohs (of_le16 h))"
    "unat (h ! 2) - 3 + unat (ntohs (of_le16 h)) \<le> UDP_BUF_SIZE" "\<forall>b\<in>set bufs. length b = UDP_BUF_SIZE"
  shows "hev_socks5_udp_fwd_f rs get_fd bnd d bufs bound s = None"
proof -
  obtain b bs where b: "bufs = b # bs" using assms(6) by (cases bufs) auto
  obtain r msgs s1 where r: "hev_socks5_udp_recvmmsg get_fd True (map fresh_msg bufs) s = (r, msgs, s1)" by (metis prod_cases3)
  have pn: "part \<noteq> []" using assms(5) by auto
  then have "r = int (length part)" using recvmmsg_tcp_truncated [OF assms(1-4) _ assms(7,8), of get_fd True b bs] r b by simp
  moreover have "length msgs = length bufs" using udp_recvmmsg_safe [OF r] assms(9) by (simp add: buf_ok_fresh)
  ultimately show ?thesis using r pn assms(5) by (simp add: hev_socks5_udp_fwd_f_def Let_def)
qed

text \<open>The header length is one byte: it wraps for a domain name of 249 bytes or more.\<close>

lemma udp_header_length_wraps:
  "hev_socks5_addr_len a = 253 \<Longrightarrow> tcp_frame (a, d) ! 0 ! 2 = 0"
  by (simp add: tcp_frame_def le16_def)

end
