(* ===== verification/LwipAddr.thy ===== *)
theory LwipAddr
  imports Socks5Addr HevMappedDNSWire
begin

text \<open>
  The address conversions of \<^verbatim>\<open>misc/hev-utils.c\<close> between lwIP and SOCKS5, which is where mapped names enter the
  protocol: an IPv4 destination that the mapped DNS has handed out becomes a request for its name. An lwIP address is
  its type and its bytes in network order; the singleton of \<^verbatim>\<open>hev_mapped_dns_get\<close> and \<^verbatim>\<open>hev_mapped_dns_put\<close> is an
  argument.
\<close>

section \<open>Definitions\<close>

datatype ip_addr_t = IPADDR_V4 bytes | IPADDR_V6 bytes | IPADDR_ANY

text \<open>\<^verbatim>\<open>ntohl\<close> of the address as it lies in memory.\<close>

definition ntohl_bytes :: "bytes \<Rightarrow> u32" where
  "ntohl_bytes b = push_bit 24 (ucast (b ! 0)) OR push_bit 16 (ucast (b ! 1)) OR push_bit 8 (ucast (b ! 2)) OR ucast (b ! 3)"

definition hev_mapped_dns_get :: "HevMappedDNS option \<Rightarrow> HevMappedDNS option" where
  "hev_mapped_dns_get singleton = singleton"

definition hev_mapped_dns_put :: "HevMappedDNS option \<Rightarrow> HevMappedDNS option \<Rightarrow> HevMappedDNS option" where
  "hev_mapped_dns_put self singleton = self"

text \<open>\<open>None\<close> when one of the functions it calls leaves its memory.\<close>

definition hev_socks5_addr_from_lwip ::
    "HevMappedDNS option \<Rightarrow> HevSocks5Addr \<Rightarrow> ip_addr_t \<Rightarrow> u16 \<Rightarrow> (int \<times> HevSocks5Addr \<times> HevMappedDNS option) option" where
  "hev_socks5_addr_from_lwip singleton addr ip port =
     (case ip of
        IPADDR_V4 b \<Rightarrow>
          (case (case hev_mapped_dns_get singleton of
                   None \<Rightarrow> Some (None, None)
                 | Some dns \<Rightarrow> map_option (map_prod id Some) (hev_mapped_dns_lookup (ntohl_bytes b) dns)) of
             None \<Rightarrow> None
           | Some (Some name, singleton) \<Rightarrow>
               map_option (\<lambda>(_, addr). (0, addr, singleton)) (hev_socks5_addr_from_name addr name (htons port))
           | Some (None, singleton) \<Rightarrow> Some (0, snd (hev_socks5_addr_from_ipv4 addr b (htons port)), singleton))
      | IPADDR_V6 b \<Rightarrow> Some (0, snd (hev_socks5_addr_from_ipv6 addr b (htons port)), singleton)
      | IPADDR_ANY \<Rightarrow> Some (- 1, addr, singleton))"

definition hev_socks5_addr_into_lwip :: "HevSocks5Addr \<Rightarrow> (ip_addr_t \<times> u16) option" where
  "hev_socks5_addr_into_lwip addr =
     (if atype addr = HEV_SOCKS5_ADDR_TYPE_IPV4 then Some (IPADDR_V4 (ipv4_addr addr), ntohs (of_le16 (ipv4_port addr)))
      else if atype addr = HEV_SOCKS5_ADDR_TYPE_IPV6 then Some (IPADDR_V6 (ipv6_addr addr), ntohs (of_le16 (ipv6_port addr)))
      else None)"

section \<open>Lemmas\<close>

lemma ntohl_write_u32: "ntohl_bytes (write_u32 v) = v"
proof (rule bit_word_eqI)
  fix n assume "n < LENGTH(32)"
  then consider "n < 8" | "8 \<le> n" "n < 16" | "16 \<le> n" "n < 24" | "24 \<le> n" "n < 32" by fastforce
  then show "bit (ntohl_bytes (write_u32 v)) n = bit v n"
    by cases (auto simp: ntohl_bytes_def write_u32_def bit_or_iff bit_push_bit_iff bit_ucast_iff bit_drop_bit_eq)
qed

definition ip_ok :: "ip_addr_t \<Rightarrow> bool" where
  "ip_ok ip = (case ip of IPADDR_V4 b \<Rightarrow> length b = 4 | IPADDR_V6 b \<Rightarrow> length b = 16 | IPADDR_ANY \<Rightarrow> False)"

lemma from_ipv4_into:
  assumes "addr_ok a" "length b = 4"
  shows "hev_socks5_addr_into_lwip (snd (hev_socks5_addr_from_ipv4 a b (htons port))) = Some (IPADDR_V4 b, port)"
  using assms by (simp add: hev_socks5_addr_into_lwip_def hev_socks5_addr_from_ipv4_def addr_ok_def ipv4_addr_def ipv4_port_def
      mem_get_put_disjoint)

lemma from_ipv6_into:
  assumes "addr_ok a" "length b = 16"
  shows "hev_socks5_addr_into_lwip (snd (hev_socks5_addr_from_ipv6 a b (htons port))) = Some (IPADDR_V6 b, port)"
  using assms by (simp add: hev_socks5_addr_into_lwip_def hev_socks5_addr_from_ipv6_def addr_ok_def ipv6_addr_def ipv6_port_def
      mem_get_put_disjoint)

section \<open>Properties\<close>





section \<open>Defects\<close>

text \<open>
  A mapped name of 256 bytes or more, which the DNS handler accepts, is not terminated in the address structure:
  looking the address up for a request reads past it.
\<close>

lemma mapped_long_name_overrun:
  assumes "hev_mapped_dns_lookup (ntohl_bytes b) d = Some (Some name, d')" "addr_ok a" "cstring name" "256 \<le> length name"
    "cstring (drop 257 (abody a))"
  shows "hev_socks5_addr_from_lwip (Some d) a (IPADDR_V4 b) port = None"
  using assms(1) addr_from_name_overrun [OF assms(2-5)]
  by (simp add: hev_socks5_addr_from_lwip_def hev_mapped_dns_get_def)

end
