(* ===== verification/SessionSet.thy ===== *)
theory SessionSet
  imports HevList
begin

text \<open>
  The sessions of the tunnel: the list \<^verbatim>\<open>session_set\<close> of \<^verbatim>\<open>hev-socks5-tunnel.c\<close> with its count and limit, the
  termination request of \<^verbatim>\<open>hev-socks5-session.c\<close>, and the event task that ends every session when the tunnel stops.
  A session is named by the address of its list node; what the other tasks see of it is its timeout and whether its
  task was woken up. The tasks run interleaved: a step relation says in which order the operations may come.
\<close>

section \<open>Definitions\<close>

record session =
  se_timeout :: int
  se_woken :: bool

record HevSocks5Tunnel =
  tn_run :: bool
  session_set :: HevList
  session_heap :: lheap
  session_count :: int
  sessions :: "ptr \<Rightarrow> session"
  max_session_count :: int

definition hev_socks5_session_terminate :: "ptr \<Rightarrow> 'a HevSocks5Tunnel_scheme \<Rightarrow> 'a HevSocks5Tunnel_scheme" where
  "hev_socks5_session_terminate p g =
     g\<lparr>sessions := (sessions g)(p := (sessions g p)\<lparr>se_timeout := 0, se_woken := True\<rparr>)\<rparr>"

definition set_list :: "HevList \<times> lheap \<Rightarrow> 'a HevSocks5Tunnel_scheme \<Rightarrow> 'a HevSocks5Tunnel_scheme" where
  "set_list r g = g\<lparr>session_set := fst r, session_heap := snd r\<rparr>"

definition hev_socks5_tunnel_insert_session :: "ptr \<Rightarrow> 'a HevSocks5Tunnel_scheme \<Rightarrow> 'a HevSocks5Tunnel_scheme" where
  "hev_socks5_tunnel_insert_session node g =
     (let g = set_list (hev_list_add_tail (session_set g) node (session_heap g)) g;
          g = g\<lparr>session_count := session_count g + 1\<rparr>
      in if max_session_count g = 0 \<or> session_count g < max_session_count g then g
         else hev_socks5_session_terminate (hev_list_first (session_set g)) g)"

definition hev_socks5_tunnel_delete_session :: "ptr \<Rightarrow> 'a HevSocks5Tunnel_scheme \<Rightarrow> 'a HevSocks5Tunnel_scheme" where
  "hev_socks5_tunnel_delete_session node g =
     (let g = set_list (hev_list_del (session_set g) node (session_heap g)) g
      in g\<lparr>session_count := session_count g - 1\<rparr>)"

definition hev_socks5_tunnel_update_session :: "ptr \<Rightarrow> 'a HevSocks5Tunnel_scheme \<Rightarrow> 'a HevSocks5Tunnel_scheme" where
  "hev_socks5_tunnel_update_session node g =
     (if max_session_count g = 0 then g
      else
        let g = set_list (hev_list_del (session_set g) node (session_heap g)) g
        in set_list (hev_list_add_tail (session_set g) node (session_heap g)) g)"

text \<open>The loop of \<^verbatim>\<open>event_task_entry\<close>, and what the task does when it is woken.\<close>

partial_function (option) terminate_all :: "ptr \<Rightarrow> 'a HevSocks5Tunnel_scheme \<Rightarrow> 'a HevSocks5Tunnel_scheme option" where
  "terminate_all node g =
     (if node = NULL then Some g
      else
        let g = hev_socks5_session_terminate node g
        in terminate_all (hev_list_node_next (session_heap g) node) g)"

definition event_task_entry :: "'a HevSocks5Tunnel_scheme \<Rightarrow> 'a HevSocks5Tunnel_scheme option" where
  "event_task_entry g =
     (let g = g\<lparr>tn_run := False\<rparr>
      in terminate_all (hev_list_first (session_set g)) g)"

section \<open>The list\<close>

definition sessions_at :: "'a HevSocks5Tunnel_scheme \<Rightarrow> ptr list \<Rightarrow> bool" where
  "sessions_at g ps \<longleftrightarrow> list_at (session_heap g) (session_set g) ps \<and> session_count g = int (length ps)"

definition terminated :: "'a HevSocks5Tunnel_scheme \<Rightarrow> ptr \<Rightarrow> bool" where
  "terminated g p \<longleftrightarrow> se_timeout (sessions g p) = 0 \<and> se_woken (sessions g p)"

lemma terminate_fields [simp]:
  "tn_run (hev_socks5_session_terminate p g) = tn_run g" "session_set (hev_socks5_session_terminate p g) = session_set g"
  "session_heap (hev_socks5_session_terminate p g) = session_heap g" "session_count (hev_socks5_session_terminate p g) = session_count g"
  "max_session_count (hev_socks5_session_terminate p g) = max_session_count g"
  "sessions_at (hev_socks5_session_terminate p g) ps = sessions_at g ps"
  by (simp_all add: hev_socks5_session_terminate_def sessions_at_def)

lemma terminated_terminate [simp]:
  "terminated (hev_socks5_session_terminate p g) q \<longleftrightarrow> q = p \<or> terminated g q"
  by (simp add: hev_socks5_session_terminate_def terminated_def)

lemma set_list_fields [simp]:
  "tn_run (set_list r g) = tn_run g" "session_set (set_list r g) = fst r" "session_heap (set_list r g) = snd r"
  "session_count (set_list r g) = session_count g" "max_session_count (set_list r g) = max_session_count g"
  "sessions (set_list r g) = sessions g"
  by (simp_all add: set_list_def)

lemma terminated_fields: "sessions g' = sessions g \<Longrightarrow> terminated g' p = terminated g p"
  by (simp add: terminated_def)

text \<open>The effect of the operations on the abstract list: the newest last, and the least recently active first.\<close>

definition full :: "'a HevSocks5Tunnel_scheme \<Rightarrow> ptr list \<Rightarrow> bool" where
  "full g ps \<longleftrightarrow> max_session_count g \<noteq> 0 \<and> max_session_count g \<le> int (length ps)"

lemma insert_session_ok:
  assumes "sessions_at g ps" "p \<noteq> NULL" "p \<notin> set ps"
  shows "sessions_at (hev_socks5_tunnel_insert_session p g) (ps @ [p])"
    "terminated (hev_socks5_tunnel_insert_session p g) q \<longleftrightarrow> terminated g q \<or> full g (ps @ [p]) \<and> q = hd (ps @ [p])"
    "tn_run (hev_socks5_tunnel_insert_session p g) = tn_run g"
    "max_session_count (hev_socks5_tunnel_insert_session p g) = max_session_count g"
proof -
  obtain l h where lh: "hev_list_add_tail (session_set g) p (session_heap g) = (l, h)" by force
  let ?g = "set_list (l, h) g"
  have l: "list_at h l (ps @ [p])" using hl.add_repr [OF _ assms(2,3) lh] assms(1) by (simp add: sessions_at_def)
  have c: "session_count g = int (length ps)" using assms(1) by (simp add: sessions_at_def)
  have f: "hev_list_first l = hd (ps @ [p])" using list_at_first [OF l] by (cases ps) simp_all
  show "sessions_at (hev_socks5_tunnel_insert_session p g) (ps @ [p])"
    "terminated (hev_socks5_tunnel_insert_session p g) q \<longleftrightarrow> terminated g q \<or> full g (ps @ [p]) \<and> q = hd (ps @ [p])"
    "tn_run (hev_socks5_tunnel_insert_session p g) = tn_run g"
    "max_session_count (hev_socks5_tunnel_insert_session p g) = max_session_count g"
    using l c f terminated_fields [of "?g\<lparr>session_count := session_count g + 1\<rparr>" g q]
    by (auto simp: hev_socks5_tunnel_insert_session_def lh Let_def sessions_at_def full_def)
qed

lemma delete_session_ok:
  assumes "sessions_at g ps" "p \<in> set ps"
  shows "sessions_at (hev_socks5_tunnel_delete_session p g) (remove1 p ps)"
    "sessions (hev_socks5_tunnel_delete_session p g) = sessions g"
    "tn_run (hev_socks5_tunnel_delete_session p g) = tn_run g"
    "max_session_count (hev_socks5_tunnel_delete_session p g) = max_session_count g"
proof -
  obtain l h where lh: "hev_list_del (session_set g) p (session_heap g) = (l, h)" by force
  have l: "list_at h l (remove1 p ps)" using hl.del_remove1 [OF _ assms(2) lh] assms(1) by (simp add: sessions_at_def)
  moreover have "session_count g = int (length ps)" "0 < length ps" using assms by (auto simp: sessions_at_def)
  ultimately show "sessions_at (hev_socks5_tunnel_delete_session p g) (remove1 p ps)"
    using assms(2) by (simp add: hev_socks5_tunnel_delete_session_def lh sessions_at_def length_remove1 of_nat_diff Suc_leI)
qed (simp_all add: hev_socks5_tunnel_delete_session_def Let_def)

lemma update_session_ok:
  assumes "sessions_at g ps" "p \<in> set ps"
  shows "sessions_at (hev_socks5_tunnel_update_session p g) (if max_session_count g = 0 then ps else remove1 p ps @ [p])"
    "sessions (hev_socks5_tunnel_update_session p g) = sessions g"
    "tn_run (hev_socks5_tunnel_update_session p g) = tn_run g"
    "max_session_count (hev_socks5_tunnel_update_session p g) = max_session_count g"
proof -
  obtain l h where lh: "hev_list_del (session_set g) p (session_heap g) = (l, h)" by force
  obtain l2 h2 where lh2: "hev_list_add_tail l p h = (l2, h2)" by force
  have "list_at h2 l2 (remove1 p ps @ [p])" using hl.touch_repr [OF _ assms(2) lh lh2] assms(1) by (simp add: sessions_at_def)
  moreover have "length (remove1 p ps @ [p]) = length ps"
    using assms(2) length_pos_if_in_set [OF assms(2)] by (simp add: length_remove1)
  ultimately show "sessions_at (hev_socks5_tunnel_update_session p g) (if max_session_count g = 0 then ps else remove1 p ps @ [p])"
    using assms(1) by (simp add: hev_socks5_tunnel_update_session_def lh lh2 sessions_at_def)
qed (simp_all add: hev_socks5_tunnel_update_session_def Let_def)

lemma terminate_all_ok:
  assumes "list_at (session_heap g) (session_set g) (as @ bs)"
  shows "\<exists>g'. terminate_all (case bs of [] \<Rightarrow> NULL | b # _ \<Rightarrow> b) g = Some g' \<and> (\<forall>q. terminated g' q \<longleftrightarrow> terminated g q \<or> q \<in> set bs) \<and>
    (\<forall>ps. sessions_at g' ps = sessions_at g ps) \<and> tn_run g' = tn_run g \<and> max_session_count g' = max_session_count g"
  using assms
proof (induction bs arbitrary: as g)
  case Nil
  then show ?case by (simp add: terminate_all.simps)
next
  case (Cons b bs)
  have b: "b \<noteq> NULL" using list_at_nonnull [OF Cons.prems, of b] by simp
  let ?g = "hev_socks5_session_terminate b g"
  have next_b: "hev_list_node_next (session_heap g) b = (case bs of [] \<Rightarrow> NULL | b # _ \<Rightarrow> b)"
    using list_at_next [OF Cons.prems] .
  obtain g' where "terminate_all (case bs of [] \<Rightarrow> NULL | b # _ \<Rightarrow> b) ?g = Some g'"
    "\<forall>q. terminated g' q \<longleftrightarrow> terminated ?g q \<or> q \<in> set bs" "\<forall>ps. sessions_at g' ps = sessions_at ?g ps"
    "tn_run g' = tn_run ?g" "max_session_count g' = max_session_count ?g"
    using Cons.IH [of ?g "as @ [b]"] Cons.prems by auto
  then show ?case using b next_b by (subst terminate_all.simps) auto
qed

lemma event_task_ok:
  assumes "sessions_at g ps"
  shows "\<exists>g'. event_task_entry g = Some g' \<and> (\<forall>q. terminated g' q \<longleftrightarrow> terminated g q \<or> q \<in> set ps) \<and> sessions_at g' ps \<and>
    \<not> tn_run g' \<and> max_session_count g' = max_session_count g"
proof -
  let ?g = "g\<lparr>tn_run := False\<rparr>"
  have "list_at (session_heap ?g) (session_set ?g) ([] @ ps)" using assms by (simp add: sessions_at_def)
  note t = terminate_all_ok [OF this]
  have "hev_list_first (session_set ?g) = (case ps of [] \<Rightarrow> NULL | b # _ \<Rightarrow> b)"
    using list_at_first [of "session_heap g" "session_set g" ps] assms by (simp add: sessions_at_def)
  then have "event_task_entry g = terminate_all (case ps of [] \<Rightarrow> NULL | b # _ \<Rightarrow> b) ?g"
    by (simp add: event_task_entry_def)
  moreover have "\<And>q. terminated ?g q = terminated g q" "sessions_at ?g ps" using assms by (simp_all add: terminated_def sessions_at_def)
  ultimately show ?thesis using t by auto
qed

section \<open>The tasks\<close>

text \<open>
  What the tasks may do, one at a time: lwIP hands over a new connection, whose session is constructed with no
  timeout and put into the set; a session's task comes back from waiting; it sets its own timeout (when it connects
  and when it starts the handshake); its task ends; the event task stops the tunnel. A new session lies at an address
  that no other session has.
\<close>

datatype event = NewSession ptr | Active ptr | SetTimeout ptr int | Finish ptr | Stop

definition accept_session :: "ptr \<Rightarrow> 'a HevSocks5Tunnel_scheme \<Rightarrow> 'a HevSocks5Tunnel_scheme" where
  "accept_session p g =
     hev_socks5_tunnel_insert_session p (g\<lparr>sessions := (sessions g)(p := \<lparr>se_timeout = - 1, se_woken = False\<rparr>)\<rparr>)"

definition arm_session :: "ptr \<Rightarrow> int \<Rightarrow> 'a HevSocks5Tunnel_scheme \<Rightarrow> 'a HevSocks5Tunnel_scheme" where
  "arm_session p t g = g\<lparr>sessions := (sessions g)(p := (sessions g p)\<lparr>se_timeout := t\<rparr>)\<rparr>"

inductive tunnel_run :: "'a HevSocks5Tunnel_scheme \<Rightarrow> event list \<Rightarrow> ptr set \<Rightarrow> 'a HevSocks5Tunnel_scheme \<Rightarrow> bool" for g0 where
  start: "tunnel_run g0 [] {} g0"
| accept: "tunnel_run g0 evs A g \<Longrightarrow> tn_run g \<Longrightarrow> p \<noteq> NULL \<Longrightarrow> p \<notin> A \<Longrightarrow>
    tunnel_run g0 (evs @ [NewSession p]) (insert p A) (accept_session p g)"
| active: "tunnel_run g0 evs A g \<Longrightarrow> p \<in> A \<Longrightarrow>
    tunnel_run g0 (evs @ [Active p]) A (hev_socks5_tunnel_update_session p g)"
| arm: "tunnel_run g0 evs A g \<Longrightarrow> p \<in> A \<Longrightarrow> tunnel_run g0 (evs @ [SetTimeout p t]) A (arm_session p t g)"
| finish: "tunnel_run g0 evs A g \<Longrightarrow> p \<in> A \<Longrightarrow>
    tunnel_run g0 (evs @ [Finish p]) (A - {p}) (hev_socks5_tunnel_delete_session p g)"
| stop: "tunnel_run g0 evs A g \<Longrightarrow> tn_run g \<Longrightarrow> event_task_entry g = Some g' \<Longrightarrow> tunnel_run g0 (evs @ [Stop]) A g'"

inductive_cases tunnel_run_snocE: "tunnel_run g0 (evs @ [e]) A g"

text \<open>The sessions in the order of what they last did.\<close>

fun activity :: "event list \<Rightarrow> ptr list" where
  "activity [] = []"
| "activity (NewSession p # es) = p # activity es"
| "activity (Active p # es) = p # activity es"
| "activity (e # es) = activity es"

definition by_activity :: "event list \<Rightarrow> ptr set \<Rightarrow> ptr list" where
  "by_activity evs A = filter (\<lambda>p. p \<in> A) (remdups (activity evs))"

lemma activity_append [simp]: "activity (xs @ ys) = activity xs @ activity ys"
  by (induction xs rule: activity.induct) simp_all

lemma remdups_snoc: "remdups (xs @ [p]) = filter (\<lambda>q. q \<noteq> p) (remdups xs) @ [p]"
  by (induction xs) auto

lemma by_activity_accept: "p \<notin> A \<Longrightarrow> by_activity (evs @ [NewSession p]) (insert p A) = by_activity evs A @ [p]"
  by (simp add: by_activity_def remdups_snoc ) (rule filter_cong, auto)

lemma by_activity_active: "p \<in> A \<Longrightarrow> by_activity (evs @ [Active p]) A = filter (\<lambda>q. q \<noteq> p) (by_activity evs A) @ [p]"
  by (simp add: by_activity_def remdups_snoc) (rule filter_cong, auto)

lemma by_activity_finish: "by_activity (evs @ [Finish p]) (A - {p}) = filter (\<lambda>q. q \<noteq> p) (by_activity evs A)"
  by (simp add: by_activity_def conj_commute)

lemma by_activity_other [simp]:
  "by_activity (evs @ [SetTimeout p t]) A = by_activity evs A" "by_activity (evs @ [Stop]) A = by_activity evs A"
  by (simp_all add: by_activity_def)

lemma remove1_filter: "distinct xs \<Longrightarrow> remove1 p xs = filter (\<lambda>q. q \<noteq> p) xs"
  by (induction xs) (auto intro: filter_True [symmetric])

lemma run_invariant:
  assumes "tunnel_run g0 evs A g" "sessions_at g0 []"
  shows "\<exists>ps. sessions_at g ps \<and> set ps = A \<and> (max_session_count g0 \<noteq> 0 \<longrightarrow> ps = by_activity evs A) \<and>
    max_session_count g = max_session_count g0"
  using assms
proof (induction rule: tunnel_run.induct)
  case start
  then show ?case by (auto simp: by_activity_def)
next
  case (accept evs A g p)
  then obtain ps where ps: "sessions_at g ps" "set ps = A" "max_session_count g0 \<noteq> 0 \<longrightarrow> ps = by_activity evs A"
    "max_session_count g = max_session_count g0" by blast
  let ?g = "g\<lparr>sessions := (sessions g)(p := \<lparr>se_timeout = - 1, se_woken = False\<rparr>)\<rparr>"
  have "sessions_at ?g ps" using ps(1) by (simp add: sessions_at_def)
  note ins = insert_session_ok [OF this \<open>p \<noteq> NULL\<close>]
  note by_activity_accept [OF accept.hyps(4), of evs]
  with ins ps accept.hyps(4) show ?case
    by (intro exI [of _ "ps @ [p]"]) (auto simp: accept_session_def)
next
  case (active evs A g p)
  then obtain ps where ps: "sessions_at g ps" "set ps = A" "max_session_count g0 \<noteq> 0 \<longrightarrow> ps = by_activity evs A"
    "max_session_count g = max_session_count g0" by blast
  have d: "distinct ps" using ps(1) by (auto simp: sessions_at_def dest: list_at_distinct)
  have r: "remove1 p ps = filter (\<lambda>q. q \<noteq> p) ps" using remove1_filter [OF d] .
  have "by_activity (evs @ [Active p]) A = filter (\<lambda>q. q \<noteq> p) (by_activity evs A) @ [p]" using active.hyps(2) by (rule by_activity_active)
  with update_session_ok [OF ps(1), of p] ps active.hyps(2) r show ?case
    by (intro exI [of _ "if max_session_count g = 0 then ps else filter (\<lambda>q. q \<noteq> p) ps @ [p]"]) auto
next
  case (arm evs A g p t)
  then obtain ps where "sessions_at g ps" "set ps = A" "max_session_count g0 \<noteq> 0 \<longrightarrow> ps = by_activity evs A"
    "max_session_count g = max_session_count g0" by blast
  then show ?case by (intro exI [of _ ps]) (simp add: arm_session_def sessions_at_def)
next
  case (finish evs A g p)
  then obtain ps where ps: "sessions_at g ps" "set ps = A" "max_session_count g0 \<noteq> 0 \<longrightarrow> ps = by_activity evs A"
    "max_session_count g = max_session_count g0" by blast
  have d: "distinct ps" using ps(1) by (auto simp: sessions_at_def dest: list_at_distinct)
  have r: "remove1 p ps = filter (\<lambda>q. q \<noteq> p) ps" using remove1_filter [OF d] .
  with delete_session_ok [OF ps(1), of p] ps finish.hyps(2) show ?case
    by (intro exI [of _ "filter (\<lambda>q. q \<noteq> p) ps"]) (auto simp: by_activity_finish)
next
  case (stop evs A g g')
  then obtain ps where "sessions_at g ps" "set ps = A" "max_session_count g0 \<noteq> 0 \<longrightarrow> ps = by_activity evs A"
    "max_session_count g = max_session_count g0" by blast
  with event_task_ok [of g ps] stop.hyps(3) show ?case by (intro exI [of _ ps]) auto
qed

section \<open>Properties\<close>

text \<open>
  C23. The session set. However the tasks interleave, the list holds exactly the live sessions, each once, the count is
  their number, and with a limit in force they stand in the order of their last activity, the least recently active
  one first.
\<close>

theorem session_set_ok:
  assumes "tunnel_run g0 evs A g" "sessions_at g0 []"
  shows "\<exists>ps. list_at (session_heap g) (session_set g) ps \<and> distinct ps \<and> set ps = A \<and> session_count g = int (card A) \<and>
    (max_session_count g0 \<noteq> 0 \<longrightarrow> ps = by_activity evs A)"
proof -
  obtain ps where ps: "sessions_at g ps" "set ps = A" "max_session_count g0 \<noteq> 0 \<longrightarrow> ps = by_activity evs A"
    using run_invariant [OF assms] by blast
  then have l: "list_at (session_heap g) (session_set g) ps" "session_count g = int (length ps)" by (simp_all add: sessions_at_def)
  moreover have "distinct ps" using list_at_distinct [OF l(1)] .
  moreover have "length ps = card A" using distinct_card [OF \<open>distinct ps\<close>] ps(2) by simp
  ultimately show ?thesis using ps by auto
qed

text \<open>
  The session limit. When a connection is accepted, nobody is asked to end as long as the number of sessions stays
  below the limit (or there is none); otherwise it is exactly the least recently active one of them, the new one
  included.
\<close>

theorem session_limit_ok:
  assumes "tunnel_run g0 evs A g" "sessions_at g0 []" "tn_run g" "p \<noteq> NULL" "p \<notin> A"
  shows "terminated (accept_session p g) q \<longleftrightarrow>
    q \<noteq> p \<and> terminated g q \<or>
    max_session_count g0 \<noteq> 0 \<and> max_session_count g0 \<le> int (card A) + 1 \<and> q = hd (by_activity (evs @ [NewSession p]) (insert p A))"
proof -
  obtain ps where ps: "sessions_at g ps" "set ps = A" "max_session_count g0 \<noteq> 0 \<longrightarrow> ps = by_activity evs A"
      "max_session_count g = max_session_count g0"
    using run_invariant [OF assms(1,2)] by blast
  let ?g = "g\<lparr>sessions := (sessions g)(p := \<lparr>se_timeout = - 1, se_woken = False\<rparr>)\<rparr>"
  have "sessions_at ?g ps" using ps(1) by (simp add: sessions_at_def)
  note ins = insert_session_ok(2) [OF this assms(4), of q]
  have "distinct ps" using ps(1) by (auto simp: sessions_at_def dest: list_at_distinct)
  then have "length ps = card A" using distinct_card [of ps] ps(2) by simp
  moreover have "max_session_count g0 \<noteq> 0 \<longrightarrow> by_activity (evs @ [NewSession p]) (insert p A) = ps @ [p]"
    using ps(3) by_activity_accept [OF assms(5), of evs] by simp
  moreover have "terminated ?g q \<longleftrightarrow> q \<noteq> p \<and> terminated g q" by (simp add: terminated_def)
  ultimately show ?thesis using ins ps(2,4) assms(5) by (auto simp: accept_session_def full_def)
qed


text \<open>A tunnel with a limit of two, and a run on it.\<close>

definition demo_tunnel :: HevSocks5Tunnel where
  "demo_tunnel = \<lparr>tn_run = True, session_set = \<lparr>head = NULL, tail = NULL\<rparr>,
     session_heap = (\<lambda>_. \<lparr>ln_next = NULL, ln_prev = NULL\<rparr>), session_count = 0,
     sessions = (\<lambda>_. \<lparr>se_timeout = - 1, se_woken = False\<rparr>), max_session_count = 2\<rparr>"

lemma demo_empty: "sessions_at demo_tunnel []"
  by (simp add: demo_tunnel_def sessions_at_def list_at_empty)

lemma demo_run: "tunnel_run demo_tunnel [NewSession 64] {64} (accept_session 64 demo_tunnel)"
  using tunnel_run.accept [OF tunnel_run.start [of demo_tunnel], of 64] by (simp add: demo_tunnel_def)

lemma demo_running: "tn_run (accept_session 64 demo_tunnel)"
  using insert_session_ok(3) [of "demo_tunnel\<lparr>sessions := (sessions demo_tunnel)(64 := \<lparr>se_timeout = - 1, se_woken = False\<rparr>)\<rparr>" "[]" 64] demo_empty
  by (simp add: accept_session_def sessions_at_def demo_tunnel_def)

theorem session_set_ok_witness: "session_count (accept_session 64 demo_tunnel) = 1"
  using session_set_ok [OF demo_run demo_empty] by auto

theorem session_limit_ok_witness: "terminated (accept_session 128 (accept_session 64 demo_tunnel)) 64"
  using session_limit_ok [OF demo_run demo_empty demo_running, of 128 64] by (simp add: demo_tunnel_def by_activity_def)


end
