(* ===== verification/SessionTCP.thy ===== *)
theory SessionTCP
  imports Socks5Client LwipAddr SessionSet HevRingBuffer
begin

text \<open>
  The TCP session of \<^verbatim>\<open>hev-socks5-session-tcp.c\<close>: a client connection whose other end is a connection of lwIP. Data
  from lwIP waits in a chain of packet buffers until it is written to the proxy; data from the proxy goes through the
  ring buffer to lwIP. lwIP runs in other tasks and calls the session's handlers while the session's task waits, for
  the mutex or in its yielder: what it calls then is a script, one batch per wait. Of lwIP the model keeps the receive
  window, the bytes it has been given and not acknowledged, and what it has been given in all.
\<close>

section \<open>The session and its environment\<close>

abbreviation TCP_WND :: nat where "TCP_WND \<equiv> 65528"
abbreviation TCP_SND_BUF :: nat where "TCP_SND_BUF \<equiv> 65528"

datatype pcb_event = PcbRecv "bytes list" | PcbFin | PcbSent u16 | PcbErr

text \<open>\<open>rcv_wnd\<close>, \<open>in_flight\<close>, \<open>pcb_out\<close> and the two scripts belong to lwIP; \<open>taken\<close> records what the session took over
  from it.\<close>

record HevSocks5SessionTCP = HevSocks5Client +
  queue :: "bytes list"
  pcb :: bool
  pcb_eof :: bool
  buffer :: HevRingBuffer
  node :: ptr
  tunnel :: HevSocks5Tunnel
  rcv_wnd :: nat
  in_flight :: nat
  pcb_out :: bytes
  write_ok :: "bool list"
  callbacks :: "pcb_event list list"
  wr_shut :: bool
  pcb_shut :: bool
  taken :: bytes

section \<open>Calls into lwIP\<close>

text \<open>\<^verbatim>\<open>pbuf_free_header\<close>; a packet buffer is its payload.\<close>

fun pbuf_free_header :: "bytes list \<Rightarrow> u16 \<Rightarrow> bytes list" where
  "pbuf_free_header [] free_left = []"
| "pbuf_free_header (p # ps) free_left =
     (if free_left = 0 then p # ps
      else if unat free_left \<ge> length p then pbuf_free_header ps (free_left - of_nat (length p))
      else drop (unat free_left) p # ps)"

text \<open>\<^verbatim>\<open>tcp_recved\<close> opens the window again.\<close>

definition tcp_recved :: "u16 \<Rightarrow> 'a HevSocks5SessionTCP_scheme \<Rightarrow> 'a HevSocks5SessionTCP_scheme" where
  "tcp_recved len self = self\<lparr>rcv_wnd := rcv_wnd self + unat len\<rparr>"

text \<open>\<^verbatim>\<open>tcp_write\<close>: the length is 16 bits wide, more than the send buffer has room for is refused, and it may fail for
  want of memory.\<close>

definition tcp_write :: "bytes \<Rightarrow> u16 \<Rightarrow> 'a HevSocks5SessionTCP_scheme \<Rightarrow> bool \<times> 'a HevSocks5SessionTCP_scheme" where
  "tcp_write bs len self =
     (if len = 0 then (True, self)
      else if unat len > TCP_SND_BUF - in_flight self then (False, self)
      else
        let (ok, rest) = (case write_ok self of [] \<Rightarrow> (True, []) | b # rest \<Rightarrow> (b, rest))
        in if ok then (True, self\<lparr>write_ok := rest, pcb_out := pcb_out self @ take (unat len) bs, in_flight := in_flight self + unat len\<rparr>)
           else (False, self\<lparr>write_ok := rest\<rparr>))"

definition tcp_output :: "'a HevSocks5SessionTCP_scheme \<Rightarrow> bool \<times> 'a HevSocks5SessionTCP_scheme" where
  "tcp_output self = (case write_ok self of [] \<Rightarrow> (True, self) | b # rest \<Rightarrow> (b, self\<lparr>write_ok := rest\<rparr>))"

section \<open>Handlers\<close>

definition tot_len :: "bytes list \<Rightarrow> u16" where
  "tot_len q = of_nat (length (concat q))"

text \<open>The result says whether the data was taken (\<^verbatim>\<open>ERR_OK\<close>) or has to be offered again (\<^verbatim>\<open>ERR_WOULDBLOCK\<close>).\<close>

definition tcp_recv_handler ::
    "bytes list option \<Rightarrow> 'a HevSocks5SessionTCP_scheme \<Rightarrow> bool \<times> 'a HevSocks5SessionTCP_scheme" where
  "tcp_recv_handler p self =
     (case p of
        Some p \<Rightarrow>
          if queue self = [] then (True, self\<lparr>queue := p\<rparr>)
          else if unat (tot_len (queue self)) > TCP_WND then (False, self)
          else (True, self\<lparr>queue := queue self @ p\<rparr>)
      | None \<Rightarrow> (True, self\<lparr>pcb_eof := True\<rparr>))"

definition tcp_sent_handler :: "u16 \<Rightarrow> 'a HevSocks5SessionTCP_scheme \<Rightarrow> 'a HevSocks5SessionTCP_scheme" where
  "tcp_sent_handler len self = self\<lparr>buffer := hev_ring_buffer_read_release (ucast len) (buffer self)\<rparr>"

definition tcp_err_handler :: "'a HevSocks5SessionTCP_scheme \<Rightarrow> 'a HevSocks5SessionTCP_scheme" where
  "tcp_err_handler self = hev_socks5_set_timeout 0 (self\<lparr>pcb := False\<rparr>)"

text \<open>lwIP calls a handler only while the connection exists, delivers no more than its window allows, and
  acknowledges only what is in flight.\<close>

definition run_callback :: "pcb_event \<Rightarrow> 'a HevSocks5SessionTCP_scheme \<Rightarrow> 'a HevSocks5SessionTCP_scheme" where
  "run_callback e self =
     (if \<not> pcb self then self
      else
        case e of
          PcbRecv p \<Rightarrow>
            if p = [] \<or> rcv_wnd self < length (concat p) then self
            else
              (case tcp_recv_handler (Some p) self of
                 (ok, self) \<Rightarrow>
                   if ok then self\<lparr>rcv_wnd := rcv_wnd self - length (concat p), taken := taken self @ concat p\<rparr> else self)
        | PcbFin \<Rightarrow> snd (tcp_recv_handler None self)
        | PcbSent len \<Rightarrow>
            if in_flight self < unat len then self
            else tcp_sent_handler len (self\<lparr>in_flight := in_flight self - unat len\<rparr>)
        | PcbErr \<Rightarrow> tcp_err_handler self)"

definition run_callbacks :: "'a HevSocks5SessionTCP_scheme \<Rightarrow> 'a HevSocks5SessionTCP_scheme" where
  "run_callbacks self =
     (case callbacks self of
        [] \<Rightarrow> self
      | b # bs \<Rightarrow> fold run_callback b (self\<lparr>callbacks := bs\<rparr>))"

text \<open>The two places where the task waits.\<close>

definition hev_task_mutex_lock :: "'a HevSocks5SessionTCP_scheme \<Rightarrow> 'a HevSocks5SessionTCP_scheme" where
  "hev_task_mutex_lock self = run_callbacks self"

definition tcp_task_io_yielder ::
    "HevTaskYieldType \<Rightarrow> 'a HevSocks5SessionTCP_scheme \<Rightarrow> int \<times> 'a HevSocks5SessionTCP_scheme" where
  "tcp_task_io_yielder ty self =
     (let (res, self) = hev_socks5_task_io_yielder ty self;
          self = run_callbacks self
      in (res, self\<lparr>tunnel := hev_socks5_tunnel_update_session (node self) (tunnel self)\<rparr>))"

section \<open>Splicing\<close>

text \<open>\<^verbatim>\<open>writev\<close> and \<^verbatim>\<open>readv\<close> on the connection, which does not block: \<open>None\<close> is \<^verbatim>\<open>EAGAIN\<close>, 0 bytes are an end or
  an error. Nothing can be read after an end or an error.\<close>

definition sys_writev :: "bytes \<Rightarrow> 'a HevSocks5SessionTCP_scheme \<Rightarrow> nat option \<times> 'a HevSocks5SessionTCP_scheme" where
  "sys_writev bs self =
     (case tx self of
        [] \<Rightarrow> (Some 0, self)
      | TxFail # es \<Rightarrow> (Some 0, self\<lparr>tx := es\<rparr>)
      | TxBlock # es \<Rightarrow> (None, self\<lparr>tx := es\<rparr>)
      | Accept n # es \<Rightarrow>
          let k = min n (length bs) in (Some k, self\<lparr>tx := es, sent := sent self @ take k bs\<rparr>))"

definition sys_readv :: "nat \<Rightarrow> 'a HevSocks5SessionTCP_scheme \<Rightarrow> bytes option \<times> 'a HevSocks5SessionTCP_scheme" where
  "sys_readv room self =
     (case rx self of
        [] \<Rightarrow> (Some [], self)
      | RxFail # es \<Rightarrow> (Some [], self)
      | RxEof # es \<Rightarrow> (Some [], self)
      | RxBlock # es \<Rightarrow> (None, self\<lparr>rx := es\<rparr>)
      | Data bs # es \<Rightarrow>
          if bs = [] then (Some [], self)
          else (Some (take room bs), self\<lparr>rx := (if length bs \<le> room then es else Data (drop room bs) # es)\<rparr>))"

definition tcp_splice_f :: "'a HevSocks5SessionTCP_scheme \<Rightarrow> int \<times> 'a HevSocks5SessionTCP_scheme" where
  "tcp_splice_f self =
     (if queue self \<noteq> [] then
        (case sys_writev (concat (take 64 (queue self))) self of
           (None, self) \<Rightarrow> (0, self)
         | (Some s, self) \<Rightarrow>
             if s = 0 then (- 1, self)
             else
               let self = hev_task_mutex_lock self;
                   self = self\<lparr>queue := pbuf_free_header (queue self) (of_nat s)\<rparr>;
                   self = (if pcb self then tcp_recved (of_nat s) self else self)
               in (1, self))
      else if pcb_eof self then (- 1, self\<lparr>wr_shut := True\<rparr>)
      else (0, self))"

text \<open>The loop over the read vectors: whether every \<^verbatim>\<open>tcp_write\<close> succeeded, and the sum of the lengths.\<close>

fun tcp_write_iov :: "iovec list \<Rightarrow> 'a HevSocks5SessionTCP_scheme \<Rightarrow> bool \<times> u64 \<times> 'a HevSocks5SessionTCP_scheme" where
  "tcp_write_iov [] self = (True, 0, self)"
| "tcp_write_iov (v # vs) self =
     (let (ok, self) = tcp_write (mem_get (data (buffer self)) (unat (iov_base v)) (unat (iov_len v))) (ucast (iov_len v)) self;
          (oks, s, self) = tcp_write_iov vs self
      in (ok \<and> oks, iov_len v + s, self))"

text \<open>The first half of \<^verbatim>\<open>tcp_splice_b\<close> fills the ring buffer.\<close>

definition splice_b_fill :: "'a HevSocks5SessionTCP_scheme \<Rightarrow> int \<times> 'a HevSocks5SessionTCP_scheme" where
  "splice_b_fill self =
     (let iov = hev_ring_buffer_writing (buffer self)
      in if iov \<noteq> [] then
           (case sys_readv (iov_total iov) self of
              (None, self) \<Rightarrow> (0, self)
            | (Some bs, self) \<Rightarrow>
                if bs = [] then (- 1, self)
                else
                  let self = self\<lparr>buffer := (buffer self)\<lparr>data := iov_scatter iov bs (data (buffer self))\<rparr>\<rparr>
                  in (1, self\<lparr>buffer := hev_ring_buffer_write_finish (of_nat (length bs)) (buffer self)\<rparr>))
         else (0, self))"

definition tcp_splice_b :: "'a HevSocks5SessionTCP_scheme \<Rightarrow> int \<times> 'a HevSocks5SessionTCP_scheme" where
  "tcp_splice_b self =
     (let (res, self) = splice_b_fill self;
          self = hev_task_mutex_lock self;
          (err, res, self) =
            (if pcb self then
               let iov = hev_ring_buffer_reading (buffer self)
               in if iov \<noteq> [] then
                    let (ok, s, self) = tcp_write_iov iov self;
                        self = self\<lparr>buffer := hev_ring_buffer_read_finish s (buffer self)\<rparr>;
                        (ok2, self) = tcp_output self
                    in (\<not> (ok \<and> ok2), 1, self)
                  else if res < 0 then (False, res, self\<lparr>pcb_shut := True\<rparr>)
                  else (False, res, self)
             else (False, res, self))
      in (if \<not> pcb self \<or> err then - 1 else res, self))"

partial_function (option) tcp_splice_loop ::
    "int \<Rightarrow> int \<Rightarrow> 'a HevSocks5SessionTCP_scheme \<Rightarrow> 'a HevSocks5SessionTCP_scheme option" where
  "tcp_splice_loop res_f res_b self =
     (case (if res_f \<ge> 0 then tcp_splice_f self else (res_f, self)) of (res_f, self) \<Rightarrow>
        (case (if res_b \<ge> 0 then tcp_splice_b self else (res_b, self)) of (res_b, self) \<Rightarrow>
           if res_f > 0 \<or> res_b > 0 \<or> res_f AND res_b = 0 then
             (case tcp_task_io_yielder (if res_f > 0 \<or> res_b > 0 then HEV_TASK_YIELD else HEV_TASK_WAITIO) self of (y, self) \<Rightarrow>
                if y < 0 then Some self else tcp_splice_loop res_f res_b self)
           else Some self))"

partial_function (option) tcp_drain_loop :: "'a HevSocks5SessionTCP_scheme \<Rightarrow> 'a HevSocks5SessionTCP_scheme option" where
  "tcp_drain_loop self =
     (if \<not> pcb self then Some self
      else if hev_ring_buffer_get_use_size (buffer self) = 0 then Some self
      else
        case tcp_task_io_yielder HEV_TASK_WAITIO self of (y, self) \<Rightarrow>
          if y < 0 then Some self else tcp_drain_loop self)"

text \<open>\<open>size\<close> is \<^verbatim>\<open>tcp_buffer_size\<close> of the configuration, \<open>mem\<close> what the stack holds where the buffer is laid.\<close>

definition hev_socks5_session_tcp_splice ::
    "u64 \<Rightarrow> bytes \<Rightarrow> 'a HevSocks5SessionTCP_scheme \<Rightarrow> 'a HevSocks5SessionTCP_scheme option" where
  "hev_socks5_session_tcp_splice tcp_buffer_size mem self =
     (if \<not> pcb self then Some self
      else
        let self = self\<lparr>buffer := hev_ring_buffer_alloca tcp_buffer_size mem\<rparr>
        in case tcp_splice_loop 1 1 self of
             None \<Rightarrow> None
           | Some self \<Rightarrow> tcp_drain_loop self)"

end
