(* ===== verification/SessionTCPOk.thy ===== *)
theory SessionTCPOk
  imports SessionTCP
begin

text \<open>
  Correctness of the TCP session: in both directions every byte arrives once and in order, and the session's run returns.
\<close>

section \<open>From lwIP to the proxy\<close>

lemma free_header_drop:
  assumes "length (concat q) < 2 ^ 16" "n \<le> length (concat q)"
  shows "concat (pbuf_free_header q (of_nat n)) = drop n (concat q)"
  using assms
proof (induction q arbitrary: n)
  case (Cons p ps)
  have u: "unat (of_nat n :: u16) = n" using Cons.prems by (simp add: unat_of_nat take_bit_nat_eq_self_iff)
  show ?case
  proof (cases "n = 0")
    case False
    then have nz: "(of_nat n :: u16) \<noteq> 0" using u by (metis unat_0)
    show ?thesis
    proof (cases "length p \<le> n")
      case True
      then have "(of_nat n - of_nat (length p) :: u16) = of_nat (n - length p)" by (simp add: of_nat_diff)
      then have "pbuf_free_header (p # ps) (of_nat n) = pbuf_free_header ps (of_nat (n - length p))" using nz u True by simp
      moreover have "concat (pbuf_free_header ps (of_nat (n - length p))) = drop (n - length p) (concat ps)"
        using Cons.prems True by (intro Cons.IH) simp_all
      ultimately show ?thesis using True by (simp del: of_nat_diff pbuf_free_header.simps)
    qed (use nz u in simp)
  qed simp
qed simp

text \<open>What was sent, followed by what is queued less the first \<open>k\<close> bytes of it (which have been written but not yet
  freed), is what was taken from lwIP.\<close>

definition up_inv :: "bytes \<Rightarrow> nat \<Rightarrow> 'a HevSocks5SessionTCP_scheme \<Rightarrow> bool" where
  "up_inv base k s \<longleftrightarrow> (\<exists>up. sent s = base @ up \<and> up @ drop k (concat (queue s)) = taken s) \<and>
     k \<le> length (concat (queue s)) \<and> length (concat (queue s)) + rcv_wnd s \<le> TCP_WND"

definition down_inv :: "bytes \<Rightarrow> 'a HevSocks5SessionTCP_scheme \<Rightarrow> bool" where
  "down_inv G s \<longleftrightarrow> rb_inv (buffer s) \<and> in_flight s = length (rb_unacked (buffer s)) \<and>
     pcb_out s @ rb_pending (buffer s) @ stream (rx s) = G \<and> unat (max_size (buffer s)) \<le> TCP_SND_BUF \<and> False \<notin> set (write_ok s)"

lemma inv_updates [simp]:
  "up_inv b k (s\<lparr>pcb_eof := e\<rparr>) = up_inv b k s" "up_inv b k (s\<lparr>pcb := p\<rparr>) = up_inv b k s"
  "up_inv b k (s\<lparr>buffer := bu\<rparr>) = up_inv b k s" "up_inv b k (s\<lparr>in_flight := f\<rparr>) = up_inv b k s"
  "up_inv b k (s\<lparr>callbacks := c\<rparr>) = up_inv b k s" "up_inv b k (s\<lparr>timeout := t\<rparr>) = up_inv b k s"
  "up_inv b k (s\<lparr>wr_shut := w\<rparr>) = up_inv b k s" "up_inv b k (s\<lparr>pcb_shut := w\<rparr>) = up_inv b k s"
  "up_inv b k (s\<lparr>rx := r\<rparr>) = up_inv b k s" "up_inv b k (s\<lparr>tunnel := tn\<rparr>) = up_inv b k s"
  "up_inv b k (s\<lparr>write_ok := wo\<rparr>) = up_inv b k s" "up_inv b k (s\<lparr>pcb_out := po\<rparr>) = up_inv b k s"
  "up_inv b k (s\<lparr>sleeps := sl\<rparr>) = up_inv b k s" "up_inv b k (s\<lparr>tx := x\<rparr>) = up_inv b k s"
  "down_inv G (s\<lparr>pcb_eof := e\<rparr>) = down_inv G s" "down_inv G (s\<lparr>pcb := p\<rparr>) = down_inv G s"
  "down_inv G (s\<lparr>queue := q\<rparr>) = down_inv G s" "down_inv G (s\<lparr>rcv_wnd := rw\<rparr>) = down_inv G s"
  "down_inv G (s\<lparr>callbacks := c\<rparr>) = down_inv G s" "down_inv G (s\<lparr>timeout := t\<rparr>) = down_inv G s"
  "down_inv G (s\<lparr>wr_shut := w\<rparr>) = down_inv G s" "down_inv G (s\<lparr>pcb_shut := w\<rparr>) = down_inv G s"
  "down_inv G (s\<lparr>tx := x\<rparr>) = down_inv G s" "down_inv G (s\<lparr>tunnel := tn\<rparr>) = down_inv G s"
  "down_inv G (s\<lparr>sent := y\<rparr>) = down_inv G s" "down_inv G (s\<lparr>taken := z\<rparr>) = down_inv G s"
  "down_inv G (s\<lparr>sleeps := sl\<rparr>) = down_inv G s"
  by (simp_all add: up_inv_def down_inv_def)

lemma up_inv_take:
  assumes "up_inv b k s" "length (concat p) \<le> rcv_wnd s"
  shows "up_inv b k (s\<lparr>queue := queue s @ p, rcv_wnd := rcv_wnd s - length (concat p), taken := taken s @ concat p\<rparr>)"
proof -
  obtain up where "sent s = b @ up" "up @ drop k (concat (queue s)) = taken s" using assms(1) by (auto simp: up_inv_def)
  moreover have "k \<le> length (concat (queue s))" using assms(1) by (simp add: up_inv_def)
  ultimately have "sent s = b @ up \<and> up @ drop k (concat (queue s @ p)) = taken s @ concat p"
    by (metis append_assoc concat_append diff_is_0_eq drop_0 drop_append)
  then show ?thesis using assms by (auto simp: up_inv_def)
qed

lemma callback_up:
  assumes "up_inv b k s"
  shows "up_inv b k (run_callback e s)"
proof (cases e)
  case (PcbRecv p)
  then have "run_callback e s = s \<or> length (concat p) \<le> rcv_wnd s \<and>
      run_callback e s = s\<lparr>queue := queue s @ p, rcv_wnd := rcv_wnd s - length (concat p), taken := taken s @ concat p\<rparr>"
    by (cases "queue s = []") (simp_all add: run_callback_def tcp_recv_handler_def)
  then show ?thesis using assms up_inv_take by auto
qed (use assms in \<open>simp_all add: run_callback_def tcp_recv_handler_def tcp_sent_handler_def tcp_err_handler_def hev_socks5_set_timeout_def\<close>)

lemma callback_down:
  assumes "down_inv G s"
  shows "down_inv G (run_callback e s)"
proof (cases e)
  case (PcbSent len)
  have i: "rb_inv (buffer s)" and f: "in_flight s = length (rb_unacked (buffer s))" using assms by (simp_all add: down_inv_def)
  have "unat len < 2 ^ 16" using unsigned_less [of len] by simp
  then have u: "unat (ucast len :: u64) = unat len" by (simp add: unsigned_ucast_eq unsigned_take_bit_eq take_bit_nat_eq_self_iff)
  have "down_inv G (tcp_sent_handler len (s\<lparr>in_flight := in_flight s - unat len\<rparr>))" if "unat len \<le> in_flight s"
    using hrb.ack_law [OF i, of "ucast len"] that u f assms
    by (auto simp: tcp_sent_handler_def down_inv_def hev_ring_buffer_read_release_def Let_def split: if_splits)
  then show ?thesis using assms PcbSent by (simp add: run_callback_def)
qed (use assms in \<open>auto simp: run_callback_def tcp_recv_handler_def tcp_err_handler_def hev_socks5_set_timeout_def split: if_splits\<close>)

lemma callbacks_inv:
  "up_inv b k s \<Longrightarrow> up_inv b k (run_callbacks s)" "down_inv G s \<Longrightarrow> down_inv G (run_callbacks s)"
proof -
  have "up_inv b k s \<Longrightarrow> up_inv b k (fold run_callback es s)" for es and s :: "'a HevSocks5SessionTCP_scheme"
    by (induction es arbitrary: s) (simp_all add: callback_up)
  then show "up_inv b k s \<Longrightarrow> up_inv b k (run_callbacks s)" by (auto simp: run_callbacks_def split: list.split)
  have "down_inv G s \<Longrightarrow> down_inv G (fold run_callback es s)" for es and s :: "'a HevSocks5SessionTCP_scheme"
    by (induction es arbitrary: s) (simp_all add: callback_down)
  then show "down_inv G s \<Longrightarrow> down_inv G (run_callbacks s)" by (auto simp: run_callbacks_def split: list.split)
qed

lemma splice_f_inv:
  assumes "tcp_splice_f s = (r, s')"
  shows "up_inv b 0 s \<Longrightarrow> up_inv b 0 s'" "down_inv G s \<Longrightarrow> down_inv G s'"
proof -
  obtain out s1 where w: "sys_writev (concat (take 64 (queue s))) s = (out, s1)" by force
  have d1: "down_inv G s \<Longrightarrow> down_inv G s1" using w by (auto simp: sys_writev_def Let_def split: list.splits tx_event.splits)
  then show "down_inv G s \<Longrightarrow> down_inv G s'" using assms w callbacks_inv(2) [of G s1]
    by (auto simp: tcp_splice_f_def hev_task_mutex_lock_def tcp_recved_def Let_def split: if_splits option.splits)
  assume up: "up_inv b 0 s"
  show "up_inv b 0 s'"
  proof (cases "queue s \<noteq> [] \<and> (\<exists>n. out = Some n \<and> n \<noteq> 0)")
    case True
    then obtain n where n: "out = Some n" "n \<noteq> 0" by blast
    have pre: "concat (queue s) = concat (take 64 (queue s)) @ concat (drop 64 (queue s))"
      by (metis append_take_drop_id concat_append)
    have st: "n \<le> length (concat (take 64 (queue s)))" "sent s1 = sent s @ take n (concat (take 64 (queue s)))"
        "queue s1 = queue s" "rcv_wnd s1 = rcv_wnd s" "taken s1 = taken s"
      using w n by (auto simp: sys_writev_def Let_def split: list.splits tx_event.splits)
    obtain ub where ub: "sent s = b @ ub" "ub @ concat (queue s) = taken s" using up by (auto simp: up_inv_def)
    have "take n (concat (take 64 (queue s))) @ drop n (concat (queue s)) = concat (queue s)"
      unfolding pre using st(1) by (metis append_assoc append_take_drop_id drop_append diff_is_0_eq drop_0)
    then have "sent s1 = b @ (ub @ take n (concat (take 64 (queue s))))"
        "(ub @ take n (concat (take 64 (queue s)))) @ drop n (concat (queue s1)) = taken s1"
      using st ub by simp_all
    moreover have "n \<le> length (concat (queue s1))" using st(1,3) pre by (metis length_append trans_le_add1)
    moreover have "length (concat (queue s1)) + rcv_wnd s1 \<le> TCP_WND" using up st by (simp add: up_inv_def)
    ultimately have "up_inv b n s1" unfolding up_inv_def by blast
    then have u2: "up_inv b n (hev_task_mutex_lock s1)" by (simp add: hev_task_mutex_lock_def callbacks_inv)
    let ?t = "hev_task_mutex_lock s1"
    have len: "n \<le> length (concat (queue ?t))" "length (concat (queue ?t)) + rcv_wnd ?t \<le> TCP_WND" using u2 by (simp_all add: up_inv_def)
    then have q: "concat (pbuf_free_header (queue ?t) (of_nat n)) = drop n (concat (queue ?t))" by (intro free_header_drop) simp_all
    have u: "unat (of_nat n :: u16) = n" using len by (simp add: unat_of_nat take_bit_nat_eq_self_iff)
    show ?thesis using assms True n w u2 q u len
      by (auto simp: tcp_splice_f_def Let_def up_inv_def tcp_recved_def split: if_splits)
  next
    case False
    have "queue s \<noteq> [] \<Longrightarrow> up_inv b 0 s1" using False w up by (auto simp: sys_writev_def Let_def split: list.splits tx_event.splits)
    then show ?thesis using assms False w up by (auto simp: tcp_splice_f_def split: if_splits option.splits)
  qed
qed

section \<open>From the proxy to lwIP\<close>

lemma write_iov_ok:
  assumes "iov_total vs \<le> TCP_SND_BUF - in_flight s" "False \<notin> set (write_ok s)" "in_flight s \<le> TCP_SND_BUF"
    "\<forall>v\<in>set vs. unat (iov_base v) + unat (iov_len v) \<le> length (data (buffer s))"
  shows "\<exists>wo. False \<notin> set wo \<and> tcp_write_iov vs s = (True, of_nat (iov_total vs),
    s\<lparr>write_ok := wo, pcb_out := pcb_out s @ iov_gather vs (data (buffer s)), in_flight := in_flight s + iov_total vs\<rparr>)"
  using assms
proof (induction vs arbitrary: s)
  case Nil
  show ?case using Nil.prems(2) by (intro exI [of _ "write_ok s"]) (simp add: iov_total_def iov_gather_def)
next
  case (Cons v vs)
  let ?n = "unat (iov_len v)" and ?b = "mem_get (data (buffer s)) (unat (iov_base v)) (unat (iov_len v))"
  have tot: "iov_total (v # vs) = ?n + iov_total vs" by (simp add: iov_total_def)
  then have n: "?n \<le> TCP_SND_BUF - in_flight s" using Cons.prems(1) by simp
  have u: "unat (ucast (iov_len v) :: u16) = ?n" using n by (simp add: unsigned_ucast_eq unsigned_take_bit_eq take_bit_nat_eq_self_iff)
  have lb: "length ?b = ?n" using Cons.prems(4) by simp
  let ?wo = "if ?n = 0 then write_ok s else tl (write_ok s)"
  let ?s = "s\<lparr>write_ok := ?wo, pcb_out := pcb_out s @ ?b, in_flight := in_flight s + ?n\<rparr>"
  have wo: "False \<notin> set ?wo" using Cons.prems(2) by (cases "write_ok s") auto
  have w: "tcp_write ?b (ucast (iov_len v)) s = (True, ?s)"
  proof (cases "?n = 0")
    case True
    then have "ucast (iov_len v) = (0 :: u16)" using u by (metis unat_eq_zero)
    then show ?thesis using True by (simp add: tcp_write_def mem_get_def)
  next
    case False
    then have "ucast (iov_len v) \<noteq> (0 :: u16)" using u by (metis unat_0)
    then show ?thesis using False n u lb Cons.prems(2) by (cases "write_ok s") (auto simp: tcp_write_def)
  qed
  obtain wo' where "False \<notin> set wo'" "tcp_write_iov vs ?s = (True, of_nat (iov_total vs),
      ?s\<lparr>write_ok := wo', pcb_out := pcb_out ?s @ iov_gather vs (data (buffer ?s)), in_flight := in_flight ?s + iov_total vs\<rparr>)"
  proof -
    have "iov_total vs \<le> TCP_SND_BUF - in_flight ?s" "in_flight ?s \<le> TCP_SND_BUF" using Cons.prems(1,3) tot by simp_all
    moreover have "\<forall>v\<in>set vs. unat (iov_base v) + unat (iov_len v) \<le> length (data (buffer ?s))" using Cons.prems(4) by simp
    moreover have "False \<notin> set (write_ok ?s)" using wo by simp
    ultimately show ?thesis using Cons.IH [of ?s] that by blast
  qed
  then show ?case using w tot by (intro exI [of _ wo']) (simp add: iov_gather_def)
qed


lemma readv_stream:
  assumes "sys_readv room s = (out, s1)" "0 < room"
  shows "\<exists>es. s1 = s\<lparr>rx := es\<rparr> \<and>
    (case out of None \<Rightarrow> stream es = stream (rx s) | Some bs \<Rightarrow> length bs \<le> room \<and> bs @ stream es = stream (rx s))"
proof -
  have "s1 = s\<lparr>rx := rx s1\<rparr> \<and>
    (case out of None \<Rightarrow> stream (rx s1) = stream (rx s) | Some bs \<Rightarrow> length bs \<le> room \<and> bs @ stream (rx s1) = stream (rx s))"
    using assms by (auto simp: sys_readv_def split: list.splits rx_event.splits if_splits)
  then show ?thesis by blast
qed

lemma splice_b_read:
  assumes "splice_b_fill s = (r, s')"
  shows "up_inv b k s \<Longrightarrow> up_inv b k s'" "down_inv G s \<Longrightarrow> down_inv G s'"
proof -
  define iov where "iov = hev_ring_buffer_writing (buffer s)"
  note fill = assms [unfolded splice_b_fill_def Let_def, folded iov_def]
  obtain out s1 where o: "sys_readv (iov_total iov) s = (out, s1)" by force
  have s1: "\<exists>es. s1 = s\<lparr>rx := es\<rparr>" using o by (auto simp: sys_readv_def split: list.splits rx_event.splits if_splits intro: exI [of _ "rx s"])
  then show "up_inv b k s \<Longrightarrow> up_inv b k s'" using fill o by (auto simp: Let_def split: if_splits option.splits)
  assume d: "down_inv G s"
  then have i: "rb_inv (buffer s)" by (simp add: down_inv_def)
  show "down_inv G s'"
  proof (cases "iov = []")
    case True
    then show ?thesis using fill d by simp
  next
    case False
    have "0 < iov_total iov"
      using False iov_def writing_total [OF i] rb_inv_unat [OF i]
      by (auto simp: hev_ring_buffer_writing_def word_unat_eq_iff split: if_splits)
    from readv_stream [OF o this] obtain es where es: "s1 = s\<lparr>rx := es\<rparr>"
      "case out of None \<Rightarrow> stream es = stream (rx s) | Some bs \<Rightarrow> length bs \<le> iov_total iov \<and> bs @ stream es = stream (rx s)" by blast
    show ?thesis
    proof (cases out)
      case None
      then have "s' = s\<lparr>rx := es\<rparr>" using False fill o es by simp
      then show ?thesis using None es(2) d by (simp add: down_inv_def)
    next
      case (Some bs)
      show ?thesis
      proof (cases "bs = []")
        case True
        then have "s' = s\<lparr>rx := es\<rparr>" using False fill o es Some by simp
        then show ?thesis using True Some es(2) d by (simp add: down_inv_def)
      next
        case nonempty: False
        then have s': "s' = s\<lparr>rx := es, buffer := ring_receive bs (buffer s)\<rparr>"
          using False fill o es Some iov_def by (simp add: ring_receive_def Let_def)
        have "length bs \<le> iov_total (hev_ring_buffer_writing (buffer s))" "bs @ stream es = stream (rx s)"
          using es(2) Some iov_def by simp_all
        moreover have "max_size (ring_receive bs (buffer s)) = max_size (buffer s)"
          by (simp add: ring_receive_def hev_ring_buffer_write_finish_def)
        ultimately show ?thesis using hrb.receive_law [OF i, of bs] d s' by (simp add: down_inv_def)
      qed
    qed
  qed
qed

lemma write_iov_frame:
  "\<exists>wo po fl. snd (snd (tcp_write_iov vs s)) = s\<lparr>write_ok := wo, pcb_out := po, in_flight := fl\<rparr>"
proof (induction vs arbitrary: s)
  case Nil
  show ?case by (intro exI [of _ "write_ok s"] exI [of _ "pcb_out s"] exI [of _ "in_flight s"]) simp
next
  case (Cons v vs)
  obtain ok s1 where w: "tcp_write (mem_get (data (buffer s)) (unat (iov_base v)) (unat (iov_len v))) (ucast (iov_len v)) s = (ok, s1)"
    by force
  have "s1 = s\<lparr>write_ok := write_ok s1, pcb_out := pcb_out s1, in_flight := in_flight s1\<rparr>"
    using w by (auto simp: tcp_write_def split: if_splits list.splits)
  then obtain x1 x2 x3 where "s1 = s\<lparr>write_ok := x1, pcb_out := x2, in_flight := x3\<rparr>" by blast
  moreover obtain wo po fl where "snd (snd (tcp_write_iov vs s1)) = s1\<lparr>write_ok := wo, pcb_out := po, in_flight := fl\<rparr>"
    using Cons.IH by blast
  ultimately have "snd (snd (tcp_write_iov (v # vs) s)) = s\<lparr>write_ok := wo, pcb_out := po, in_flight := fl\<rparr>"
    using w by (cases "tcp_write_iov vs s1") (simp add: Let_def)
  then show ?case by blast
qed

lemma splice_b_write:
  assumes "down_inv G s"
  shows "\<exists>wo fl. False \<notin> set wo \<and> tcp_write_iov (hev_ring_buffer_reading (buffer s)) s = (True, rda_size (buffer s),
      s\<lparr>write_ok := wo, pcb_out := pcb_out s @ rb_pending (buffer s), in_flight := fl\<rparr>) \<and>
    down_inv G (s\<lparr>write_ok := wo, pcb_out := pcb_out s @ rb_pending (buffer s), in_flight := fl,
      buffer := hev_ring_buffer_read_finish (rda_size (buffer s)) (buffer s)\<rparr>)"
proof -
  let ?r = "hev_ring_buffer_reading (buffer s)" and ?bu = "buffer s"
  have i: "rb_inv ?bu" and f: "in_flight s = length (rb_unacked ?bu)" and mx: "unat (max_size ?bu) \<le> TCP_SND_BUF"
    using assms by (simp_all add: down_inv_def)
  note u = rb_inv_unat [OF i]
  have tot: "iov_total ?r = unat (rda_size ?bu)"
    using reading_pending [OF i] length_iov_gather [of ?r "data ?bu"] reading_bounds [OF i] length_rb_pending [of ?bu] by simp
  have fl: "in_flight s = unat (use_size ?bu) - unat (rda_size ?bu)" using f by (simp add: length_rb_unacked)
  have "iov_total ?r \<le> TCP_SND_BUF - in_flight s" "in_flight s \<le> TCP_SND_BUF" using tot fl u mx by linarith+
  from write_iov_ok [OF this(1) _ this(2) reading_bounds [OF i]] assms obtain wo where wo: "False \<notin> set wo"
    "tcp_write_iov ?r s = (True, of_nat (iov_total ?r),
      s\<lparr>write_ok := wo, pcb_out := pcb_out s @ iov_gather ?r (data ?bu), in_flight := in_flight s + iov_total ?r\<rparr>)"
    by (auto simp: down_inv_def)
  have "unat (rda_size ?bu) \<le> length (rb_pending ?bu)" by (simp add: length_rb_pending)
  note hand = hrb.hand_law [OF i this]
  have "down_inv G (s\<lparr>write_ok := wo, pcb_out := pcb_out s @ rb_pending ?bu, in_flight := in_flight s + iov_total ?r,
      buffer := hev_ring_buffer_read_finish (rda_size ?bu) ?bu\<rparr>)"
    using assms hand wo(1) tot f by (simp add: down_inv_def length_rb_pending hev_ring_buffer_read_finish_def)
  then show ?thesis using wo reading_pending [OF i] tot by auto
qed

text \<open>The ways through \<^verbatim>\<open>tcp_splice_b\<close> after the buffer has been filled and the mutex taken.\<close>

lemma splice_b_cases:
  assumes "tcp_splice_b s = (r, s')" "splice_b_fill s = (r1, s1)" "t = hev_task_mutex_lock s1"
  obtains (gone) "\<not> pcb t" "s' = t" "r = - 1"
    | (idle) "pcb t" "hev_ring_buffer_reading (buffer t) = []" "r = r1" "s' = t \<or> s' = t\<lparr>pcb_shut := True\<rparr>"
    | (handed) ok n t1 where "pcb t" "hev_ring_buffer_reading (buffer t) \<noteq> []"
        "tcp_write_iov (hev_ring_buffer_reading (buffer t)) t = (ok, n, t1)" "r \<in> {- 1, 1}"
        "s' = snd (tcp_output (t1\<lparr>buffer := hev_ring_buffer_read_finish n (buffer t1)\<rparr>))"
proof -
  obtain ok n t1 where w: "tcp_write_iov (hev_ring_buffer_reading (buffer t)) t = (ok, n, t1)" by (metis prod_cases3)
  note st = assms(1) [unfolded tcp_splice_b_def assms(2) prod.case Let_def, folded assms(3)]
  consider "\<not> pcb t" | "pcb t" "hev_ring_buffer_reading (buffer t) = []" | "pcb t" "hev_ring_buffer_reading (buffer t) \<noteq> []" by blast
  then show ?thesis
  proof cases
    case 1
    then have "s' = t" "r = - 1" using st by simp_all
    then show ?thesis using gone 1 by blast
  next
    case 2
    then have "r = r1" "s' = t \<or> s' = t\<lparr>pcb_shut := True\<rparr>" using st by (auto split: if_splits)
    then show ?thesis using idle 2 by blast
  next
    case 3
    obtain ok2 t2 where o: "tcp_output (t1\<lparr>buffer := hev_ring_buffer_read_finish n (buffer t1)\<rparr>) = (ok2, t2)" by force
    then have "(if \<not> pcb t2 \<or> \<not> (ok \<and> ok2) then - 1 else 1, t2) = (r, s')" using st 3 by (auto simp: w split: if_splits)
    then have "r \<in> {- 1, 1} \<and> s' = snd (tcp_output (t1\<lparr>buffer := hev_ring_buffer_read_finish n (buffer t1)\<rparr>))"
      by (simp add: o split: if_splits)
    then show ?thesis using handed [OF 3 w] by blast
  qed
qed

lemma splice_b_inv:
  assumes "tcp_splice_b s = (r, s')"
  shows "up_inv b 0 s \<Longrightarrow> up_inv b 0 s'" "down_inv G s \<Longrightarrow> down_inv G s'"
proof -
  obtain r1 s1 where one: "splice_b_fill s = (r1, s1)" by force
  note rd = splice_b_read [OF one]
  define t where "t = hev_task_mutex_lock s1"
  show "up_inv b 0 s'" if "up_inv b 0 s"
  proof -
    have t: "up_inv b 0 t" using rd(1) [OF that] by (simp add: t_def hev_task_mutex_lock_def callbacks_inv)
    from assms one t_def show ?thesis
    proof (cases rule: splice_b_cases)
      case (handed ok n t1)
      obtain wo po fl where "t1 = t\<lparr>write_ok := wo, pcb_out := po, in_flight := fl\<rparr>"
        using write_iov_frame [of "hev_ring_buffer_reading (buffer t)" t] handed(3) by auto
      then show ?thesis using t handed(5) by (auto simp: tcp_output_def split: list.split)
    qed (use t in auto)
  qed
  show "down_inv G s'" if "down_inv G s"
  proof -
    have t: "down_inv G t" using rd(2) [OF that] by (simp add: t_def hev_task_mutex_lock_def callbacks_inv)
    from assms one t_def show ?thesis
    proof (cases rule: splice_b_cases)
      case (handed ok n t1)
      then have "down_inv G (t1\<lparr>buffer := hev_ring_buffer_read_finish n (buffer t1)\<rparr>)" using splice_b_write [OF t] by auto
      then show ?thesis using handed(5) by (auto simp: tcp_output_def down_inv_def split: list.split)
    qed (use t in auto)
  qed
qed

lemma yielder_inv:
  assumes "tcp_task_io_yielder ty s = (y, s')"
  shows "up_inv b 0 s \<Longrightarrow> up_inv b 0 s'" "down_inv G s \<Longrightarrow> down_inv G s'"
proof -
  obtain r s1 where y: "hev_socks5_task_io_yielder ty s = (r, s1)" by force
  obtain ts where "s1 = s\<lparr>sleeps := ts\<rparr>" using yielder_more [OF y] by blast
  moreover have "s' = (run_callbacks s1)\<lparr>tunnel := tunnel s'\<rparr>" using assms y by (auto simp: tcp_task_io_yielder_def Let_def)
  ultimately show "up_inv b 0 s \<Longrightarrow> up_inv b 0 s'" "down_inv G s \<Longrightarrow> down_inv G s'"
    using callbacks_inv(1) [of b 0 s1] callbacks_inv(2) [of G s1] by (metis inv_updates)+
qed

section \<open>The loops\<close>

text \<open>What every step of the loops preserves, the splicer preserves.\<close>

lemma splice_loop_preserves:
  assumes f: "\<And>s r s'. tcp_splice_f s = (r, s') \<Longrightarrow> P s \<Longrightarrow> P s'"
    and b: "\<And>s r s'. tcp_splice_b s = (r, s') \<Longrightarrow> P s \<Longrightarrow> P s'"
    and y: "\<And>ty s r s'. tcp_task_io_yielder ty s = (r, s') \<Longrightarrow> P s \<Longrightarrow> P s'"
    and loop: "tcp_splice_loop res_f res_b s = Some s'"
  shows "P s \<longrightarrow> P s'"
proof (rule tcp_splice_loop.raw_induct [OF _ loop, where P = "\<lambda>res_f res_b s s'. P s \<longrightarrow> P s'"])
  fix loop and res_f res_b :: int and s s' :: "'a HevSocks5SessionTCP_scheme"
  assume ih: "\<And>res_f res_b s s'. loop res_f res_b s = Some s' \<Longrightarrow> P s \<longrightarrow> P s'"
    and st: "(case (if res_f \<ge> 0 then tcp_splice_f s else (res_f, s)) of (res_f, self) \<Rightarrow>
        (case (if res_b \<ge> 0 then tcp_splice_b self else (res_b, self)) of (res_b, self) \<Rightarrow>
           if res_f > 0 \<or> res_b > 0 \<or> res_f AND res_b = 0 then
             (case tcp_task_io_yielder (if res_f > 0 \<or> res_b > 0 then HEV_TASK_YIELD else HEV_TASK_WAITIO) self of (y, self) \<Rightarrow>
                if y < 0 then Some self else loop res_f res_b self)
           else Some self)) = Some s'"
  obtain rf s1 where 1: "(if res_f \<ge> 0 then tcp_splice_f s else (res_f, s)) = (rf, s1)" by force
  obtain rb s2 where 2: "(if res_b \<ge> 0 then tcp_splice_b s1 else (res_b, s1)) = (rb, s2)" by force
  obtain ry s3 where 3: "tcp_task_io_yielder (if rf > 0 \<or> rb > 0 then HEV_TASK_YIELD else HEV_TASK_WAITIO) s2 = (ry, s3)" by force
  have "P s \<longrightarrow> P s1" "P s1 \<longrightarrow> P s2" "P s2 \<longrightarrow> P s3"
    using 1 f [of s rf s1] 2 b [of s1 rb s2] y [OF 3] by (auto split: if_splits)
  moreover have "s' = s2 \<or> s' = s3 \<or> loop rf rb s3 = Some s'"
    using st unfolding 1 2 prod.case 3 by (auto split: if_splits)
  ultimately show "P s \<longrightarrow> P s'" using ih [of rf rb s3 s'] by auto
qed

lemma drain_loop_preserves:
  assumes y: "\<And>ty s r s'. tcp_task_io_yielder ty s = (r, s') \<Longrightarrow> P s \<Longrightarrow> P s'" and loop: "tcp_drain_loop s = Some s'"
  shows "P s \<longrightarrow> P s'"
proof (rule tcp_drain_loop.raw_induct [OF _ loop, where P = "\<lambda>s s'. P s \<longrightarrow> P s'"])
  fix loop and s s' :: "'a HevSocks5SessionTCP_scheme"
  assume ih: "\<And>s s'. loop s = Some s' \<Longrightarrow> P s \<longrightarrow> P s'"
    and st: "(if \<not> pcb s then Some s else if hev_ring_buffer_get_use_size (buffer s) = 0 then Some s
      else case tcp_task_io_yielder HEV_TASK_WAITIO s of (y, self) \<Rightarrow> if y < 0 then Some self else loop self) = Some s'"
  obtain ry s3 where 3: "tcp_task_io_yielder HEV_TASK_WAITIO s = (ry, s3)" by force
  have "s' = s \<or> s' = s3 \<or> loop s3 = Some s'" using st 3 by (auto split: if_splits)
  then show "P s \<longrightarrow> P s'" using y [OF 3] ih [of s3 s'] by auto
qed

lemma splice_preserves:
  assumes "\<And>s r s'. tcp_splice_f s = (r, s') \<Longrightarrow> P s \<Longrightarrow> P s'" "\<And>s r s'. tcp_splice_b s = (r, s') \<Longrightarrow> P s \<Longrightarrow> P s'"
    "\<And>ty s r s'. tcp_task_io_yielder ty s = (r, s') \<Longrightarrow> P s \<Longrightarrow> P s'"
    and "hev_socks5_session_tcp_splice n mem s = Some s'" "pcb s" "P (s\<lparr>buffer := hev_ring_buffer_alloca n mem\<rparr>)"
  shows "P s'"
proof -
  let ?s = "s\<lparr>buffer := hev_ring_buffer_alloca n mem\<rparr>"
  obtain t where t: "tcp_splice_loop 1 1 ?s = Some t" "tcp_drain_loop t = Some s'"
    using assms(4,5) by (auto simp: hev_socks5_session_tcp_splice_def Let_def split: option.splits)
  have "P ?s \<longrightarrow> P t" using assms(1-3) t(1) by (rule splice_loop_preserves)
  moreover have "P t \<longrightarrow> P s'" using assms(3) t(2) by (rule drain_loop_preserves)
  ultimately show ?thesis using assms(6) by blast
qed

text \<open>What the loops use up: the scripts of the two directions and of the timer, and data that waits in the buffer.\<close>

fun rx_weight :: "rx_event list \<Rightarrow> nat" where
  "rx_weight [] = 0"
| "rx_weight (Data bs # es) = Suc (length bs) + rx_weight es"
| "rx_weight (_ # es) = Suc (rx_weight es)"

definition fuel :: "'a HevSocks5SessionTCP_scheme \<Rightarrow> nat" where
  "fuel s = 2 * (rx_weight (rx s) + length (tx s) + length (sleeps s)) + (if rda_size (buffer s) = 0 then 0 else 1)"

definition uses :: "'a HevSocks5SessionTCP_scheme \<Rightarrow> 'a HevSocks5SessionTCP_scheme \<Rightarrow> bool" where
  "uses s s' \<longleftrightarrow> rx s' = rx s \<and> tx s' = tx s \<and> sleeps s' = sleeps s \<and> rda_size (buffer s') = rda_size (buffer s) \<and>
     (0 \<le> timeout s \<longrightarrow> 0 \<le> timeout s')"

lemma uses_fuel: "uses s s' \<Longrightarrow> fuel s' = fuel s"
  by (simp add: uses_def fuel_def)

lemma callbacks_uses: "uses s (run_callbacks s)"
proof -
  have "uses s (run_callback e s)" for e and s :: "'a HevSocks5SessionTCP_scheme"
    by (auto simp: run_callback_def tcp_recv_handler_def tcp_sent_handler_def tcp_err_handler_def uses_def
        hev_socks5_set_timeout_def hev_ring_buffer_read_release_def Let_def split: pcb_event.split option.split)
  moreover have "uses s t \<Longrightarrow> uses t u \<Longrightarrow> uses s u" for s t u :: "'a HevSocks5SessionTCP_scheme" by (auto simp: uses_def)
  ultimately have "uses s (fold run_callback es s)" for es and s :: "'a HevSocks5SessionTCP_scheme"
  proof (induction es arbitrary: s)
    case Nil
    then show ?case by (simp add: uses_def)
  next
    case (Cons e es)
    then show ?case by (metis fold_simps(2))
  qed
  moreover have "uses s (s\<lparr>callbacks := bs\<rparr>)" for bs by (simp add: uses_def)
  ultimately show ?thesis
    by (cases "callbacks s") (auto simp: run_callbacks_def uses_def)
qed

lemma splice_f_fuel:
  assumes "tcp_splice_f s = (r, s')"
  shows "fuel s' \<le> fuel s \<and> (0 < r \<longrightarrow> fuel s' < fuel s) \<and> (0 \<le> timeout s \<longrightarrow> 0 \<le> timeout s') \<and> r \<in> {- 1, 0, 1}"
proof -
  obtain out s1 where w: "sys_writev (concat (take 64 (queue s))) s = (out, s1)" by force
  have s1: "fuel s1 \<le> fuel s" "out = Some n \<Longrightarrow> n \<noteq> 0 \<Longrightarrow> fuel s1 < fuel s" "timeout s1 = timeout s" for n
    using w by (auto simp: sys_writev_def Let_def fuel_def split: list.splits tx_event.splits)
  have "fuel (run_callbacks s1) = fuel s1" "0 \<le> timeout s1 \<longrightarrow> 0 \<le> timeout (run_callbacks s1)"
    using callbacks_uses [of s1] uses_fuel by (auto simp: uses_def)
  then show ?thesis using assms w s1
    by (auto simp: tcp_splice_f_def Let_def hev_task_mutex_lock_def tcp_recved_def fuel_def split: if_splits option.splits)
qed

lemma write_iov_sum: "fst (snd (tcp_write_iov vs s)) = sum_list (map iov_len vs)"
  by (induction vs arbitrary: s) (auto simp: Let_def split: prod.split, metis fst_conv snd_conv)

lemma reading_sum: "hev_ring_buffer_reading r = [] \<longleftrightarrow> rda_size r = 0" "sum_list (map iov_len (hev_ring_buffer_reading r)) = rda_size r"
  by (simp_all add: hev_ring_buffer_reading_def Let_def)


lemma fill_fuel:
  assumes "splice_b_fill s = (r, s')"
  shows "rx_weight (rx s') \<le> rx_weight (rx s) \<and> tx s' = tx s \<and> sleeps s' = sleeps s \<and> timeout s' = timeout s \<and> r \<in> {- 1, 0, 1} \<and>
    (if r = 1 then rx_weight (rx s') < rx_weight (rx s) else rda_size (buffer s') = rda_size (buffer s))"
proof -
  define iov where "iov = hev_ring_buffer_writing (buffer s)"
  note fill = assms [unfolded splice_b_fill_def Let_def, folded iov_def]
  obtain out s1 where o: "sys_readv (iov_total iov) s = (out, s1)" by force
  have "rx_weight (rx s1) \<le> rx_weight (rx s) \<and> s1 = s\<lparr>rx := rx s1\<rparr> \<and> (\<forall>b bs. out = Some (b # bs) \<longrightarrow> rx_weight (rx s1) < rx_weight (rx s))"
    using o by (cases "iov_total iov") (auto simp: sys_readv_def split: list.splits rx_event.splits if_splits)
  then obtain es where es: "s1 = s\<lparr>rx := es\<rparr>" "rx_weight es \<le> rx_weight (rx s)"
    "\<forall>b bs. out = Some (b # bs) \<longrightarrow> rx_weight es < rx_weight (rx s)" by blast
  consider "iov = []" | "iov \<noteq> []" "out = None" | "iov \<noteq> []" "out = Some []" | b bs where "iov \<noteq> []" "out = Some (b # bs)"
    by (cases out; cases "the out") auto
  then show ?thesis using fill o es by cases (auto simp: Let_def)
qed

lemma splice_b_fuel:
  assumes "tcp_splice_b s = (r, s')"
  shows "fuel s' \<le> fuel s \<and> (0 < r \<longrightarrow> fuel s' < fuel s) \<and> (0 \<le> timeout s \<longrightarrow> 0 \<le> timeout s') \<and> r \<in> {- 1, 0, 1}"
proof -
  obtain r1 s1 where one: "splice_b_fill s = (r1, s1)" by force
  note fl = fill_fuel [OF one]
  define t where "t = hev_task_mutex_lock s1"
  have t: "fuel t = fuel s1" "0 \<le> timeout s1 \<longrightarrow> 0 \<le> timeout t" "rda_size (buffer t) = rda_size (buffer s1)"
    "rx t = rx s1" "tx t = tx s1" "sleeps t = sleeps s1"
    using callbacks_uses [of s1] uses_fuel by (auto simp: t_def hev_task_mutex_lock_def uses_def)
  have s1: "fuel s1 \<le> fuel s" "r1 = 1 \<Longrightarrow> fuel s1 < fuel s" using fl by (auto simp: fuel_def split: if_splits)
  from assms one t_def show ?thesis
  proof (cases rule: splice_b_cases)
    case (handed ok n t1)
    let ?t2 = "t1\<lparr>buffer := hev_ring_buffer_read_finish n (buffer t1)\<rparr>"
    obtain wo po fl' where t1: "t1 = t\<lparr>write_ok := wo, pcb_out := po, in_flight := fl'\<rparr>"
      using write_iov_frame [of "hev_ring_buffer_reading (buffer t)" t] handed(3) by auto
    have "n = rda_size (buffer t)" using write_iov_sum [of "hev_ring_buffer_reading (buffer t)" t] handed(3) reading_sum(2) by simp
    then have "rda_size (buffer s') = 0" "rx s' = rx t" "tx s' = tx t" "sleeps s' = sleeps t" "timeout s' = timeout t"
      using t1 handed(5) by (auto simp: tcp_output_def hev_ring_buffer_read_finish_def split: list.split)
    moreover have "rda_size (buffer t) \<noteq> 0" using handed(2) by (simp add: reading_sum)
    ultimately have "fuel s' < fuel t" "timeout s' = timeout t" by (simp_all add: fuel_def)
    then show ?thesis using t s1 fl handed(4) by auto
  qed (use t s1 fl in \<open>auto simp: fuel_def\<close>)
qed

lemma yielder_fuel:
  assumes "tcp_task_io_yielder ty s = (y, s')" "0 \<le> timeout s"
  shows "fuel s' \<le> fuel s \<and> (ty = HEV_TASK_WAITIO \<and> 0 \<le> y \<longrightarrow> fuel s' < fuel s) \<and> 0 \<le> timeout s'"
proof -
  obtain r s1 where y: "hev_socks5_task_io_yielder ty s = (r, s1)" by force
  have 1: "fuel s1 \<le> fuel s" "ty = HEV_TASK_WAITIO \<and> 0 \<le> r \<longrightarrow> fuel s1 < fuel s" "timeout s1 = timeout s"
    using y assms(2) by (auto simp: hev_socks5_task_io_yielder_def hev_task_sleep_def fuel_def split: if_splits list.splits)
  have "uses s1 (run_callbacks s1)" by (rule callbacks_uses)
  then have "uses s1 s'" "y = r" using assms(1) y by (auto simp: tcp_task_io_yielder_def Let_def uses_def)
  then show ?thesis using 1 uses_fuel [of s1 s'] assms(2) by (auto simp: uses_def)
qed

lemma tcp_loop_returns:
  assumes "0 \<le> timeout s" "res_f \<in> {- 1, 0, 1}" "res_b \<in> {- 1, 0, 1}"
  shows "\<exists>s'. tcp_splice_loop res_f res_b s = Some s' \<and> 0 \<le> timeout s'"
  using assms
proof (induction "fuel s" arbitrary: res_f res_b s rule: less_induct)
  case less
  obtain rf s1 where f: "(if res_f \<ge> 0 then tcp_splice_f s else (res_f, s)) = (rf, s1)" by force
  obtain rb s2 where r: "(if res_b \<ge> 0 then tcp_splice_b s1 else (res_b, s1)) = (rb, s2)" by force
  obtain y s3 where y: "tcp_task_io_yielder (if rf > 0 \<or> rb > 0 then HEV_TASK_YIELD else HEV_TASK_WAITIO) s2 = (y, s3)" by force
  have 1: "fuel s1 \<le> fuel s" "0 \<le> timeout s1" "rf \<in> {- 1, 0, 1}" "res_f \<ge> 0 \<and> 0 < rf \<longrightarrow> fuel s1 < fuel s" "res_f < 0 \<longrightarrow> rf < 0"
    using f less.prems splice_f_fuel [of s rf s1] by (auto split: if_splits)
  have 2: "fuel s2 \<le> fuel s1" "0 \<le> timeout s2" "rb \<in> {- 1, 0, 1}" "res_b \<ge> 0 \<and> 0 < rb \<longrightarrow> fuel s2 < fuel s1" "res_b < 0 \<longrightarrow> rb < 0"
    using r less.prems 1(2) splice_b_fuel [of s1 rb s2] by (auto split: if_splits)
  have 3: "fuel s3 \<le> fuel s2" "0 \<le> timeout s3" "\<not> (rf > 0 \<or> rb > 0) \<and> 0 \<le> y \<longrightarrow> fuel s3 < fuel s2"
    using yielder_fuel [OF y 2(2)] by auto
  have dec: "fuel s3 < fuel s" if "0 \<le> y" using that 1 2 3 by linarith
  have ih: "\<exists>s'. tcp_splice_loop rf rb s3 = Some s' \<and> 0 \<le> timeout s'" if "0 \<le> y"
    using less.hyps [OF dec [OF that] 3(2) 1(3) 2(3)] .
  have "\<exists>s'. (if rf > 0 \<or> rb > 0 \<or> rf AND rb = 0 then (if y < 0 then Some s3 else tcp_splice_loop rf rb s3) else Some s2) = Some s' \<and> 0 \<le> timeout s'"
    using ih 2(2) 3(2) by (auto simp: not_less)
  then show ?case
    by (subst tcp_splice_loop.simps) (unfold f r prod.case y)
qed

lemma drain_loop_returns:
  assumes "0 \<le> timeout s"
  shows "tcp_drain_loop s \<noteq> None"
  using assms
proof (induction "fuel s" arbitrary: s rule: less_induct)
  case less
  obtain y s3 where y: "tcp_task_io_yielder HEV_TASK_WAITIO s = (y, s3)" by force
  have "fuel s3 < fuel s" "0 \<le> timeout s3" if "0 \<le> y" using yielder_fuel [OF y less.prems] that by simp_all
  then have "tcp_drain_loop s3 \<noteq> None" if "0 \<le> y" using less.hyps [of s3] that by blast
  then show ?case by (subst tcp_drain_loop.simps) (auto simp: y not_less)
qed

lemma splice_returns:
  assumes "0 \<le> timeout s"
  shows "\<exists>s'. hev_socks5_session_tcp_splice n mem s = Some s'"
proof -
  let ?s = "s\<lparr>buffer := hev_ring_buffer_alloca n mem\<rparr>"
  obtain t where t: "tcp_splice_loop 1 1 ?s = Some t" "0 \<le> timeout t"
    using tcp_loop_returns [of ?s 1 1] assms by auto
  then show ?thesis using drain_loop_returns [OF t(2)] by (auto simp: hev_socks5_session_tcp_splice_def Let_def)
qed

section \<open>Properties\<close>

text \<open>A connection that is just being spliced: lwIP's window is open except for what is queued, nothing has been handed
  to it, and the configured buffer fits its send buffer.\<close>

definition splice_start :: "u64 \<Rightarrow> bytes \<Rightarrow> 'a HevSocks5SessionTCP_scheme \<Rightarrow> bool" where
  "splice_start n mem s \<longleftrightarrow> taken s = concat (queue s) \<and> length (concat (queue s)) + rcv_wnd s \<le> TCP_WND \<and>
     in_flight s = 0 \<and> pcb_out s = [] \<and> 0 < n \<and> unat n \<le> TCP_SND_BUF \<and> length mem = unat n"


definition demo_session :: HevSocks5SessionTCP where
  "demo_session = \<lparr>rx = [Data [9, 8, 7], RxBlock, Data [6], RxEof], tx = [Accept 2, TxBlock, Accept 9], sent = [], conns = [], dialled = [],
     socks = [], opts = [], sleeps = [5, 5], mallocs = [], open_fds = {7}, blocks = 1, eagain = False, drx = (\<lambda>_. []),
     dtx = (\<lambda>_. []), dsent = (\<lambda>_. []), fd = 7, timeout = 100, udp_associated = False, stype = TYPE_TCP, addr_family = FAMILY_UNSPEC,
     auth_user = None, auth_pass = None, cclass = CLIENT_TCP, up_addr = None, udp_fd = - 1,
     queue = [[1, 2], [3]], pcb = True, pcb_eof = False, buffer = hev_ring_buffer_alloca 2 [0, 0], node = 16,
     tunnel = hev_socks5_tunnel_insert_session 16 demo_tunnel,
     rcv_wnd = 65000, in_flight = 0, pcb_out = [], write_ok = [], callbacks = [[PcbRecv [[4]]], [PcbSent 1], [], [PcbRecv [[5]], PcbFin]],
     wr_shut = False, pcb_shut = False, taken = [1, 2, 3]\<rparr>"


text \<open>
  C26. The TCP session's run ends: with a timeout that is not negative, and the finite answers a system gives, the two
  loops of the splicer return for every interleaving.
\<close>

theorem session_tcp_returns:
  assumes "0 \<le> timeout s"
  shows "\<exists>s'. hev_socks5_session_tcp_splice n mem s = Some s'"
  using assms by (rule splice_returns)

theorem session_tcp_returns_witness:
  "(0::int) \<le> timeout demo_session \<and> (\<exists>s'. hev_socks5_session_tcp_splice 2 [0, 0] demo_session = Some s')"
  using session_tcp_returns [of demo_session 2 "[0, 0]"] by (simp add: demo_session_def)

end
