(* ===== verification/Session.thy ===== *)
theory Session
  imports Socks5ClientOk
begin

text \<open>
  The part of a session that TCP and UDP share, \<^verbatim>\<open>hev-socks5-session.c\<close>: connecting to the configured server, the
  handshake, and the splicer of the session's class, which is an argument. The bind hook of both classes marks the
  socket. \<open>owned\<close> are the descriptors an object closes when it is destroyed.
\<close>

section \<open>Definitions\<close>

record HevConfigServer =
  srv_user :: "bytes option"
  srv_pass :: "bytes option"
  srv_mark :: u32
  srv_udp_in_udp :: bool
  srv_port :: u16
  srv_pipeline :: bool
  srv_udp_addr :: bytes
  srv_addr :: bytes

definition set_sock_mark :: "int \<Rightarrow> u32 \<Rightarrow> 'a net_scheme \<Rightarrow> int \<times> 'a net_scheme" where
  "set_sock_mark d mark s = sys_opt s"

definition hev_socks5_session_tcp_bind :: "HevConfigServer \<Rightarrow> 'a HevSocks5_scheme bind_fun" where
  "hev_socks5_session_tcp_bind srv d dest self =
     (if srv_mark srv \<noteq> 0 then
        let (res, self) = set_sock_mark d (srv_mark srv) self
        in if res < 0 then (- 1, self) else (0, self)
      else (0, self))"

definition hev_socks5_session_udp_bind :: "HevConfigServer \<Rightarrow> 'a HevSocks5_scheme bind_fun" where
  "hev_socks5_session_udp_bind srv d dest self =
     (if srv_mark srv \<noteq> 0 then
        let (res, self) = set_sock_mark d (srv_mark srv) self
        in if res < 0 then (- 1, self) else (0, self)
      else (0, self))"

definition hev_socks5_session_run ::
    "HevConfigServer \<Rightarrow> HevSocks5Misc \<Rightarrow> resolver \<Rightarrow> 'a HevSocks5Client_scheme bind_fun \<Rightarrow>
      ('a HevSocks5Client_scheme \<Rightarrow> 'a HevSocks5Client_scheme option) \<Rightarrow>
      'a HevSocks5Client_scheme \<Rightarrow> 'a HevSocks5Client_scheme option" where
  "hev_socks5_session_run srv m rs bnd splicer self =
     (case hev_socks5_client_connect m rs bnd (srv_addr srv) (srv_port srv) self of (res, self) \<Rightarrow>
        if res < 0 then Some self
        else
          let self = (if srv_user srv \<noteq> None \<and> srv_pass srv \<noteq> None
                      then hev_socks5_client_set_auth (srv_user srv) (srv_pass srv) self else self)
          in case hev_socks5_client_handshake m rs bnd (srv_pipeline srv) self of
               None \<Rightarrow> None
             | Some (res, self) \<Rightarrow> if res < 0 then Some self else splicer self)"

section \<open>The bind hooks\<close>

lemma session_tcp_bind_frame: "client_bind (hev_socks5_session_tcp_bind srv)"
proof
  fix d sa and s :: "'a HevSocks5Client_scheme"
  have "snd (hev_socks5_session_tcp_bind srv d sa s) = s\<lparr>opts := (if srv_mark srv = 0 then opts s else tl (opts s))\<rparr>"
    by (cases "opts s") (simp_all add: hev_socks5_session_tcp_bind_def set_sock_mark_def sys_opt_def)
  then show "\<exists>os. snd (hev_socks5_session_tcp_bind srv d sa s) = s\<lparr>opts := os\<rparr>" ..
qed

lemma session_udp_bind_frame: "client_bind (hev_socks5_session_udp_bind srv)"
proof
  fix d sa and s :: "'a HevSocks5Client_scheme"
  have "snd (hev_socks5_session_udp_bind srv d sa s) = s\<lparr>opts := (if srv_mark srv = 0 then opts s else tl (opts s))\<rparr>"
    by (cases "opts s") (simp_all add: hev_socks5_session_udp_bind_def set_sock_mark_def sys_opt_def)
  then show "\<exists>os. snd (hev_socks5_session_udp_bind srv d sa s) = s\<lparr>opts := os\<rparr>" ..
qed

interpretation tcp_session: client_bind "hev_socks5_session_tcp_bind srv" for srv
  by (rule session_tcp_bind_frame)

interpretation udp_session: client_bind "hev_socks5_session_udp_bind srv" for srv
  by (rule session_udp_bind_frame)

section \<open>Descriptors\<close>

definition owned :: "'a HevSocks5Client_scheme \<Rightarrow> int set" where
  "owned s = (if 0 \<le> fd s then {fd s} else {}) \<union> (if cclass s = CLIENT_UDP \<and> 0 \<le> udp_fd s then {udp_fd s} else {})"

text \<open>Beside what was open before, exactly the object's own descriptors are open.\<close>

definition holds :: "int set \<Rightarrow> 'a HevSocks5Client_scheme \<Rightarrow> bool" where
  "holds base s \<longleftrightarrow> open_fds s = base \<union> owned s \<and> owned s \<inter> base = {}"

lemma holds_cong:
  assumes "fd s' = fd s" "cclass s' = cclass s" "udp_fd s' = udp_fd s" "open_fds s' = open_fds s"
  shows "holds base s' = holds base s"
  using assms by (simp add: holds_def owned_def)

lemma holds_tcp_destruct:
  "holds base s \<Longrightarrow> cclass s = CLIENT_TCP \<Longrightarrow> open_fds (hev_socks5_client_tcp_destruct s) = base"
  by (auto simp: holds_def owned_def hev_socks5_client_tcp_destruct_def hev_socks5_client_destruct_def hev_socks5_destruct_def
      sys_free_def sys_close_def)

lemma holds_udp_destruct:
  "holds base s \<Longrightarrow> cclass s = CLIENT_UDP \<Longrightarrow> open_fds (hev_socks5_client_udp_destruct s) = base"
  by (auto simp: holds_def owned_def hev_socks5_client_udp_destruct_def hev_socks5_client_destruct_def hev_socks5_destruct_def
      sys_free_def sys_close_def)

lemma holds_idle: "fd s < 0 \<Longrightarrow> cclass s = CLIENT_UDP \<longrightarrow> udp_fd s < 0 \<Longrightarrow> holds (open_fds s) s"
  by (auto simp: holds_def owned_def)

text \<open>The address block of a TCP client: still there, given back with the request, or lost with one that failed.\<close>

definition block_kept :: "'a HevSocks5Client_scheme \<Rightarrow> 'a HevSocks5Client_scheme \<Rightarrow> bool" where
  "block_kept s s' \<longleftrightarrow> blocks s' = blocks s \<and> up_addr s' = up_addr s \<or> up_addr s' = None \<and> blocks s' \<in> {blocks s, blocks s - 1}"

definition fresh_distinct :: "'a HevSocks5Client_scheme \<Rightarrow> bool" where
  "fresh_distinct s \<longleftrightarrow> fresh_socks s \<and> distinct (socks s)"

text \<open>A handshake on its way from \<open>s\<close> to \<open>t\<close>.\<close>

definition mid :: "int set \<Rightarrow> 'a HevSocks5Client_scheme \<Rightarrow> 'a HevSocks5Client_scheme \<Rightarrow> bool" where
  "mid base s t \<longleftrightarrow> holds base t \<and> cclass t = cclass s \<and> (cclass s = CLIENT_TCP \<longrightarrow> block_kept s t) \<and>
     (associating t \<longrightarrow> fresh_socks t \<and> udp_fd t < 0)"

context client_bind
begin

lemma open_upstream_socks:
  assumes "open_upstream bnd sa s = (d, s')" "fresh_distinct s"
  shows "set (socks s') \<subseteq> set (socks s)" "0 \<le> d \<Longrightarrow> d \<notin> set (socks s')"
proof -
  obtain e s1 where so: "hev_socks5_socket s = (e, s1)" by force
  have s1: "socks s1 = tl (socks s)" "0 \<le> e \<Longrightarrow> socks s \<noteq> [] \<and> e = hd (socks s)"
    using so by (cases "socks s"; auto simp: hev_socks5_socket_def Let_def sys_opt_def sys_close_def split: if_splits list.splits)+
  show "set (socks s') \<subseteq> set (socks s)" "0 \<le> d \<Longrightarrow> d \<notin> set (socks s')"
  proof -
    obtain r s2 where b: "bnd e sa s1 = (r, s2)" by force
    obtain os2 where s2: "s2 = s1\<lparr>opts := os2\<rparr>" using bnd_frame [of e sa s1] b by auto
    obtain q s3 where c: "hev_task_io_socket_connect e sa s2 = (q, s3)" by force
    have "conn_norm s3 = conn_norm s2" using connect_spec [OF c] by simp
    then have "socks (conn_norm s3) = socks (conn_norm s2)" by simp
    then have "socks s3 = socks s1" using s2 by (simp add: conn_norm_def)
    then have "socks s' = tl (socks s)" "0 \<le> d \<Longrightarrow> d = e"
      using assms(1) so b c s1(1) s2 by (auto simp: open_upstream_def Let_def sys_close_def split: if_splits)
    moreover have "distinct (socks s)" using assms(2) by (simp add: fresh_distinct_def)
    ultimately show "set (socks s') \<subseteq> set (socks s)" "0 \<le> d \<Longrightarrow> d \<notin> set (socks s')"
      using s1(2) by (cases "socks s"; auto)+
  qed
qed

lemma connect_holds:
  assumes "hev_socks5_client_connect m rs bnd addr port s = (r, s')" "fresh_distinct s"
    "fd s < 0" "cclass s = CLIENT_UDP \<longrightarrow> udp_fd s < 0"
  shows "holds (open_fds s) s'" "fresh_socks s'" "HevSocks5.more s' = HevSocks5.more s" "stype s' = stype s" "blocks s' = blocks s"
proof -
  have fs: "fresh_socks s" using assms(2) by (simp add: fresh_distinct_def)
  note c = connect_fields [OF client_bind_axioms fs assms(1)]
  show m: "HevSocks5.more s' = HevSocks5.more s" and "stype s' = stype s" "blocks s' = blocks s" using c(1) by simp_all
  note f = client_more [OF m]
  have c2: "r = 0 \<and> 0 \<le> fd s' \<and> fd s' \<notin> open_fds s \<and> open_fds s' = insert (fd s') (open_fds s) \<or>
      r = - 1 \<and> fd s' = fd s \<and> open_fds s' = open_fds s" using c(2) by blast
  have "cclass s' = cclass s" "udp_fd s' = udp_fd s" using f by simp_all
  then have "owned s' = (if 0 \<le> fd s' then {fd s'} else {})" using assms(4) by (auto simp: owned_def)
  then show "holds (open_fds s) s'" using c2 assms(3) by (elim disjE) (simp_all add: holds_def)
  let ?s = "hev_socks5_set_timeout (hev_socks5_get_connect_timeout m) s"
  obtain q sa fam where n: "hev_socks5_name_into_sockaddr6 rs addr port blank_saddr (addr_family s) = (q, sa, fam)"
    by (metis prod_cases3)
  obtain d t where o: "open_upstream bnd sa ?s = (d, t)" by force
  have "fresh_distinct ?s" using assms(2) by (simp add: fresh_distinct_def fresh_socks_def hev_socks5_set_timeout_def)
  note os = open_upstream_socks [OF o this]
  have u: "hev_socks5_client_connect m rs bnd addr port s =
      (if q < 0 then (- 1, ?s) else if d < 0 then (- 1, t) else (0, hev_socks5_set_addr_family fam (t\<lparr>fd := d\<rparr>)))"
    using n o by (simp add: hev_socks5_client_connect_def hev_socks5_set_timeout_def hev_socks5_get_addr_family_def)
  have st: "s' = ?s \<or> s' = t \<and> r = - 1 \<or> 0 \<le> d \<and> s' = hev_socks5_set_addr_family fam (t\<lparr>fd := d\<rparr>) \<and> r = 0"
    using assms(1) unfolding u by (cases "q < 0"; cases "d < 0") simp_all
  have "set (socks s') \<subseteq> set (socks s)" "r = 0 \<Longrightarrow> fd s' \<notin> set (socks s')"
    using st os c2 assms(3) by (auto simp: hev_socks5_set_addr_family_def hev_socks5_set_timeout_def)
  then show "fresh_socks s'" using c2 fs by (auto simp: fresh_socks_def)
qed

lemma response_holds:
  assumes "hev_socks5_client_read_response rs bnd s = (r, s')" "associating s \<longrightarrow> fresh_socks s"
    "holds base s" "associating s \<longrightarrow> udp_fd s < 0"
  shows "holds base s'"
proof -
  obtain q res s1 where io: "io_recv 4 s = (q, res, s1)" by (metis prod_cases3)
  have sm1: "same_obj s s1" using io_recv_spec [OF io] rx_only_same by blast
  note f1 = client_fields [OF sm1]
  have s1: "holds base s1" using assms(3) holds_cong [of s1 s base] f1 by simp
  have "s' = s1 \<or> (\<exists>len p buf s2. io_recv len s1 = (p, buf, s2) \<and> (s' = s2 \<or> (\<exists>addr k. set_upstream_addr rs bnd addr s2 = (k, s'))))"
    using assms(1) io by (auto simp: hev_socks5_client_read_response_def Let_def split: if_splits option.splits prod.splits)
  then consider "s' = s1" | len p buf s2 where "io_recv len s1 = (p, buf, s2)" "s' = s2"
    | len p buf s2 addr k where "io_recv len s1 = (p, buf, s2)" "set_upstream_addr rs bnd addr s2 = (k, s')" by blast
  then show ?thesis
  proof cases
    case 2
    have "same_obj s1 s2" using io_recv_spec [OF 2(1)] rx_only_same by blast
    from client_fields [OF this] 2 s1 show ?thesis using holds_cong [of s2 s1 base] by simp
  next
    case 3
    have sm2: "same_obj s1 s2" using io_recv_spec [OF 3(1)] rx_only_same by blast
    note f2 = client_fields [OF sm2]
    have h2: "holds base s2" using s1 f2 holds_cong [of s2 s1 base] by simp
    have "socks s2 = socks s" using sm1 sm2 by (simp add: same_obj_def)
    then have fr: "associating s2 \<longrightarrow> fresh_socks s2" using assms(2) f1 f2 by (simp add: associating_def fresh_socks_def)
    have neg: "associating s2 \<longrightarrow> udp_fd s2 < 0" using assms(4) f1 f2 by (simp add: associating_def)
    show ?thesis using set_upstream_spec [OF 3(2) fr] h2 neg
      by (cases "k = 0 \<and> associating s2") (auto simp: holds_def owned_def associating_def)
  qed (use s1 in simp)
qed

lemma mid_same:
  assumes "mid base s t" "same_obj t u"
  shows "mid base s u"
proof -
  note f = client_fields [OF assms(2)]
  have "socks u = socks t" using assms(2) by (simp add: same_obj_def)
  moreover have "block_kept s u = block_kept s t" using f by (simp add: block_kept_def)
  ultimately show ?thesis using assms(1) f holds_cong [of u t base] by (simp add: mid_def associating_def fresh_socks_def)
qed

lemma mid_request:
  assumes "mid base s t" "same_obj s t" "hev_socks5_client_write_request t = Some (r, u)"
  shows "mid base s u"
proof (cases "request_cmd (stype t) = None")
  case True
  then show ?thesis using assms by (simp add: hev_socks5_client_write_request_def)
next
  case False
  note f = client_fields [OF assms(2)]
  obtain n where w: "sent u = sent t @ take n (request_msg t)" "r = 0 \<and> 0 < n \<or> r = - 1" "rx u = rx t"
    "stype u = stype t" "cclass u = cclass t" "open_fds u = open_fds t" "fd u = fd t" "udp_fd u = udp_fd t"
    "cclass t = CLIENT_TCP \<longrightarrow> up_addr u = None"
    "blocks u = blocks t + (if cclass t = CLIENT_TCP then 0 else 1) - (if r = 0 then 1 else 0)" "socks u = socks t"
    by (rule write_request_spec [OF assms(3) False]) blast
  have "cclass s = CLIENT_TCP \<longrightarrow> block_kept s u" using w(2,9,10) f by (auto simp: block_kept_def)
  then show ?thesis using assms(1) w(4-8,11) holds_cong [of u t base] f by (simp add: mid_def associating_def fresh_socks_def)
qed

lemma mid_response:
  assumes "mid base s t" "hev_socks5_client_read_response rs bnd t = (r, u)"
  shows "holds base u \<and> cclass u = cclass s \<and> (cclass s = CLIENT_TCP \<longrightarrow> block_kept s u)"
proof -
  have fr: "associating t \<longrightarrow> fresh_socks t" and neg: "associating t \<longrightarrow> udp_fd t < 0" and h: "holds base t"
    using assms(1) by (simp_all add: mid_def)
  note rr = read_response_spec [OF assms(2) fr]
  then have "block_kept s u = block_kept s t" by (simp add: block_kept_def)
  then show ?thesis using response_holds [OF assms(2) fr h neg] rr assms(1) by (simp add: mid_def)
qed

lemma standard_holds:
  assumes "hev_socks5_client_handshake_standard rs bnd u = Some (r, t)" "mid base s s" "same_obj s u"
  shows "holds base t \<and> cclass t = cclass s \<and> (cclass s = CLIENT_TCP \<longrightarrow> block_kept s t)"
proof -
  let ?ok = "\<lambda>u. holds base u \<and> cclass u = cclass s \<and> (cclass s = CLIENT_TCP \<longrightarrow> block_kept s u)"
  have midok: "mid base s u \<Longrightarrow> ?ok u" for u by (simp add: mid_def)
  obtain r1 s1 where a: "hev_socks5_client_write_auth_methods u = (r1, s1)" by force
  have sm1: "same_obj s s1" using write_auth_methods_spec [OF a] tx_only_same assms(3) same_obj_trans by metis
  obtain r2 s2 where b: "client_auth_standard s1 = (r2, s2)" by force
  have sm2: "same_obj s s2" using auth_standard_spec [OF b] sm1 same_obj_trans by metis
  have "t = s1 \<or> t = s2 \<or> (\<exists>r3 s3. hev_socks5_client_write_request s2 = Some (r3, s3) \<and>
      (t = s3 \<or> hev_socks5_client_read_response rs bnd s3 = (r, t)))"
    using assms(1) a b by (auto simp: hev_socks5_client_handshake_standard_def split: if_splits option.splits)
  then consider (methods) "t = s1" | (auth) "t = s2" | (request) r3 s3 where "hev_socks5_client_write_request s2 = Some (r3, s3)" "t = s3"
    | (response) r3 s3 where "hev_socks5_client_write_request s2 = Some (r3, s3)" "hev_socks5_client_read_response rs bnd s3 = (r, t)" by blast
  then show ?thesis
  proof cases
    case methods
    then show ?thesis using midok [OF mid_same [OF assms(2) sm1]] by simp
  next
    case auth
    then show ?thesis using midok [OF mid_same [OF assms(2) sm2]] by simp
  next
    case request
    then show ?thesis using midok [OF mid_request [OF mid_same [OF assms(2) sm2] sm2 request(1)]] by simp
  next
    case response
    show ?thesis using mid_response [OF mid_request [OF mid_same [OF assms(2) sm2] sm2 response(1)] response(2)] .
  qed
qed

lemma pipeline_holds:
  assumes "hev_socks5_client_handshake_pipeline rs bnd u = Some (r, t)" "mid base s s" "same_obj s u"
  shows "holds base t \<and> cclass t = cclass s \<and> (cclass s = CLIENT_TCP \<longrightarrow> block_kept s t)"
proof -
  let ?ok = "\<lambda>u. holds base u \<and> cclass u = cclass s \<and> (cclass s = CLIENT_TCP \<longrightarrow> block_kept s u)"
  have midok: "mid base s u \<Longrightarrow> ?ok u" for u by (simp add: mid_def)
  obtain r1 s1 where a: "hev_socks5_client_write_auth_methods u = (r1, s1)" by force
  have sm1: "same_obj s s1" using write_auth_methods_spec [OF a] tx_only_same assms(3) same_obj_trans by metis
  obtain r2 s2 where b: "hev_socks5_client_write_auth_creds s1 = (r2, s2)" by force
  have sm2: "same_obj s s2" using write_auth_creds_spec [OF b] tx_only_same sm1 same_obj_trans by metis
  note m2 = mid_same [OF assms(2) sm2]
  have "t = s1 \<or> t = s2 \<or> (\<exists>r3 s3 r4 s4. hev_socks5_client_write_request s2 = Some (r3, s3) \<and> client_auth_pipeline s3 = (r4, s4) \<and>
      (t = s3 \<or> t = s4 \<or> hev_socks5_client_read_response rs bnd s4 = (r, t)))"
    using assms(1) a b by (auto simp: hev_socks5_client_handshake_pipeline_def split: if_splits option.splits prod.splits)
  then consider (methods) "t = s1" | (creds) "t = s2"
    | (later) r3 s3 r4 s4 where "hev_socks5_client_write_request s2 = Some (r3, s3)" "client_auth_pipeline s3 = (r4, s4)"
        "t = s3 \<or> t = s4 \<or> hev_socks5_client_read_response rs bnd s4 = (r, t)" by blast
  then show ?thesis
  proof cases
    case methods
    then show ?thesis using midok [OF mid_same [OF assms(2) sm1]] by simp
  next
    case creds
    then show ?thesis using midok [OF m2] by simp
  next
    case later
    note m3 = mid_request [OF m2 sm2 later(1)]
    have m4: "mid base s s4" using mid_same [OF m3] auth_pipeline_spec [OF later(2)] by simp
    from later(3) show ?thesis using midok [OF m3] midok [OF m4] mid_response [OF m4] by blast
  qed
qed

lemma handshake_holds:
  assumes "hev_socks5_client_handshake m rs bnd pipeline s = Some (r, s')" "mid base s s"
  shows "holds base s' \<and> cclass s' = cclass s \<and> (cclass s = CLIENT_TCP \<longrightarrow> block_kept s s')"
proof -
  let ?s = "hev_socks5_set_timeout (hev_socks5_get_tcp_timeout m) s"
  let ?ok = "\<lambda>u. holds base u \<and> cclass u = cclass s \<and> (cclass s = CLIENT_TCP \<longrightarrow> block_kept s u)"
  obtain t where t: "(if pipeline then hev_socks5_client_handshake_pipeline rs bnd ?s
      else hev_socks5_client_handshake_standard rs bnd ?s) = Some (r, t)"
    and s': "s' = t \<or> s' = hev_socks5_set_timeout (hev_socks5_get_udp_timeout m) t"
    using assms(1) by (auto simp: hev_socks5_client_handshake_def Let_def split: option.splits if_splits)
  have "same_obj s ?s" by (rule same_obj_timeout)
  with t assms(2) have "?ok t" using standard_holds [of rs ?s r t base s] pipeline_holds [of rs ?s r t base s] by (cases pipeline) simp_all
  moreover have "?ok (hev_socks5_set_timeout v u) = ?ok u" for u v
    by (simp add: holds_def owned_def block_kept_def hev_socks5_set_timeout_def)
  ultimately show ?thesis using s' by blast
qed

end

text \<open>What a splicer promises the session of class \<open>cls\<close>: it opens and closes nothing, and a TCP splicer keeps the client's memory.\<close>

locale session_iface = client_bind bnd
  for bnd :: "'a HevSocks5Client_scheme bind_fun" +
  fixes cls :: HevSocks5ClientClass and splicer :: "'a HevSocks5Client_scheme \<Rightarrow> 'a HevSocks5Client_scheme option"
  assumes splicer_frame: "splicer s = Some s' \<Longrightarrow> cclass s = cls \<Longrightarrow> fd s' = fd s \<and> cclass s' = cclass s \<and> udp_fd s' = udp_fd s \<and>
    open_fds s' = open_fds s \<and> (cls = CLIENT_TCP \<longrightarrow> blocks s' = blocks s \<and> up_addr s' = up_addr s)"
begin

lemma run_holds:
  assumes "hev_socks5_session_run srv m rs bnd splicer s = Some s'" "fresh_distinct s"
    "fd s < 0" "cclass s = CLIENT_UDP \<longrightarrow> udp_fd s < 0" "cclass s = cls"
  shows "holds (open_fds s) s' \<and> cclass s' = cclass s \<and> (cclass s = CLIENT_TCP \<longrightarrow> block_kept s s')"
proof -
  obtain r s1 where c: "hev_socks5_client_connect m rs bnd (srv_addr srv) (srv_port srv) s = (r, s1)" by force
  note ch = connect_holds [OF c assms(2-4)]
  note f1 = client_more [OF ch(3)]
  let ?s = "if srv_user srv \<noteq> None \<and> srv_pass srv \<noteq> None then hev_socks5_client_set_auth (srv_user srv) (srv_pass srv) s1 else s1"
  have k1: "block_kept s s1" using ch(5) f1 by (simp add: block_kept_def)
  have m: "mid (open_fds s) ?s ?s" "holds (open_fds s) ?s" "cclass ?s = cclass s" "blocks ?s = blocks s" "up_addr ?s = up_addr s"
    using ch f1 assms(4) by (auto simp: mid_def block_kept_def hev_socks5_client_set_auth_def holds_def owned_def associating_def fresh_socks_def)
  consider "s' = s1" | q t where "hev_socks5_client_handshake m rs bnd (srv_pipeline srv) ?s = Some (q, t)" "s' = t \<or> splicer t = Some s'"
    using assms(1) c by (auto simp: hev_socks5_session_run_def Let_def split: option.splits if_splits)
  then show ?thesis
  proof cases
    case 1
    then show ?thesis using ch(1) f1 k1 by simp
  next
    case 2
    have t: "holds (open_fds s) t \<and> cclass t = cclass s \<and> (cclass s = CLIENT_TCP \<longrightarrow> block_kept s t)"
      using handshake_holds [OF 2(1) m(1)] m(3-5) by (simp add: block_kept_def)
    then show ?thesis using 2(2) splicer_frame [of t s'] holds_cong [of s' t] assms(5) by (auto simp: block_kept_def)
  qed
qed

end

text \<open>
  A termination request that comes before the session's task has begun is lost: connecting and the handshake set the
  timeout anew, so the session runs as if it had not been asked to end.
\<close>

lemma session_terminate_lost:
  "hev_socks5_session_run srv m rs bnd splicer (s\<lparr>timeout := 0\<rparr>) = hev_socks5_session_run srv m rs bnd splicer s"
  by (simp add: hev_socks5_session_run_def hev_socks5_client_connect_def hev_socks5_set_timeout_def hev_socks5_get_addr_family_def)

end
