(* ===== verification/SessionTCPLife.thy ===== *)
theory SessionTCPLife
  imports SessionTCPOk Session
begin

text \<open>
  The life of a TCP session: construction from the connection lwIP accepted, the task that runs it, and destruction
  (\<^verbatim>\<open>hev-socks5-session-tcp.c\<close>, \<^verbatim>\<open>hev_socks5_session_task_entry\<close> of \<^verbatim>\<open>hev-socks5-tunnel.c\<close>). What lwIP calls while
  the session connects and negotiates is in the first batch of callbacks of the splicer.
\<close>

section \<open>Definitions\<close>

text \<open>\<open>ip\<close> and \<open>port\<close> are the local address of the connection, \<open>dns\<close> the mapped DNS of the process. Left out are the
  fields the class keeps only for lwIP's callbacks.\<close>

definition hev_socks5_session_tcp_construct ::
    "HevMappedDNS option \<Rightarrow> ip_addr_t \<Rightarrow> u16 \<Rightarrow> 'a HevSocks5SessionTCP_scheme \<Rightarrow>
      (int \<times> HevMappedDNS option \<times> 'a HevSocks5SessionTCP_scheme) option" where
  "hev_socks5_session_tcp_construct dns ip port self =
     (case hev_socks5_addr_from_lwip dns blank_addr ip port of
        None \<Rightarrow> None
      | Some (res, addr, dns) \<Rightarrow>
          if res < 0 then Some (- 1, dns, self)
          else
            let (res, self) = hev_socks5_client_tcp_construct addr self
            in if res < 0 then Some (- 1, dns, self) else Some (0, dns, self\<lparr>pcb := True\<rparr>))"

definition session_tcp_zero :: "'a HevSocks5SessionTCP_scheme \<Rightarrow> 'a HevSocks5SessionTCP_scheme" where
  "session_tcp_zero s = (client_zero s)\<lparr>queue := [], pcb := False, pcb_eof := False\<rparr>"

definition hev_socks5_session_tcp_new ::
    "HevMappedDNS option \<Rightarrow> ip_addr_t \<Rightarrow> u16 \<Rightarrow> 'a HevSocks5SessionTCP_scheme \<Rightarrow>
      (bool \<times> HevMappedDNS option \<times> 'a HevSocks5SessionTCP_scheme) option" where
  "hev_socks5_session_tcp_new dns ip port s =
     (case sys_malloc s of (ok, self) \<Rightarrow>
        if \<not> ok then Some (False, dns, self)
        else
          case hev_socks5_session_tcp_construct dns ip port (session_tcp_zero self) of
            None \<Rightarrow> None
          | Some (res, dns, self) \<Rightarrow>
              if res < 0 then Some (False, dns, sys_free self) else Some (True, dns, self))"

text \<open>Aborting the connection ends lwIP's callbacks.\<close>

definition hev_socks5_session_tcp_destruct :: "'a HevSocks5SessionTCP_scheme \<Rightarrow> 'a HevSocks5SessionTCP_scheme" where
  "hev_socks5_session_tcp_destruct self =
     (let self = hev_task_mutex_lock self;
          self = (if pcb self then self\<lparr>pcb := False, callbacks := []\<rparr> else self);
          self = (if queue self \<noteq> [] then self\<lparr>queue := []\<rparr> else self)
      in hev_socks5_client_tcp_destruct self)"

definition hev_socks5_session_task_entry ::
    "HevConfigServer \<Rightarrow> HevSocks5Misc \<Rightarrow> resolver \<Rightarrow> u64 \<Rightarrow> bytes \<Rightarrow> 'a HevSocks5SessionTCP_scheme \<Rightarrow> 'a HevSocks5SessionTCP_scheme option" where
  "hev_socks5_session_task_entry srv m rs tcp_buffer_size mem s =
     (case hev_socks5_session_run srv m rs (hev_socks5_session_tcp_bind srv) (hev_socks5_session_tcp_splice tcp_buffer_size mem) s of
        None \<Rightarrow> None
      | Some s \<Rightarrow>
          let s = s\<lparr>tunnel := hev_socks5_tunnel_delete_session (node s) (tunnel s)\<rparr>
          in Some (hev_socks5_session_tcp_destruct s))"

section \<open>The splicer owns nothing\<close>

definition same_res :: "'a HevSocks5SessionTCP_scheme \<Rightarrow> 'a HevSocks5SessionTCP_scheme \<Rightarrow> bool" where
  "same_res s s' \<longleftrightarrow> fd s' = fd s \<and> cclass s' = cclass s \<and> udp_fd s' = udp_fd s \<and> open_fds s' = open_fds s \<and>
     blocks s' = blocks s \<and> up_addr s' = up_addr s"

lemma same_res_refl [simp]: "same_res s s"
  by (simp add: same_res_def)

lemma same_res_trans: "same_res s t \<Longrightarrow> same_res t u \<Longrightarrow> same_res s u"
  by (simp add: same_res_def)

lemma same_res_updates [simp]:
  "same_res a (s\<lparr>queue := q\<rparr>) = same_res a s" "same_res a (s\<lparr>pcb := b\<rparr>) = same_res a s" "same_res a (s\<lparr>pcb_eof := b\<rparr>) = same_res a s"
  "same_res a (s\<lparr>buffer := bu\<rparr>) = same_res a s" "same_res a (s\<lparr>tunnel := tn\<rparr>) = same_res a s" "same_res a (s\<lparr>rcv_wnd := n\<rparr>) = same_res a s"
  "same_res a (s\<lparr>in_flight := n\<rparr>) = same_res a s" "same_res a (s\<lparr>pcb_out := bs\<rparr>) = same_res a s" "same_res a (s\<lparr>write_ok := wo\<rparr>) = same_res a s"
  "same_res a (s\<lparr>callbacks := cs\<rparr>) = same_res a s" "same_res a (s\<lparr>wr_shut := b\<rparr>) = same_res a s" "same_res a (s\<lparr>pcb_shut := b\<rparr>) = same_res a s"
  "same_res a (s\<lparr>taken := bs\<rparr>) = same_res a s" "same_res a (s\<lparr>rx := r\<rparr>) = same_res a s" "same_res a (s\<lparr>tx := w\<rparr>) = same_res a s"
  "same_res a (s\<lparr>sent := bs\<rparr>) = same_res a s" "same_res a (s\<lparr>sleeps := sl\<rparr>) = same_res a s" "same_res a (s\<lparr>timeout := t\<rparr>) = same_res a s"
  by (simp_all add: same_res_def)

lemma callbacks_res [simp]: "same_res a (run_callbacks s) = same_res a s"
proof -
  have "same_res a (run_callback e s) = same_res a s" for e and s :: "'a HevSocks5SessionTCP_scheme"
    by (cases e) (simp_all add: run_callback_def tcp_recv_handler_def tcp_sent_handler_def tcp_err_handler_def hev_socks5_set_timeout_def)
  then have "same_res a (fold run_callback es s) = same_res a s" for es and s :: "'a HevSocks5SessionTCP_scheme"
    by (induction es arbitrary: s) simp_all
  then show ?thesis by (simp add: run_callbacks_def split: list.split)
qed

lemma splice_f_res: "tcp_splice_f s = (r, s') \<Longrightarrow> same_res a s \<Longrightarrow> same_res a s'"
  by (cases "tx s"; cases "hd (tx s)") (auto simp: tcp_splice_f_def sys_writev_def Let_def hev_task_mutex_lock_def tcp_recved_def split: if_splits)

lemma splice_b_res:
  assumes "tcp_splice_b s = (r, s')" "same_res a s"
  shows "same_res a s'"
proof -
  obtain r1 s1 where one: "splice_b_fill s = (r1, s1)" by force
  have s1: "same_res a s1" using one assms(2)
    by (auto simp: splice_b_fill_def sys_readv_def Let_def split: if_splits list.splits rx_event.splits)
  define t where "t = hev_task_mutex_lock s1"
  have t: "same_res a t" using s1 by (simp add: t_def hev_task_mutex_lock_def)
  from assms(1) one t_def show ?thesis
  proof (cases rule: splice_b_cases)
    case (handed ok n t1)
    obtain wo po fl where "t1 = t\<lparr>write_ok := wo, pcb_out := po, in_flight := fl\<rparr>"
      using write_iov_frame [of "hev_ring_buffer_reading (buffer t)" t] handed(3) by auto
    then show ?thesis using t handed(5) by (auto simp: tcp_output_def split: list.split)
  qed (use t in auto)
qed

lemma tcp_yielder_res: "tcp_task_io_yielder ty s = (r, s') \<Longrightarrow> same_res a s \<Longrightarrow> same_res a s'"
proof -
  assume st: "tcp_task_io_yielder ty s = (r, s')" and a: "same_res a s"
  obtain q s1 where y: "hev_socks5_task_io_yielder ty s = (q, s1)" by force
  obtain ts where "s1 = s\<lparr>sleeps := ts\<rparr>" using yielder_more [OF y] by blast
  then show ?thesis using st y a by (auto simp: tcp_task_io_yielder_def Let_def)
qed

lemma splice_res:
  assumes "hev_socks5_session_tcp_splice n mem s = Some s'"
  shows "same_res s s'"
proof (cases "pcb s")
  case True
  have "same_res s (s\<lparr>buffer := hev_ring_buffer_alloca n mem\<rparr>)" by simp
  with splice_f_res splice_b_res tcp_yielder_res assms True show ?thesis by (rule splice_preserves [where P = "same_res s"])
qed (use assms in \<open>simp add: hev_socks5_session_tcp_splice_def\<close>)

interpretation tcp_iface: session_iface "hev_socks5_session_tcp_bind srv" CLIENT_TCP "hev_socks5_session_tcp_splice n mem" for srv n mem
proof
  fix s s' :: "'a HevSocks5SessionTCP_scheme"
  assume "hev_socks5_session_tcp_splice n mem s = Some s'"
  then show "fd s' = fd s \<and> cclass s' = cclass s \<and> udp_fd s' = udp_fd s \<and>
      open_fds s' = open_fds s \<and> (CLIENT_TCP = CLIENT_TCP \<longrightarrow> blocks s' = blocks s \<and> up_addr s' = up_addr s)"
    using splice_res by (simp add: same_res_def)
qed

section \<open>The address of the request\<close>

text \<open>A TCP client whose request can be written: the address is as long as its type says.\<close>

definition addressed :: "'a HevSocks5Client_scheme \<Rightarrow> bool" where
  "addressed s \<longleftrightarrow> cclass s = CLIENT_TCP \<and> stype s = TYPE_TCP \<and> (\<exists>a. up_addr s = Some a \<and> request_addrlen a = Some (length a))"

lemma addressed_cong:
  "cclass s' = cclass s \<Longrightarrow> stype s' = stype s \<Longrightarrow> up_addr s' = up_addr s \<Longrightarrow> addressed s' = addressed s"
  by (simp add: addressed_def)

lemma addr_from_lwip_length:
  assumes "hev_socks5_addr_from_lwip dns a ip port = Some (r, a', dns')" "length (abody a) = 259"
  shows "length (abody a') = 259"
proof -
  have u: "unat (x :: byte) \<le> 255" for x using unsigned_less [of x, where 'a = nat] by simp
  have m: "length (mem_put xs (Suc (unat x)) (le16 p)) = 259" if "length xs = 259" for xs p and x :: byte
  proof -
    have "Suc (unat x) + length (le16 p) \<le> length xs" using u [of x] that by simp
    then show ?thesis using that by (simp only: length_mem_put)
  qed
  have n: "length (abody b') = 259" if "hev_socks5_addr_from_name a name p = Some (k, b')" for name p k b'
    using that assms(2) by (auto simp: hev_socks5_addr_from_name_def Let_def m split: option.splits)
  show ?thesis
    using assms n
    by (auto simp: hev_socks5_addr_from_lwip_def hev_socks5_addr_from_ipv4_def hev_socks5_addr_from_ipv6_def
        split: ip_addr_t.splits option.splits)
qed

lemma construct_addressed:
  assumes "hev_socks5_client_tcp_construct a s = (r, s')" "0 \<le> r" "length (abody a) = 259"
  shows "addressed s'" "fd s' = - 1" "blocks s' = blocks s + 1" "open_fds s' = open_fds s" "socks s' = socks s"
proof -
  have len: "0 \<le> hev_socks5_addr_len a" and up: "up_addr s' = Some (take (nat (hev_socks5_addr_len a)) (addr_bytes a))"
    and f: "cclass s' = CLIENT_TCP" "stype s' = TYPE_TCP" "fd s' = - 1" "blocks s' = blocks s + 1" "open_fds s' = open_fds s" "socks s' = socks s"
    using assms(1,2) by (auto simp: hev_socks5_client_tcp_construct_def hev_socks5_client_construct_def hev_socks5_construct_def sys_malloc_def
        Let_def split: if_splits list.splits)
  show "fd s' = - 1" "blocks s' = blocks s + 1" "open_fds s' = open_fds s" "socks s' = socks s" using f by simp_all
  let ?b = "addr_bytes a"
  obtain x y where b: "?b ! 0 = atype a" "?b ! 1 = domain_len a" "length ?b = 260"
    using assms(3) by (cases "abody a") (simp_all add: addr_bytes_def domain_len_def)
  have d: "unat (domain_len a) < 256" using unsigned_less [of "domain_len a", where 'a = nat] by simp
  have "request_addrlen (take (nat (hev_socks5_addr_len a)) ?b) = Some (length (take (nat (hev_socks5_addr_len a)) ?b))"
    using len b d by (auto simp: request_addrlen_def hev_socks5_addr_len_def nat_add_distrib split: if_splits)
  then show "addressed s'" using up f by (simp add: addressed_def)
qed

lemma request_defined:
  assumes "addressed s"
  shows "hev_socks5_client_write_request s \<noteq> None"
proof -
  obtain a where "up_addr s = Some a" "request_addrlen a = Some (length a)" using assms by (auto simp: addressed_def)
  then show ?thesis using assms
    by (auto simp: addressed_def hev_socks5_client_write_request_def request_cmd_def get_upstream_addr_def
        hev_socks5_client_tcp_get_upstream_addr_def Let_def split: prod.split)
qed

section \<open>The timeout\<close>

lemma auth_standard_timeout: "client_auth_standard s = (r, s') \<Longrightarrow> timeout s' = timeout s"
proof -
  assume st: "client_auth_standard s = (r, s')"
  obtain q1 s1 where a: "hev_socks5_client_read_auth_method s = (q1, s1)" by force
  obtain q2 s2 where b: "hev_socks5_client_write_auth_creds s1 = (q2, s2)" by force
  obtain q3 s3 where c: "hev_socks5_client_read_auth_creds s2 = (q3, s3)" by force
  have "timeout s1 = timeout s" using rx_only_fields(9) [OF read_auth_method_spec(1) [OF a]] .
  moreover have "timeout s2 = timeout s1" using write_auth_creds_spec [OF b] tx_only_fields(9) by metis
  moreover have "timeout s3 = timeout s2" using rx_only_fields(9) [OF read_auth_creds_spec(1) [OF c]] .
  ultimately show ?thesis using st a b c by (auto simp: client_auth_standard_def split: if_splits)
qed

lemma auth_pipeline_timeout: "client_auth_pipeline s = (r, s') \<Longrightarrow> timeout s' = timeout s"
proof -
  assume st: "client_auth_pipeline s = (r, s')"
  obtain q1 s1 where a: "hev_socks5_client_read_auth_method s = (q1, s1)" by force
  obtain q3 s3 where c: "hev_socks5_client_read_auth_creds s1 = (q3, s3)" by force
  have "timeout s1 = timeout s" using rx_only_fields(9) [OF read_auth_method_spec(1) [OF a]] .
  moreover have "timeout s3 = timeout s1" using rx_only_fields(9) [OF read_auth_creds_spec(1) [OF c]] .
  ultimately show ?thesis using st a c by (auto simp: client_auth_pipeline_def split: if_splits)
qed

lemma request_timeout:
  assumes "hev_socks5_client_write_request s = Some (r, s')" "cclass s = CLIENT_TCP"
  shows "timeout s' = timeout s" "cclass s' = CLIENT_TCP"
proof -
  have io: "timeout t = timeout u" "HevSocks5.more t = HevSocks5.more u" if "io_sendmsg iov u = (k, t)" for iov k and t u :: "'a HevSocks5Client_scheme"
    using that io_send_spec [of "concat iov" u k t] tx_only_fields(9,15) by (metis io_sendmsg_eq)+
  have "timeout s' = timeout s \<and> cclass s' = CLIENT_TCP"
    using assms client_more(3) [OF io(2)] io(1)
    by (auto simp: hev_socks5_client_write_request_def get_upstream_addr_def hev_socks5_client_tcp_get_upstream_addr_def Let_def sys_free_def
        split: option.splits if_splits prod.splits)
  then show "timeout s' = timeout s" "cclass s' = CLIENT_TCP" by simp_all
qed

lemma response_timeout:
  assumes "hev_socks5_client_read_response rs bnd s = (r, s')" "cclass s = CLIENT_TCP"
  shows "timeout s' = timeout s"
proof -
  have io: "timeout t = timeout u" "cclass t = cclass u" if "io_recv n u = (k, b, t)" for n k b and t u :: "'a HevSocks5Client_scheme"
    using io_recv_spec [OF that] rx_only_fields(9) client_fields(3) [OF rx_only_same] by blast+
  obtain q res s1 where 1: "io_recv 4 s = (q, res, s1)" by (metis prod_cases3)
  have "s' = s1 \<or> (\<exists>n k b. io_recv n s1 = (k, b, s'))"
    using assms 1 io(2) [OF 1]
    by (auto simp: hev_socks5_client_read_response_def Let_def set_upstream_addr_def hev_socks5_client_tcp_set_upstream_addr_def io(2)
        split: option.splits if_splits prod.splits)
  then show ?thesis using io(1) 1 by metis
qed

text \<open>From a state where the methods have been offered and the client is still \<open>addressed\<close>, the rest of the handshake returns.\<close>

lemma same_addressed: "same_obj s t \<Longrightarrow> addressed s \<Longrightarrow> addressed t"
  using client_fields [of s t] by (simp add: addressed_def)

lemma request_step:
  assumes "addressed s" "timeout s = v"
  obtains r t where "hev_socks5_client_write_request s = Some (r, t)" "timeout t = v" "cclass t = CLIENT_TCP"
proof -
  obtain r t where w: "hev_socks5_client_write_request s = Some (r, t)" using request_defined [OF assms(1)] by auto
  then show ?thesis using that request_timeout [OF w] assms by (simp add: addressed_def)
qed

lemma handshake_returns:
  assumes "addressed s"
  shows "\<exists>r t. hev_socks5_client_handshake m rs bnd pipeline s = Some (r, t) \<and> timeout t \<in> {hev_socks5_get_tcp_timeout m, hev_socks5_get_udp_timeout m}"
proof -
  let ?s = "hev_socks5_set_timeout (hev_socks5_get_tcp_timeout m) s" and ?v = "hev_socks5_get_tcp_timeout m"
  obtain r1 s1 where a: "hev_socks5_client_write_auth_methods ?s = (r1, s1)" by force
  obtain n where n: "tx_only ?s s1 (take n (methods_msg ?s))" using write_auth_methods_spec [OF a] by blast
  have s1: "addressed s1" "timeout s1 = ?v"
    using same_addressed [OF same_obj_trans [OF same_obj_timeout tx_only_same [OF n]] assms] tx_only_fields(9) [OF n]
    by (simp_all add: hev_socks5_set_timeout_def)
  have "\<exists>r t. (if pipeline then hev_socks5_client_handshake_pipeline rs bnd ?s
      else hev_socks5_client_handshake_standard rs bnd ?s) = Some (r, t) \<and> timeout t = ?v"
  proof (cases pipeline)
    case False
    obtain r2 s2 where b: "client_auth_standard s1 = (r2, s2)" by force
    have s2: "addressed s2" "timeout s2 = ?v"
      using same_addressed [OF _ s1(1), of s2] auth_standard_spec [OF b] auth_standard_timeout [OF b] s1(2) by simp_all
    obtain r3 s3 where w: "hev_socks5_client_write_request s2 = Some (r3, s3)" "timeout s3 = ?v" "cclass s3 = CLIENT_TCP"
      using request_step [OF s2] .
    obtain r4 s4 where p: "hev_socks5_client_read_response rs bnd s3 = (r4, s4)" by force
    show ?thesis using False a b w p response_timeout [OF p w(3)] s1(2) s2(2)
      by (simp add: hev_socks5_client_handshake_standard_def)
  next
    case True
    obtain r2 s2 where b: "hev_socks5_client_write_auth_creds s1 = (r2, s2)" by force
    obtain n2 where n2: "tx_only s1 s2 (take n2 (creds_msg s1))" using write_auth_creds_spec [OF b] by blast
    have s2: "addressed s2" "timeout s2 = ?v"
      using same_addressed [OF tx_only_same [OF n2] s1(1)] tx_only_fields(9) [OF n2] s1(2) by simp_all
    obtain r3 s3 where w: "hev_socks5_client_write_request s2 = Some (r3, s3)" "timeout s3 = ?v" "cclass s3 = CLIENT_TCP"
      using request_step [OF s2] .
    obtain r4 s4 where c: "client_auth_pipeline s3 = (r4, s4)" by force
    have s4: "timeout s4 = ?v" "cclass s4 = CLIENT_TCP"
      using auth_pipeline_timeout [OF c] auth_pipeline_spec [OF c] client_fields(3) [of s3 s4] w by auto
    obtain r5 s5 where p: "hev_socks5_client_read_response rs bnd s4 = (r5, s5)" by force
    show ?thesis using True a b w c p response_timeout [OF p s4(2)] s1(2) s2(2) s4(1)
      by (simp add: hev_socks5_client_handshake_pipeline_def)
  qed
  then show ?thesis by (auto simp: hev_socks5_client_handshake_def Let_def hev_socks5_set_timeout_def)
qed

section \<open>The whole life\<close>

lemma session_new_cases:
  assumes "hev_socks5_session_tcp_new dns ip port s = Some (ok, dns', s1)"
  shows "open_fds s1 = open_fds s" "\<not> ok \<Longrightarrow> blocks s1 = blocks s"
    "ok \<Longrightarrow> addressed s1 \<and> fd s1 = - 1 \<and> blocks s1 = blocks s + 2 \<and> socks s1 = socks s \<and> pcb s1"
proof -
  obtain o1 s0 where m: "sys_malloc s = (o1, s0)" by force
  have s0: "open_fds s0 = open_fds s" "socks s0 = socks s" "blocks s0 = blocks s + (if o1 then 1 else 0)"
    using m by (auto simp: sys_malloc_def split: list.splits)
  let ?z = "session_tcp_zero s0"
  have z: "open_fds ?z = open_fds s" "socks ?z = socks s" "blocks ?z = blocks s0"
    using s0 by (simp_all add: session_tcp_zero_def client_zero_def)
  have "open_fds s1 = open_fds s \<and> (\<not> ok \<longrightarrow> blocks s1 = blocks s) \<and>
      (ok \<longrightarrow> addressed s1 \<and> fd s1 = - 1 \<and> blocks s1 = blocks s + 2 \<and> socks s1 = socks s \<and> pcb s1)"
  proof (cases o1)
    case False
    then show ?thesis using assms m s0 by (simp add: hev_socks5_session_tcp_new_def)
  next
    case True
    obtain r a d where l: "hev_socks5_addr_from_lwip dns blank_addr ip port = Some (r, a, d)"
      using assms m True by (auto simp: hev_socks5_session_tcp_new_def hev_socks5_session_tcp_construct_def split: option.splits)
    have len: "length (abody a) = 259" using addr_from_lwip_length [OF l] by (simp add: blank_addr_def)
    obtain q t where c: "hev_socks5_client_tcp_construct a ?z = (q, t)" by force
    show ?thesis
    proof (cases "r < 0 \<or> q < 0")
      case True
      have "q < 0 \<Longrightarrow> open_fds t = open_fds ?z \<and> blocks t = blocks ?z"
        using c by (auto simp: hev_socks5_client_tcp_construct_def hev_socks5_client_construct_def hev_socks5_construct_def sys_malloc_def
            Let_def split: if_splits list.splits)
      then show ?thesis using True assms m \<open>o1\<close> l c z s0
        by (auto simp: hev_socks5_session_tcp_new_def hev_socks5_session_tcp_construct_def sys_free_def split: if_splits)
    next
      case False
      then have "s1 = t\<lparr>pcb := True\<rparr>" "ok"
        using assms m \<open>o1\<close> l c by (auto simp: hev_socks5_session_tcp_new_def hev_socks5_session_tcp_construct_def)
      then show ?thesis using construct_addressed [OF c _ len] False z s0 \<open>o1\<close> addressed_cong [of s1 t] by simp
    qed
  qed
  then show "open_fds s1 = open_fds s" "\<not> ok \<Longrightarrow> blocks s1 = blocks s"
    "ok \<Longrightarrow> addressed s1 \<and> fd s1 = - 1 \<and> blocks s1 = blocks s + 2 \<and> socks s1 = socks s \<and> pcb s1" by blast+
qed

lemma session_run_returns:
  assumes "addressed s" "0 \<le> hev_socks5_get_tcp_timeout m" "0 \<le> hev_socks5_get_udp_timeout m" "fresh_socks s"
  shows "\<exists>s'. hev_socks5_session_run srv m rs (hev_socks5_session_tcp_bind srv) (hev_socks5_session_tcp_splice n mem) s = Some s'"
proof -
  obtain r s1 where c: "hev_socks5_client_connect m rs (hev_socks5_session_tcp_bind srv) (srv_addr srv) (srv_port srv) s = (r, s1)" by force
  have m: "HevSocks5.more s1 = HevSocks5.more s" and st: "stype s1 = stype s"
    using connect_fields(1) [OF session_tcp_bind_frame assms(4) c] by simp_all
  let ?s = "if srv_user srv \<noteq> None \<and> srv_pass srv \<noteq> None then hev_socks5_client_set_auth (srv_user srv) (srv_pass srv) s1 else s1"
  have "addressed ?s" using assms(1) client_more [OF m] st by (simp add: addressed_def hev_socks5_client_set_auth_def)
  from handshake_returns [OF this] obtain q t where h:
      "hev_socks5_client_handshake m rs (hev_socks5_session_tcp_bind srv) (srv_pipeline srv) ?s = Some (q, t)" and v: "0 \<le> timeout t"
    using assms(2,3) by fastforce
  obtain u where "hev_socks5_session_tcp_splice n mem t = Some u" using splice_returns [OF v] by blast
  then show ?thesis using c h by (simp add: hev_socks5_session_run_def Let_def)
qed

lemma session_destruct_fields:
  assumes "cclass s = CLIENT_TCP" "holds base s"
  shows "open_fds (hev_socks5_session_tcp_destruct s) = base"
    "blocks (hev_socks5_session_tcp_destruct s) = blocks s - 1 - (if up_addr s = None then 0 else 1)"
    "\<not> pcb (hev_socks5_session_tcp_destruct s)" "queue (hev_socks5_session_tcp_destruct s) = []"
proof -
  let ?t = "run_callbacks s"
  have r: "same_res s ?t" by simp
  have same: "cclass ?t = cclass s" "blocks ?t = blocks s" "up_addr ?t = up_addr s" "holds base ?t"
    using r holds_cong [of ?t s base] assms(2) by (simp_all add: same_res_def)
  have q: "(if queue v \<noteq> [] then v\<lparr>queue := []\<rparr> else v) = v\<lparr>queue := []\<rparr>" for v :: "'a HevSocks5SessionTCP_scheme"
    by (cases v) simp
  let ?u = "(if pcb ?t then ?t\<lparr>pcb := False, callbacks := []\<rparr> else ?t)\<lparr>queue := []\<rparr>"
  have d: "hev_socks5_session_tcp_destruct s = hev_socks5_client_tcp_destruct ?u"
    unfolding hev_socks5_session_tcp_destruct_def hev_task_mutex_lock_def Let_def q ..
  have "holds base ?u" "cclass ?u = CLIENT_TCP" using same assms(1) holds_cong [of ?u ?t base] by simp_all
  then show "open_fds (hev_socks5_session_tcp_destruct s) = base" unfolding d by (rule holds_tcp_destruct)
  show "blocks (hev_socks5_session_tcp_destruct s) = blocks s - 1 - (if up_addr s = None then 0 else 1)"
      "\<not> pcb (hev_socks5_session_tcp_destruct s)" "queue (hev_socks5_session_tcp_destruct s) = []"
    unfolding d using same by (simp_all add: hev_socks5_client_tcp_destruct_def hev_socks5_client_destruct_def hev_socks5_destruct_def
        sys_free_def sys_close_def)
qed


definition demo_srv :: HevConfigServer where
  "demo_srv = \<lparr>srv_user = None, srv_pass = None, srv_mark = 1, srv_udp_in_udp = False, srv_port = 1080, srv_pipeline = False,
     srv_udp_addr = [], srv_addr = [49]\<rparr>"

definition demo_accept :: HevSocks5SessionTCP where
  "demo_accept = demo_session\<lparr>socks := [9], conns := [Connected], rx := [Data [5, 0], Data [5, 0, 0, 1, 0, 0, 0, 0, 0, 0], Data [42]],
     tx := replicate 4 (Accept 600), queue := [], taken := []\<rparr>"


end
