(* ===== verification/SessionUDP.thy ===== *)
theory SessionUDP
  imports Socks5UDPOk Session LwipAddr SessionSet
begin

text \<open>
  The UDP session of \<^verbatim>\<open>hev-socks5-session-udp.c\<close>: datagrams from lwIP wait as frames until they are sent to the proxy,
  datagrams from the proxy are sent to lwIP at once. The list of frames, an intrusive list in the code, is the sequence
  it holds. lwIP runs in other tasks and calls the session's handler while the session's task waits: what it calls then
  is a script, one batch per wait. A packet buffer is the chain of its parts.
\<close>

section \<open>The session and its environment\<close>

abbreviation UDP_POOL_SIZE :: int where "UDP_POOL_SIZE \<equiv> 512"

type_synonym udp_frame = "HevSocks5Addr \<times> bytes list"

datatype udp_event = UdpRecv "bytes list" | UdpGone

text \<open>\<open>map_addr\<close> and \<open>map_port\<close> are the fields \<^verbatim>\<open>addr\<close> and \<^verbatim>\<open>port\<close>; \<open>local_ip\<close>, \<open>local_port\<close> and \<open>mapped_dns\<close> belong to the
  connection and the process, the scripts and \<open>udp_out\<close>, what was given to lwIP, to lwIP; \<open>utaken\<close> records the frames
  the session took over.\<close>

record HevSocks5SessionUDP = HevSocks5Client +
  frame_list :: "udp_frame list"
  frames :: int
  map_addr :: bytes
  map_port :: u16
  upcb :: bool
  unode :: ptr
  utunnel :: HevSocks5Tunnel
  local_ip :: ip_addr_t
  local_port :: u16
  mapped_dns :: "HevMappedDNS option"
  ucallbacks :: "udp_event list list"
  pbuf_ok :: "bool list"
  send_ok :: "bool list"
  udp_out :: "(ip_addr_t \<times> u16 \<times> bytes) list"
  utaken :: "udp_frame list"

section \<open>The handler\<close>

text \<open>\<open>None\<close> when the address cannot be translated: the type of the address is read all the same.\<close>

definition udp_recv_handler ::
    "bytes list option \<Rightarrow> 'a HevSocks5SessionUDP_scheme \<Rightarrow> 'a HevSocks5SessionUDP_scheme option" where
  "udp_recv_handler p self =
     (case p of
        None \<Rightarrow> Some (hev_socks5_set_timeout 0 self)
      | Some p \<Rightarrow>
          if frames self > UDP_POOL_SIZE then Some self
          else
            case sys_malloc self of (ok, self) \<Rightarrow>
              if \<not> ok then Some self
              else
                case hev_socks5_addr_from_lwip (mapped_dns self) blank_addr (local_ip self) (local_port self) of
                  None \<Rightarrow> None
                | Some (res, addr, dns) \<Rightarrow>
                    if res < 0 then None
                    else
                      let self = self\<lparr>mapped_dns := dns\<rparr>;
                          self = (case local_ip self of
                                    IPADDR_V4 b \<Rightarrow> if atype addr = HEV_SOCKS5_ADDR_TYPE_NAME
                                      then self\<lparr>map_addr := b, map_port := local_port self\<rparr> else self
                                  | _ \<Rightarrow> self)
                      in Some (self\<lparr>frames := frames self + 1, frame_list := frame_list self @ [(addr, p)], utaken := utaken self @ [(addr, p)]\<rparr>))"

text \<open>lwIP calls the handler only while the connection exists.\<close>

fun run_udp_events :: "udp_event list \<Rightarrow> 'a HevSocks5SessionUDP_scheme \<Rightarrow> 'a HevSocks5SessionUDP_scheme option" where
  "run_udp_events [] self = Some self"
| "run_udp_events (e # es) self =
     (if \<not> upcb self then Some self
      else
        case udp_recv_handler (case e of UdpRecv p \<Rightarrow> Some p | UdpGone \<Rightarrow> None) self of
          None \<Rightarrow> None
        | Some self \<Rightarrow> run_udp_events es self)"

definition run_udp_callbacks :: "'a HevSocks5SessionUDP_scheme \<Rightarrow> 'a HevSocks5SessionUDP_scheme option" where
  "run_udp_callbacks self =
     (case ucallbacks self of
        [] \<Rightarrow> Some self
      | b # bs \<Rightarrow> run_udp_events b (self\<lparr>ucallbacks := bs\<rparr>))"

definition session_udp_yielder ::
    "HevTaskYieldType \<Rightarrow> 'a HevSocks5SessionUDP_scheme \<Rightarrow> (int \<times> 'a HevSocks5SessionUDP_scheme) option" where
  "session_udp_yielder ty self =
     (case (if stype self = TYPE_UDP_IN_UDP then control_closed self else (False, self)) of (c, self) \<Rightarrow>
        if c then Some (- 1, hev_socks5_set_timeout 0 self)
        else
          case hev_socks5_task_io_yielder ty self of (res, self) \<Rightarrow>
            map_option (\<lambda>self. (res, self\<lparr>utunnel := hev_socks5_tunnel_update_session (unode self) (utunnel self)\<rparr>))
              (run_udp_callbacks self))"

section \<open>Forwarding\<close>

text \<open>A message is the address of a frame with the first part of its packet buffer. What lwIP calls while the messages
  are being sent comes before the frames are released.\<close>

definition frame_msg :: "udp_frame \<Rightarrow> send_msg" where
  "frame_msg f = (fst f, hd (snd f))"

definition hev_socks5_session_udp_fwd_f ::
    "nat \<Rightarrow> 'a HevSocks5SessionUDP_scheme \<Rightarrow> (int \<times> 'a HevSocks5SessionUDP_scheme) option" where
  "hev_socks5_session_udp_fwd_f num self =
     (if frames self \<le> 0 then Some (0, self)
      else
        let res = (if nat (frames self) > num then num else nat (frames self))
        in if length (frame_list self) < res then None
           else
             case hev_socks5_udp_sendmmsg hev_socks5_client_udp_get_fd (map frame_msg (take res (frame_list self))) self of (res, self) \<Rightarrow>
               if res \<le> 0 then Some (- 1, self)
               else
                 case run_udp_callbacks self of
                   None \<Rightarrow> None
                 | Some self \<Rightarrow>
                     if length (frame_list self) < nat res then None
                     else Some (1, self\<lparr>frame_list := drop (nat res) (frame_list self), frames := frames self - res, blocks := blocks self - res\<rparr>))"

text \<open>\<^verbatim>\<open>pbuf_alloc_reference\<close> and \<^verbatim>\<open>udp_sendfrom\<close>.\<close>

definition pbuf_alloc_reference :: "'a HevSocks5SessionUDP_scheme \<Rightarrow> bool \<times> 'a HevSocks5SessionUDP_scheme" where
  "pbuf_alloc_reference self = (case pbuf_ok self of [] \<Rightarrow> (True, self) | b # bs \<Rightarrow> (b, self\<lparr>pbuf_ok := bs\<rparr>))"

definition udp_sendfrom ::
    "bytes \<Rightarrow> ip_addr_t \<Rightarrow> u16 \<Rightarrow> 'a HevSocks5SessionUDP_scheme \<Rightarrow> bool \<times> 'a HevSocks5SessionUDP_scheme" where
  "udp_sendfrom p ip port self =
     (let (ok, rest) = (case send_ok self of [] \<Rightarrow> (True, []) | b # bs \<Rightarrow> (b, bs))
      in (ok, self\<lparr>send_ok := rest, udp_out := (if ok then udp_out self @ [(ip, port, p)] else udp_out self)\<rparr>))"

text \<open>The loop over the received messages. \<open>junk\<close> is the address that four bytes make whose type was not set. \<open>Inl\<close> is
  \<^verbatim>\<open>return -1\<close>, \<open>None\<close> a read of an address that is unset or NULL.\<close>

fun session_udp_deliver ::
    "(bytes \<Rightarrow> ip_addr_t) \<Rightarrow> HevSocks5UDPMsg list \<Rightarrow> 'a HevSocks5SessionUDP_scheme \<Rightarrow>
      ('a HevSocks5SessionUDP_scheme + 'a HevSocks5SessionUDP_scheme) option" where
  "session_udp_deliver junk [] self = Some (Inr self)"
| "session_udp_deliver junk (m # ms) self =
     (case (if map_addr self \<noteq> [0, 0, 0, 0] \<and> map_port self \<noteq> 0 then Some (Some (junk (map_addr self), map_port self))
            else
              case um_addr m of
                AddrAt off \<Rightarrow> Some (hev_socks5_addr_into_lwip (mem_addr (um_mem m) off))
              | _ \<Rightarrow> None) of
        None \<Rightarrow> None
      | Some None \<Rightarrow> Some (Inl self)
      | Some (Some (saddr, port)) \<Rightarrow>
          (case pbuf_alloc_reference self of (ok, self) \<Rightarrow>
             if \<not> ok then Some (Inl self)
             else
               case run_udp_callbacks self of
                 None \<Rightarrow> None
               | Some self \<Rightarrow>
                   (case udp_sendfrom (um_data m) saddr port self of (ok, self) \<Rightarrow>
                      if \<not> ok then Some (Inl self) else session_udp_deliver junk ms self)))"

definition hev_socks5_session_udp_fwd_b ::
    "(bytes \<Rightarrow> ip_addr_t) \<Rightarrow> bytes list \<Rightarrow> 'a HevSocks5SessionUDP_scheme \<Rightarrow> (int \<times> 'a HevSocks5SessionUDP_scheme) option" where
  "hev_socks5_session_udp_fwd_b junk bufs self =
     (case hev_socks5_udp_recvmmsg hev_socks5_client_udp_get_fd True (map fresh_msg bufs) self of (res, msgv, self) \<Rightarrow>
        if res \<le> 0 then Some (if res = - 1 \<and> eagain self then 0 else - 1, self)
        else if length msgv < nat res then None
        else
          case session_udp_deliver junk (take (nat res) msgv) self of
            None \<Rightarrow> None
          | Some (Inl self) \<Rightarrow> Some (- 1, self)
          | Some (Inr self) \<Rightarrow> Some (1, self))"

text \<open>\<open>bufs\<close> is the stack memory of the receive buffers, one of \<open>UDP_BUF_SIZE\<close> bytes for each of the \<open>num\<close> messages.\<close>

partial_function (option) session_udp_loop ::
    "(bytes \<Rightarrow> ip_addr_t) \<Rightarrow> nat \<Rightarrow> bytes list \<Rightarrow> int \<Rightarrow> int \<Rightarrow> 'a HevSocks5SessionUDP_scheme \<Rightarrow> 'a HevSocks5SessionUDP_scheme option" where
  "session_udp_loop junk num bufs res_f res_b self =
     (case (if res_f \<ge> 0 then hev_socks5_session_udp_fwd_f num self else Some (res_f, self)) of
        None \<Rightarrow> None
      | Some (res_f, self) \<Rightarrow>
          (case (if res_b \<ge> 0 then hev_socks5_session_udp_fwd_b junk bufs self else Some (res_b, self)) of
             None \<Rightarrow> None
           | Some (res_b, self) \<Rightarrow>
               if res_f > 0 \<or> res_b > 0 \<or> res_f AND res_b = 0 then
                 (case session_udp_yielder (if res_f > 0 \<or> res_b > 0 then HEV_TASK_YIELD else HEV_TASK_WAITIO) self of
                    None \<Rightarrow> None
                  | Some (y, self) \<Rightarrow> if y \<noteq> 0 then Some self else session_udp_loop junk num bufs res_f res_b self)
               else Some self))"

definition hev_socks5_session_udp_splice ::
    "(bytes \<Rightarrow> ip_addr_t) \<Rightarrow> bytes list \<Rightarrow> 'a HevSocks5SessionUDP_scheme \<Rightarrow> 'a HevSocks5SessionUDP_scheme option" where
  "hev_socks5_session_udp_splice junk bufs self = session_udp_loop junk (length bufs) bufs 1 1 self"

section \<open>The class\<close>

definition hev_socks5_addr_get_port :: "HevSocks5Addr \<Rightarrow> u16" where
  "hev_socks5_addr_get_port addr =
     (if atype addr = HEV_SOCKS5_ADDR_TYPE_IPV4 then of_le16 (ipv4_port addr)
      else if atype addr = HEV_SOCKS5_ADDR_TYPE_IPV6 then of_le16 (ipv6_port addr)
      else if atype addr = HEV_SOCKS5_ADDR_TYPE_NAME then of_le16 (mem_get (abody addr) (1 + unat (domain_len addr)) 2)
      else 0)"

definition hev_socks5_session_udp_set_upstream_addr ::
    "HevConfigServer \<Rightarrow> resolver \<Rightarrow> 'a HevSocks5Client_scheme bind_fun \<Rightarrow> HevSocks5Addr \<Rightarrow> 'a HevSocks5Client_scheme \<Rightarrow>
      (int \<times> 'a HevSocks5Client_scheme) option" where
  "hev_socks5_session_udp_set_upstream_addr srv rs bnd addr self =
     map_option (\<lambda>addr. hev_socks5_client_udp_set_upstream_addr rs bnd addr self)
       (if srv_udp_in_udp srv \<and> srv_udp_addr srv \<noteq> []
        then map_option snd (hev_socks5_addr_from_name addr (srv_udp_addr srv) (hev_socks5_addr_get_port addr))
        else Some addr)"

definition hev_socks5_session_udp_construct ::
    "HevConfigServer \<Rightarrow> 'a HevSocks5SessionUDP_scheme \<Rightarrow> int \<times> 'a HevSocks5SessionUDP_scheme" where
  "hev_socks5_session_udp_construct srv self =
     (let ty = (if srv_udp_in_udp srv then TYPE_UDP_IN_UDP else TYPE_UDP_IN_TCP);
          (res, self) = hev_socks5_client_udp_construct ty self
      in if res < 0 then (- 1, self) else (0, self\<lparr>upcb := True\<rparr>))"

definition session_udp_zero :: "'a HevSocks5SessionUDP_scheme \<Rightarrow> 'a HevSocks5SessionUDP_scheme" where
  "session_udp_zero s = (client_zero s)\<lparr>frame_list := [], frames := 0, map_addr := [0, 0, 0, 0], map_port := 0, upcb := False\<rparr>"

definition hev_socks5_session_udp_new ::
    "HevConfigServer \<Rightarrow> 'a HevSocks5SessionUDP_scheme \<Rightarrow> bool \<times> 'a HevSocks5SessionUDP_scheme" where
  "hev_socks5_session_udp_new srv s =
     (case sys_malloc s of (ok, self) \<Rightarrow>
        if \<not> ok then (False, self)
        else
          let (res, self) = hev_socks5_session_udp_construct srv (session_udp_zero self)
          in if res < 0 then (False, sys_free self) else (True, self))"

fun free_frames :: "udp_frame list \<Rightarrow> 'a HevSocks5SessionUDP_scheme \<Rightarrow> 'a HevSocks5SessionUDP_scheme" where
  "free_frames [] self = self"
| "free_frames (f # fs) self = free_frames fs (sys_free self)"

definition hev_socks5_session_udp_destruct :: "'a HevSocks5SessionUDP_scheme \<Rightarrow> 'a HevSocks5SessionUDP_scheme" where
  "hev_socks5_session_udp_destruct self =
     (let self = free_frames (frame_list self) self;
          self = (if upcb self then self\<lparr>upcb := False, ucallbacks := []\<rparr> else self)
      in hev_socks5_client_udp_destruct self)"

end
