(* ===== verification/SessionUDPOk.thy ===== *)
theory SessionUDPOk
  imports SessionUDP
begin

text \<open>
  Correctness of the UDP session: the frames are counted right and never more than the pool allows, every datagram taken
  over from lwIP is sent to the proxy once and in order or still waits, and no memory or descriptor is lost.
\<close>

section \<open>Sending\<close>

text \<open>The datagrams that went out are the ones the result counts.\<close>

lemma sendmmsg_sent:
  assumes "hev_task_io_socket_sendmmsg d ms c s = (r, s')"
  shows "\<exists>k\<le>length ms. dsent s' d = dsent s d @ take k ms \<and> (if 0 < r then r = int (c + k) else c = 0 \<and> k = 0)"
  using assms
proof (induction d ms c s arbitrary: r s' rule: hev_task_io_socket_sendmmsg.induct)
  case (1 d ms c s)
  note unfold = hev_task_io_socket_sendmmsg.simps [of d ms c s]
  show ?case
  proof (cases "dtx s d")
    case Nil
    with "1.prems" show ?thesis by (intro exI [of _ 0]) (auto simp: unfold split: if_splits)
  next
    case (Cons e es)
    show ?thesis
    proof (cases e)
      case DTxFail
      with Cons "1.prems" show ?thesis by (intro exI [of _ 0]) (auto simp: unfold split: if_splits)
    next
      case DTxBlock
      obtain y t where y: "udp_task_io_yielder HEV_TASK_WAITIO (s\<lparr>dtx := (dtx s)(d := es), eagain := True\<rparr>) = (y, t)" by force
      have ds: "dsent t = dsent s" using udp_yielder_fields(3) [OF y] by simp
      show ?thesis
      proof (cases "y = 0")
        case True
        then have "hev_task_io_socket_sendmmsg d ms c t = (r, s')" using "1.prems" Cons DTxBlock y by (simp add: unfold)
        from "1.IH"(2) [OF Cons DTxBlock y [symmetric] _ this] True ds show ?thesis by simp
      next
        case False
        then show ?thesis using "1.prems" Cons DTxBlock y ds by (intro exI [of _ 0]) (auto simp: unfold split: if_splits)
      qed
    next
      case (DAccept a)
      define n where "n = min a (length ms)"
      let ?t = "s\<lparr>dtx := (dtx s)(d := es), dsent := (dsent s)(d := dsent s d @ take n ms)\<rparr>"
      consider "n = 0" | "0 < n" "n < length ms" | "0 < n" "n = length ms"
        by (cases "n = 0"; cases "n < length ms") (auto simp: n_def min_def split: if_splits)
      then show ?thesis
      proof cases
        case 1
        then show ?thesis using "1.prems" Cons DAccept by (intro exI [of _ 0]) (auto simp: unfold Let_def n_def [symmetric])
      next
        case 2
        then have st: "hev_task_io_socket_sendmmsg d (drop n ms) (c + n) ?t = (r, s')"
          using "1.prems" Cons DAccept by (simp add: unfold Let_def n_def [symmetric])
        have "\<exists>k\<le>length (drop n ms). dsent s' d = dsent ?t d @ take k (drop n ms) \<and> (if 0 < r then r = int (c + n + k) else c + n = 0 \<and> k = 0)"
          using "1.IH"(1) [OF Cons DAccept n_def refl _ _ st] 2 by simp
        then obtain k where k: "k \<le> length (drop n ms)" "dsent s' d = dsent ?t d @ take k (drop n ms)"
          "if 0 < r then r = int (c + n + k) else c + n = 0 \<and> k = 0" by blast
        then have "dsent s' d = dsent s d @ take (n + k) ms" by (simp add: take_add)
        then show ?thesis using k 2 by (intro exI [of _ "n + k"]) (auto split: if_splits)
      next
        case 3
        then have "r = int (c + n) \<and> s' = ?t" using "1.prems" Cons DAccept by (auto simp: unfold Let_def n_def [symmetric])
        then show ?thesis using 3 by (intro exI [of _ n]) (cases ms; simp)
      qed
    qed
  qed
qed

lemma udp_sendmmsg_counts:
  assumes "hev_socks5_udp_sendmmsg get_fd msgv s = (r, s')"
  shows "keeps s s' \<and> r \<le> int (length msgv) \<and> (stype s = TYPE_UDP_IN_UDP \<longrightarrow>
    dsent s' (get_fd s) = dsent s (get_fd s) @ map (\<lambda>m. (None, udp_packet m)) (take (nat r) msgv))"
proof -
  have k: "keeps s s'" using udp_sendmmsg_keeps [OF assms] by simp
  show ?thesis
  proof (cases "stype s")
    case TYPE_UDP_IN_UDP
    show ?thesis
    proof (cases "\<exists>m\<in>set msgv. hev_socks5_addr_len (fst m) \<le> 0")
      case True
      then have "r = - 1 \<and> s' = s" using assms TYPE_UDP_IN_UDP by (auto simp: hev_socks5_udp_sendmmsg_def hev_socks5_udp_sendmmsg_udp_def)
      then show ?thesis using k by simp
    next
      case False
      then have "hev_task_io_socket_sendmmsg (get_fd s) (map (\<lambda>m. (None, udp_packet m)) msgv) 0 s = (r, s')"
        using assms TYPE_UDP_IN_UDP by (auto simp: hev_socks5_udp_sendmmsg_def hev_socks5_udp_sendmmsg_udp_def)
      from sendmmsg_sent [OF this] k show ?thesis by (auto simp: take_map split: if_splits)
    qed
  qed (use assms k in \<open>auto simp: hev_socks5_udp_sendmmsg_def hev_socks5_udp_sendmmsg_tcp_def Let_def split: if_splits prod.splits\<close>)
qed

lemma udp_recvmmsg_dsent:
  assumes "hev_socks5_udp_recvmmsg get_fd True msgv s = (r, msgs, s')" "stype s = TYPE_UDP_IN_UDP"
  shows "dsent s' = dsent s"
proof -
  obtain n got t where g: "hev_task_io_socket_recvmmsg (get_fd s) (map um_len msgv) True s = (n, got, t)" by (metis prod_cases3)
  have "dsent t = dsent s"
    using g by (auto simp: hev_task_io_socket_recvmmsg.simps [of "get_fd s"] Let_def split: list.splits drx_event.splits)
  then show ?thesis using assms g
    by (auto simp: hev_socks5_udp_recvmmsg_def hev_socks5_udp_recvmmsg_udp_def Let_def sys_opt_def split: if_splits list.splits prod.splits)
qed

section \<open>The invariant\<close>

lemma udp_more:
  assumes "HevSocks5.more s' = HevSocks5.more s"
  shows "frame_list s' = frame_list s" "frames s' = frames s" "utaken s' = utaken s" "map_addr s' = map_addr s" "map_port s' = map_port s"
    "upcb s' = upcb s" "local_ip s' = local_ip s" "local_port s' = local_port s" "mapped_dns s' = mapped_dns s" "ucallbacks s' = ucallbacks s"
    "udp_fd s' = udp_fd s" "cclass s' = cclass s" "up_addr s' = up_addr s"
  using assms by (cases s; cases s'; simp)+

abbreviation frame_packet :: "udp_frame \<Rightarrow> sockaddr_in6 option \<times> bytes" where
  "frame_packet f \<equiv> (None, udp_packet (frame_msg f))"

text \<open>The state of a session with the first \<open>k\<close> frames already sent but not yet released: \<open>d\<close> is the relay descriptor,
  \<open>base\<close> what had been sent there before, \<open>b0\<close> the number of heap blocks without the frames, \<open>hs\<close> the frames sent before.\<close>

definition udp_inv :: "int \<Rightarrow> (sockaddr_in6 option \<times> bytes) list \<Rightarrow> int \<Rightarrow> udp_frame list \<Rightarrow> nat \<Rightarrow> 'a HevSocks5SessionUDP_scheme \<Rightarrow> bool" where
  "udp_inv d base b0 hs k s \<longleftrightarrow> frames s = int (length (frame_list s)) \<and> frames s \<le> UDP_POOL_SIZE + 1 \<and> blocks s = b0 + frames s \<and>
     hev_socks5_client_udp_get_fd s = d \<and> k \<le> length (frame_list s) \<and>
     (\<exists>handed. utaken s = hs @ handed @ frame_list s \<and>
       (stype s = TYPE_UDP_IN_UDP \<longrightarrow> dsent s d = base @ map frame_packet (handed @ take k (frame_list s))))"

lemma udp_inv_updates [simp]:
  "udp_inv d base b0 hs k (s\<lparr>rx := x1\<rparr>) = udp_inv d base b0 hs k s" "udp_inv d base b0 hs k (s\<lparr>sleeps := x2\<rparr>) = udp_inv d base b0 hs k s"
  "udp_inv d base b0 hs k (s\<lparr>timeout := x3\<rparr>) = udp_inv d base b0 hs k s" "udp_inv d base b0 hs k (s\<lparr>utunnel := x4\<rparr>) = udp_inv d base b0 hs k s"
  "udp_inv d base b0 hs k (s\<lparr>ucallbacks := x5\<rparr>) = udp_inv d base b0 hs k s" "udp_inv d base b0 hs k (s\<lparr>pbuf_ok := x6\<rparr>) = udp_inv d base b0 hs k s"
  "udp_inv d base b0 hs k (s\<lparr>send_ok := x7\<rparr>) = udp_inv d base b0 hs k s" "udp_inv d base b0 hs k (s\<lparr>udp_out := x8\<rparr>) = udp_inv d base b0 hs k s"
  "udp_inv d base b0 hs k (s\<lparr>mapped_dns := x9\<rparr>) = udp_inv d base b0 hs k s" "udp_inv d base b0 hs k (s\<lparr>map_addr := x10\<rparr>) = udp_inv d base b0 hs k s"
  "udp_inv d base b0 hs k (s\<lparr>map_port := x11\<rparr>) = udp_inv d base b0 hs k s" "udp_inv d base b0 hs k (s\<lparr>mallocs := x12\<rparr>) = udp_inv d base b0 hs k s"
  by (simp_all add: udp_inv_def hev_socks5_client_udp_get_fd_def cong: HevSocks5Type.case_cong)

lemma udp_inv_take:
  assumes "udp_inv d base b0 hs k s" "frames s \<le> UDP_POOL_SIZE"
  shows "udp_inv d base b0 hs k (s\<lparr>blocks := blocks s + 1, frames := frames s + 1, frame_list := frame_list s @ [f], utaken := utaken s @ [f]\<rparr>)"
proof -
  obtain handed where h: "utaken s = hs @ handed @ frame_list s"
    "stype s = TYPE_UDP_IN_UDP \<longrightarrow> dsent s d = base @ map frame_packet (handed @ take k (frame_list s))"
    using assms(1) by (auto simp: udp_inv_def)
  have k: "k \<le> length (frame_list s)" using assms(1) by (simp add: udp_inv_def)
  then have "take k (frame_list s @ [f]) = take k (frame_list s)" by simp
  then show ?thesis using assms h k
    by (auto simp: udp_inv_def hev_socks5_client_udp_get_fd_def intro!: exI [of _ handed] cong: HevSocks5Type.case_cong)
qed

lemma handler_inv:
  assumes "udp_recv_handler p s = Some s'" "udp_inv d base b0 hs k s"
  shows "udp_inv d base b0 hs k s'"
proof (cases p)
  case None
  then show ?thesis using assms by (auto simp: udp_recv_handler_def hev_socks5_set_timeout_def)
next
  case (Some q)
  show ?thesis
  proof (cases "frames s > UDP_POOL_SIZE")
    case True
    then show ?thesis using assms Some by (simp add: udp_recv_handler_def)
  next
    case False
    obtain ok t where m: "sys_malloc s = (ok, t)" by force
    obtain ms where t: "t = s\<lparr>mallocs := ms, blocks := blocks s + (if ok then 1 else 0)\<rparr>"
    proof -
      have "t = s\<lparr>mallocs := (case mallocs s of [] \<Rightarrow> [] | _ # r \<Rightarrow> r), blocks := blocks s + (if ok then 1 else 0)\<rparr>"
        using m by (cases s) (auto simp: sys_malloc_def split: list.splits)
      then show ?thesis using that by blast
    qed
    show ?thesis
    proof (cases ok)
      case False
      then have "s' = s\<lparr>mallocs := ms\<rparr>"
        using assms(1) Some m t \<open>\<not> frames s > UDP_POOL_SIZE\<close> by (simp add: udp_recv_handler_def)
      then show ?thesis using assms(2) by simp
    next
      case True
      let ?g = "\<lambda>a. s\<lparr>mallocs := ms, mapped_dns := fst a, map_addr := fst (snd a), map_port := snd (snd a)\<rparr>"
      obtain a f where "s' = (?g a)\<lparr>blocks := blocks (?g a) + 1, frames := frames (?g a) + 1,
          frame_list := frame_list (?g a) @ [f], utaken := utaken (?g a) @ [f]\<rparr>"
      proof -
        obtain addr dns r where l: "hev_socks5_addr_from_lwip (mapped_dns t) blank_addr (local_ip t) (local_port t) = Some (r, addr, dns)" "\<not> r < 0"
          using assms(1) Some m True \<open>\<not> frames s > UDP_POOL_SIZE\<close> by (auto simp: udp_recv_handler_def split: option.splits if_splits)
        let ?c = "case local_ip t of IPADDR_V4 b \<Rightarrow> (if atype addr = HEV_SOCKS5_ADDR_TYPE_NAME then (b, local_port t) else (map_addr t, map_port t))
          | _ \<Rightarrow> (map_addr t, map_port t)"
        have "s' = (?g (dns, ?c))\<lparr>blocks := blocks s + 1, frames := frames s + 1,
          frame_list := frame_list s @ [(addr, q)], utaken := utaken s @ [(addr, q)]\<rparr>"
          using assms(1) Some m True l t \<open>\<not> frames s > UDP_POOL_SIZE\<close>
          by (cases s) (auto simp: udp_recv_handler_def Let_def split: ip_addr_t.splits if_splits)
        then show ?thesis using that [of "(dns, ?c)" "(addr, q)"] by simp
      qed
      moreover have "udp_inv d base b0 hs k (?g a)" using assms(2) by simp
      ultimately show ?thesis using udp_inv_take [of d base b0 hs k "?g a" f] \<open>\<not> frames s > UDP_POOL_SIZE\<close> by simp
    qed
  qed
qed

text \<open>What the handler preserves, the callbacks preserve.\<close>

lemma callbacks_preserve:
  assumes h: "\<And>p s s'. udp_recv_handler p s = Some s' \<Longrightarrow> P s \<Longrightarrow> P s'" and c: "\<And>s cs. P (s\<lparr>ucallbacks := cs\<rparr>) = P s"
    and "run_udp_callbacks s = Some s'" "P s"
  shows "P s'"
proof -
  have ev: "P u" if "run_udp_events es t = Some u" "P t" for es t u
    using that
  proof (induction es arbitrary: t)
    case (Cons e es)
    then show ?case using h by (auto split: if_splits option.splits)
  qed simp
  show ?thesis using assms(3,4) ev by (auto simp: run_udp_callbacks_def c split: list.splits)
qed

lemma udp_callbacks_inv: "run_udp_callbacks s = Some s' \<Longrightarrow> udp_inv d base b0 hs k s \<Longrightarrow> udp_inv d base b0 hs k s'"
  by (rule callbacks_preserve [where P = "udp_inv d base b0 hs k"]) (auto intro: handler_inv)

lemma keeps_inv:
  assumes "keeps s s'" "udp_inv d base b0 hs 0 s" "stype s = TYPE_UDP_IN_UDP \<Longrightarrow>
    dsent s' d = dsent s d @ map (\<lambda>m. (None, udp_packet m)) (map frame_msg (take k (frame_list s)))" "k \<le> length (frame_list s)"
  shows "udp_inv d base b0 hs k s'"
proof -
  note f = udp_more [OF keeps_fields(3) [OF assms(1)]] and g = keeps_fields [OF assms(1)]
  have "blocks s' = blocks s" using assms(1) by (simp add: keeps_def)
  then show ?thesis using assms(2-4) f g
    by (auto simp: udp_inv_def hev_socks5_client_udp_get_fd_def comp_def cong: HevSocks5Type.case_cong)
qed

lemma send_inv:
  assumes "hev_socks5_udp_sendmmsg hev_socks5_client_udp_get_fd (map frame_msg (take n (frame_list s))) s = (q, s')" "udp_inv d base b0 hs 0 s"
  shows "udp_inv d base b0 hs (nat q) s'"
proof (rule keeps_inv [OF _ assms(2)])
  note cnt = udp_sendmmsg_counts [OF assms(1)]
  show "keeps s s'" using cnt by simp
  have len: "nat q \<le> length (take n (frame_list s))" using cnt by auto
  then have "take (nat q) (map frame_msg (take n (frame_list s))) = map frame_msg (take (nat q) (frame_list s))"
    by (simp add: take_map)
  then show "dsent s' d = dsent s d @ map (\<lambda>m. (None, udp_packet m)) (map frame_msg (take (nat q) (frame_list s)))"
    if "stype s = TYPE_UDP_IN_UDP" using cnt that assms(2) by (simp add: udp_inv_def)
  show "nat q \<le> length (frame_list s)" using len by simp
qed

lemma udp_fwd_f_inv:
  assumes "hev_socks5_session_udp_fwd_f num s = Some (r, s')" "udp_inv d base b0 hs 0 s"
  shows "udp_inv d base b0 hs 0 s'"
proof (cases "frames s \<le> 0")
  case True
  then show ?thesis using assms by (simp add: hev_socks5_session_udp_fwd_f_def)
next
  case False
  define n where "n = (if nat (frames s) > num then num else nat (frames s))"
  define msgs where "msgs = map frame_msg (take n (frame_list s))"
  obtain q s1 where q: "hev_socks5_udp_sendmmsg hev_socks5_client_udp_get_fd msgs s = (q, s1)" by force
  note st = assms(1) [unfolded hev_socks5_session_udp_fwd_f_def Let_def, folded n_def, folded msgs_def]
  have m: "udp_inv d base b0 hs (nat q) s1" using q [unfolded msgs_def] assms(2) by (rule send_inv)
  show ?thesis
  proof (cases "q \<le> 0")
    case True
    then show ?thesis using st False q m by (auto split: if_splits)
  next
    case pos: False
    then obtain s2 where s2: "run_udp_callbacks s1 = Some s2" "\<not> length (frame_list s2) < nat q"
      "s' = s2\<lparr>frame_list := drop (nat q) (frame_list s2), frames := frames s2 - q, blocks := blocks s2 - q\<rparr>"
      using st False q by (auto split: if_splits option.splits)
    have i: "udp_inv d base b0 hs (nat q) s2" using udp_callbacks_inv [OF s2(1) m] .
    then obtain handed where h: "utaken s2 = hs @ handed @ frame_list s2"
      "stype s2 = TYPE_UDP_IN_UDP \<longrightarrow> dsent s2 d = base @ map frame_packet (handed @ take (nat q) (frame_list s2))"
      by (auto simp: udp_inv_def)
    have "utaken s' = hs @ (handed @ take (nat q) (frame_list s2)) @ frame_list s'" using h s2(3) by simp
    moreover have "stype s' = TYPE_UDP_IN_UDP \<longrightarrow> dsent s' d = base @ map frame_packet ((handed @ take (nat q) (frame_list s2)) @ take 0 (frame_list s'))"
      using h s2(3) by simp
    ultimately have ex: "\<exists>handed. utaken s' = hs @ handed @ frame_list s' \<and>
        (stype s' = TYPE_UDP_IN_UDP \<longrightarrow> dsent s' d = base @ map frame_packet (handed @ take 0 (frame_list s')))" by blast
    have "frames s' = int (length (frame_list s'))" "frames s' \<le> UDP_POOL_SIZE + 1" "blocks s' = b0 + frames s'" "hev_socks5_client_udp_get_fd s' = d"
      using i s2(3) pos by (auto simp: udp_inv_def hev_socks5_client_udp_get_fd_def cong: HevSocks5Type.case_cong)
    then show ?thesis unfolding udp_inv_def using ex by blast
  qed
qed

lemma deliver_cases:
  assumes "session_udp_deliver junk (m # ms) s = Some out"
  obtains "out = Inl s" | ok s1 where "pbuf_alloc_reference s = (ok, s1)" "out = Inl s1"
    | ok s1 s2 ip port ok2 s3 where "pbuf_alloc_reference s = (ok, s1)" "run_udp_callbacks s1 = Some s2"
        "udp_sendfrom (um_data m) ip port s2 = (ok2, s3)" "out = Inl s3 \<or> session_udp_deliver junk ms s3 = Some out"
proof -
  obtain ok s1 where p: "pbuf_alloc_reference s = (ok, s1)" by force
  define src where "src = (if map_addr s \<noteq> [0, 0, 0, 0] \<and> map_port s \<noteq> 0 then Some (Some (junk (map_addr s), map_port s))
    else case um_addr m of AddrAt off \<Rightarrow> Some (hev_socks5_addr_into_lwip (mem_addr (um_mem m) off)) | _ \<Rightarrow> None)"
  note st = assms [unfolded session_udp_deliver.simps, folded src_def]
  consider "src = None" | "src = Some None" | ip port where "src = Some (Some (ip, port))" by (cases src; cases "the src") auto
  then show ?thesis
  proof cases
    case 1
    then show ?thesis using st by simp
  next
    case 2
    then show ?thesis using st that(1) by simp
  next
    case 3
    show ?thesis
    proof (cases ok)
      case True
      then obtain s2 where s2: "run_udp_callbacks s1 = Some s2" using st 3 p by (auto split: option.splits)
      obtain ok2 s3 where s3: "udp_sendfrom (um_data m) ip port s2 = (ok2, s3)" by force
      have "out = Inl s3 \<or> session_udp_deliver junk ms s3 = Some out" using st 3 p True s2 s3 by (auto split: if_splits)
      then show ?thesis using that(3) [OF p s2 s3] by blast
    qed (use st 3 p that(2) in simp)
  qed
qed

text \<open>What its steps preserve, the loop preserves.\<close>

lemma deliver_preserves:
  assumes pb: "\<And>s ok s'. pbuf_alloc_reference s = (ok, s') \<Longrightarrow> P s \<Longrightarrow> P s'" and cb: "\<And>s s'. run_udp_callbacks s = Some s' \<Longrightarrow> P s \<Longrightarrow> P s'"
    and sf: "\<And>b ip port s ok s'. udp_sendfrom b ip port s = (ok, s') \<Longrightarrow> P s \<Longrightarrow> P s'"
    and "session_udp_deliver junk ms s = Some out" "P s"
  shows "P (case out of Inl s' \<Rightarrow> s' | Inr s' \<Rightarrow> s')"
  using assms(4,5)
proof (induction ms arbitrary: s)
  case (Cons m ms)
  from Cons.prems(1) show ?case
  proof (cases rule: deliver_cases)
    case (3 ok s1 s2 ip port ok2 s3)
    have "P s3" using sf [OF 3(3) cb [OF 3(2) pb [OF 3(1) Cons.prems(2)]]] .
    then show ?thesis using 3(4) Cons.IH by auto
  qed (use Cons.prems(2) pb in auto)
qed auto

lemma deliver_inv:
  assumes "session_udp_deliver junk ms s = Some out" "udp_inv d base b0 hs k s"
  shows "udp_inv d base b0 hs k (case out of Inl s' \<Rightarrow> s' | Inr s' \<Rightarrow> s')"
  using _ udp_callbacks_inv _ assms
proof (rule deliver_preserves [where P = "udp_inv d base b0 hs k"])
  show "udp_inv d base b0 hs k s'" if "pbuf_alloc_reference s = (ok, s')" "udp_inv d base b0 hs k s" for s s' :: "'a HevSocks5SessionUDP_scheme" and ok
    using that by (auto simp: pbuf_alloc_reference_def split: list.splits)
  show "udp_inv d base b0 hs k s'" if "udp_sendfrom b ip port s = (ok, s')" "udp_inv d base b0 hs k s" for b ip port ok and s s' :: "'a HevSocks5SessionUDP_scheme"
    using that by (auto simp: udp_sendfrom_def Let_def split: list.splits)
qed

lemma udp_fwd_b_inv:
  assumes "hev_socks5_session_udp_fwd_b junk bufs s = Some (r, s')" "udp_inv d base b0 hs 0 s" "\<forall>b\<in>set bufs. length b = UDP_BUF_SIZE"
  shows "udp_inv d base b0 hs 0 s'"
proof -
  obtain q msgs s1 where q: "hev_socks5_udp_recvmmsg hev_socks5_client_udp_get_fd True (map fresh_msg bufs) s = (q, msgs, s1)" by (metis prod_cases3)
  have "keeps s s1" using udp_recvmmsg_safe [OF q] assms(3) by (simp add: buf_ok_fresh)
  from keeps_inv [OF this assms(2), of 0] have "udp_inv d base b0 hs 0 s1" using udp_recvmmsg_dsent [OF q] by simp
  then show ?thesis using assms(1) q deliver_inv [of junk "take (nat q) msgs" s1 _ d base b0 hs 0]
    by (force simp: hev_socks5_session_udp_fwd_b_def split: if_splits option.splits sum.splits)
qed

lemma udp_yielder_inv:
  assumes "session_udp_yielder ty s = Some (r, s')" "udp_inv d base b0 hs 0 s"
  shows "udp_inv d base b0 hs 0 s'"
proof -
  obtain c s1 where c: "(if stype s = TYPE_UDP_IN_UDP then control_closed s else (False, s)) = (c, s1)" by force
  have s1: "udp_inv d base b0 hs 0 s1" using c assms(2) by (auto simp: control_closed_def split: if_splits list.splits rx_event.splits)
  obtain q s2 where y: "hev_socks5_task_io_yielder ty s1 = (q, s2)" by force
  obtain ts where "s2 = s1\<lparr>sleeps := ts\<rparr>" using yielder_more [OF y] by blast
  then have s2: "udp_inv d base b0 hs 0 s2" using s1 by simp
  show ?thesis using assms(1) c y udp_callbacks_inv [OF _ s2] s1
    by (auto simp: session_udp_yielder_def hev_socks5_set_timeout_def split: if_splits)
qed

text \<open>What the steps of the splicer preserve, the splicer preserves.\<close>

lemma udp_loop_preserves:
  assumes f: "\<And>s r s'. hev_socks5_session_udp_fwd_f num s = Some (r, s') \<Longrightarrow> P s \<Longrightarrow> P s'"
    and b: "\<And>s r s'. hev_socks5_session_udp_fwd_b junk bufs s = Some (r, s') \<Longrightarrow> P s \<Longrightarrow> P s'"
    and y: "\<And>ty s r s'. session_udp_yielder ty s = Some (r, s') \<Longrightarrow> P s \<Longrightarrow> P s'"
    and loop: "session_udp_loop junk num bufs res_f res_b s = Some s'"
  shows "P s \<longrightarrow> P s'"
proof -
  have "junk = junk \<and> num = num \<and> bufs = bufs \<longrightarrow> P s \<longrightarrow> P s'"
  proof (rule session_udp_loop.raw_induct [OF _ loop, where P = "\<lambda>j n bs res_f res_b s s'. j = junk \<and> n = num \<and> bs = bufs \<longrightarrow> P s \<longrightarrow> P s'"], intro impI, elim conjE)
    fix loop j n bs and res_f res_b :: int and s s' :: "'a HevSocks5SessionUDP_scheme"
    assume ih: "\<And>j n bs res_f res_b s s'. loop j n bs res_f res_b s = Some s' \<Longrightarrow> j = junk \<and> n = num \<and> bs = bufs \<longrightarrow> P s \<longrightarrow> P s'"
      and st: "(case (if res_f \<ge> 0 then hev_socks5_session_udp_fwd_f n s else Some (res_f, s)) of
          None \<Rightarrow> None
        | Some (res_f, self) \<Rightarrow>
            (case (if res_b \<ge> 0 then hev_socks5_session_udp_fwd_b j bs self else Some (res_b, self)) of
               None \<Rightarrow> None
             | Some (res_b, self) \<Rightarrow>
                 if res_f > 0 \<or> res_b > 0 \<or> res_f AND res_b = 0 then
                   (case session_udp_yielder (if res_f > 0 \<or> res_b > 0 then HEV_TASK_YIELD else HEV_TASK_WAITIO) self of
                      None \<Rightarrow> None
                    | Some (y, self) \<Rightarrow> if y \<noteq> 0 then Some self else loop j n bs res_f res_b self)
                 else Some self)) = Some s'"
      and eq: "j = junk" "n = num" "bs = bufs" and ps: "P s"
    obtain rf s1 where 1: "(if res_f \<ge> 0 then hev_socks5_session_udp_fwd_f num s else Some (res_f, s)) = Some (rf, s1)"
      using st unfolding eq by (auto split: option.splits)
    note st2 = st [unfolded eq 1 option.case prod.case]
    obtain rb s2 where 2: "(if res_b \<ge> 0 then hev_socks5_session_udp_fwd_b junk bufs s1 else Some (res_b, s1)) = Some (rb, s2)"
      using st2 by (auto split: option.splits)
    have p2: "P s2" using 1 2 ps f [of s rf s1] b [of s1 rb s2] by (auto split: if_splits)
    note rest = st2 [unfolded 2 option.case prod.case]
    let ?ty = "if rf > 0 \<or> rb > 0 then HEV_TASK_YIELD else HEV_TASK_WAITIO"
    have "s' = s2 \<or> (\<exists>ry s3. session_udp_yielder ?ty s2 = Some (ry, s3) \<and> (s' = s3 \<or> loop junk num bufs rf rb s3 = Some s'))"
      using rest by (cases "rf > 0 \<or> rb > 0 \<or> rf AND rb = 0"; cases "session_udp_yielder ?ty s2") (simp_all split: prod.splits if_splits)
    then show "P s'" using p2 y ih eq by blast
  qed
  then show ?thesis by simp
qed

section \<open>Progress\<close>

fun long_dgrams :: "drx_event list \<Rightarrow> bool" where
  "long_dgrams [] = True"
| "long_dgrams (DBatch ms # es) = ((\<forall>m\<in>set ms. 4 \<le> length (snd m)) \<and> long_dgrams es)"
| "long_dgrams (_ # es) = long_dgrams es"

text \<open>A UDP-in-UDP session without mapped DNS whose proxy sends no datagram without an address.\<close>

definition quiet :: "'a HevSocks5SessionUDP_scheme \<Rightarrow> bool" where
  "quiet s \<longleftrightarrow> stype s = TYPE_UDP_IN_UDP \<and> mapped_dns s = None \<and> ip_ok (local_ip s) \<and> 0 \<le> timeout s \<and>
     long_dgrams (drx s (udp_fd s))"

definition udp_fuel :: "'a HevSocks5SessionUDP_scheme \<Rightarrow> nat" where
  "udp_fuel s = length (sleeps s) + dweight (drx s (udp_fd s)) + 2 * length (concat (ucallbacks s)) + length (frame_list s)"

lemma handler_quiet:
  assumes "quiet s"
  obtains s' where "udp_recv_handler p s = Some s'" "quiet s'" "sleeps s' = sleeps s" "drx s' = drx s" "udp_fd s' = udp_fd s"
    "ucallbacks s' = ucallbacks s" "length (frame_list s') \<le> Suc (length (frame_list s))" "upcb s' = upcb s"
proof -
  have "\<exists>s'. udp_recv_handler p s = Some s' \<and> quiet s' \<and> sleeps s' = sleeps s \<and> drx s' = drx s \<and> udp_fd s' = udp_fd s \<and>
    ucallbacks s' = ucallbacks s \<and> length (frame_list s') \<le> Suc (length (frame_list s)) \<and> upcb s' = upcb s"
  proof (cases p)
    case None
    then show ?thesis using assms by (simp add: udp_recv_handler_def quiet_def hev_socks5_set_timeout_def)
  next
    case (Some q)
    have l: "\<exists>addr. hev_socks5_addr_from_lwip None blank_addr (local_ip s) (local_port s) = Some (0, addr, None) \<and> atype addr \<noteq> HEV_SOCKS5_ADDR_TYPE_NAME"
      using assms by (auto simp: quiet_def ip_ok_def hev_socks5_addr_from_lwip_def hev_mapped_dns_get_def hev_socks5_addr_from_ipv4_def
          hev_socks5_addr_from_ipv6_def split: ip_addr_t.splits)
    then obtain addr where l: "hev_socks5_addr_from_lwip None blank_addr (local_ip s) (local_port s) = Some (0, addr, None)" "atype addr \<noteq> HEV_SOCKS5_ADDR_TYPE_NAME"
      by blast
    obtain ok t where m: "sys_malloc s = (ok, t)" by force
    have t: "stype t = stype s" "mapped_dns t = mapped_dns s" "local_ip t = local_ip s" "local_port t = local_port s" "timeout t = timeout s" "drx t = drx s"
      "sleeps t = sleeps s" "udp_fd t = udp_fd s" "ucallbacks t = ucallbacks s" "frame_list t = frame_list s" "upcb t = upcb s"
      using m by (auto simp: sys_malloc_def split: list.splits)
    have q: "quiet t" using assms t by (simp add: quiet_def)
    have "mapped_dns s = None" using assms by (simp add: quiet_def)
    then show ?thesis using assms Some m t q l
      by (cases "frames s > UDP_POOL_SIZE"; cases ok; cases "local_ip s")
        (auto simp: udp_recv_handler_def Let_def quiet_def)
  qed
  then show ?thesis using that by blast
qed

lemma events_quiet:
  assumes "quiet s"
  shows "\<exists>s'. run_udp_events es s = Some s' \<and> quiet s' \<and> sleeps s' = sleeps s \<and> drx s' = drx s \<and> udp_fd s' = udp_fd s \<and>
    ucallbacks s' = ucallbacks s \<and> length (frame_list s') \<le> length es + length (frame_list s)"
  using assms
proof (induction es arbitrary: s)
  case (Cons e es)
  obtain s1 where s1: "udp_recv_handler (case e of UdpRecv p \<Rightarrow> Some p | UdpGone \<Rightarrow> None) s = Some s1" "quiet s1" "sleeps s1 = sleeps s"
    "drx s1 = drx s" "udp_fd s1 = udp_fd s" "ucallbacks s1 = ucallbacks s" "length (frame_list s1) \<le> Suc (length (frame_list s))"
    using handler_quiet [OF Cons.prems] by metis
  from Cons.IH [OF s1(2)] s1 Cons.prems show ?case by (cases "upcb s") (auto intro: le_trans)
qed simp

lemma udp_callbacks_quiet:
  assumes "quiet s"
  obtains s' where "run_udp_callbacks s = Some s'" "quiet s'" "udp_fuel s' \<le> udp_fuel s" "sleeps s' = sleeps s"
    "drx s' (udp_fd s') = drx s (udp_fd s)"
proof (cases "ucallbacks s")
  case Nil
  then show ?thesis using that [of s] assms by (simp add: run_udp_callbacks_def)
next
  case (Cons b bs)
  let ?t = "s\<lparr>ucallbacks := bs\<rparr>"
  have "quiet ?t" using assms by (simp add: quiet_def)
  from events_quiet [OF this, of b] obtain s' where s': "run_udp_events b ?t = Some s'" "quiet s'" "sleeps s' = sleeps s" "drx s' = drx s"
    "udp_fd s' = udp_fd s" "ucallbacks s' = bs" "length (frame_list s') \<le> length b + length (frame_list s)" by auto
  then show ?thesis using that [of s'] Cons by (simp add: run_udp_callbacks_def udp_fuel_def)
qed

text \<open>Waiting uses up the timer's script and does not make the timeout negative.\<close>

lemma yielder_sleeps:
  assumes "hev_socks5_task_io_yielder ty s = (r, s')"
  shows "length (sleeps s') \<le> length (sleeps s)" "timeout s' = timeout s" "ty = HEV_TASK_WAITIO \<Longrightarrow> 0 \<le> timeout s \<Longrightarrow> r = 0 \<Longrightarrow> length (sleeps s') < length (sleeps s)"
  using assms by (cases "sleeps s"; auto simp: hev_socks5_task_io_yielder_def hev_task_sleep_def split: if_splits)+

lemma control_closed_frame:
  assumes "control_closed s = (c, s')"
  obtains r where "s' = s\<lparr>rx := r\<rparr>"
proof -
  have "s' = s\<lparr>rx := rx s'\<rparr>" using assms by (cases "rx s"; cases "hd (rx s)") (auto simp: control_closed_def split: if_splits)
  then show ?thesis using that by blast
qed

lemma udp_yielder_sleeps:
  assumes "udp_task_io_yielder ty s = (r, s')"
  shows "length (sleeps s') \<le> length (sleeps s) \<and> (0 \<le> timeout s \<longrightarrow> 0 \<le> timeout s')"
proof (cases "stype s = TYPE_UDP_IN_UDP")
  case True
  obtain c s1 where c: "control_closed s = (c, s1)" by force
  obtain x where s1: "s1 = s\<lparr>rx := x\<rparr>" using control_closed_frame [OF c] .
  show ?thesis
  proof (cases c)
    case True
    then show ?thesis using assms \<open>stype s = TYPE_UDP_IN_UDP\<close> c s1 by (auto simp: udp_task_io_yielder_def hev_socks5_set_timeout_def)
  next
    case False
    then have "hev_socks5_task_io_yielder ty s1 = (r, s')" using assms True c by (simp add: udp_task_io_yielder_def)
    from yielder_sleeps(1,2) [OF this] s1 show ?thesis by simp
  qed
next
  case False
  then have "hev_socks5_task_io_yielder ty s = (r, s')" using assms by (simp add: udp_task_io_yielder_def)
  from yielder_sleeps(1,2) [OF this] show ?thesis by simp
qed

lemma sendmmsg_sleeps:
  assumes "hev_task_io_socket_sendmmsg d ms c s = (r, s')"
  shows "length (sleeps s') \<le> length (sleeps s) \<and> (0 \<le> timeout s \<longrightarrow> 0 \<le> timeout s')"
  using assms
proof (induction d ms c s arbitrary: r s' rule: hev_task_io_socket_sendmmsg.induct)
  case (1 d ms c s)
  note unfold = hev_task_io_socket_sendmmsg.simps [of d ms c s]
  show ?case
  proof (cases "dtx s d")
    case Nil
    with "1.prems" show ?thesis by (auto simp: unfold)
  next
    case (Cons e es)
    show ?thesis
    proof (cases e)
      case DTxFail
      with Cons "1.prems" show ?thesis by (auto simp: unfold)
    next
      case DTxBlock
      obtain y t where y: "udp_task_io_yielder HEV_TASK_WAITIO (s\<lparr>dtx := (dtx s)(d := es), eagain := True\<rparr>) = (y, t)" by force
      note ys = udp_yielder_sleeps [OF y]
      show ?thesis
      proof (cases "y = 0")
        case True
        then have "hev_task_io_socket_sendmmsg d ms c t = (r, s')" using "1.prems" Cons DTxBlock y by (simp add: unfold)
        from "1.IH"(2) [OF Cons DTxBlock y [symmetric] _ this] True
        have "length (sleeps s') \<le> length (sleeps t) \<and> (0 \<le> timeout t \<longrightarrow> 0 \<le> timeout s')" by simp
        then show ?thesis using ys by (simp add: le_trans)
      next
        case False
        then have "s' = t" using "1.prems" Cons DTxBlock y by (simp add: unfold split: if_splits)
        then show ?thesis using ys by simp
      qed
    next
      case (DAccept a)
      define n where "n = min a (length ms)"
      let ?t = "s\<lparr>dtx := (dtx s)(d := es), dsent := (dsent s)(d := dsent s d @ take n ms)\<rparr>"
      show ?thesis
      proof (cases "0 < n \<and> n < length ms")
        case True
        then have st: "hev_task_io_socket_sendmmsg d (drop n ms) (c + n) ?t = (r, s')"
          using "1.prems" Cons DAccept by (simp add: unfold Let_def n_def [symmetric])
        show ?thesis using "1.IH"(1) [OF Cons DAccept n_def refl _ _ st] True by simp
      next
        case False
        then consider "n = 0" | "0 < n" "\<not> n < length ms" by linarith
        then have "s' = ?t"
        proof cases
          case 1
          then show ?thesis using "1.prems" Cons DAccept by (auto simp: unfold Let_def n_def [symmetric])
        next
          case 2
          then show ?thesis using "1.prems" Cons DAccept by (auto simp: unfold Let_def n_def [symmetric])
        qed
        then show ?thesis by simp
      qed
    qed
  qed
qed

lemma quiet_fd: "quiet s \<Longrightarrow> hev_socks5_client_udp_get_fd s = udp_fd s"
  by (simp add: quiet_def hev_socks5_client_udp_get_fd_def)

lemma udp_fwd_f_progress:
  assumes "quiet s" "udp_inv d base b0 hs 0 s"
  obtains r s' where "hev_socks5_session_udp_fwd_f num s = Some (r, s')" "quiet s'" "udp_fuel s' \<le> udp_fuel s" "0 < r \<longrightarrow> udp_fuel s' < udp_fuel s"
    "r \<in> {- 1, 0, 1}"
proof (cases "frames s \<le> 0")
  case True
  then show ?thesis using that [of 0 s] assms(1) by (simp add: hev_socks5_session_udp_fwd_f_def)
next
  case False
  define n where "n = (if nat (frames s) > num then num else nat (frames s))"
  define msgs where "msgs = map frame_msg (take n (frame_list s))"
  have fl: "frames s = int (length (frame_list s))" using assms(2) by (simp add: udp_inv_def)
  then have n: "n \<le> length (frame_list s)" by (simp add: n_def)
  obtain q s1 where q: "hev_socks5_udp_sendmmsg hev_socks5_client_udp_get_fd msgs s = (q, s1)" by force
  note cnt = udp_sendmmsg_counts [OF q]
  have k: "keeps s s1" and drx: "drx s1 = drx s" using udp_sendmmsg_keeps [OF q] by simp_all
  note f = udp_more [OF keeps_fields(3) [OF k]]
  have sl: "length (sleeps s1) \<le> length (sleeps s) \<and> (0 \<le> timeout s \<longrightarrow> 0 \<le> timeout s1)"
  proof (cases "\<exists>m\<in>set msgs. hev_socks5_addr_len (fst m) \<le> 0")
    case True
    then show ?thesis using q assms(1) by (auto simp: quiet_def hev_socks5_udp_sendmmsg_def hev_socks5_udp_sendmmsg_udp_def)
  next
    case False
    then have "hev_task_io_socket_sendmmsg (udp_fd s) (map (\<lambda>m. (None, udp_packet m)) msgs) 0 s = (q, s1)"
      using q assms(1) quiet_fd [OF assms(1)]
      by (auto simp: quiet_def hev_socks5_udp_sendmmsg_def hev_socks5_udp_sendmmsg_udp_def)
    then show ?thesis by (rule sendmmsg_sleeps)
  qed
  have q1: "quiet s1" using assms(1) sl f keeps_fields [OF k] drx by (simp add: quiet_def)
  have fu: "udp_fuel s1 \<le> udp_fuel s" using sl f drx by (simp add: udp_fuel_def)
  note st = hev_socks5_session_udp_fwd_f_def [of num s, unfolded Let_def, folded n_def, folded msgs_def]
  show ?thesis
  proof (cases "q \<le> 0")
    case True
    then have "hev_socks5_session_udp_fwd_f num s = Some (- 1, s1)" using st False q n by simp
    then show ?thesis using that [OF _ q1 fu] by simp
  next
    case pos: False
    obtain s2 where s2: "run_udp_callbacks s1 = Some s2" "quiet s2" "udp_fuel s2 \<le> udp_fuel s1" using udp_callbacks_quiet [OF q1] .
    have "udp_inv d base b0 hs (nat q) s1" using q [unfolded msgs_def] assms(2) by (rule send_inv)
    from udp_callbacks_inv [OF s2(1) this] have l2: "nat q \<le> length (frame_list s2)" by (simp add: udp_inv_def)
    let ?s = "s2\<lparr>frame_list := drop (nat q) (frame_list s2), frames := frames s2 - q, blocks := blocks s2 - q\<rparr>"
    have r: "hev_socks5_session_udp_fwd_f num s = Some (1, ?s)" using st False q n pos s2(1) l2 by simp
    have "quiet ?s" using s2(2) by (simp add: quiet_def)
    moreover have "udp_fuel ?s < udp_fuel s" using fu s2(3) pos l2 by (simp add: udp_fuel_def)
    ultimately show ?thesis using that [OF r] by simp
  qed
qed

lemma parse_long:
  assumes "udp_parse ms ns = (True, msgs)" "\<forall>n\<in>set ns. 4 \<le> n" "length ns \<le> length ms"
  shows "\<forall>m\<in>set (take (length ns) msgs). \<exists>off. um_addr m = AddrAt off"
  using assms
proof (induction ms ns arbitrary: msgs rule: udp_parse.induct)
  case (1 m ms n ns)
  obtain m' where m': "udp_parse1 m n = Inr m'" using "1.prems"(1) by (auto split: sum.splits)
  obtain ok rest where r: "udp_parse ms ns = (ok, rest)" by force
  then have eq: "msgs = m' # rest" "ok" using "1.prems"(1) m' by simp_all
  have "um_addr m' = AddrAt 3" using m' "1.prems"(2) by (auto simp: udp_parse1_def Let_def split: if_splits)
  then show ?case using "1.IH" [OF m', of rest] r eq "1.prems"(2,3) by auto
qed auto

lemma recv_quiet:
  assumes "quiet s" "\<forall>b\<in>set bufs. length b = UDP_BUF_SIZE"
    "hev_socks5_udp_recvmmsg hev_socks5_client_udp_get_fd True (map fresh_msg bufs) s = (q, msgs, s1)"
  shows "quiet s1" "udp_fuel s1 \<le> udp_fuel s" "0 < q \<or> q = - 1 \<and> eagain s1 \<Longrightarrow> udp_fuel s1 < udp_fuel s"
    "0 < q \<Longrightarrow> nat q \<le> length msgs \<and> (\<forall>m\<in>set (take (nat q) msgs). \<exists>off. um_addr m = AddrAt off)"
proof -
  have ok: "\<forall>m\<in>set (map fresh_msg bufs). buf_ok m" using assms(2) by (simp add: buf_ok_fresh)
  have ty: "stype s = TYPE_UDP_IN_UDP" using assms(1) by (simp add: quiet_def)
  have r: "hev_socks5_udp_recvmmsg_udp hev_socks5_client_udp_get_fd True (map fresh_msg bufs) s = (q, msgs, s1)"
    using assms(3) ty by (simp add: hev_socks5_udp_recvmmsg_def)
  note safe = recvmmsg_udp_safe [OF r ok]
  have k: "keeps s s1" using safe by simp
  note f = udp_more [OF keeps_fields(3) [OF k]]
  let ?d = "udp_fd s" and ?l = "map um_len (map fresh_msg bufs)"
  obtain n got t where g: "hev_task_io_socket_recvmmsg ?d ?l True s = (n, got, t)" by (metis prod_cases3)
  have t: "sleeps t = sleeps s \<and> timeout t = timeout s \<and> long_dgrams (drx t ?d) \<and> (0 < n \<longrightarrow> n = int (length got) \<and> (\<forall>m\<in>set got. 4 \<le> length (snd m)))"
  proof (cases "drx s ?d")
    case Nil
    then show ?thesis using g by (auto simp: hev_task_io_socket_recvmmsg.simps [of ?d])
  next
    case (Cons e es)
    have lg: "long_dgrams (e # es)" using assms(1) Cons by (simp add: quiet_def)
    show ?thesis
    proof (cases e)
      case (DBatch ms)
      have ms: "\<forall>m\<in>set ms. 4 \<le> length (snd m)" and es: "long_dgrams es" using lg DBatch by simp_all
      have "map um_len (map fresh_msg bufs) = replicate (length bufs) UDP_BUF_SIZE" by (simp add: fresh_msg_def comp_def map_replicate_const)
      then have "got = map2 (\<lambda>l (a, b). (a, take l b)) (replicate (length bufs) UDP_BUF_SIZE) (take (length bufs) ms)" "n = int (length (take (length bufs) ms))"
        "t = s\<lparr>drx := (drx s)(?d := (if length ms \<le> length bufs then es else DBatch (drop (length bufs) ms) # es))\<rparr>"
        using g Cons DBatch by (auto simp: hev_task_io_socket_recvmmsg.simps [of ?d] Let_def)
      moreover from this(1) have "\<forall>m\<in>set got. 4 \<le> length (snd m)" "length got = length (take (length bufs) ms)"
        using ms by (auto simp: zip_replicate1 dest!: in_set_takeD)
      ultimately show ?thesis using ms es by (auto dest: in_set_dropD)
    qed (use g Cons lg in \<open>auto simp: hev_task_io_socket_recvmmsg.simps [of ?d]\<close>)
  qed
  note st = r [unfolded hev_socks5_udp_recvmmsg_udp_def quiet_fd [OF assms(1)] g prod.case]
  have s1: "sleeps s1 = sleeps t \<and> timeout s1 = timeout t \<and> drx s1 = drx t"
    using st by (auto simp: Let_def sys_opt_def split: if_splits list.splits prod.splits)
  show "quiet s1" using assms(1) f keeps_fields [OF k] t s1 by (simp add: quiet_def)
  have fd: "hev_socks5_client_udp_get_fd s = udp_fd s" using quiet_fd [OF assms(1)] .
  have "dweight (drx s1 ?d) \<le> dweight (drx s ?d)" using safe by blast
  then show "udp_fuel s1 \<le> udp_fuel s" using f t s1 by (simp add: udp_fuel_def)
  show "udp_fuel s1 < udp_fuel s" if "0 < q \<or> q = - 1 \<and> eagain s1"
  proof -
    have "dweight (drx s1 ?d) < dweight (drx s ?d)" using safe that fd by simp
    then show ?thesis using f t s1 by (simp add: udp_fuel_def)
  qed
  show "nat q \<le> length msgs \<and> (\<forall>m\<in>set (take (nat q) msgs). \<exists>off. um_addr m = AddrAt off)" if "0 < q"
  proof -
    have p: "udp_parse (dgrams_put (map fresh_msg bufs) (map snd got)) (map (length \<circ> snd) got) = (True, msgs)" "q = n"
      using st that by (auto simp: Let_def split: if_splits prod.splits)
    have "length got \<le> length (dgrams_put (map fresh_msg bufs) (map snd got))"
    proof -
      have "nat q \<le> length bufs" using safe that by simp
      moreover have "length (dgrams_put ms bs) = length ms" for ms bs by (induction ms bs rule: dgrams_put.induct) simp_all
      ultimately show ?thesis using t p(2) that by simp
    qed
    then show ?thesis using parse_long [OF p(1)] t p(2) that safe by auto
  qed
qed

lemma deliver_quiet:
  assumes "quiet s" "\<forall>m\<in>set ms. \<exists>off. um_addr m = AddrAt off"
  shows "\<exists>out. session_udp_deliver junk ms s = Some out \<and> quiet (case out of Inl s' \<Rightarrow> s' | Inr s' \<Rightarrow> s') \<and>
    udp_fuel (case out of Inl s' \<Rightarrow> s' | Inr s' \<Rightarrow> s') \<le> udp_fuel s"
  using assms
proof (induction ms arbitrary: s)
  case (Cons m ms)
  obtain off where off: "um_addr m = AddrAt off" using Cons.prems(2) by auto
  define src where "src = (if map_addr s \<noteq> [0, 0, 0, 0] \<and> map_port s \<noteq> 0 then Some (junk (map_addr s), map_port s)
    else hev_socks5_addr_into_lwip (mem_addr (um_mem m) off))"
  obtain ok s1 where p: "pbuf_alloc_reference s = (ok, s1)" by force
  have s1: "quiet s1" "udp_fuel s1 = udp_fuel s"
    using p Cons.prems(1) by (auto simp: pbuf_alloc_reference_def quiet_def udp_fuel_def split: list.splits)
  obtain s2 where s2: "run_udp_callbacks s1 = Some s2" "quiet s2" "udp_fuel s2 \<le> udp_fuel s1" using udp_callbacks_quiet [OF s1(1)] .
  have eq: "session_udp_deliver junk (m # ms) s = (case src of None \<Rightarrow> Some (Inl s) | Some (saddr, port) \<Rightarrow>
      if \<not> ok then Some (Inl s1) else case udp_sendfrom (um_data m) saddr port s2 of (ok, s3) \<Rightarrow>
        if \<not> ok then Some (Inl s3) else session_udp_deliver junk ms s3)"
    using off p s2(1) by (simp add: src_def split: option.split)
  show ?case
  proof (cases src)
    case None
    then show ?thesis using eq Cons.prems(1) by simp
  next
    case (Some a)
    obtain ok2 s3 where s3: "udp_sendfrom (um_data m) (fst a) (snd a) s2 = (ok2, s3)" by force
    have q3: "quiet s3" "udp_fuel s3 = udp_fuel s2"
      using s3 s2(2) by (auto simp: udp_sendfrom_def Let_def quiet_def udp_fuel_def split: list.splits)
    have "\<exists>out. session_udp_deliver junk ms s3 = Some out \<and> quiet (case out of Inl s' \<Rightarrow> s' | Inr s' \<Rightarrow> s') \<and>
        udp_fuel (case out of Inl s' \<Rightarrow> s' | Inr s' \<Rightarrow> s') \<le> udp_fuel s3" using Cons.IH [OF q3(1)] Cons.prems(2) by simp
    then show ?thesis using eq Some s3 q3 s1 s2 by (cases ok; cases ok2; cases a) (auto intro: le_trans)
  qed
qed simp

lemma udp_fwd_b_progress:
  assumes "quiet s" "\<forall>b\<in>set bufs. length b = UDP_BUF_SIZE"
  obtains r s' where "hev_socks5_session_udp_fwd_b junk bufs s = Some (r, s')" "quiet s'" "udp_fuel s' \<le> udp_fuel s"
    "0 \<le> r \<longrightarrow> udp_fuel s' < udp_fuel s" "r \<in> {- 1, 0, 1}"
proof -
  obtain q msgs s1 where q: "hev_socks5_udp_recvmmsg hev_socks5_client_udp_get_fd True (map fresh_msg bufs) s = (q, msgs, s1)" by (metis prod_cases3)
  note rq = recv_quiet [OF assms q]
  show ?thesis
  proof (cases "q \<le> 0")
    case True
    then have "hev_socks5_session_udp_fwd_b junk bufs s = Some (if q = - 1 \<and> eagain s1 then 0 else - 1, s1)"
      using q by (simp add: hev_socks5_session_udp_fwd_b_def)
    then show ?thesis using that [OF _ rq(1,2)] rq(3) by (auto split: if_splits)
  next
    case False
    then have m: "nat q \<le> length msgs" "\<forall>m\<in>set (take (nat q) msgs). \<exists>off. um_addr m = AddrAt off" and lt: "udp_fuel s1 < udp_fuel s"
      using rq(3,4) by simp_all
    obtain out where out: "session_udp_deliver junk (take (nat q) msgs) s1 = Some out" "quiet (case out of Inl s' \<Rightarrow> s' | Inr s' \<Rightarrow> s')"
      "udp_fuel (case out of Inl s' \<Rightarrow> s' | Inr s' \<Rightarrow> s') \<le> udp_fuel s1" using deliver_quiet [OF rq(1) m(2)] by blast
    have "hev_socks5_session_udp_fwd_b junk bufs s = Some (case out of Inl s' \<Rightarrow> (- 1, s') | Inr s' \<Rightarrow> (1, s'))"
      using q False m(1) out(1) by (simp add: hev_socks5_session_udp_fwd_b_def split: sum.split)
    then show ?thesis using that out(2,3) lt by (cases out) auto
  qed
qed

lemma udp_yielder_progress:
  assumes "quiet s"
  obtains y s' where "session_udp_yielder ty s = Some (y, s')" "quiet s'" "udp_fuel s' \<le> udp_fuel s"
    "ty = HEV_TASK_WAITIO \<and> y = 0 \<longrightarrow> udp_fuel s' < udp_fuel s"
proof -
  have ty: "stype s = TYPE_UDP_IN_UDP" using assms by (simp add: quiet_def)
  obtain c s1 where c: "control_closed s = (c, s1)" by force
  obtain x where s1: "s1 = s\<lparr>rx := x\<rparr>" using control_closed_frame [OF c] .
  show ?thesis
  proof (cases c)
    case True
    then have "session_udp_yielder ty s = Some (- 1, hev_socks5_set_timeout 0 s1)" using c ty by (simp add: session_udp_yielder_def)
    then show ?thesis using that [of "- 1" "hev_socks5_set_timeout 0 s1"] assms s1 by (simp add: quiet_def udp_fuel_def hev_socks5_set_timeout_def)
  next
    case False
    obtain q s2 where y: "hev_socks5_task_io_yielder ty s1 = (q, s2)" by force
    obtain ts where s2: "s2 = s1\<lparr>sleeps := ts\<rparr>" using yielder_more [OF y] by blast
    have q2: "quiet s2" "udp_fuel s2 \<le> udp_fuel s" "ty = HEV_TASK_WAITIO \<Longrightarrow> q = 0 \<Longrightarrow> udp_fuel s2 < udp_fuel s"
      using assms yielder_sleeps [OF y] s1 s2 by (simp_all add: quiet_def udp_fuel_def)
    obtain s3 where s3: "run_udp_callbacks s2 = Some s3" "quiet s3" "udp_fuel s3 \<le> udp_fuel s2" using udp_callbacks_quiet [OF q2(1)] .
    let ?s = "s3\<lparr>utunnel := hev_socks5_tunnel_update_session (unode s3) (utunnel s3)\<rparr>"
    have st: "session_udp_yielder ty s = Some (q, ?s)" using c ty False y s3(1) by (simp add: session_udp_yielder_def)
    have "quiet ?s" "udp_fuel ?s = udp_fuel s3" using s3(2) by (simp_all add: quiet_def udp_fuel_def)
    then show ?thesis using that [OF st] s3(3) q2(2,3) by (simp add: le_less_trans order_trans [OF s3(3) q2(2)])
  qed
qed

lemma udp_loop_returns:
  assumes "quiet s" "udp_inv d base b0 hs 0 s" "\<forall>b\<in>set bufs. length b = UDP_BUF_SIZE" "res_f \<in> {- 1, 0, 1}" "res_b \<in> {- 1, 0, 1}"
  shows "\<exists>s'. session_udp_loop junk num bufs res_f res_b s = Some s' \<and> quiet s'"
  using assms(1,2,4,5)
proof (induction "udp_fuel s" arbitrary: res_f res_b s rule: less_induct)
  case less
  obtain rf s1 where f: "(if res_f \<ge> 0 then hev_socks5_session_udp_fwd_f num s else Some (res_f, s)) = Some (rf, s1)" "quiet s1" "udp_inv d base b0 hs 0 s1"
      "udp_fuel s1 \<le> udp_fuel s" "0 < rf \<longrightarrow> udp_fuel s1 < udp_fuel s" "rf \<in> {- 1, 0, 1}"
  proof (cases "res_f \<ge> 0")
    case True
    obtain r t where t: "hev_socks5_session_udp_fwd_f num s = Some (r, t)" "quiet t" "udp_fuel t \<le> udp_fuel s" "0 < r \<longrightarrow> udp_fuel t < udp_fuel s"
      "r \<in> {- 1, 0, 1}" by (rule udp_fwd_f_progress [OF less.prems(1,2), of num])
    then show ?thesis using True that [of r t] udp_fwd_f_inv [OF t(1) less.prems(2)] by simp
  qed (use less.prems that [of res_f s] in auto)
  obtain rb s2 where r: "(if res_b \<ge> 0 then hev_socks5_session_udp_fwd_b junk bufs s1 else Some (res_b, s1)) = Some (rb, s2)" "quiet s2" "udp_inv d base b0 hs 0 s2"
      "udp_fuel s2 \<le> udp_fuel s1" "0 \<le> rb \<longrightarrow> udp_fuel s2 < udp_fuel s1" "rb \<in> {- 1, 0, 1}"
  proof (cases "res_b \<ge> 0")
    case True
    obtain r t where t: "hev_socks5_session_udp_fwd_b junk bufs s1 = Some (r, t)" "quiet t" "udp_fuel t \<le> udp_fuel s1" "0 \<le> r \<longrightarrow> udp_fuel t < udp_fuel s1"
      "r \<in> {- 1, 0, 1}" by (rule udp_fwd_b_progress [OF f(2) assms(3), of junk])
    then show ?thesis using True that [of r t] udp_fwd_b_inv [OF t(1) f(3) assms(3)] by simp
  qed (use less.prems f that [of res_b s1] in auto)
  let ?ty = "if rf > 0 \<or> rb > 0 then HEV_TASK_YIELD else HEV_TASK_WAITIO"
  obtain y s3 where y: "session_udp_yielder ?ty s2 = Some (y, s3)" "quiet s3" "udp_fuel s3 \<le> udp_fuel s2"
    "?ty = HEV_TASK_WAITIO \<and> y = 0 \<longrightarrow> udp_fuel s3 < udp_fuel s2" by (rule udp_yielder_progress [OF r(2), of ?ty])
  have i3: "udp_inv d base b0 hs 0 s3" using udp_yielder_inv [OF y(1) r(3)] .
  have ih: "\<exists>s'. session_udp_loop junk num bufs rf rb s3 = Some s' \<and> quiet s'" if "y = 0"
  proof -
    have "udp_fuel s3 < udp_fuel s" using that f(4,5) r(4,5) y(3,4) by (cases "0 < rf"; cases "0 \<le> rb") auto
    then show ?thesis using less.hyps [OF _ y(2) i3 f(6) r(6)] by blast
  qed
  show ?case
    by (subst session_udp_loop.simps) (use ih y(1,2) r(2) in \<open>simp add: f(1) r(1)\<close>)
qed

section \<open>Descriptors\<close>

lemma handler_fds:
  "udp_recv_handler p s = Some s' \<Longrightarrow> fd s' = fd s \<and> cclass s' = cclass s \<and> udp_fd s' = udp_fd s \<and> open_fds s' = open_fds s"
  by (auto simp: udp_recv_handler_def sys_malloc_def hev_socks5_set_timeout_def Let_def
      split: option.splits if_splits prod.splits list.splits ip_addr_t.splits)

definition same_fds :: "'a HevSocks5SessionUDP_scheme \<Rightarrow> 'a HevSocks5SessionUDP_scheme \<Rightarrow> bool" where
  "same_fds s s' \<longleftrightarrow> fd s' = fd s \<and> cclass s' = cclass s \<and> udp_fd s' = udp_fd s \<and> open_fds s' = open_fds s"

lemma same_fds_updates [simp]:
  "same_fds a (s\<lparr>rx := x1\<rparr>) = same_fds a s" "same_fds a (s\<lparr>sleeps := x2\<rparr>) = same_fds a s" "same_fds a (s\<lparr>timeout := x3\<rparr>) = same_fds a s"
  "same_fds a (s\<lparr>utunnel := x4\<rparr>) = same_fds a s" "same_fds a (s\<lparr>ucallbacks := x5\<rparr>) = same_fds a s" "same_fds a (s\<lparr>pbuf_ok := x6\<rparr>) = same_fds a s"
  "same_fds a (s\<lparr>send_ok := x7\<rparr>) = same_fds a s" "same_fds a (s\<lparr>udp_out := x8\<rparr>) = same_fds a s" "same_fds a (s\<lparr>frame_list := x9\<rparr>) = same_fds a s"
  "same_fds a (s\<lparr>frames := x10\<rparr>) = same_fds a s" "same_fds a (s\<lparr>blocks := x11\<rparr>) = same_fds a s"
  by (simp_all add: same_fds_def)

lemma callbacks_fds: "run_udp_callbacks s = Some s' \<Longrightarrow> same_fds a s \<Longrightarrow> same_fds a s'"
  by (rule callbacks_preserve [where P = "same_fds a"]) (auto simp: same_fds_def dest: handler_fds)

lemma keeps_fds: "keeps s s' \<Longrightarrow> same_fds a s \<Longrightarrow> same_fds a s'"
  using udp_more(11,12) [of s' s] by (simp add: same_fds_def keeps_def)

lemma udp_fwd_f_fds:
  assumes "hev_socks5_session_udp_fwd_f num s = Some (r, s')" "same_fds a s"
  shows "same_fds a s'"
proof (cases "frames s \<le> 0")
  case True
  then show ?thesis using assms by (simp add: hev_socks5_session_udp_fwd_f_def)
next
  case False
  define n where "n = (if nat (frames s) > num then num else nat (frames s))"
  define msgs where "msgs = map frame_msg (take n (frame_list s))"
  note st = assms(1) [unfolded hev_socks5_session_udp_fwd_f_def Let_def, folded n_def, folded msgs_def]
  obtain q s1 where q: "hev_socks5_udp_sendmmsg hev_socks5_client_udp_get_fd msgs s = (q, s1)" by force
  have "same_fds a s1" using udp_sendmmsg_keeps [OF q] keeps_fds assms(2) by blast
  then show ?thesis using st False q callbacks_fds [of s1 _ a] by (auto split: if_splits option.splits)
qed

lemma udp_fwd_b_fds:
  assumes "hev_socks5_session_udp_fwd_b junk bufs s = Some (r, s')" "same_fds a s" "\<forall>b\<in>set bufs. length b = UDP_BUF_SIZE"
  shows "same_fds a s'"
proof -
  obtain q msgs s1 where q: "hev_socks5_udp_recvmmsg hev_socks5_client_udp_get_fd True (map fresh_msg bufs) s = (q, msgs, s1)" by (metis prod_cases3)
  have "keeps s s1" using udp_recvmmsg_safe [OF q] assms(3) by (simp add: buf_ok_fresh)
  then have s1: "same_fds a s1" using assms(2) by (rule keeps_fds)
  have "same_fds a (case out of Inl s' \<Rightarrow> s' | Inr s' \<Rightarrow> s')" if "session_udp_deliver junk (take (nat q) msgs) s1 = Some out" for out
    using _ callbacks_fds _ that s1
  proof (rule deliver_preserves [where P = "same_fds a"])
    show "same_fds a t" if "pbuf_alloc_reference s = (ok, t)" "same_fds a s" for s t :: "'a HevSocks5SessionUDP_scheme" and ok
      using that by (auto simp: pbuf_alloc_reference_def split: list.splits)
    show "same_fds a t" if "udp_sendfrom b ip port s = (ok, t)" "same_fds a s" for b ip port ok and s t :: "'a HevSocks5SessionUDP_scheme"
      using that by (auto simp: udp_sendfrom_def Let_def split: list.splits)
  qed
  then show ?thesis using assms(1) q s1
    by (force simp: hev_socks5_session_udp_fwd_b_def split: if_splits option.splits sum.splits)
qed

lemma session_yielder_fds:
  assumes "session_udp_yielder ty s = Some (r, s')" "same_fds a s"
  shows "same_fds a s'"
proof -
  obtain c s1 where c: "(if stype s = TYPE_UDP_IN_UDP then control_closed s else (False, s)) = (c, s1)" by force
  have "s1 = s \<or> control_closed s = (c, s1)" using c by (auto split: if_splits)
  then obtain x where "s1 = s \<or> s1 = s\<lparr>rx := x\<rparr>" using control_closed_frame by metis
  then have s1: "same_fds a s1" using assms(2) by auto
  obtain q s2 where y: "hev_socks5_task_io_yielder ty s1 = (q, s2)" by force
  obtain ts where "s2 = s1\<lparr>sleeps := ts\<rparr>" using yielder_more [OF y] by blast
  then have s2: "same_fds a s2" using s1 by simp
  show ?thesis using assms(1) c y callbacks_fds [OF _ s2] s1
    by (auto simp: session_udp_yielder_def hev_socks5_set_timeout_def split: if_splits)
qed

lemma udp_splice_fds:
  assumes "hev_socks5_session_udp_splice junk bufs s = Some s'" "\<forall>b\<in>set bufs. length b = UDP_BUF_SIZE"
  shows "same_fds s s'"
proof -
  have "same_fds s s \<longrightarrow> same_fds s s'"
    using udp_fwd_f_fds udp_fwd_b_fds [OF _ _ assms(2)] session_yielder_fds assms(1) [unfolded hev_socks5_session_udp_splice_def]
    by (rule udp_loop_preserves [where P = "same_fds s"])
  then show ?thesis by (simp add: same_fds_def)
qed

interpretation udp_iface: session_iface "hev_socks5_session_udp_bind srv" CLIENT_UDP
    "hev_socks5_session_udp_splice junk (replicate num (replicate UDP_BUF_SIZE 0))" for srv junk num
proof
  fix s s' :: "'a HevSocks5SessionUDP_scheme"
  assume "hev_socks5_session_udp_splice junk (replicate num (replicate UDP_BUF_SIZE 0)) s = Some s'"
  from udp_splice_fds [OF this] show "fd s' = fd s \<and> cclass s' = cclass s \<and> udp_fd s' = udp_fd s \<and>
      open_fds s' = open_fds s \<and> (CLIENT_UDP = CLIENT_TCP \<longrightarrow> blocks s' = blocks s \<and> up_addr s' = up_addr s)"
    by (simp add: same_fds_def)
qed

text \<open>The descriptors over a session's life; the override of the relay address is not part of the handshake here.\<close>

lemma session_udp_descriptors:
  assumes "hev_socks5_session_udp_new srv s = (True, s1)" "fresh_distinct s"
    and "hev_socks5_session_run srv m rs (hev_socks5_session_udp_bind srv)
      (hev_socks5_session_udp_splice junk (replicate num (replicate UDP_BUF_SIZE 0))) s1 = Some s2"
  shows "open_fds (hev_socks5_session_udp_destruct s2) = open_fds s"
proof -
  have s1: "open_fds s1 = open_fds s" "socks s1 = socks s" "fd s1 = - 1" "cclass s1 = CLIENT_UDP" "udp_fd s1 = - 1"
    using assms(1) by (auto simp: hev_socks5_session_udp_new_def hev_socks5_session_udp_construct_def hev_socks5_client_udp_construct_def
        hev_socks5_client_construct_def hev_socks5_construct_def session_udp_zero_def client_zero_def sys_malloc_def Let_def
        split: if_splits list.splits)
  have "fresh_distinct s1" using assms(2) s1 by (simp add: fresh_distinct_def fresh_socks_def)
  from udp_iface.run_holds [OF assms(3) this] s1 have h: "holds (open_fds s) s2" "cclass s2 = CLIENT_UDP" by simp_all
  have ff: "same_fds a (free_frames fs u) = same_fds a u" for a u fs
    by (induction fs arbitrary: u) (simp_all add: sys_free_def)
  let ?u = "free_frames (frame_list s2) s2"
  let ?v = "if upcb ?u then ?u\<lparr>upcb := False, ucallbacks := []\<rparr> else ?u"
  have "same_fds s2 ?u" using ff [of s2 "frame_list s2" s2] by (simp add: same_fds_def)
  then have v: "holds (open_fds s) ?v" "cclass ?v = CLIENT_UDP" using h holds_cong [of ?v s2] by (simp_all add: same_fds_def)
  show ?thesis using holds_udp_destruct [OF v] by (simp add: hev_socks5_session_udp_destruct_def Let_def)
qed

section \<open>Properties\<close>

definition udp_wf :: "'a HevSocks5SessionUDP_scheme \<Rightarrow> bool" where
  "udp_wf s \<longleftrightarrow> frames s = int (length (frame_list s)) \<and> frames s \<le> UDP_POOL_SIZE + 1 \<and> (\<exists>hs. utaken s = hs @ frame_list s)"

lemma udp_wf_inv:
  assumes "udp_wf s" "utaken s = hs @ frame_list s"
  shows "udp_inv (hev_socks5_client_udp_get_fd s) (dsent s (hev_socks5_client_udp_get_fd s)) (blocks s - frames s) hs 0 s"
  using assms by (auto simp: udp_wf_def udp_inv_def)

lemma udp_inv_wf: "udp_inv d base b0 hs k s \<Longrightarrow> udp_wf s \<and> blocks s - frames s = b0"
  by (auto simp: udp_wf_def udp_inv_def)

text \<open>
  C28. The frames of a UDP session are well-formed after every operation, in both modes and whatever lwIP and the proxy
  do: the count is the length of the list, the list is never longer than the pool allows and holds the last of the
  datagrams that were taken over, and the handler's allocations and the releases after sending balance.
\<close>

theorem session_udp_wf:
  assumes "udp_wf s" "\<forall>b\<in>set bufs. length b = UDP_BUF_SIZE"
  shows "(udp_recv_handler p s = Some s1 \<longrightarrow> udp_wf s1 \<and> blocks s1 - frames s1 = blocks s - frames s) \<and>
    (hev_socks5_session_udp_fwd_f num s = Some (r, s2) \<longrightarrow> udp_wf s2 \<and> blocks s2 - frames s2 = blocks s - frames s) \<and>
    (hev_socks5_session_udp_fwd_b junk bufs s = Some (q, s3) \<longrightarrow> udp_wf s3 \<and> blocks s3 - frames s3 = blocks s - frames s) \<and>
    (session_udp_yielder ty s = Some (y, s4) \<longrightarrow> udp_wf s4 \<and> blocks s4 - frames s4 = blocks s - frames s)"
proof -
  obtain hs where hs: "utaken s = hs @ frame_list s" using assms(1) by (auto simp: udp_wf_def)
  note i = udp_wf_inv [OF assms(1) hs]
  show ?thesis
    using udp_inv_wf [OF handler_inv [OF _ i]] udp_inv_wf [OF udp_fwd_f_inv [OF _ i]] udp_inv_wf [OF udp_fwd_b_inv [OF _ i assms(2)]]
      udp_inv_wf [OF udp_yielder_inv [OF _ i]] by blast
qed


text \<open>A session with one frame waiting, to which lwIP hands two more while it runs.\<close>

definition demo_udp :: HevSocks5SessionUDP where
  "demo_udp = \<lparr>rx = [RxBlock, RxBlock, RxBlock], tx = [], sent = [], conns = [], dialled = [], socks = [], opts = [], sleeps = [5, 5],
     mallocs = [], open_fds = {7, 8}, blocks = 2, eagain = False, drx = (\<lambda>_. [DBlock, DBatch [(no_saddr, udp_packet demo_msg)], DBlock]),
     dtx = (\<lambda>_. [DAccept 5, DAccept 5]), dsent = (\<lambda>_. []), fd = 7, timeout = 100, udp_associated = True, stype = TYPE_UDP_IN_UDP,
     addr_family = FAMILY_IPV4, auth_user = None, auth_pass = None, cclass = CLIENT_UDP, up_addr = None, udp_fd = 8,
     frame_list = [(\<lparr>atype = 1, abody = [10, 0, 0, 9, 0, 53]\<rparr>, [[1, 2]])], frames = 1, map_addr = [0, 0, 0, 0], map_port = 0, upcb = True, unode = 64,
     utunnel = demo_tunnel, local_ip = IPADDR_V4 [10, 0, 0, 9], local_port = 53, mapped_dns = None,
     ucallbacks = [[UdpRecv [[3]]], [UdpRecv [[4], [5]]], [UdpGone]], pbuf_ok = [], send_ok = [], udp_out = [],
     utaken = [(\<lparr>atype = 1, abody = [10, 0, 0, 9, 0, 53]\<rparr>, [[1, 2]])]\<rparr>"

lemma demo_udp_facts: "quiet demo_udp" "udp_wf demo_udp" "utaken demo_udp = [] @ frame_list demo_udp" "udp_fd demo_udp = 8" "dsent demo_udp 8 = []"
  by (simp_all add: demo_udp_def quiet_def udp_wf_def ip_ok_def udp_packet_def demo_msg_def)

theorem session_udp_wf_witness:
  "\<exists>s1. udp_recv_handler (Some [[3]]) demo_udp = Some s1 \<and> udp_wf s1 \<and> blocks s1 - frames s1 = 1"
proof -
  obtain s1 where s1: "udp_recv_handler (Some [[3]]) demo_udp = Some s1" using handler_quiet [OF demo_udp_facts(1)] by metis
  have "blocks demo_udp - frames demo_udp = 1" by (simp add: demo_udp_def)
  with session_udp_wf [OF demo_udp_facts(2), of "[]" "Some [[3]]" s1] s1 show ?thesis by auto
qed


text \<open>A datagram of fewer than four bytes from the proxy makes the session read an address that is NULL.\<close>

lemma session_udp_short_datagram:
  "hev_socks5_session_udp_fwd_b IPADDR_V4 [replicate 1500 0] (demo_udp\<lparr>drx := (\<lambda>_. [DBatch [(no_saddr, [0, 0, 0])]])\<rparr>) = None"
  by (simp add: demo_udp_def hev_socks5_session_udp_fwd_b_def hev_socks5_udp_recvmmsg_def hev_socks5_udp_recvmmsg_udp_def
      hev_socks5_client_udp_get_fd_def hev_task_io_socket_recvmmsg.simps fresh_msg_def udp_parse1_def Let_def)

text \<open>Of a datagram that arrived in fragments only the first part is sent.\<close>

lemma session_udp_fragment_lost: "frame_msg (a, [[4], [5]]) = (a, [4])"
  by (simp add: frame_msg_def)

end
