(* ===== verification/HevConfig.thy ===== *)
theory HevConfig
  imports Session
begin

text \<open>
  The configuration, \<^verbatim>\<open>hev-config.c\<close>: the static settings with their defaults, the four sections of the document,
  the adjustment of the buffer and stack sizes, and the accessors. The YAML library hands over a document, an array of
  nodes that name each other by index from 1; a scalar is the C string it points to. \<^verbatim>\<open>inet_pton\<close> is an argument: the
  word it writes, or \<open>None\<close> when it writes nothing. A character array is the list of its bytes; \<open>None\<close> as the result of
  the last step is a signed overflow, which the C standard leaves undefined.
\<close>

section \<open>The C library\<close>

definition str :: "string \<Rightarrow> bytes" where
  "str s = map (\<lambda>c. of_nat (of_char c)) s"

definition tolower :: "byte \<Rightarrow> byte" where
  "tolower b = (if 65 \<le> b \<and> b \<le> 90 then b + 32 else b)"

definition strcasecmp :: "bytes \<Rightarrow> bytes \<Rightarrow> int" where
  "strcasecmp s t = strcmp (map tolower s) (map tolower t)"

definition is_space :: "byte \<Rightarrow> bool" where
  "is_space b \<longleftrightarrow> b = 32 \<or> 9 \<le> b \<and> b \<le> 13"

definition digit_value :: "byte \<Rightarrow> int option" where
  "digit_value b =
     (if 48 \<le> b \<and> b \<le> 57 then Some (uint b - 48)
      else if 97 \<le> tolower b \<and> tolower b \<le> 122 then Some (uint (tolower b) - 87)
      else None)"

text \<open>The digits at the front of a string, most significant first.\<close>

fun digits :: "int \<Rightarrow> int \<Rightarrow> bytes \<Rightarrow> int" where
  "digits base acc [] = acc"
| "digits base acc (b # bs) =
     (case digit_value b of
        None \<Rightarrow> acc
      | Some d \<Rightarrow> if d < base then digits base (acc * base + d) bs else acc)"

text \<open>Sign and magnitude; base 0 is taken from the prefix.\<close>

definition strto_value :: "int \<Rightarrow> bytes \<Rightarrow> bool \<times> int" where
  "strto_value base s =
     (let s = dropWhile is_space s;
          neg = (s \<noteq> [] \<and> hd s = 45);
          s = (if s \<noteq> [] \<and> (hd s = 45 \<or> hd s = 43) then tl s else s);
          hex = (2 \<le> length s \<and> hd s = 48 \<and> tolower (s ! 1) = 120)
      in if base = 0 then
           (if hex then (neg, digits 16 0 (drop 2 s))
            else if s \<noteq> [] \<and> hd s = 48 then (neg, digits 8 0 s)
            else (neg, digits 10 0 s))
         else (neg, digits base 0 s))"

definition strtoul :: "int \<Rightarrow> bytes \<Rightarrow> u64" where
  "strtoul base s =
     (case strto_value base s of (neg, v) \<Rightarrow>
        if v \<ge> 2 ^ 64 then - 1 else if neg then - of_int v else of_int v)"

definition strtol :: "int \<Rightarrow> bytes \<Rightarrow> u64" where
  "strtol base s =
     (case strto_value base s of (neg, v) \<Rightarrow>
        if neg then (if v > 2 ^ 63 then of_int (- (2 ^ 63)) else - of_int v)
        else if v \<ge> 2 ^ 63 then of_int (2 ^ 63 - 1) else of_int v)"

text \<open>The conversion of an \<^verbatim>\<open>unsigned long\<close> to \<^verbatim>\<open>int\<close>.\<close>

definition to_int :: "u64 \<Rightarrow> int" where
  "to_int v = sint (ucast v :: u32)"

definition ntohl :: "u32 \<Rightarrow> u32" where
  "ntohl v = push_bit 24 v OR (push_bit 8 v AND 0xff0000) OR (drop_bit 8 v AND 0xff00) OR drop_bit 24 v"

definition int_ok :: "int \<Rightarrow> bool" where
  "int_ok i \<longleftrightarrow> - (2 ^ 31) \<le> i \<and> i < 2 ^ 31"

section \<open>Documents\<close>

datatype yaml_node =
    YAML_NO_NODE
  | YAML_SCALAR_NODE bytes
  | YAML_SEQUENCE_NODE "int list"
  | YAML_MAPPING_NODE "(int \<times> int) list"

type_synonym yaml_document = "yaml_node list"

definition yaml_document_get_node :: "yaml_document \<Rightarrow> int \<Rightarrow> yaml_node option" where
  "yaml_document_get_node doc i = (if 0 < i \<and> i \<le> int (length doc) then Some (doc ! (nat i - 1)) else None)"

definition yaml_document_get_root_node :: "yaml_document \<Rightarrow> yaml_node option" where
  "yaml_document_get_root_node doc = (if doc = [] then None else Some (doc ! 0))"

definition scalar_node :: "yaml_document \<Rightarrow> int \<Rightarrow> bytes option" where
  "scalar_node doc i =
     (case yaml_document_get_node doc i of Some (YAML_SCALAR_NODE v) \<Rightarrow> Some v | _ \<Rightarrow> None)"

section \<open>State\<close>

record HevConfig =
  cfg_tun_name :: bytes
  cfg_tun_mtu :: u32
  cfg_multi_queue :: int
  cfg_tun_ipv4_address :: bytes
  cfg_tun_ipv6_address :: bytes
  cfg_tun_post_up_script :: bytes
  cfg_tun_pre_down_script :: bytes
  cfg_user :: bytes
  cfg_pass :: bytes
  cfg_user_set :: bool
  cfg_pass_set :: bool
  cfg_mark :: u32
  cfg_udp_in_udp :: bool
  cfg_port :: u16
  cfg_pipeline :: bool
  cfg_udp_addr :: bytes
  cfg_addr :: bytes
  cfg_mapdns_address :: u32
  cfg_mapdns_port :: int
  cfg_mapdns_network :: u32
  cfg_mapdns_netmask :: u32
  cfg_mapdns_cache_size :: int
  cfg_log_file :: bytes
  cfg_pid_file :: bytes
  cfg_max_session_count :: int
  cfg_task_stack_size :: int
  cfg_tcp_buffer_size :: int
  cfg_udp_recv_buffer_size :: int
  cfg_udp_copy_buffer_nums :: int
  cfg_connect_timeout :: int
  cfg_tcp_read_write_timeout :: int
  cfg_udp_read_write_timeout :: int
  cfg_limit_nofile :: int
  cfg_log_level :: int

definition HEV_LOGGER_DEBUG :: int where "HEV_LOGGER_DEBUG = 0"
definition HEV_LOGGER_INFO :: int where "HEV_LOGGER_INFO = 1"
definition HEV_LOGGER_WARN :: int where "HEV_LOGGER_WARN = 2"
definition HEV_LOGGER_ERROR :: int where "HEV_LOGGER_ERROR = 3"

definition TCP_SND_BUF :: int where "TCP_SND_BUF = 8 * 8191"
definition UDP_BUF_SIZE :: int where "UDP_BUF_SIZE = 1500"
definition TASK_STACK_SIZE :: int where "TASK_STACK_SIZE = 20480"

definition config_defaults :: HevConfig where
  "config_defaults = \<lparr>
     cfg_tun_name = replicate 64 0, cfg_tun_mtu = 8500, cfg_multi_queue = 0,
     cfg_tun_ipv4_address = replicate 16 0, cfg_tun_ipv6_address = replicate 64 0,
     cfg_tun_post_up_script = replicate 1024 0, cfg_tun_pre_down_script = replicate 1024 0,
     cfg_user = replicate 256 0, cfg_pass = replicate 256 0, cfg_user_set = False, cfg_pass_set = False,
     cfg_mark = 0, cfg_udp_in_udp = False, cfg_port = 0, cfg_pipeline = False,
     cfg_udp_addr = replicate 256 0, cfg_addr = replicate 256 0,
     cfg_mapdns_address = 0, cfg_mapdns_port = 0, cfg_mapdns_network = 0, cfg_mapdns_netmask = 0,
     cfg_mapdns_cache_size = 0,
     cfg_log_file = replicate 1024 0, cfg_pid_file = replicate 1024 0, cfg_max_session_count = 0,
     cfg_task_stack_size = 86016, cfg_tcp_buffer_size = 65536, cfg_udp_recv_buffer_size = 524288,
     cfg_udp_copy_buffer_nums = 10, cfg_connect_timeout = 10000, cfg_tcp_read_write_timeout = 300000,
     cfg_udp_read_write_timeout = 60000, cfg_limit_nofile = 65535, cfg_log_level = HEV_LOGGER_WARN\<rparr>"

section \<open>Sections\<close>

text \<open>The loop that four of the parsers share: it ends at the first pair that is not of two scalars.\<close>

fun scalar_pairs :: "(bytes \<Rightarrow> bytes \<Rightarrow> 'a \<Rightarrow> 'a) \<Rightarrow> yaml_document \<Rightarrow> (int \<times> int) list \<Rightarrow> 'a \<Rightarrow> 'a" where
  "scalar_pairs step doc [] c = c"
| "scalar_pairs step doc ((k, v) # ps) c =
     (if k = 0 \<or> v = 0 then c
      else case scalar_node doc k of
        None \<Rightarrow> c
      | Some key \<Rightarrow>
          (case scalar_node doc v of
             None \<Rightarrow> c
           | Some val \<Rightarrow> scalar_pairs step doc ps (step key val c)))"

text \<open>\<^verbatim>\<open>strncpy (buf, value, n)\<close> into a character array.\<close>

definition buf_strncpy :: "nat \<Rightarrow> bytes \<Rightarrow> bytes \<Rightarrow> bytes" where
  "buf_strncpy n val buf = mem_put buf 0 (strncpy val n)"

definition hev_config_parse_tunnel_ipv4 :: "yaml_document \<Rightarrow> yaml_node option \<Rightarrow> HevConfig \<Rightarrow> int \<times> HevConfig" where
  "hev_config_parse_tunnel_ipv4 doc base c =
     (case base of
        Some (YAML_MAPPING_NODE ps) \<Rightarrow>
          (0, scalar_pairs (\<lambda>key val c.
             if strcmp key (str ''address'') = 0
             then c\<lparr>cfg_tun_ipv4_address := buf_strncpy (16 - 1) val (cfg_tun_ipv4_address c)\<rparr> else c) doc ps c)
      | _ \<Rightarrow> (- 1, c))"

definition hev_config_parse_tunnel_ipv6 :: "yaml_document \<Rightarrow> yaml_node option \<Rightarrow> HevConfig \<Rightarrow> int \<times> HevConfig" where
  "hev_config_parse_tunnel_ipv6 doc base c =
     (case base of
        Some (YAML_MAPPING_NODE ps) \<Rightarrow>
          (0, scalar_pairs (\<lambda>key val c.
             if strcmp key (str ''address'') = 0
             then c\<lparr>cfg_tun_ipv6_address := buf_strncpy (64 - 1) val (cfg_tun_ipv6_address c)\<rparr> else c) doc ps c)
      | _ \<Rightarrow> (- 1, c))"

definition tunnel_scalar :: "bytes \<Rightarrow> bytes \<Rightarrow> HevConfig \<Rightarrow> HevConfig" where
  "tunnel_scalar key val c =
     (if strcmp key (str ''name'') = 0 then c\<lparr>cfg_tun_name := buf_strncpy (64 - 1) val (cfg_tun_name c)\<rparr>
      else if strcmp key (str ''mtu'') = 0 then c\<lparr>cfg_tun_mtu := ucast (strtoul 10 val)\<rparr>
      else if strcmp key (str ''multi-queue'') = 0 then c\<lparr>cfg_multi_queue := strcasecmp val (str ''false'')\<rparr>
      else if strcmp key (str ''ipv4'') = 0
      then c\<lparr>cfg_tun_ipv4_address := buf_strncpy (16 - 1) val (cfg_tun_ipv4_address c)\<rparr>
      else if strcmp key (str ''ipv6'') = 0
      then c\<lparr>cfg_tun_ipv6_address := buf_strncpy (64 - 1) val (cfg_tun_ipv6_address c)\<rparr>
      else if strcmp key (str ''post-up-script'') = 0
      then c\<lparr>cfg_tun_post_up_script := buf_strncpy (64 - 1) val (cfg_tun_post_up_script c)\<rparr>
      else if strcmp key (str ''pre-down-script'') = 0
      then c\<lparr>cfg_tun_pre_down_script := buf_strncpy (64 - 1) val (cfg_tun_pre_down_script c)\<rparr>
      else c)"

fun tunnel_pairs :: "yaml_document \<Rightarrow> (int \<times> int) list \<Rightarrow> HevConfig \<Rightarrow> HevConfig" where
  "tunnel_pairs doc [] c = c"
| "tunnel_pairs doc ((k, v) # ps) c =
     (if k = 0 \<or> v = 0 then c
      else case scalar_node doc k of
        None \<Rightarrow> c
      | Some key \<Rightarrow>
          (case yaml_document_get_node doc v of
             None \<Rightarrow> c
           | Some (YAML_SCALAR_NODE val) \<Rightarrow> tunnel_pairs doc ps (tunnel_scalar key val c)
           | Some node \<Rightarrow>
               tunnel_pairs doc ps
                 (if strcmp key (str ''ipv4'') = 0 then snd (hev_config_parse_tunnel_ipv4 doc (Some node) c)
                  else if strcmp key (str ''ipv6'') = 0 then snd (hev_config_parse_tunnel_ipv6 doc (Some node) c)
                  else c)))"

definition hev_config_parse_tunnel :: "yaml_document \<Rightarrow> yaml_node option \<Rightarrow> HevConfig \<Rightarrow> int \<times> HevConfig" where
  "hev_config_parse_tunnel doc base c =
     (case base of Some (YAML_MAPPING_NODE ps) \<Rightarrow> (0, tunnel_pairs doc ps c) | _ \<Rightarrow> (- 1, c))"

record socks5_keys =
  k_addr :: "bytes option"
  k_port :: "bytes option"
  k_udpm :: "bytes option"
  k_udpa :: "bytes option"
  k_user :: "bytes option"
  k_pass :: "bytes option"
  k_mark :: "bytes option"
  k_pipe :: "bytes option"

definition socks5_key :: "bytes \<Rightarrow> bytes \<Rightarrow> socks5_keys \<Rightarrow> socks5_keys" where
  "socks5_key key val l =
     (if strcmp key (str ''port'') = 0 then l\<lparr>k_port := Some val\<rparr>
      else if strcmp key (str ''address'') = 0 then l\<lparr>k_addr := Some val\<rparr>
      else if strcmp key (str ''udp'') = 0 then l\<lparr>k_udpm := Some val\<rparr>
      else if strcmp key (str ''udp-address'') = 0 then l\<lparr>k_udpa := Some val\<rparr>
      else if strcmp key (str ''pipeline'') = 0 then l\<lparr>k_pipe := Some val\<rparr>
      else if strcmp key (str ''username'') = 0 then l\<lparr>k_user := Some val\<rparr>
      else if strcmp key (str ''password'') = 0 then l\<lparr>k_pass := Some val\<rparr>
      else if strcmp key (str ''mark'') = 0 then l\<lparr>k_mark := Some val\<rparr>
      else l)"

definition no_keys :: socks5_keys where
  "no_keys = \<lparr>k_addr = None, k_port = None, k_udpm = None, k_udpa = None, k_user = None, k_pass = None,
     k_mark = None, k_pipe = None\<rparr>"

definition socks5_apply :: "bytes \<Rightarrow> bytes \<Rightarrow> socks5_keys \<Rightarrow> HevConfig \<Rightarrow> HevConfig" where
  "socks5_apply addr port l c =
     (let c = c\<lparr>cfg_addr := buf_strncpy (256 - 1) addr (cfg_addr c)\<rparr>;
          c = c\<lparr>cfg_port := ucast (strtoul 10 port)\<rparr>;
          c = (case k_pipe l of
                 Some pipe \<Rightarrow> if strcasecmp pipe (str ''true'') = 0 then c\<lparr>cfg_pipeline := True\<rparr> else c
               | None \<Rightarrow> c);
          c = (case k_udpm l of
                 Some udpm \<Rightarrow> if strcasecmp udpm (str ''udp'') = 0 then c\<lparr>cfg_udp_in_udp := True\<rparr> else c
               | None \<Rightarrow> c);
          c = (case k_udpa l of
                 Some udpa \<Rightarrow> c\<lparr>cfg_udp_addr := buf_strncpy (256 - 1) udpa (cfg_udp_addr c)\<rparr>
               | None \<Rightarrow> c);
          c = (case (k_user l, k_pass l) of
                 (Some user, Some pass) \<Rightarrow>
                   c\<lparr>cfg_user := buf_strncpy (256 - 1) user (cfg_user c),
                     cfg_pass := buf_strncpy (256 - 1) pass (cfg_pass c),
                     cfg_user_set := True, cfg_pass_set := True\<rparr>
               | _ \<Rightarrow> c)
      in case k_mark l of Some mark \<Rightarrow> c\<lparr>cfg_mark := ucast (strtoul 0 mark)\<rparr> | None \<Rightarrow> c)"

definition hev_config_parse_socks5 :: "yaml_document \<Rightarrow> yaml_node option \<Rightarrow> HevConfig \<Rightarrow> int \<times> HevConfig" where
  "hev_config_parse_socks5 doc base c =
     (case base of
        Some (YAML_MAPPING_NODE ps) \<Rightarrow>
          let l = scalar_pairs socks5_key doc ps no_keys
          in (case k_port l of
                None \<Rightarrow> (- 1, c)
              | Some port \<Rightarrow>
                  (case k_addr l of
                     None \<Rightarrow> (- 1, c)
                   | Some addr \<Rightarrow>
                       if (k_user l \<noteq> None \<and> k_pass l = None) \<or> (k_user l = None \<and> k_pass l \<noteq> None) then (- 1, c)
                       else (0, socks5_apply addr port l c)))
      | _ \<Rightarrow> (- 1, c))"

definition mapdns_key :: "(bytes \<Rightarrow> u32 option) \<Rightarrow> bytes \<Rightarrow> bytes \<Rightarrow> HevConfig \<Rightarrow> HevConfig" where
  "mapdns_key pton key val c =
     (if strcmp key (str ''address'') = 0
      then (case pton val of Some v \<Rightarrow> c\<lparr>cfg_mapdns_address := v\<rparr> | None \<Rightarrow> c)
      else if strcmp key (str ''port'') = 0 then c\<lparr>cfg_mapdns_port := to_int (strtoul 10 val)\<rparr>
      else if strcmp key (str ''network'') = 0
      then (case pton val of Some v \<Rightarrow> c\<lparr>cfg_mapdns_network := v\<rparr> | None \<Rightarrow> c)
      else if strcmp key (str ''netmask'') = 0
      then (case pton val of Some v \<Rightarrow> c\<lparr>cfg_mapdns_netmask := v\<rparr> | None \<Rightarrow> c)
      else if strcmp key (str ''cache-size'') = 0 then c\<lparr>cfg_mapdns_cache_size := to_int (strtoul 10 val)\<rparr>
      else c)"

definition hev_config_parse_mapdns ::
    "(bytes \<Rightarrow> u32 option) \<Rightarrow> yaml_document \<Rightarrow> yaml_node option \<Rightarrow> HevConfig \<Rightarrow> int \<times> HevConfig" where
  "hev_config_parse_mapdns pton doc base c =
     (case base of
        Some (YAML_MAPPING_NODE ps) \<Rightarrow>
          let c = scalar_pairs (mapdns_key pton) doc ps c
          in (0, c\<lparr>cfg_mapdns_network := ntohl (cfg_mapdns_network c),
                 cfg_mapdns_netmask := ntohl (cfg_mapdns_netmask c)\<rparr>)
      | _ \<Rightarrow> (- 1, c))"

definition hev_config_parse_log_level :: "bytes \<Rightarrow> int" where
  "hev_config_parse_log_level val =
     (if strcmp val (str ''debug'') = 0 then HEV_LOGGER_DEBUG
      else if strcmp val (str ''info'') = 0 then HEV_LOGGER_INFO
      else if strcmp val (str ''error'') = 0 then HEV_LOGGER_ERROR
      else HEV_LOGGER_WARN)"

text \<open>The three local timeouts of \<^verbatim>\<open>hev_config_parse_misc\<close> travel beside the settings.\<close>

record misc_locals =
  l_tcp_rw_timeout :: int
  l_udp_rw_timeout :: int
  l_rw_timeout :: int

definition misc_key :: "bytes \<Rightarrow> bytes \<Rightarrow> HevConfig \<times> misc_locals \<Rightarrow> HevConfig \<times> misc_locals" where
  "misc_key key val cl =
     (let (c, l) = cl; n = to_int (strtoul 10 val)
      in if strcmp key (str ''task-stack-size'') = 0 then (c\<lparr>cfg_task_stack_size := n\<rparr>, l)
         else if strcmp key (str ''tcp-buffer-size'') = 0 then (c\<lparr>cfg_tcp_buffer_size := n\<rparr>, l)
         else if strcmp key (str ''udp-recv-buffer-size'') = 0 then (c\<lparr>cfg_udp_recv_buffer_size := n\<rparr>, l)
         else if strcmp key (str ''udp-copy-buffer-nums'') = 0 then (c\<lparr>cfg_udp_copy_buffer_nums := n\<rparr>, l)
         else if strcmp key (str ''max-session-count'') = 0 then (c\<lparr>cfg_max_session_count := n\<rparr>, l)
         else if strcmp key (str ''connect-timeout'') = 0 then (c\<lparr>cfg_connect_timeout := n\<rparr>, l)
         else if strcmp key (str ''read-write-timeout'') = 0 then (c, l\<lparr>l_rw_timeout := n\<rparr>)
         else if strcmp key (str ''tcp-read-write-timeout'') = 0 then (c, l\<lparr>l_tcp_rw_timeout := n\<rparr>)
         else if strcmp key (str ''udp-read-write-timeout'') = 0 then (c, l\<lparr>l_udp_rw_timeout := n\<rparr>)
         else if strcmp key (str ''pid-file'') = 0
         then (c\<lparr>cfg_pid_file := buf_strncpy (1024 - 1) val (cfg_pid_file c)\<rparr>, l)
         else if strcmp key (str ''log-file'') = 0
         then (c\<lparr>cfg_log_file := buf_strncpy (1024 - 1) val (cfg_log_file c)\<rparr>, l)
         else if strcmp key (str ''log-level'') = 0 then (c\<lparr>cfg_log_level := hev_config_parse_log_level val\<rparr>, l)
         else if strcmp key (str ''limit-nofile'') = 0 then (c\<lparr>cfg_limit_nofile := to_int (strtol 10 val)\<rparr>, l)
         else (c, l))"

definition misc_timeouts :: "HevConfig \<times> misc_locals \<Rightarrow> HevConfig" where
  "misc_timeouts cl =
     (let (c, l) = cl;
          tcp_rw = (if l_tcp_rw_timeout l \<le> 0 then l_rw_timeout l else l_tcp_rw_timeout l);
          udp_rw = (if l_udp_rw_timeout l \<le> 0 then l_rw_timeout l else l_udp_rw_timeout l);
          c = (if tcp_rw > 0 then c\<lparr>cfg_tcp_read_write_timeout := tcp_rw\<rparr> else c)
      in if udp_rw > 0 then c\<lparr>cfg_udp_read_write_timeout := udp_rw\<rparr> else c)"

definition hev_config_parse_misc :: "yaml_document \<Rightarrow> yaml_node option \<Rightarrow> HevConfig \<Rightarrow> int \<times> HevConfig" where
  "hev_config_parse_misc doc base c =
     (case base of
        Some (YAML_MAPPING_NODE ps) \<Rightarrow>
          (0, misc_timeouts (scalar_pairs misc_key doc ps
                (c, \<lparr>l_tcp_rw_timeout = - 1, l_udp_rw_timeout = - 1, l_rw_timeout = - 1\<rparr>)))
      | _ \<Rightarrow> (- 1, c))"

section \<open>The document\<close>

definition parse_section ::
    "(bytes \<Rightarrow> u32 option) \<Rightarrow> yaml_document \<Rightarrow> bytes \<Rightarrow> yaml_node option \<Rightarrow> HevConfig \<Rightarrow> int \<times> HevConfig" where
  "parse_section pton doc key node c =
     (if strcmp key (str ''tunnel'') = 0 then hev_config_parse_tunnel doc node c
      else if strcmp key (str ''socks5'') = 0 then hev_config_parse_socks5 doc node c
      else if strcmp key (str ''mapdns'') = 0 then hev_config_parse_mapdns pton doc node c
      else if strcmp key (str ''misc'') = 0 then hev_config_parse_misc doc node c
      else (0, c))"

fun root_pairs :: "(bytes \<Rightarrow> u32 option) \<Rightarrow> yaml_document \<Rightarrow> (int \<times> int) list \<Rightarrow> HevConfig \<Rightarrow> int \<times> HevConfig" where
  "root_pairs pton doc [] c = (0, c)"
| "root_pairs pton doc ((k, v) # ps) c =
     (if k = 0 \<or> v = 0 then (0, c)
      else case scalar_node doc k of
        None \<Rightarrow> (0, c)
      | Some key \<Rightarrow>
          (case parse_section pton doc key (yaml_document_get_node doc v) c of
             (res, c) \<Rightarrow> if res < 0 then (- 1, c) else root_pairs pton doc ps c))"

definition adjust_sizes :: "HevConfig \<Rightarrow> HevConfig option" where
  "adjust_sizes c =
     (let c = (if cfg_tcp_buffer_size c > TCP_SND_BUF then c\<lparr>cfg_tcp_buffer_size := TCP_SND_BUF\<rparr> else c);
          udp_buffer_size = UDP_BUF_SIZE * cfg_udp_copy_buffer_nums c;
          min_task_stack_size =
            (if cfg_tcp_buffer_size c > udp_buffer_size then TASK_STACK_SIZE + cfg_tcp_buffer_size c
             else TASK_STACK_SIZE + udp_buffer_size)
      in if \<not> int_ok udp_buffer_size \<or> \<not> int_ok min_task_stack_size then None
         else if cfg_task_stack_size c < min_task_stack_size
         then Some (c\<lparr>cfg_task_stack_size := min_task_stack_size\<rparr>)
         else Some c)"

definition hev_config_parse_doc ::
    "(bytes \<Rightarrow> u32 option) \<Rightarrow> yaml_document \<Rightarrow> HevConfig \<Rightarrow> (int \<times> HevConfig) option" where
  "hev_config_parse_doc pton doc c =
     (case yaml_document_get_root_node doc of
        Some (YAML_MAPPING_NODE ps) \<Rightarrow>
          (case root_pairs pton doc ps c of (res, c) \<Rightarrow>
             if res < 0 then Some (- 1, c) else map_option (Pair 0) (adjust_sizes c))
      | _ \<Rightarrow> Some (- 1, c))"

text \<open>The answers of \<^verbatim>\<open>yaml_parser_initialize\<close>, \<^verbatim>\<open>fopen\<close> and \<^verbatim>\<open>yaml_parser_load\<close> are arguments.\<close>

definition hev_config_init_from_str ::
    "(bytes \<Rightarrow> u32 option) \<Rightarrow> bool \<Rightarrow> (bytes \<Rightarrow> yaml_document option) \<Rightarrow> bytes \<Rightarrow> HevConfig \<Rightarrow> (int \<times> HevConfig) option" where
  "hev_config_init_from_str pton init_ok load config c =
     (if \<not> init_ok then Some (- 1, c)
      else case load config of
        None \<Rightarrow> Some (- 1, c)
      | Some doc \<Rightarrow> hev_config_parse_doc pton doc c)"

definition hev_config_init_from_file ::
    "(bytes \<Rightarrow> u32 option) \<Rightarrow> bool \<Rightarrow> (bytes \<Rightarrow> bytes option) \<Rightarrow> (bytes \<Rightarrow> yaml_document option) \<Rightarrow> bytes \<Rightarrow> HevConfig \<Rightarrow>
      (int \<times> HevConfig) option" where
  "hev_config_init_from_file pton init_ok fopen load path c =
     (if \<not> init_ok then Some (- 1, c)
      else case fopen path of
        None \<Rightarrow> Some (- 1, c)
      | Some contents \<Rightarrow>
          (case load contents of
             None \<Rightarrow> Some (- 1, c)
           | Some doc \<Rightarrow> hev_config_parse_doc pton doc c))"

section \<open>Accessors\<close>

text \<open>A pointer to a character array: NULL when its string is empty. \<open>None\<close> inside \<open>Some\<close> would be a string that
  does not end in the array.\<close>

definition array_ptr :: "bytes \<Rightarrow> bytes option option" where
  "array_ptr buf = (if buf ! 0 = 0 then None else Some (cstr buf))"

definition hev_config_get_tunnel_name :: "HevConfig \<Rightarrow> bytes option option" where
  "hev_config_get_tunnel_name c = array_ptr (cfg_tun_name c)"

definition hev_config_get_tunnel_ipv4_address :: "HevConfig \<Rightarrow> bytes option option" where
  "hev_config_get_tunnel_ipv4_address c = array_ptr (cfg_tun_ipv4_address c)"

definition hev_config_get_tunnel_ipv6_address :: "HevConfig \<Rightarrow> bytes option option" where
  "hev_config_get_tunnel_ipv6_address c = array_ptr (cfg_tun_ipv6_address c)"

definition hev_config_get_tunnel_post_up_script :: "HevConfig \<Rightarrow> bytes option option" where
  "hev_config_get_tunnel_post_up_script c = array_ptr (cfg_tun_post_up_script c)"

definition hev_config_get_tunnel_pre_down_script :: "HevConfig \<Rightarrow> bytes option option" where
  "hev_config_get_tunnel_pre_down_script c = array_ptr (cfg_tun_pre_down_script c)"

definition hev_config_get_misc_pid_file :: "HevConfig \<Rightarrow> bytes option option" where
  "hev_config_get_misc_pid_file c = array_ptr (cfg_pid_file c)"

definition hev_config_get_misc_log_file :: "HevConfig \<Rightarrow> bytes option" where
  "hev_config_get_misc_log_file c =
     (if cfg_log_file c ! 0 = 0 then Some (str ''stderr'') else cstr (cfg_log_file c))"

definition hev_config_get_tunnel_mtu :: "HevConfig \<Rightarrow> u32" where
  "hev_config_get_tunnel_mtu c = cfg_tun_mtu c"

definition hev_config_get_tunnel_multi_queue :: "HevConfig \<Rightarrow> int" where
  "hev_config_get_tunnel_multi_queue c = cfg_multi_queue c"

definition hev_config_get_mapdns_address :: "HevConfig \<Rightarrow> u32" where
  "hev_config_get_mapdns_address c = cfg_mapdns_address c"

definition hev_config_get_mapdns_port :: "HevConfig \<Rightarrow> int" where
  "hev_config_get_mapdns_port c = cfg_mapdns_port c"

definition hev_config_get_mapdns_network :: "HevConfig \<Rightarrow> u32" where
  "hev_config_get_mapdns_network c = cfg_mapdns_network c"

definition hev_config_get_mapdns_netmask :: "HevConfig \<Rightarrow> u32" where
  "hev_config_get_mapdns_netmask c = cfg_mapdns_netmask c"

definition hev_config_get_mapdns_cache_size :: "HevConfig \<Rightarrow> int" where
  "hev_config_get_mapdns_cache_size c = cfg_mapdns_cache_size c"

definition hev_config_get_misc_task_stack_size :: "HevConfig \<Rightarrow> int" where
  "hev_config_get_misc_task_stack_size c = cfg_task_stack_size c"

definition hev_config_get_misc_tcp_buffer_size :: "HevConfig \<Rightarrow> int" where
  "hev_config_get_misc_tcp_buffer_size c = cfg_tcp_buffer_size c"

definition hev_config_get_misc_udp_recv_buffer_size :: "HevConfig \<Rightarrow> int" where
  "hev_config_get_misc_udp_recv_buffer_size c = cfg_udp_recv_buffer_size c"

definition hev_config_get_misc_udp_copy_buffer_nums :: "HevConfig \<Rightarrow> int" where
  "hev_config_get_misc_udp_copy_buffer_nums c = cfg_udp_copy_buffer_nums c"

definition hev_config_get_misc_max_session_count :: "HevConfig \<Rightarrow> int" where
  "hev_config_get_misc_max_session_count c = cfg_max_session_count c"

definition hev_config_get_misc_connect_timeout :: "HevConfig \<Rightarrow> int" where
  "hev_config_get_misc_connect_timeout c = cfg_connect_timeout c"

definition hev_config_get_misc_tcp_read_write_timeout :: "HevConfig \<Rightarrow> int" where
  "hev_config_get_misc_tcp_read_write_timeout c = cfg_tcp_read_write_timeout c"

definition hev_config_get_misc_udp_read_write_timeout :: "HevConfig \<Rightarrow> int" where
  "hev_config_get_misc_udp_read_write_timeout c = cfg_udp_read_write_timeout c"

definition hev_config_get_misc_limit_nofile :: "HevConfig \<Rightarrow> int" where
  "hev_config_get_misc_limit_nofile c = cfg_limit_nofile c"

definition hev_config_get_misc_log_level :: "HevConfig \<Rightarrow> int" where
  "hev_config_get_misc_log_level c = cfg_log_level c"

text \<open>What the users of the server structure read in it.\<close>

definition hev_config_get_socks5_server :: "HevConfig \<Rightarrow> HevConfigServer option" where
  "hev_config_get_socks5_server c =
     (case (cstr (cfg_user c), cstr (cfg_pass c), cstr (cfg_udp_addr c), cstr (cfg_addr c)) of
        (Some user, Some pass, Some udp_addr, Some addr) \<Rightarrow>
          Some \<lparr>srv_user = (if cfg_user_set c then Some user else None),
                srv_pass = (if cfg_pass_set c then Some pass else None),
                srv_mark = cfg_mark c, srv_udp_in_udp = cfg_udp_in_udp c, srv_port = cfg_port c,
                srv_pipeline = cfg_pipeline c, srv_udp_addr = udp_addr, srv_addr = addr\<rparr>
      | _ \<Rightarrow> None)"

section \<open>Well-formed settings\<close>

text \<open>A character array of its size whose last byte is NUL, as the static arrays begin and \<^verbatim>\<open>strncpy\<close> keeps them.\<close>

definition array_ok :: "nat \<Rightarrow> bytes \<Rightarrow> bool" where
  "array_ok n buf \<longleftrightarrow> length buf = n \<and> 0 < n \<and> buf ! (n - 1) = 0"

definition config_ok :: "HevConfig \<Rightarrow> bool" where
  "config_ok c \<longleftrightarrow>
     array_ok 64 (cfg_tun_name c) \<and> array_ok 16 (cfg_tun_ipv4_address c) \<and> array_ok 64 (cfg_tun_ipv6_address c) \<and>
     array_ok 1024 (cfg_tun_post_up_script c) \<and> array_ok 1024 (cfg_tun_pre_down_script c) \<and>
     array_ok 256 (cfg_user c) \<and> array_ok 256 (cfg_pass c) \<and> array_ok 256 (cfg_udp_addr c) \<and> array_ok 256 (cfg_addr c) \<and>
     array_ok 1024 (cfg_log_file c) \<and> array_ok 1024 (cfg_pid_file c) \<and> cfg_user_set c = cfg_pass_set c"

lemma array_ok_strncpy [simp]: "array_ok n buf \<Longrightarrow> k < n \<Longrightarrow> array_ok n (buf_strncpy k v buf)"
  by (auto simp: array_ok_def buf_strncpy_def nth_mem_put)

lemma cstr_nth: "i < length buf \<Longrightarrow> buf ! i = 0 \<Longrightarrow> \<exists>s. cstr buf = Some s \<and> length s \<le> i"
proof (induction buf arbitrary: i)
  case (Cons b bs)
  show ?case
  proof (cases i)
    case (Suc j)
    then show ?thesis using Cons.IH [of j] Cons.prems by auto
  qed (use Cons.prems in simp)
qed simp

lemma array_ok_cstr: "array_ok n buf \<Longrightarrow> \<exists>s. cstr buf = Some s \<and> length s < n"
  using cstr_nth [of "n - 1" buf] unfolding array_ok_def by (metis Suc_pred' diff_less less_Suc_eq_le zero_less_one)

lemma cstr_strncpy:
  assumes "array_ok (Suc m) buf" "cstring v"
  shows "cstr (buf_strncpy m v buf) = Some (take m v)"
proof -
  have "length buf = Suc m" "buf ! m = 0" using assms(1) by (simp_all add: array_ok_def)
  then have "drop m buf = [0]" using Cons_nth_drop_Suc [of m buf] by simp
  moreover have "buf_strncpy m v buf = strncpy v m @ drop m buf" by (simp add: buf_strncpy_def mem_put_def)
  moreover have "strncpy v m = take m v @ replicate (m - length v) 0" by (simp add: strncpy_def)
  moreover have "replicate k 0 @ [0] = 0 # replicate k (0 :: byte)" for k
    by (metis replicate_Suc replicate_append_same)
  moreover have "cstring (take m v)" using assms(2) by (auto simp: cstring_def dest: in_set_takeD)
  ultimately show ?thesis by (simp add: cstr_terminated)
qed

lemma config_defaults_ok: "config_ok config_defaults"
  by (simp add: config_ok_def config_defaults_def array_ok_def)

section \<open>Sections keep the settings well-formed\<close>

text \<open>The pairs a section's loop visits.\<close>

fun scalar_list :: "yaml_document \<Rightarrow> (int \<times> int) list \<Rightarrow> (bytes \<times> bytes) list" where
  "scalar_list doc [] = []"
| "scalar_list doc ((k, v) # ps) =
     (if k = 0 \<or> v = 0 then []
      else case (scalar_node doc k, scalar_node doc v) of
        (Some key, Some val) \<Rightarrow> (key, val) # scalar_list doc ps
      | _ \<Rightarrow> [])"

lemma scalar_pairs_fold: "scalar_pairs step doc ps c = fold (\<lambda>(k, v). step k v) (scalar_list doc ps) c"
  by (induction step doc ps c rule: scalar_pairs.induct) (simp_all split: option.split)

lemma fold_invariant_pairs: "P c \<Longrightarrow> (\<And>k v c. P c \<Longrightarrow> P (step k v c)) \<Longrightarrow> P (fold (\<lambda>(k, v). step k v) l c)"
  by (induction l arbitrary: c) auto

lemma tunnel_scalar_ok: "config_ok c \<Longrightarrow> config_ok (tunnel_scalar key val c)"
  by (simp add: tunnel_scalar_def config_ok_def)

lemma config_ok_ipv4: "config_ok c \<Longrightarrow> config_ok (c\<lparr>cfg_tun_ipv4_address := buf_strncpy 15 v (cfg_tun_ipv4_address c)\<rparr>)"
  by (simp add: config_ok_def)

lemma config_ok_ipv6: "config_ok c \<Longrightarrow> config_ok (c\<lparr>cfg_tun_ipv6_address := buf_strncpy 63 v (cfg_tun_ipv6_address c)\<rparr>)"
  by (simp add: config_ok_def)

lemma parse_tunnel_ipv4_ok: "config_ok c \<Longrightarrow> config_ok (snd (hev_config_parse_tunnel_ipv4 doc base c))"
  unfolding hev_config_parse_tunnel_ipv4_def scalar_pairs_fold
  by (auto split: option.split yaml_node.split intro!: fold_invariant_pairs [where P = config_ok] config_ok_ipv4)

lemma parse_tunnel_ipv6_ok: "config_ok c \<Longrightarrow> config_ok (snd (hev_config_parse_tunnel_ipv6 doc base c))"
  unfolding hev_config_parse_tunnel_ipv6_def scalar_pairs_fold
  by (auto split: option.split yaml_node.split intro!: fold_invariant_pairs [where P = config_ok] config_ok_ipv6)

lemma tunnel_pairs_ok: "config_ok c \<Longrightarrow> config_ok (tunnel_pairs doc ps c)"
proof (induction ps arbitrary: c)
  case (Cons p ps)
  then show ?case
    by (cases p) (simp add: tunnel_scalar_ok parse_tunnel_ipv4_ok parse_tunnel_ipv6_ok split: option.split yaml_node.split)
qed simp

lemma socks5_apply_ok: "config_ok c \<Longrightarrow> config_ok (socks5_apply addr port l c)"
  unfolding socks5_apply_def Let_def
  by (simp add: config_ok_def split: option.split prod.split)

lemma mapdns_key_ok: "config_ok c \<Longrightarrow> config_ok (mapdns_key pton key val c)"
  by (simp add: mapdns_key_def config_ok_def split: option.split)

lemma misc_key_ok: "config_ok (fst cl) \<Longrightarrow> config_ok (fst (misc_key key val cl))"
  by (cases cl) (simp add: misc_key_def config_ok_def Let_def)

lemma misc_timeouts_ok: "config_ok (fst cl) \<Longrightarrow> config_ok (misc_timeouts cl)"
  by (cases cl) (simp add: misc_timeouts_def config_ok_def Let_def)

lemma parse_section_ok: "config_ok c \<Longrightarrow> config_ok (snd (parse_section pton doc key node c))"
proof -
  assume c: "config_ok c"
  have t: "config_ok (snd (hev_config_parse_tunnel doc node c))"
    using c by (simp add: hev_config_parse_tunnel_def tunnel_pairs_ok split: option.split yaml_node.split)
  have s: "config_ok (snd (hev_config_parse_socks5 doc node c))"
    using c by (simp add: hev_config_parse_socks5_def Let_def socks5_apply_ok split: option.split yaml_node.split)
  have "config_ok (scalar_pairs (mapdns_key pton) doc ps c)" for ps
    unfolding scalar_pairs_fold using c by (intro fold_invariant_pairs [where P = config_ok] mapdns_key_ok)
  then have d: "config_ok (snd (hev_config_parse_mapdns pton doc node c))"
    using c by (simp add: hev_config_parse_mapdns_def Let_def config_ok_def split: option.split yaml_node.split)
  have "config_ok (fst (scalar_pairs misc_key doc ps (c, l)))" for ps l
    unfolding scalar_pairs_fold using c
    by (intro fold_invariant_pairs [where P = "\<lambda>cl. config_ok (fst cl)"] misc_key_ok) simp
  then have m: "config_ok (snd (hev_config_parse_misc doc node c))"
    using c by (simp add: hev_config_parse_misc_def misc_timeouts_ok split: option.split yaml_node.split)
  show ?thesis using c t s d m by (simp add: parse_section_def)
qed

lemma root_pairs_ok: "config_ok c \<Longrightarrow> config_ok (snd (root_pairs pton doc ps c))"
proof (induction pton doc ps c rule: root_pairs.induct)
  case (2 pton doc k v ps c)
  have "config_ok c'" if "parse_section pton doc key node c = (res, c')" for key node res c'
    using parse_section_ok [OF 2(2), of pton doc key node] that by simp
  then show ?case using 2 by (auto split: option.split prod.split)
qed simp

section \<open>What a section sets\<close>

text \<open>Every scalar is a C string; the last value of a key counts.\<close>

definition yaml_ok :: "yaml_document \<Rightarrow> bool" where
  "yaml_ok doc \<longleftrightarrow> (\<forall>v. YAML_SCALAR_NODE v \<in> set doc \<longrightarrow> cstring v)"

definition setting :: "yaml_document \<Rightarrow> (int \<times> int) list \<Rightarrow> string \<Rightarrow> bytes option" where
  "setting doc ps key = map_of (rev (scalar_list doc ps)) (str key)"

definition socks5_spec :: "(string \<Rightarrow> bytes option) \<Rightarrow> HevConfigServer \<Rightarrow> int \<times> HevConfigServer" where
  "socks5_spec v old =
     (case (v ''address'', v ''port'') of
        (Some addr, Some port) \<Rightarrow>
          if (v ''username'' = None) \<noteq> (v ''password'' = None) then (- 1, old)
          else (0, \<lparr>
            srv_user = (case v ''username'' of Some u \<Rightarrow> Some (take 255 u) | None \<Rightarrow> srv_user old),
            srv_pass = (case v ''password'' of Some p \<Rightarrow> Some (take 255 p) | None \<Rightarrow> srv_pass old),
            srv_mark = (case v ''mark'' of Some m \<Rightarrow> ucast (strtoul 0 m) | None \<Rightarrow> srv_mark old),
            srv_udp_in_udp = (srv_udp_in_udp old \<or> (\<exists>u. v ''udp'' = Some u \<and> strcasecmp u (str ''udp'') = 0)),
            srv_port = ucast (strtoul 10 port),
            srv_pipeline = (srv_pipeline old \<or> (\<exists>p. v ''pipeline'' = Some p \<and> strcasecmp p (str ''true'') = 0)),
            srv_udp_addr = (case v ''udp-address'' of Some a \<Rightarrow> take 255 a | None \<Rightarrow> srv_udp_addr old),
            srv_addr = take 255 addr\<rparr>)
      | _ \<Rightarrow> (- 1, old))"

lemma byte_of_char_eq: "(of_nat (of_char a) :: byte) = of_nat (of_char b) \<longleftrightarrow> a = b"
proof
  assume "(of_nat (of_char a) :: byte) = of_nat (of_char b)"
  then have "unat (of_nat (of_char a) :: byte) = unat (of_nat (of_char b) :: byte)" by simp
  then show "a = b" by (simp add: unat_of_nat)
qed simp

lemma str_eq [simp]: "str a = str b \<longleftrightarrow> a = b"
  by (simp add: str_def inj_map_eq_map inj_def byte_of_char_eq)

lemma cstring_str [simp]: "cstring (str s) \<longleftrightarrow> CHR 0x00 \<notin> set s"
proof -
  have "(of_nat (of_char c) :: byte) = 0 \<longleftrightarrow> c = CHR 0x00" for c using byte_of_char_eq [of c "CHR 0x00"] by simp
  then show ?thesis by (auto simp: cstring_def str_def image_iff)
qed

lemma strcmp_key [simp]: "cstring key \<Longrightarrow> CHR 0x00 \<notin> set s \<Longrightarrow> strcmp key (str s) = 0 \<longleftrightarrow> key = str s"
  by (rule strcmp_eq_0) simp_all

lemma scalar_node_cstring: "yaml_ok doc \<Longrightarrow> scalar_node doc i = Some v \<Longrightarrow> cstring v"
  unfolding yaml_ok_def scalar_node_def yaml_document_get_node_def
  by (auto split: if_splits yaml_node.splits simp: in_set_conv_nth)
     (metis (no_types, lifting) One_nat_def Suc_le_eq Suc_pred in_set_conv_nth nat_le_iff zero_less_nat_eq)

lemma scalar_list_cstring: "yaml_ok doc \<Longrightarrow> (k, v) \<in> set (scalar_list doc ps) \<Longrightarrow> cstring k \<and> cstring v"
proof (induction ps)
  case (Cons p ps)
  then show ?case by (cases p) (auto split: if_splits option.splits intro: scalar_node_cstring)
qed simp

lemma setting_cstring: "yaml_ok doc \<Longrightarrow> setting doc ps k = Some v \<Longrightarrow> cstring v"
  unfolding setting_def using scalar_list_cstring by (fastforce dest: map_of_SomeD)

definition key_cstrings :: "(bytes \<times> bytes) list \<Rightarrow> bool" where
  "key_cstrings l \<longleftrightarrow> (\<forall>(k, v)\<in>set l. cstring k)"

lemma key_cstrings_scalar_list: "yaml_ok doc \<Longrightarrow> key_cstrings (scalar_list doc ps)"
  unfolding key_cstrings_def using scalar_list_cstring by blast

text \<open>A field that a loop sets from the last value of a key.\<close>

lemma last_value:
  assumes "key_cstrings l"
    and "\<And>k v c. cstring k \<Longrightarrow> field (step k v c) = (if k = str key then g v else field c)"
  shows "field (fold (\<lambda>(k, v). step k v) l c) = (case map_of (rev l) (str key) of Some v \<Rightarrow> g v | None \<Rightarrow> field c)"
  using assms(1) by (induction l rule: rev_induct) (auto simp: key_cstrings_def assms(2))

lemma socks5_last_key:
  assumes "yaml_ok doc" "field no_keys = None"
    and "\<And>k v c. cstring k \<Longrightarrow> field (socks5_key k v c) = (if k = str key then Some v else field c)"
  shows "field (scalar_pairs socks5_key doc ps no_keys) = setting doc ps key"
  using last_value [OF key_cstrings_scalar_list [OF assms(1)], of field socks5_key key Some, OF assms(3)] assms(2)
  by (simp add: scalar_pairs_fold setting_def split: option.split)

lemma socks5_keys_settings:
  assumes "yaml_ok doc"
  shows "scalar_pairs socks5_key doc ps no_keys =
    \<lparr>k_addr = setting doc ps ''address'', k_port = setting doc ps ''port'', k_udpm = setting doc ps ''udp'',
     k_udpa = setting doc ps ''udp-address'', k_user = setting doc ps ''username'', k_pass = setting doc ps ''password'',
     k_mark = setting doc ps ''mark'', k_pipe = setting doc ps ''pipeline''\<rparr>" (is "?l = _")
proof -
  have "k_addr ?l = setting doc ps ''address''" "k_port ?l = setting doc ps ''port''" "k_udpm ?l = setting doc ps ''udp''"
    "k_udpa ?l = setting doc ps ''udp-address''" "k_user ?l = setting doc ps ''username''"
    "k_pass ?l = setting doc ps ''password''" "k_mark ?l = setting doc ps ''mark''" "k_pipe ?l = setting doc ps ''pipeline''"
    by (rule socks5_last_key [OF assms]; simp add: socks5_key_def no_keys_def)+
  then show ?thesis by simp
qed

definition server_view :: "HevConfig \<Rightarrow> HevConfigServer \<Rightarrow> bool" where
  "server_view c srv \<longleftrightarrow>
     cstr (cfg_udp_addr c) = Some (srv_udp_addr srv) \<and> cstr (cfg_addr c) = Some (srv_addr srv) \<and>
     srv_user srv = (if cfg_user_set c then cstr (cfg_user c) else None) \<and>
     srv_pass srv = (if cfg_pass_set c then cstr (cfg_pass c) else None) \<and>
     srv_mark srv = cfg_mark c \<and> srv_udp_in_udp srv = cfg_udp_in_udp c \<and> srv_port srv = cfg_port c \<and>
     srv_pipeline srv = cfg_pipeline c"

definition server_ok :: "HevConfigServer \<Rightarrow> bool" where
  "server_ok srv \<longleftrightarrow> length (srv_udp_addr srv) < 256 \<and> length (srv_addr srv) < 256 \<and>
     (srv_user srv = None \<longleftrightarrow> srv_pass srv = None) \<and> (\<forall>u. srv_user srv = Some u \<longrightarrow> length u < 256) \<and>
     (\<forall>p. srv_pass srv = Some p \<longrightarrow> length p < 256)"

lemma socks5_server_view:
  assumes "config_ok c"
  shows "\<exists>srv. hev_config_get_socks5_server c = Some srv \<and> server_view c srv \<and> server_ok srv"
proof -
  obtain u p a b where "cstr (cfg_user c) = Some u" "cstr (cfg_pass c) = Some p" "cstr (cfg_udp_addr c) = Some a"
      "cstr (cfg_addr c) = Some b" "length u < 256" "length p < 256" "length a < 256" "length b < 256"
    using assms unfolding config_ok_def by (meson array_ok_cstr)
  moreover have "cfg_user_set c = cfg_pass_set c" using assms by (simp add: config_ok_def)
  ultimately show ?thesis by (simp add: hev_config_get_socks5_server_def server_view_def server_ok_def)
qed

lemma socks5_apply_fields:
  "cfg_addr (socks5_apply addr port l c) = buf_strncpy 255 addr (cfg_addr c)"
  "cfg_port (socks5_apply addr port l c) = ucast (strtoul 10 port)"
  "cfg_udp_addr (socks5_apply addr port l c) =
     (case k_udpa l of Some a \<Rightarrow> buf_strncpy 255 a (cfg_udp_addr c) | None \<Rightarrow> cfg_udp_addr c)"
  "cfg_mark (socks5_apply addr port l c) = (case k_mark l of Some m \<Rightarrow> ucast (strtoul 0 m) | None \<Rightarrow> cfg_mark c)"
  "cfg_pipeline (socks5_apply addr port l c) \<longleftrightarrow>
     cfg_pipeline c \<or> (\<exists>p. k_pipe l = Some p \<and> strcasecmp p (str ''true'') = 0)"
  "cfg_udp_in_udp (socks5_apply addr port l c) \<longleftrightarrow>
     cfg_udp_in_udp c \<or> (\<exists>u. k_udpm l = Some u \<and> strcasecmp u (str ''udp'') = 0)"
  by (simp_all add: socks5_apply_def Let_def split: option.split)

lemma socks5_apply_creds:
  "k_user l = Some u \<Longrightarrow> k_pass l = Some p \<Longrightarrow>
     cfg_user (socks5_apply addr port l c) = buf_strncpy 255 u (cfg_user c) \<and>
     cfg_pass (socks5_apply addr port l c) = buf_strncpy 255 p (cfg_pass c) \<and>
     cfg_user_set (socks5_apply addr port l c) \<and> cfg_pass_set (socks5_apply addr port l c)"
  "k_user l = None \<Longrightarrow>
     cfg_user (socks5_apply addr port l c) = cfg_user c \<and> cfg_pass (socks5_apply addr port l c) = cfg_pass c \<and>
     cfg_user_set (socks5_apply addr port l c) = cfg_user_set c \<and> cfg_pass_set (socks5_apply addr port l c) = cfg_pass_set c"
  by (simp_all add: socks5_apply_def Let_def split: option.split)

lemma parse_socks5_spec:
  assumes c: "config_ok c" and y: "yaml_ok doc" and old: "hev_config_get_socks5_server c = Some old"
  shows "map_prod id hev_config_get_socks5_server (hev_config_parse_socks5 doc (Some (YAML_MAPPING_NODE ps)) c) =
    map_prod id Some (socks5_spec (setting doc ps) old)"
proof -
  let ?v = "setting doc ps"
  define l where "l = scalar_pairs socks5_key doc ps no_keys"
  have l: "k_addr l = ?v ''address''" "k_port l = ?v ''port''" "k_udpm l = ?v ''udp''" "k_udpa l = ?v ''udp-address''"
      "k_user l = ?v ''username''" "k_pass l = ?v ''password''" "k_mark l = ?v ''mark''" "k_pipe l = ?v ''pipeline''"
    using socks5_keys_settings [OF y, of ps] by (simp_all add: l_def)
  have cs: "cstring v" if "?v k = Some v" for k v using setting_cstring [OF y that] .
  have a: "array_ok (Suc 255) (cfg_addr c)" "array_ok (Suc 255) (cfg_udp_addr c)" "array_ok (Suc 255) (cfg_user c)"
      "array_ok (Suc 255) (cfg_pass c)" "cfg_user_set c = cfg_pass_set c"
    using c by (simp_all add: config_ok_def)
  have s: "server_view c old" using socks5_server_view [OF c] old by auto
  have "hev_config_get_socks5_server (socks5_apply addr port l c) = Some (snd (socks5_spec ?v old))"
    if k: "?v ''address'' = Some addr" "?v ''port'' = Some port" "(?v ''username'' = None) = (?v ''password'' = None)" for addr port
  proof -
    let ?c = "socks5_apply addr port l c"
    obtain n where n: "hev_config_get_socks5_server ?c = Some n" "server_view ?c n"
      using socks5_server_view [OF socks5_apply_ok [OF c, of addr port l]] by blast
    have 1: "srv_addr n = take 255 addr"
      using n(2) cstr_strncpy [OF a(1) cs [OF k(1)]] by (simp add: socks5_apply_fields server_view_def)
    have 2: "srv_udp_addr n = (case ?v ''udp-address'' of Some a \<Rightarrow> take 255 a | None \<Rightarrow> srv_udp_addr old)"
      using n(2) s cstr_strncpy [OF a(2) cs] by (auto simp: socks5_apply_fields server_view_def l split: option.splits)
    have 3: "srv_user n = (case ?v ''username'' of Some u \<Rightarrow> Some (take 255 u) | None \<Rightarrow> srv_user old)"
      "srv_pass n = (case ?v ''password'' of Some p \<Rightarrow> Some (take 255 p) | None \<Rightarrow> srv_pass old)"
      using n(2) s k(3) cstr_strncpy [OF a(3) cs] cstr_strncpy [OF a(4) cs] socks5_apply_creds [of l] l(5,6)
      by (cases "?v ''username''"; cases "?v ''password''"; simp add: server_view_def)+
    have 4: "srv_mark n = cfg_mark ?c" "srv_udp_in_udp n = cfg_udp_in_udp ?c" "srv_port n = cfg_port ?c" "srv_pipeline n = cfg_pipeline ?c"
      "srv_mark old = cfg_mark c" "srv_udp_in_udp old = cfg_udp_in_udp c" "srv_pipeline old = cfg_pipeline c"
      using n(2) s by (simp_all add: server_view_def)
    have "n = snd (socks5_spec ?v old)"
      using 1 2 3 4 k by (intro HevConfigServer.equality) (simp_all add: socks5_spec_def socks5_apply_fields l cong: option.case_cong)
    then show ?thesis using n(1) by simp
  qed
  then show ?thesis
    using old l by (auto simp: hev_config_parse_socks5_def l_def [symmetric] Let_def socks5_spec_def split: option.splits)
qed

text \<open>The two timeouts: the key of the kind, else the common key, else what was set before; only positive values count.\<close>

definition setting_int :: "yaml_document \<Rightarrow> (int \<times> int) list \<Rightarrow> string \<Rightarrow> int" where
  "setting_int doc ps key = (case setting doc ps key of Some v \<Rightarrow> to_int (strtoul 10 v) | None \<Rightarrow> - 1)"

definition timeout_spec :: "int \<Rightarrow> int \<Rightarrow> int \<Rightarrow> int" where
  "timeout_spec own common old = (if 0 < own then own else if 0 < common then common else old)"

lemma misc_last_key:
  assumes "yaml_ok doc" "field (snd cl) = - 1"
    and "\<And>k v c. cstring k \<Longrightarrow>
      field (snd (misc_key k v c)) = (if k = str key then to_int (strtoul 10 v) else field (snd c))"
  shows "field (snd (scalar_pairs misc_key doc ps cl)) = setting_int doc ps key"
  using last_value [OF key_cstrings_scalar_list [OF assms(1)], of "\<lambda>cl. field (snd cl)" misc_key key, OF assms(3)] assms(2)
  by (simp add: scalar_pairs_fold setting_int_def setting_def cong: option.case_cong)

lemma misc_pairs_timeouts:
  "cfg_tcp_read_write_timeout (fst (scalar_pairs misc_key doc ps cl)) = cfg_tcp_read_write_timeout (fst cl)"
  "cfg_udp_read_write_timeout (fst (scalar_pairs misc_key doc ps cl)) = cfg_udp_read_write_timeout (fst cl)"
  unfolding scalar_pairs_fold
  by (rule fold_invariant_pairs; clarsimp simp: misc_key_def Let_def)+

lemma parse_misc_timeouts:
  assumes "yaml_ok doc"
  shows "cfg_tcp_read_write_timeout (snd (hev_config_parse_misc doc (Some (YAML_MAPPING_NODE ps)) c)) =
      timeout_spec (setting_int doc ps ''tcp-read-write-timeout'') (setting_int doc ps ''read-write-timeout'')
        (cfg_tcp_read_write_timeout c)"
    "cfg_udp_read_write_timeout (snd (hev_config_parse_misc doc (Some (YAML_MAPPING_NODE ps)) c)) =
      timeout_spec (setting_int doc ps ''udp-read-write-timeout'') (setting_int doc ps ''read-write-timeout'')
        (cfg_udp_read_write_timeout c)"
proof -
  let ?l = "\<lparr>l_tcp_rw_timeout = - 1, l_udp_rw_timeout = - 1, l_rw_timeout = - 1\<rparr>"
  let ?r = "scalar_pairs misc_key doc ps (c, ?l)"
  have "l_tcp_rw_timeout (snd ?r) = setting_int doc ps ''tcp-read-write-timeout''"
    "l_udp_rw_timeout (snd ?r) = setting_int doc ps ''udp-read-write-timeout''"
    "l_rw_timeout (snd ?r) = setting_int doc ps ''read-write-timeout''"
    by (rule misc_last_key [OF assms]; simp add: misc_key_def Let_def split: prod.split)+
  moreover obtain c1 l1 where r: "?r = (c1, l1)" by force
  ultimately show "cfg_tcp_read_write_timeout (snd (hev_config_parse_misc doc (Some (YAML_MAPPING_NODE ps)) c)) =
      timeout_spec (setting_int doc ps ''tcp-read-write-timeout'') (setting_int doc ps ''read-write-timeout'')
        (cfg_tcp_read_write_timeout c)"
    "cfg_udp_read_write_timeout (snd (hev_config_parse_misc doc (Some (YAML_MAPPING_NODE ps)) c)) =
      timeout_spec (setting_int doc ps ''udp-read-write-timeout'') (setting_int doc ps ''read-write-timeout'')
        (cfg_udp_read_write_timeout c)"
    using misc_pairs_timeouts [of doc ps "(c, ?l)"]
    by (simp_all add: hev_config_parse_misc_def misc_timeouts_def timeout_spec_def Let_def)
qed

section \<open>Sizes\<close>

definition nums_ok :: "int \<Rightarrow> bool" where
  "nums_ok n \<longleftrightarrow> - 1431655 \<le> n \<and> n \<le> 1431642"

lemma adjust_sizes_ok:
  "case adjust_sizes c of
     None \<Rightarrow> \<not> nums_ok (cfg_udp_copy_buffer_nums c)
   | Some c' \<Rightarrow> nums_ok (cfg_udp_copy_buffer_nums c) \<and> (config_ok c \<longrightarrow> config_ok c') \<and> cfg_tcp_buffer_size c' \<le> TCP_SND_BUF \<and>
       TASK_STACK_SIZE + cfg_tcp_buffer_size c' \<le> cfg_task_stack_size c' \<and>
       TASK_STACK_SIZE + UDP_BUF_SIZE * cfg_udp_copy_buffer_nums c' \<le> cfg_task_stack_size c'"
  by (auto simp: adjust_sizes_def Let_def nums_ok_def config_ok_def int_ok_def TCP_SND_BUF_def UDP_BUF_SIZE_def TASK_STACK_SIZE_def)

section \<open>An example\<close>

definition doc_example :: yaml_document where
  "doc_example =
     [YAML_MAPPING_NODE [(2, 3), (8, 9)], YAML_SCALAR_NODE (str ''socks5''), YAML_MAPPING_NODE [(4, 5), (6, 7)],
      YAML_SCALAR_NODE (str ''address''), YAML_SCALAR_NODE (str ''10.0.0.1''),
      YAML_SCALAR_NODE (str ''port''), YAML_SCALAR_NODE (str ''1080''),
      YAML_SCALAR_NODE (str ''misc''), YAML_MAPPING_NODE [(10, 11), (12, 13)],
      YAML_SCALAR_NODE (str ''tcp-buffer-size''), YAML_SCALAR_NODE (str ''100000''),
      YAML_SCALAR_NODE (str ''read-write-timeout''), YAML_SCALAR_NODE (str ''5000'')]"

lemma config_defaults_sizes:
  "cfg_task_stack_size config_defaults = 86016" "cfg_udp_copy_buffer_nums config_defaults = 10"
  "cfg_tcp_buffer_size config_defaults = 65536"
  by (simp_all add: config_defaults_def)

lemma yaml_example:
  "yaml_document_get_root_node doc_example = Some (YAML_MAPPING_NODE [(2, 3), (8, 9)])"
  "yaml_ok doc_example"
  by (simp_all add: doc_example_def yaml_document_get_root_node_def yaml_ok_def)

lemmas yaml_eval = doc_example_def scalar_node_def yaml_document_get_node_def nth_Cons'

lemma strtoul_example: "to_int (strtoul 10 (str ''100000'')) = 100000" "to_int (strtoul 10 (str ''5000'')) = 5000"
  by code_simp+

lemma root_pairs_example:
  "root_pairs pton doc_example [(2, 3), (8, 9)] c =
    (0, misc_timeouts ((socks5_apply (str ''10.0.0.1'') (str ''1080'')
           (no_keys\<lparr>k_addr := Some (str ''10.0.0.1''), k_port := Some (str ''1080'')\<rparr>) c)\<lparr>cfg_tcp_buffer_size := 100000\<rparr>,
         \<lparr>l_tcp_rw_timeout = - 1, l_udp_rw_timeout = - 1, l_rw_timeout = 5000\<rparr>))"
  by (simp add: yaml_eval parse_section_def hev_config_parse_socks5_def hev_config_parse_misc_def Let_def socks5_key_def
        misc_key_def no_keys_def strtoul_example)

lemma parse_doc_example:
  "\<exists>c'. hev_config_parse_doc pton doc_example config_defaults = Some (0, c') \<and> cfg_tcp_buffer_size c' = 65528 \<and>
     cfg_task_stack_size c' = 86016"
  by (simp add: hev_config_parse_doc_def yaml_example root_pairs_example adjust_sizes_def misc_timeouts_def socks5_apply_def
        no_keys_def config_defaults_sizes Let_def int_ok_def TCP_SND_BUF_def UDP_BUF_SIZE_def TASK_STACK_SIZE_def
      del: root_pairs.simps)

lemma config_defaults_server:
  "hev_config_get_socks5_server config_defaults =
     Some \<lparr>srv_user = None, srv_pass = None, srv_mark = 0, srv_udp_in_udp = False, srv_port = 0, srv_pipeline = False,
       srv_udp_addr = [], srv_addr = []\<rparr>"
proof -
  have "cstr (replicate 256 0) = Some []" by (simp add: numeral_eq_Suc)
  then show ?thesis by (simp add: hev_config_get_socks5_server_def config_defaults_def)
qed

section \<open>What the parser does not check\<close>

text \<open>Settings are never reset: a section without credentials keeps those of an earlier configuration.\<close>

lemma config_keeps_credentials:
  assumes "config_ok c" "hev_config_get_socks5_server c = Some old"
  shows "\<exists>c' srv. hev_config_parse_socks5 doc_example (Some (YAML_MAPPING_NODE [(4, 5), (6, 7)])) c = (0, c') \<and>
    hev_config_get_socks5_server c' = Some srv \<and> srv_user srv = srv_user old \<and> srv_pass srv = srv_pass old"
  using parse_socks5_spec [OF assms(1) yaml_example(2) assms(2), of "[(4, 5), (6, 7)]"]
  by (cases "hev_config_parse_socks5 doc_example (Some (YAML_MAPPING_NODE [(4, 5), (6, 7)])) c")
     (simp add: socks5_spec_def setting_def yaml_eval)

text \<open>Nor is the byte order: every section about the mapped DNS swaps the network and its mask once more.\<close>

lemma config_swaps_network_again:
  "cfg_mapdns_network (snd (hev_config_parse_mapdns pton doc (Some (YAML_MAPPING_NODE [])) (c\<lparr>cfg_mapdns_network := 0x0a000000\<rparr>))) = 0x0000000a"
  by (simp add: hev_config_parse_mapdns_def Let_def ntohl_def)

text \<open>A negative buffer size is accepted.\<close>

lemma config_negative_buffer:
  "\<exists>c'. adjust_sizes (config_defaults\<lparr>cfg_tcp_buffer_size := to_int (strtoul 10 (str ''-1''))\<rparr>) = Some c' \<and> cfg_tcp_buffer_size c' = - 1"
proof -
  have "to_int (strtoul 10 (str ''-1'')) = - 1" by code_simp
  then show ?thesis
    by (simp add: adjust_sizes_def Let_def int_ok_def config_defaults_sizes TCP_SND_BUF_def UDP_BUF_SIZE_def TASK_STACK_SIZE_def)
qed

section \<open>Properties\<close>

lemma root_pairs_result: "fst (root_pairs pton doc ps c) \<in> {0, - 1}"
  by (induction pton doc ps c rule: root_pairs.induct) (auto split: option.split prod.split)

lemma array_ptr_ok: "array_ok n buf \<Longrightarrow> array_ptr buf \<noteq> Some None"
  using array_ok_cstr [of n buf] by (auto simp: array_ptr_def)

text \<open>
  C30. Reading the configuration. From well-formed settings, for every document: the parser returns, unless the number of
  UDP buffers is so large that its product overflows; whether it succeeds or fails, every character array keeps its size and
  its terminator, so that every accessor hands out a string that ends in its array, and user and password are set together
  and short enough for the protocol's length byte. On success the TCP buffer does not exceed lwIP's send buffer, and the
  stack of a task has room for it and for the UDP buffers.
\<close>

theorem config_parse_ok:
  assumes "config_ok c"
  shows "case hev_config_parse_doc pton doc c of
    None \<Rightarrow> \<exists>ps. yaml_document_get_root_node doc = Some (YAML_MAPPING_NODE ps) \<and>
      \<not> nums_ok (cfg_udp_copy_buffer_nums (snd (root_pairs pton doc ps c)))
  | Some (res, c') \<Rightarrow>
      config_ok c' \<and> (\<exists>srv. hev_config_get_socks5_server c' = Some srv \<and> server_ok srv) \<and>
      hev_config_get_tunnel_name c' \<noteq> Some None \<and> hev_config_get_tunnel_ipv4_address c' \<noteq> Some None \<and>
      hev_config_get_tunnel_ipv6_address c' \<noteq> Some None \<and> hev_config_get_tunnel_post_up_script c' \<noteq> Some None \<and>
      hev_config_get_tunnel_pre_down_script c' \<noteq> Some None \<and> hev_config_get_misc_pid_file c' \<noteq> Some None \<and>
      hev_config_get_misc_log_file c' \<noteq> None \<and>
      (res = - 1 \<or> res = 0 \<and> cfg_tcp_buffer_size c' \<le> TCP_SND_BUF \<and>
         TASK_STACK_SIZE + cfg_tcp_buffer_size c' \<le> cfg_task_stack_size c' \<and>
         TASK_STACK_SIZE + UDP_BUF_SIZE * cfg_udp_copy_buffer_nums c' \<le> cfg_task_stack_size c')"
proof -
  have ok: "(\<exists>srv. hev_config_get_socks5_server d = Some srv \<and> server_ok srv) \<and>
      hev_config_get_tunnel_name d \<noteq> Some None \<and> hev_config_get_tunnel_ipv4_address d \<noteq> Some None \<and>
      hev_config_get_tunnel_ipv6_address d \<noteq> Some None \<and> hev_config_get_tunnel_post_up_script d \<noteq> Some None \<and>
      hev_config_get_tunnel_pre_down_script d \<noteq> Some None \<and> hev_config_get_misc_pid_file d \<noteq> Some None \<and>
      hev_config_get_misc_log_file d \<noteq> None" if "config_ok d" for d
    using socks5_server_view [OF that] that array_ptr_ok array_ok_cstr [of 1024 "cfg_log_file d"]
    unfolding config_ok_def hev_config_get_tunnel_name_def hev_config_get_tunnel_ipv4_address_def
      hev_config_get_tunnel_ipv6_address_def hev_config_get_tunnel_post_up_script_def
      hev_config_get_tunnel_pre_down_script_def hev_config_get_misc_pid_file_def hev_config_get_misc_log_file_def
    by auto
  show ?thesis
  proof (cases "\<exists>ps. yaml_document_get_root_node doc = Some (YAML_MAPPING_NODE ps)")
    case True
    then obtain ps where ps: "yaml_document_get_root_node doc = Some (YAML_MAPPING_NODE ps)" ..
    obtain res d where r: "root_pairs pton doc ps c = (res, d)" by force
    have d: "config_ok d" "res = 0 \<or> res = - 1"
      using root_pairs_ok [OF assms, of pton doc ps] root_pairs_result [of pton doc ps c] r by auto
    show ?thesis
      using ps r d ok adjust_sizes_ok [of d] by (auto simp: hev_config_parse_doc_def split: option.splits)
  next
    case False
    then have "hev_config_parse_doc pton doc c = Some (- 1, c)"
      by (auto simp: hev_config_parse_doc_def split: option.split yaml_node.split)
    then show ?thesis using assms ok [OF assms] by simp
  qed
qed

theorem config_parse_ok_witness:
  "\<exists>c'. hev_config_parse_doc (\<lambda>_. None) doc_example config_defaults = Some (0, c') \<and> config_ok c' \<and>
     cfg_tcp_buffer_size c' = 65528 \<and> TASK_STACK_SIZE + 65528 \<le> cfg_task_stack_size c'"
proof -
  obtain c' where "hev_config_parse_doc (\<lambda>_. None) doc_example config_defaults = Some (0, c')" "cfg_tcp_buffer_size c' = 65528"
    using parse_doc_example by blast
  then show ?thesis using config_parse_ok [OF config_defaults_ok, where pton = "\<lambda>_. None" and doc = doc_example] by simp
qed

text \<open>
  C31. The server and timeouts a document names. The section of the proxy server fails, changing nothing, when the address or the
  port is missing or only one of user and password is given; otherwise the server structure holds the last value of each key,
  cut to 255 bytes, numbers as \<^verbatim>\<open>strtoul\<close> reads them, and what the section does not mention as it was. The section of the other
  settings sets each read-write timeout to its own key if that is positive, else to the common key if that is positive, else
  not at all.
\<close>

theorem config_sections_ok:
  assumes "config_ok c" "yaml_ok doc" "hev_config_get_socks5_server c = Some old"
  shows "map_prod id hev_config_get_socks5_server (hev_config_parse_socks5 doc (Some (YAML_MAPPING_NODE ps)) c) =
      map_prod id Some (socks5_spec (setting doc ps) old) \<and>
    cfg_tcp_read_write_timeout (snd (hev_config_parse_misc doc (Some (YAML_MAPPING_NODE qs)) c)) =
      timeout_spec (setting_int doc qs ''tcp-read-write-timeout'') (setting_int doc qs ''read-write-timeout'')
        (cfg_tcp_read_write_timeout c) \<and>
    cfg_udp_read_write_timeout (snd (hev_config_parse_misc doc (Some (YAML_MAPPING_NODE qs)) c)) =
      timeout_spec (setting_int doc qs ''udp-read-write-timeout'') (setting_int doc qs ''read-write-timeout'')
        (cfg_udp_read_write_timeout c)"
  using parse_socks5_spec [OF assms, of ps] parse_misc_timeouts [OF assms(2), of qs c] by simp_all

theorem config_sections_ok_witness:
  "map_prod id hev_config_get_socks5_server
     (hev_config_parse_socks5 doc_example (Some (YAML_MAPPING_NODE [(4, 5), (6, 7)])) config_defaults) =
   (0, Some \<lparr>srv_user = None, srv_pass = None, srv_mark = 0, srv_udp_in_udp = False, srv_port = 1080, srv_pipeline = False,
       srv_udp_addr = [], srv_addr = str ''10.0.0.1''\<rparr>) \<and>
   cfg_tcp_read_write_timeout (snd (hev_config_parse_misc doc_example (Some (YAML_MAPPING_NODE [(10, 11), (12, 13)])) config_defaults)) = 5000"
proof -
  have "ucast (strtoul 10 (str ''1080'')) = (1080 :: u16)" by code_simp
  moreover have "take 255 (str ''10.0.0.1'') = str ''10.0.0.1''" by (simp add: str_def)
  ultimately show ?thesis
    using config_sections_ok [OF config_defaults_ok yaml_example(2) config_defaults_server, where ps = "[(4, 5), (6, 7)]" and qs = "[(10, 11), (12, 13)]"]
    by (simp add: socks5_spec_def timeout_spec_def setting_int_def setting_def yaml_eval strtoul_example)
qed

end
