(* ===== verification/Tunnel.thy ===== *)
theory Tunnel
  imports HevConfig SessionSet HevMappedDNSWire LwipAddr
begin

text \<open>
  The life of the tunnel: the static variables of \<^verbatim>\<open>hev-socks5-tunnel.c\<close>, its initialisation and finalisation, the Linux
  device of \<^verbatim>\<open>hev-tunnel-linux.c\<close> they open and configure, and the request to stop. Beside the static variables the state
  keeps what the process holds (open descriptors, lwIP's control blocks, references to tasks) and what the system will
  answer: the descriptors, the results of \<^verbatim>\<open>ioctl\<close>, and the blocks lwIP and the task system allocate. \<open>None\<close> is the use of
  a block that is not allocated, or of NULL.
\<close>

section \<open>State\<close>

datatype ioctl_result = IoctlOk | IoctlExists | IoctlFailed

record HevTunnel = HevSocks5Tunnel +
  tun_fd :: int
  tun_fd_local :: bool
  event_fd0 :: int
  event_fd1 :: int
  stat_tx_packets :: u64
  stat_rx_packets :: u64
  stat_tx_bytes :: u64
  stat_rx_bytes :: u64
  netif_added :: bool
  tcp_pcb :: ptr
  udp_pcb :: ptr
  task_event :: ptr
  task_lwip_io :: ptr
  task_lwip_timer :: ptr
  singleton :: "HevMappedDNS option"
  tun_name :: bytes
  tfds :: "int set"
  pcbs :: "ptr set"
  task_refs :: "ptr \<Rightarrow> nat"
  scripts_run :: "bytes list"
  fd_script :: "int list"
  ioctl_script :: "ioctl_result list"
  pcb_script :: "ptr list"
  task_script :: "ptr list"
  ifname_of :: "bytes \<Rightarrow> bytes"
  pbufs_held :: int
  lwip_in :: "bytes list"
  tun_out :: "bytes list"
  dns_replies :: "bytes list"
  tcp_ticks :: nat
  slow_ticks :: nat

section \<open>The system\<close>

definition sys_fd :: "HevTunnel \<Rightarrow> int \<times> HevTunnel" where
  "sys_fd g =
     (case fd_script g of
        [] \<Rightarrow> (- 1, g)
      | d # ds \<Rightarrow> (d, g\<lparr>fd_script := ds, tfds := (if 0 \<le> d then insert d (tfds g) else tfds g)\<rparr>))"

definition close_fd :: "int \<Rightarrow> HevTunnel \<Rightarrow> HevTunnel" where
  "close_fd d g = g\<lparr>tfds := tfds g - {d}\<rparr>"

definition sys_ioctl :: "HevTunnel \<Rightarrow> ioctl_result \<times> HevTunnel" where
  "sys_ioctl g = (case ioctl_script g of [] \<Rightarrow> (IoctlOk, g) | r # rs \<Rightarrow> (r, g\<lparr>ioctl_script := rs\<rparr>))"

definition ioctl_res :: "ioctl_result \<Rightarrow> int" where
  "ioctl_res r = (if r = IoctlOk then 0 else - 1)"

definition alloc_pcb :: "HevTunnel \<Rightarrow> ptr \<times> HevTunnel" where
  "alloc_pcb g =
     (case pcb_script g of
        [] \<Rightarrow> (NULL, g)
      | p # ps \<Rightarrow> (p, g\<lparr>pcb_script := ps, pcbs := (if p = NULL then pcbs g else insert p (pcbs g))\<rparr>))"

text \<open>\<^verbatim>\<open>udp_remove\<close> and \<^verbatim>\<open>tcp_close\<close> of a listener return at once for NULL and free the block otherwise.\<close>

definition free_pcb :: "ptr \<Rightarrow> HevTunnel \<Rightarrow> HevTunnel option" where
  "free_pcb p g = (if p = NULL then Some g else if p \<in> pcbs g then Some (g\<lparr>pcbs := pcbs g - {p}\<rparr>) else None)"

text \<open>\<^verbatim>\<open>tcp_listen\<close> gives the connection's block back for a smaller one, or keeps it and returns NULL.\<close>

definition tcp_listen :: "ptr \<Rightarrow> HevTunnel \<Rightarrow> ptr \<times> HevTunnel" where
  "tcp_listen p g =
     (let (q, g) = alloc_pcb g in if q = NULL then (NULL, g) else (q, g\<lparr>pcbs := pcbs g - {p}\<rparr>))"

definition hev_task_new :: "HevTunnel \<Rightarrow> ptr \<times> HevTunnel" where
  "hev_task_new g =
     (case task_script g of
        [] \<Rightarrow> (NULL, g)
      | p # ps \<Rightarrow> (p, g\<lparr>task_script := ps, task_refs := (if p = NULL then task_refs g else (task_refs g)(p := 1))\<rparr>))"

definition hev_task_ref :: "ptr \<Rightarrow> HevTunnel \<Rightarrow> HevTunnel" where
  "hev_task_ref p g = g\<lparr>task_refs := (task_refs g)(p := task_refs g p + 1)\<rparr>"

definition hev_task_unref :: "ptr \<Rightarrow> HevTunnel \<Rightarrow> HevTunnel option" where
  "hev_task_unref p g =
     (if task_refs g p = 0 then None else Some (g\<lparr>task_refs := (task_refs g)(p := task_refs g p - 1)\<rparr>))"

section \<open>The device\<close>

definition hev_tunnel_open :: "bytes option \<Rightarrow> bool \<Rightarrow> HevTunnel \<Rightarrow> int \<times> HevTunnel" where
  "hev_tunnel_open name multi_queue g =
     (let (d, g) = sys_fd g
      in if d < 0 then (- 1, g)
         else
           let ifr_name = (case name of
                             Some n \<Rightarrow> buf_strncpy (16 - 1) n (replicate 16 0)
                           | None \<Rightarrow> replicate 16 0);
               (r, g) = sys_ioctl g;
               res = ioctl_res r
           in if res < 0 then (res, close_fd d g)
              else (d, g\<lparr>tun_name := ifname_of g ifr_name\<rparr>))"

definition hev_tunnel_close :: "int \<Rightarrow> HevTunnel \<Rightarrow> HevTunnel" where
  "hev_tunnel_close d g = close_fd d g"

definition hev_tunnel_set_mtu :: "u32 \<Rightarrow> HevTunnel \<Rightarrow> int \<times> HevTunnel" where
  "hev_tunnel_set_mtu mtu g =
     (let (d, g) = sys_fd g
      in if d < 0 then (- 1, g)
         else let (r, g) = sys_ioctl g in (ioctl_res r, close_fd d g))"

definition hev_tunnel_set_state :: "bool \<Rightarrow> HevTunnel \<Rightarrow> int \<times> HevTunnel" where
  "hev_tunnel_set_state st g =
     (let (d, g) = sys_fd g
      in if d < 0 then (- 1, g)
         else
           let (r, g) = sys_ioctl g; res = ioctl_res r
           in if res < 0 then (res, close_fd d g)
              else let (r, g) = sys_ioctl g in (ioctl_res r, close_fd d g))"

definition hev_tunnel_set_ipv4 :: "resolver \<Rightarrow> bytes \<Rightarrow> HevTunnel \<Rightarrow> int \<times> HevTunnel" where
  "hev_tunnel_set_ipv4 rs addr g =
     (let (d, g) = sys_fd g
      in if d < 0 then (- 1, g)
         else case pton4 rs addr of
           None \<Rightarrow> (0, close_fd d g)
         | Some _ \<Rightarrow>
             let (r, g) = sys_ioctl g; res = ioctl_res r
             in if res < 0 then (res, close_fd d g)
                else
                  let (r, g) = sys_ioctl g
                  in (if r = IoctlExists then 0 else ioctl_res r, close_fd d g))"

definition hev_tunnel_set_ipv6 :: "resolver \<Rightarrow> bytes \<Rightarrow> HevTunnel \<Rightarrow> int \<times> HevTunnel" where
  "hev_tunnel_set_ipv6 rs addr g =
     (let (d, g) = sys_fd g
      in if d < 0 then (- 1, g)
         else
           let (r, g) = sys_ioctl g; res = ioctl_res r
           in if res < 0 then (res, close_fd d g)
              else case pton6 rs addr of
                None \<Rightarrow> (0, close_fd d g)
              | Some _ \<Rightarrow>
                  let (r, g) = sys_ioctl g
                  in (if r = IoctlExists then 0 else ioctl_res r, close_fd d g))"

definition hev_exec_run :: "bytes \<Rightarrow> HevTunnel \<Rightarrow> HevTunnel" where
  "hev_exec_run script_path g = g\<lparr>scripts_run := scripts_run g @ [script_path]\<rparr>"

section \<open>Initialisation and finalisation\<close>

text \<open>A step of the form \<^verbatim>\<open>if (res < 0) return -1;\<close>, and a call for a setting that may be absent.\<close>

definition and_then :: "(int \<times> 's) option \<Rightarrow> ('s \<Rightarrow> (int \<times> 's) option) \<Rightarrow> (int \<times> 's) option" where
  "and_then r f =
     (case r of None \<Rightarrow> None | Some (res, g) \<Rightarrow> if res < 0 then Some (- 1, g) else f g)"

definition if_set :: "bytes option option \<Rightarrow> (bytes \<Rightarrow> 's \<Rightarrow> int \<times> 's) \<Rightarrow> 's \<Rightarrow> (int \<times> 's) option" where
  "if_set v f g =
     (case v of None \<Rightarrow> Some (0, g) | Some None \<Rightarrow> None | Some (Some s) \<Rightarrow> Some (f s g))"

definition tunnel_setup :: "HevConfig \<Rightarrow> resolver \<Rightarrow> HevTunnel \<Rightarrow> (int \<times> HevTunnel) option" where
  "tunnel_setup cfg rs g =
     and_then (and_then (and_then (and_then
       (Some (hev_tunnel_set_mtu (hev_config_get_tunnel_mtu cfg) g))
       (if_set (hev_config_get_tunnel_ipv4_address cfg) (hev_tunnel_set_ipv4 rs)))
       (if_set (hev_config_get_tunnel_ipv6_address cfg) (hev_tunnel_set_ipv6 rs)))
       (\<lambda>g. Some (hev_tunnel_set_state True g)))
       (if_set (hev_config_get_tunnel_post_up_script cfg) (\<lambda>s g. (0, hev_exec_run s g)))"

definition tunnel_init :: "HevConfig \<Rightarrow> resolver \<Rightarrow> int \<Rightarrow> HevTunnel \<Rightarrow> (int \<times> HevTunnel) option" where
  "tunnel_init cfg rs extern_tun_fd g =
     (if 0 \<le> extern_tun_fd then
        let (r, g) = sys_ioctl g
        in if ioctl_res r < 0 then Some (- 1, g) else Some (0, g\<lparr>tun_fd := extern_tun_fd\<rparr>)
      else
        case hev_config_get_tunnel_name cfg of
          Some None \<Rightarrow> None
        | name \<Rightarrow>
            let (d, g) = hev_tunnel_open (Option.bind name id) (hev_config_get_tunnel_multi_queue cfg \<noteq> 0) g;
                g = g\<lparr>tun_fd := d\<rparr>
            in if tun_fd g < 0 then Some (- 1, g)
               else and_then (tunnel_setup cfg rs g) (\<lambda>g. Some (0, g\<lparr>tun_fd_local := True\<rparr>)))"

definition tunnel_fini :: "HevConfig \<Rightarrow> HevTunnel \<Rightarrow> HevTunnel option" where
  "tunnel_fini cfg g =
     (if \<not> tun_fd_local g then Some g
      else case if_set (hev_config_get_tunnel_pre_down_script cfg) (\<lambda>s g. (0, hev_exec_run s g)) g of
        None \<Rightarrow> None
      | Some (_, g) \<Rightarrow> Some ((hev_tunnel_close (tun_fd g) g)\<lparr>tun_fd_local := False, tun_fd := - 1\<rparr>))"

definition gateway_init :: "HevTunnel \<Rightarrow> (int \<times> HevTunnel) option" where
  "gateway_init g =
     (let g = g\<lparr>netif_added := True\<rparr>;
          (t, g) = alloc_pcb g
      in if t = NULL then None
         else
           let (t, g) = tcp_listen t g;
               g = g\<lparr>tcp_pcb := t\<rparr>;
               (u, g) = alloc_pcb g
           in if u = NULL then None
              else Some (0, g\<lparr>udp_pcb := u\<rparr>))"

definition gateway_fini :: "HevTunnel \<Rightarrow> HevTunnel option" where
  "gateway_fini g =
     (case free_pcb (udp_pcb g) g of
        None \<Rightarrow> None
      | Some g \<Rightarrow>
          (case free_pcb (tcp_pcb g) g of
             None \<Rightarrow> None
           | Some g \<Rightarrow> Some (g\<lparr>netif_added := False\<rparr>)))"

text \<open>\<^verbatim>\<open>socketpair\<close> takes an answer and two descriptors.\<close>

definition sys_socketpair :: "HevTunnel \<Rightarrow> int \<times> HevTunnel" where
  "sys_socketpair g =
     (let (r, g) = sys_ioctl g
      in if ioctl_res r < 0 then (- 1, g)
         else case fd_script g of
           a # b # ds \<Rightarrow>
             if a < 0 \<or> b < 0 then (- 1, g)
             else (0, g\<lparr>fd_script := ds, tfds := insert a (insert b (tfds g)), event_fd0 := a, event_fd1 := b\<rparr>)
         | _ \<Rightarrow> (- 1, g))"

definition event_task_init :: "HevTunnel \<Rightarrow> (int \<times> HevTunnel) option" where
  "event_task_init g =
     (let (res, g) = sys_socketpair g
      in if res < 0 then Some (- 1, g)
         else
           let (r, g) = sys_ioctl g
           in if ioctl_res r < 0 then Some (- 1, g)
              else
                let (t, g) = hev_task_new g; g = g\<lparr>task_event := t\<rparr>
                in Some (if t = NULL then - 1 else 0, g))"

text \<open>\<^verbatim>\<open>if (task) { hev_task_unref (task); task = NULL; }\<close> for one of the three.\<close>

definition task_fini :: "(HevTunnel \<Rightarrow> ptr) \<Rightarrow> (HevTunnel \<Rightarrow> HevTunnel) \<Rightarrow> HevTunnel \<Rightarrow> HevTunnel option" where
  "task_fini get clear g =
     (if get g \<noteq> NULL then map_option clear (hev_task_unref (get g) g) else Some g)"

definition event_task_fini :: "HevTunnel \<Rightarrow> HevTunnel option" where
  "event_task_fini g =
     (case task_fini task_event (\<lambda>g. g\<lparr>task_event := NULL\<rparr>) g of
        None \<Rightarrow> None
      | Some g \<Rightarrow>
          let g = (if 0 \<le> event_fd0 g then (close_fd (event_fd0 g) g)\<lparr>event_fd0 := - 1\<rparr> else g)
          in Some (if 0 \<le> event_fd1 g then (close_fd (event_fd1 g) g)\<lparr>event_fd1 := - 1\<rparr> else g))"

definition lwip_io_task_init :: "HevTunnel \<Rightarrow> (int \<times> HevTunnel) option" where
  "lwip_io_task_init g =
     (let (t, g) = hev_task_new g; g = g\<lparr>task_lwip_io := t\<rparr> in Some (if t = NULL then - 1 else 0, g))"

definition lwip_io_task_fini :: "HevTunnel \<Rightarrow> HevTunnel option" where
  "lwip_io_task_fini g = task_fini task_lwip_io (\<lambda>g. g\<lparr>task_lwip_io := NULL\<rparr>) g"

definition lwip_timer_task_init :: "HevTunnel \<Rightarrow> (int \<times> HevTunnel) option" where
  "lwip_timer_task_init g =
     (let (t, g) = hev_task_new g; g = g\<lparr>task_lwip_timer := t\<rparr> in Some (if t = NULL then - 1 else 0, g))"

definition lwip_timer_task_fini :: "HevTunnel \<Rightarrow> HevTunnel option" where
  "lwip_timer_task_fini g = task_fini task_lwip_timer (\<lambda>g. g\<lparr>task_lwip_timer := NULL\<rparr>) g"

text \<open>\<open>mem_ok\<close> and \<open>heap_blocks\<close> are whether there is memory for the cache and the blocks its nodes will be given.\<close>

definition mapped_dns_init :: "HevConfig \<Rightarrow> bool \<Rightarrow> ptr list \<Rightarrow> HevTunnel \<Rightarrow> (int \<times> HevTunnel) option" where
  "mapped_dns_init cfg mem_ok heap_blocks g =
     (if hev_config_get_mapdns_cache_size cfg = 0 then Some (0, g)
      else case hev_mapped_dns_new mem_ok heap_blocks (hev_config_get_mapdns_network cfg) (hev_config_get_mapdns_netmask cfg) (hev_config_get_mapdns_cache_size cfg) of
        None \<Rightarrow> Some (- 1, g)
      | Some dns \<Rightarrow> Some (0, g\<lparr>singleton := hev_mapped_dns_put (Some dns) (singleton g)\<rparr>))"

definition mapped_dns_fini :: "HevTunnel \<Rightarrow> HevTunnel option" where
  "mapped_dns_fini g =
     (case hev_mapped_dns_get (singleton g) of
        None \<Rightarrow> Some g
      | Some dns \<Rightarrow>
          (case hev_mapped_dns_destruct dns of
             None \<Rightarrow> None
           | Some _ \<Rightarrow> Some (g\<lparr>singleton := hev_mapped_dns_put None (singleton g)\<rparr>)))"

definition hev_socks5_tunnel_fini :: "HevConfig \<Rightarrow> HevTunnel \<Rightarrow> HevTunnel option" where
  "hev_socks5_tunnel_fini cfg g =
     (case Option.bind (Option.bind (Option.bind (Option.bind (Option.bind
          (mapped_dns_fini g) lwip_timer_task_fini) lwip_io_task_fini) event_task_fini) gateway_fini) (tunnel_fini cfg) of
        None \<Rightarrow> None
      | Some g \<Rightarrow> Some (g\<lparr>stat_tx_packets := 0, stat_rx_packets := 0, stat_tx_bytes := 0, stat_rx_bytes := 0\<rparr>))"

definition hev_socks5_tunnel_init ::
    "HevConfig \<Rightarrow> resolver \<Rightarrow> bool \<Rightarrow> ptr list \<Rightarrow> int \<Rightarrow> HevTunnel \<Rightarrow> (int \<times> HevTunnel) option" where
  "hev_socks5_tunnel_init cfg rs mem_ok heap_blocks extern_tun_fd g =
     (case and_then (and_then (and_then (and_then (and_then
          (tunnel_init cfg rs extern_tun_fd g) gateway_init) event_task_init) lwip_io_task_init) lwip_timer_task_init)
          (mapped_dns_init cfg mem_ok heap_blocks) of
        None \<Rightarrow> None
      | Some (res, g) \<Rightarrow>
          if res < 0 then map_option (Pair (- 1)) (hev_socks5_tunnel_fini cfg g) else Some (0, g))"

text \<open>\<open>exec\<close> is \<^verbatim>\<open>hev_task_system_run\<close> with the tasks that were started.\<close>

definition hev_socks5_tunnel_run :: "(HevTunnel \<Rightarrow> HevTunnel option) \<Rightarrow> HevTunnel \<Rightarrow> (int \<times> HevTunnel) option" where
  "hev_socks5_tunnel_run exec g =
     (let g = hev_task_ref (task_event g) g;
          g = hev_task_ref (task_lwip_io g) g;
          g = hev_task_ref (task_lwip_timer g) g;
          g = g\<lparr>tn_run := True\<rparr>
      in map_option (Pair 0) (exec g))"

text \<open>The loop of \<^verbatim>\<open>hev_socks5_tunnel_stop\<close> over the values it reads in \<^verbatim>\<open>event_fds[1]\<close>: the descriptor it writes to, or
  \<open>None\<close> while it waits.\<close>

fun hev_socks5_tunnel_stop :: "int list \<Rightarrow> int option" where
  "hev_socks5_tunnel_stop [] = None"
| "hev_socks5_tunnel_stop (d # ds) = (if 0 \<le> d then Some d else hev_socks5_tunnel_stop ds)"

definition hev_socks5_tunnel_stats :: "HevTunnel \<Rightarrow> u64 \<times> u64 \<times> u64 \<times> u64" where
  "hev_socks5_tunnel_stats g = (stat_tx_packets g, stat_tx_bytes g, stat_rx_packets g, stat_rx_bytes g)"

text \<open>A process that has not started the tunnel yet.\<close>

definition tunnel_example :: HevTunnel where
  "tunnel_example = \<lparr>tn_run = False, session_set = \<lparr>head = NULL, tail = NULL\<rparr>,
     session_heap = (\<lambda>_. \<lparr>ln_next = NULL, ln_prev = NULL\<rparr>), session_count = 0, sessions = (\<lambda>_. \<lparr>se_timeout = 0, se_woken = False\<rparr>),
     max_session_count = 0, tun_fd = - 1, tun_fd_local = False, event_fd0 = - 1, event_fd1 = - 1,
     stat_tx_packets = 0, stat_rx_packets = 0, stat_tx_bytes = 0, stat_rx_bytes = 0, netif_added = False,
     tcp_pcb = NULL, udp_pcb = NULL, task_event = NULL, task_lwip_io = NULL, task_lwip_timer = NULL, singleton = None,
     tun_name = [], tfds = {0, 1, 2}, pcbs = {}, task_refs = (\<lambda>_. 0), scripts_run = [],
     fd_script = [3, 4, 5, 6, 7], ioctl_script = [], pcb_script = [8, 16, 24], task_script = [32, 40, 48], ifname_of = id,
     pbufs_held = 0, lwip_in = [], tun_out = [], dns_replies = [], tcp_ticks = 0, slow_ticks = 0\<rparr>"

end
