(* ===== verification/TunnelOk.thy ===== *)
theory TunnelOk
  imports Tunnel
begin

text \<open>
  The account of what the tunnel holds. \<open>part\<close> says that beside what the process held before, it holds exactly what the static
  variables name; every step of the initialisation keeps it, whether it succeeds or fails, and finalisation from any such
  state gives everything back.
\<close>

section \<open>The device gives back what it opens\<close>

text \<open>The descriptors the system will hand out are new.\<close>

definition fds_fresh :: "int set \<Rightarrow> int list \<Rightarrow> bool" where
  "fds_fresh S ds \<longleftrightarrow> distinct (filter (\<lambda>d. 0 \<le> d) ds) \<and> (\<forall>d\<in>set ds. 0 \<le> d \<longrightarrow> d \<notin> S)"

definition used :: "HevTunnel \<Rightarrow> int list \<Rightarrow> ioctl_result list \<Rightarrow> HevTunnel" where
  "used g ds rs = g\<lparr>fd_script := ds, ioctl_script := rs\<rparr>"

lemma used_used [simp]: "used (used g ds rs) ds' rs' = used g ds' rs'"
  by (simp add: used_def)

lemma used_fields [simp]:
  "fd_script (used g ds rs) = ds" "ioctl_script (used g ds rs) = rs" "tfds (used g ds rs) = tfds g"
  "used g (fd_script g) (ioctl_script g) = g"
  by (simp_all add: used_def)

lemma used_same: "ds = fd_script g \<Longrightarrow> rs = ioctl_script g \<Longrightarrow> g = used g ds rs"
  by simp

lemma sys_ioctl_used: "\<exists>r rs. sys_ioctl g = (r, used g (fd_script g) rs)"
proof (cases "ioctl_script g")
  case Nil
  then have "sys_ioctl g = (IoctlOk, used g (fd_script g) (ioctl_script g))" by (simp add: sys_ioctl_def used_same [symmetric])
  then show ?thesis by blast
qed (auto simp: sys_ioctl_def used_def)

lemma fds_fresh_Cons:
  "fds_fresh S (d # ds) \<Longrightarrow> fds_fresh S ds" "fds_fresh S (d # ds) \<Longrightarrow> 0 \<le> d \<Longrightarrow> d \<notin> S"
  "fds_fresh S (d # ds) \<Longrightarrow> 0 \<le> d \<Longrightarrow> fds_fresh (insert d S) ds"
  by (auto simp: fds_fresh_def split: if_splits)

text \<open>What a call leaves behind that takes a descriptor and gives it back.\<close>

definition neutral :: "(HevTunnel \<Rightarrow> int \<times> HevTunnel) \<Rightarrow> bool" where
  "neutral f \<longleftrightarrow> (\<forall>g. fds_fresh (tfds g) (fd_script g) \<longrightarrow>
     (\<exists>r ds rs. f g = (r, used g ds rs) \<and> fds_fresh (tfds g) ds))"

lemma with_socket:
  assumes "\<And>d g. \<exists>r rs. body d g = (r, close_fd d (used g (fd_script g) rs))"
  shows "neutral (\<lambda>g. let (d, g) = sys_fd g in if d < 0 then (- 1, g) else body d g)"
  unfolding neutral_def
proof (intro allI impI)
  fix g :: HevTunnel assume f: "fds_fresh (tfds g) (fd_script g)"
  show "\<exists>r ds rs. (let (d, g) = sys_fd g in if d < 0 then (- 1, g) else body d g) = (r, used g ds rs) \<and> fds_fresh (tfds g) ds"
  proof (cases "fd_script g")
    case Nil
    then have "(let (d, g) = sys_fd g in if d < 0 then (- 1, g) else body d g) = (- 1, used g (fd_script g) (ioctl_script g))"
      by (simp add: sys_fd_def used_same [symmetric])
    then show ?thesis using f by blast
  next
    case (Cons d ds)
    show ?thesis
    proof (cases "0 \<le> d")
      case True
      let ?g = "g\<lparr>fd_script := ds, tfds := insert d (tfds g)\<rparr>"
      obtain r rs where b: "body d ?g = (r, close_fd d (used ?g ds rs))" using assms [of d ?g] by auto
      have "d \<notin> tfds g" using fds_fresh_Cons(2) True f Cons by metis
      then have "close_fd d (used ?g ds rs) = used g ds rs" by (simp add: close_fd_def used_def)
      then have "(let (d, g) = sys_fd g in if d < 0 then (- 1, g) else body d g) = (r, used g ds rs)"
        using b True Cons by (simp add: sys_fd_def)
      then show ?thesis using f Cons fds_fresh_Cons(1) by metis
    next
      case False
      then have "(let (d, g) = sys_fd g in if d < 0 then (- 1, g) else body d g) = (- 1, used g ds (ioctl_script g))"
        using Cons by (simp add: sys_fd_def used_def)
      then show ?thesis using f Cons fds_fresh_Cons(1) by metis
    qed
  qed
qed

lemma ioctl_cases:
  obtains r rs where "sys_ioctl g = (r, used g (fd_script g) rs)"
  using sys_ioctl_used by blast

lemma close_used: "\<exists>r' rs'. (r, close_fd d (used g ds rs)) = (r', close_fd d (used g ds rs'))"
  by blast

lemma set_mtu_neutral: "neutral (hev_tunnel_set_mtu mtu)"
proof -
  have "\<exists>r rs. (let (r, g) = sys_ioctl g in (ioctl_res r, close_fd d g)) = (r, close_fd d (used g (fd_script g) rs))" for d g
    by (rule ioctl_cases [of g]) (auto simp: close_used)
  then show ?thesis unfolding hev_tunnel_set_mtu_def by (rule with_socket)
qed

lemma set_state_neutral: "neutral (hev_tunnel_set_state st)"
proof -
  have "\<exists>r rs. (let (r, g) = sys_ioctl g; res = ioctl_res r
      in if res < 0 then (res, close_fd d g) else let (r, g) = sys_ioctl g in (ioctl_res r, close_fd d g)) =
      (r, close_fd d (used g (fd_script g) rs))" for d g
  proof -
    obtain r rs where 1: "sys_ioctl g = (r, used g (fd_script g) rs)" by (rule ioctl_cases)
    obtain r' rs' where 2: "sys_ioctl (used g (fd_script g) rs) = (r', used g (fd_script g) rs')"
      by (rule ioctl_cases [of "used g (fd_script g) rs"]) auto
    show ?thesis by (auto simp: 1 2 Let_def)
  qed
  then show ?thesis unfolding hev_tunnel_set_state_def by (rule with_socket)
qed

lemma set_ipv4_neutral: "neutral (hev_tunnel_set_ipv4 rs addr)"
proof -
  have "\<exists>r qs. (case pton4 rs addr of
           None \<Rightarrow> (0, close_fd d g)
         | Some _ \<Rightarrow>
             let (r, g) = sys_ioctl g; res = ioctl_res r
             in if res < 0 then (res, close_fd d g)
                else let (r, g) = sys_ioctl g in (if r = IoctlExists then 0 else ioctl_res r, close_fd d g)) =
      (r, close_fd d (used g (fd_script g) qs))" for d g
  proof -
    obtain r qs where 1: "sys_ioctl g = (r, used g (fd_script g) qs)" by (rule ioctl_cases)
    obtain r' qs' where 2: "sys_ioctl (used g (fd_script g) qs) = (r', used g (fd_script g) qs')"
      by (rule ioctl_cases [of "used g (fd_script g) qs"]) auto
    have "\<exists>qs. close_fd d g = close_fd d (used g (fd_script g) qs)" by (rule exI [of _ "ioctl_script g"]) simp
    then show ?thesis by (auto simp: 1 2 Let_def split: option.split)
  qed
  then show ?thesis unfolding hev_tunnel_set_ipv4_def by (rule with_socket)
qed

lemma set_ipv6_neutral: "neutral (hev_tunnel_set_ipv6 rs addr)"
proof -
  have "\<exists>r qs. (let (r, g) = sys_ioctl g; res = ioctl_res r
           in if res < 0 then (res, close_fd d g)
              else case pton6 rs addr of
                None \<Rightarrow> (0, close_fd d g)
              | Some _ \<Rightarrow>
                  let (r, g) = sys_ioctl g
                  in (if r = IoctlExists then 0 else ioctl_res r, close_fd d g)) =
      (r, close_fd d (used g (fd_script g) qs))" for d g
  proof -
    obtain r qs where 1: "sys_ioctl g = (r, used g (fd_script g) qs)" by (rule ioctl_cases)
    obtain r' qs' where 2: "sys_ioctl (used g (fd_script g) qs) = (r', used g (fd_script g) qs')"
      by (rule ioctl_cases [of "used g (fd_script g) qs"]) auto
    show ?thesis by (auto simp: 1 2 Let_def split: option.split)
  qed
  then show ?thesis unfolding hev_tunnel_set_ipv6_def by (rule with_socket)
qed

definition stays :: "HevTunnel \<Rightarrow> (int \<times> HevTunnel) option \<Rightarrow> bool" where
  "stays g m \<longleftrightarrow> (\<exists>r ds rs. m = Some (r, used g ds rs) \<and> fds_fresh (tfds g) ds)"

lemma staysI: "m = Some (r, used g ds rs) \<Longrightarrow> fds_fresh (tfds g) ds \<Longrightarrow> stays g m"
  unfolding stays_def by blast

lemma stays_neutral:
  assumes "neutral f" "stays g m"
  shows "stays g (and_then m (\<lambda>g. Some (f g)))"
proof -
  obtain r ds rs where m: "m = Some (r, used g ds rs)" "fds_fresh (tfds g) ds" using assms(2) by (auto simp: stays_def)
  moreover obtain r' ds' rs' where "f (used g ds rs) = (r', used g ds' rs')" "fds_fresh (tfds g) ds'"
    using assms(1) m(2) unfolding neutral_def by (metis used_fields(1,3) used_used)
  ultimately show ?thesis by (cases "r < 0") (auto intro: staysI simp: and_then_def)
qed

lemma stays_if_set:
  assumes "\<And>v. neutral (f v)" "stays g m" "v \<noteq> Some None"
  shows "stays g (and_then m (if_set v f))"
proof (cases v)
  case None
  obtain r ds rs where m: "m = Some (r, used g ds rs)" "fds_fresh (tfds g) ds" using assms(2) by (auto simp: stays_def)
  then show ?thesis using None by (cases "r < 0") (auto intro: staysI simp: and_then_def if_set_def)
next
  case (Some w)
  then obtain u where "v = Some (Some u)" using assms(3) by (cases w) simp_all
  then have "if_set v f = (\<lambda>g. Some (f u g))" by (simp add: if_set_def fun_eq_iff)
  then show ?thesis using stays_neutral [OF assms(1,2)] by simp
qed

lemma config_accessors:
  assumes "config_ok cfg"
  shows "hev_config_get_tunnel_name cfg \<noteq> Some None" "hev_config_get_tunnel_ipv4_address cfg \<noteq> Some None"
    "hev_config_get_tunnel_ipv6_address cfg \<noteq> Some None" "hev_config_get_tunnel_post_up_script cfg \<noteq> Some None"
    "hev_config_get_tunnel_pre_down_script cfg \<noteq> Some None"
  using assms array_ptr_ok
  unfolding config_ok_def hev_config_get_tunnel_name_def hev_config_get_tunnel_ipv4_address_def
    hev_config_get_tunnel_ipv6_address_def hev_config_get_tunnel_post_up_script_def hev_config_get_tunnel_pre_down_script_def
  by blast+

lemma tunnel_setup_ok:
  assumes "config_ok cfg" "fds_fresh (tfds g) (fd_script g)"
  shows "\<exists>r ds qs xs. tunnel_setup cfg rs g = Some (r, (used g ds qs)\<lparr>scripts_run := xs\<rparr>) \<and> fds_fresh (tfds g) ds"
proof -
  have "stays g (Some (hev_tunnel_set_mtu (hev_config_get_tunnel_mtu cfg) g))"
    using set_mtu_neutral assms(2) unfolding neutral_def stays_def by blast
  then have "stays g (and_then (and_then (and_then
       (Some (hev_tunnel_set_mtu (hev_config_get_tunnel_mtu cfg) g))
       (if_set (hev_config_get_tunnel_ipv4_address cfg) (hev_tunnel_set_ipv4 rs)))
       (if_set (hev_config_get_tunnel_ipv6_address cfg) (hev_tunnel_set_ipv6 rs)))
       (\<lambda>g. Some (hev_tunnel_set_state True g)))" (is "stays g ?m")
    using config_accessors [OF assms(1)]
    by (intro stays_neutral stays_if_set set_ipv4_neutral set_ipv6_neutral set_state_neutral)
  then obtain r ds qs where m: "?m = Some (r, used g ds qs)" "fds_fresh (tfds g) ds" by (auto simp: stays_def)
  let ?v = "hev_config_get_tunnel_post_up_script cfg"
  show ?thesis
  proof (cases "0 \<le> r \<and> (\<exists>u. ?v = Some (Some u))")
    case True
    then obtain u where "?v = Some (Some u)" by blast
    then have "tunnel_setup cfg rs g = Some (0, (used g ds qs)\<lparr>scripts_run := scripts_run (used g ds qs) @ [u]\<rparr>)"
      using True m(1) by (simp add: tunnel_setup_def and_then_def [where r = "Some _"] if_set_def hev_exec_run_def)
    then show ?thesis using m(2) by blast
  next
    case False
    then have "r < 0 \<or> ?v = None" using config_accessors(4) [OF assms(1)] by (cases ?v) force+
    then have "\<exists>r. tunnel_setup cfg rs g = Some (r, used g ds qs)"
      using m(1) unfolding tunnel_setup_def by (auto simp: if_set_def and_then_def [where r = "Some _"])
    then obtain r' where "tunnel_setup cfg rs g = Some (r', (used g ds qs)\<lparr>scripts_run := scripts_run (used g ds qs)\<rparr>)" by auto
    then show ?thesis using m(2) by blast
  qed
qed

section \<open>What the tunnel holds\<close>

definition dev_fds :: "int \<Rightarrow> HevTunnel \<Rightarrow> int set" where
  "dev_fds ext g = (if ext < 0 \<and> 0 \<le> tun_fd g then {tun_fd g} else {})"

definition event_fds :: "HevTunnel \<Rightarrow> int set" where
  "event_fds g = (if 0 \<le> event_fd0 g then {event_fd0 g} else {}) \<union> (if 0 \<le> event_fd1 g then {event_fd1 g} else {})"

definition own_pcbs :: "HevTunnel \<Rightarrow> ptr set" where
  "own_pcbs g = {tcp_pcb g, udp_pcb g} - {NULL}"

definition own_tasks :: "HevTunnel \<Rightarrow> ptr list" where
  "own_tasks g = filter (\<lambda>p. p \<noteq> NULL) [task_event g, task_lwip_io g, task_lwip_timer g]"

text \<open>Beside what the process held before (in the state \<open>g0\<close>), it holds exactly what the static variables name.\<close>

definition fds_part :: "int \<Rightarrow> HevTunnel \<Rightarrow> HevTunnel \<Rightarrow> bool" where
  "fds_part ext g0 g \<longleftrightarrow>
     fds_fresh (tfds g) (fd_script g) \<and> tfds g = tfds g0 \<union> dev_fds ext g \<union> event_fds g \<and>
     dev_fds ext g \<inter> tfds g0 = {} \<and> event_fds g \<inter> (tfds g0 \<union> dev_fds ext g) = {} \<and>
     (tun_fd_local g \<longrightarrow> ext < 0 \<and> 0 \<le> tun_fd g) \<and>
     (event_fd0 g < 0 \<longrightarrow> event_fd0 g = - 1) \<and> (event_fd1 g < 0 \<longrightarrow> event_fd1 g = - 1)"

lemma dev_fds_cong: "tun_fd g' = tun_fd g \<Longrightarrow> dev_fds ext g' = dev_fds ext g"
  by (simp add: dev_fds_def)

lemma event_fds_cong: "event_fd0 g' = event_fd0 g \<Longrightarrow> event_fd1 g' = event_fd1 g \<Longrightarrow> event_fds g' = event_fds g"
  by (simp add: event_fds_def)

lemma fds_part_cong:
  assumes "tfds g' = tfds g" "fd_script g' = fd_script g" "tun_fd g' = tun_fd g" "tun_fd_local g' = tun_fd_local g"
    "event_fd0 g' = event_fd0 g" "event_fd1 g' = event_fd1 g"
  shows "fds_part ext g0 g' = fds_part ext g0 g"
  using dev_fds_cong [OF assms(3)] event_fds_cong [OF assms(5,6)] by (simp add: fds_part_def assms)

definition pcbs_part :: "HevTunnel \<Rightarrow> HevTunnel \<Rightarrow> bool" where
  "pcbs_part g0 g \<longleftrightarrow> pcbs g = pcbs g0 \<union> own_pcbs g \<and> own_pcbs g \<inter> pcbs g0 = {} \<and> (tcp_pcb g = udp_pcb g \<longrightarrow> tcp_pcb g = NULL)"

definition tasks_part :: "HevTunnel \<Rightarrow> HevTunnel \<Rightarrow> bool" where
  "tasks_part g0 g \<longleftrightarrow>
     distinct (own_tasks g @ filter (\<lambda>p. p \<noteq> NULL) (task_script g)) \<and>
     (\<forall>p\<in>set (own_tasks g) \<union> set (task_script g). p \<noteq> NULL \<longrightarrow> task_refs g0 p = 0) \<and>
     task_refs g = (\<lambda>p. if p \<in> set (own_tasks g) then 1 else task_refs g0 p)"

definition dns_part :: "HevTunnel \<Rightarrow> bool" where
  "dns_part g \<longleftrightarrow> (\<forall>d. singleton g = Some d \<longrightarrow> (\<exists>c. dns_at d c))"

definition part :: "int \<Rightarrow> HevTunnel \<Rightarrow> HevTunnel \<Rightarrow> bool" where
  "part ext g0 g \<longleftrightarrow> fds_part ext g0 g \<and> pcbs_part g0 g \<and> tasks_part g0 g \<and> dns_part g"

text \<open>Everything is given back; only a device that could not be set up is still open.\<close>

definition released :: "int \<Rightarrow> HevTunnel \<Rightarrow> HevTunnel \<Rightarrow> bool" where
  "released ext g0 g \<longleftrightarrow>
     tfds g = tfds g0 \<union> dev_fds ext g \<and> pcbs g = pcbs g0 \<and> task_refs g = task_refs g0 \<and> singleton g = None \<and>
     task_event g = NULL \<and> task_lwip_io g = NULL \<and> task_lwip_timer g = NULL \<and> event_fd0 g = - 1 \<and> event_fd1 g = - 1 \<and>
     \<not> tun_fd_local g \<and> \<not> netif_added g \<and> hev_socks5_tunnel_stats g = (0, 0, 0, 0)"

section \<open>Finalisation\<close>

lemma mapped_dns_fini_ok: "dns_part g \<Longrightarrow> mapped_dns_fini g = Some (g\<lparr>singleton := None\<rparr>)"
proof (cases "singleton g")
  case None
  then have "g\<lparr>singleton := None\<rparr> = g" by simp
  then show ?thesis using None by (simp add: mapped_dns_fini_def hev_mapped_dns_get_def)
next
  case (Some d)
  moreover assume "dns_part g"
  ultimately obtain d' where "hev_mapped_dns_destruct d = Some d'" unfolding dns_part_def using dns_destruct_ok by blast
  then show ?thesis using Some by (simp add: mapped_dns_fini_def hev_mapped_dns_get_def hev_mapped_dns_put_def)
qed

lemma tasks_part_drop:
  assumes "tasks_part g0 g" "t \<in> set (own_tasks g)" "own_tasks g' = removeAll t (own_tasks g)" "task_script g' = task_script g"
    and "task_refs g' = (task_refs g)(t := 0)"
  shows "tasks_part g0 g'"
proof -
  have "t \<noteq> NULL" using assms(2) by (auto simp: own_tasks_def split: if_splits)
  then have "task_refs g0 t = 0" using assms(1,2) by (auto simp: tasks_part_def)
  then show ?thesis using assms unfolding tasks_part_def by (auto simp: distinct_removeAll fun_eq_iff)
qed

lemma task_fini_ok:
  assumes "tasks_part g0 g" "get g \<noteq> NULL \<Longrightarrow> get g \<in> set (own_tasks g)" "get g = NULL \<Longrightarrow> clear g = g"
    and "\<And>R. clear (g\<lparr>task_refs := R\<rparr>) = (clear g)\<lparr>task_refs := R\<rparr>"
    and "own_tasks (clear g) = removeAll (get g) (own_tasks g)" "task_script (clear g) = task_script g"
  shows "\<exists>R. task_fini get clear g = Some ((clear g)\<lparr>task_refs := R\<rparr>) \<and> tasks_part g0 ((clear g)\<lparr>task_refs := R\<rparr>)"
proof (cases "get g = NULL")
  case True
  then have "(clear g)\<lparr>task_refs := task_refs g\<rparr> = g" using assms(3) by simp
  then show ?thesis using assms(1) True by (metis task_fini_def)
next
  case False
  then have t: "get g \<in> set (own_tasks g)" by (rule assms(2))
  let ?R = "(task_refs g)(get g := 0)"
  have "task_refs g (get g) = 1" using assms(1) t by (simp add: tasks_part_def)
  then have "task_fini get clear g = Some ((clear g)\<lparr>task_refs := ?R\<rparr>)"
    using False assms(4) by (simp add: task_fini_def hev_task_unref_def)
  moreover have "tasks_part g0 ((clear g)\<lparr>task_refs := ?R\<rparr>)"
    by (rule tasks_part_drop [OF assms(1) t]) (use assms(5,6) in \<open>simp_all add: own_tasks_def\<close>)
  ultimately show ?thesis by blast
qed

lemma lwip_timer_task_fini_ok:
  "tasks_part g0 g \<Longrightarrow> \<exists>R. lwip_timer_task_fini g = Some (g\<lparr>task_lwip_timer := NULL, task_refs := R\<rparr>) \<and>
     tasks_part g0 (g\<lparr>task_lwip_timer := NULL, task_refs := R\<rparr>)"
  unfolding lwip_timer_task_fini_def by (rule task_fini_ok) (auto simp: own_tasks_def tasks_part_def split: if_splits)

lemma lwip_io_task_fini_ok:
  "tasks_part g0 g \<Longrightarrow> \<exists>R. lwip_io_task_fini g = Some (g\<lparr>task_lwip_io := NULL, task_refs := R\<rparr>) \<and>
     tasks_part g0 (g\<lparr>task_lwip_io := NULL, task_refs := R\<rparr>)"
  unfolding lwip_io_task_fini_def by (rule task_fini_ok) (auto simp: own_tasks_def tasks_part_def split: if_splits)

lemma event_task_unref_ok:
  "tasks_part g0 g \<Longrightarrow> \<exists>R. task_fini task_event (\<lambda>g. g\<lparr>task_event := NULL\<rparr>) g = Some (g\<lparr>task_event := NULL, task_refs := R\<rparr>) \<and>
     tasks_part g0 (g\<lparr>task_event := NULL, task_refs := R\<rparr>)"
  by (rule task_fini_ok) (auto simp: own_tasks_def tasks_part_def split: if_splits)

lemma close_event_fds:
  assumes "event_fd0 g < 0 \<longrightarrow> event_fd0 g = - 1" "event_fd1 g < 0 \<longrightarrow> event_fd1 g = - 1"
  shows "(let g = (if 0 \<le> event_fd0 g then (close_fd (event_fd0 g) g)\<lparr>event_fd0 := - 1\<rparr> else g)
      in if 0 \<le> event_fd1 g then (close_fd (event_fd1 g) g)\<lparr>event_fd1 := - 1\<rparr> else g) =
    g\<lparr>tfds := tfds g - event_fds g, event_fd0 := - 1, event_fd1 := - 1\<rparr>"
proof -
  have "0 \<le> event_fd0 g \<or> event_fd0 g = - 1" "0 \<le> event_fd1 g \<or> event_fd1 g = - 1" using assms by linarith+
  then show ?thesis
    by (elim disjE; intro HevTunnel.equality) (auto simp: close_fd_def event_fds_def)
qed

lemma event_task_fini_ok:
  assumes "tasks_part g0 g" "fds_part ext g0 g"
  shows "\<exists>R. event_task_fini g = Some (g\<lparr>task_event := NULL, task_refs := R, tfds := tfds g0 \<union> dev_fds ext g, event_fd0 := - 1, event_fd1 := - 1\<rparr>) \<and>
    tasks_part g0 (g\<lparr>task_event := NULL, task_refs := R\<rparr>)"
proof -
  obtain R where R: "task_fini task_event (\<lambda>g. g\<lparr>task_event := NULL\<rparr>) g = Some (g\<lparr>task_event := NULL, task_refs := R\<rparr>)"
      "tasks_part g0 (g\<lparr>task_event := NULL, task_refs := R\<rparr>)"
    using event_task_unref_ok [OF assms(1)] by blast
  let ?h = "g\<lparr>task_event := NULL, task_refs := R\<rparr>"
  have f: "tfds g = tfds g0 \<union> dev_fds ext g \<union> event_fds g" "event_fds g \<inter> (tfds g0 \<union> dev_fds ext g) = {}"
      "event_fd0 g < 0 \<longrightarrow> event_fd0 g = - 1" "event_fd1 g < 0 \<longrightarrow> event_fd1 g = - 1"
    using assms(2) by (simp_all add: fds_part_def)
  have "tfds g - event_fds g = tfds g0 \<union> dev_fds ext g" using f(1,2) by blast
  moreover have h: "event_fd0 ?h < 0 \<longrightarrow> event_fd0 ?h = - 1" "event_fd1 ?h < 0 \<longrightarrow> event_fd1 ?h = - 1" "event_fds ?h = event_fds g"
    using f(3,4) by (simp_all add: event_fds_def)
  have "event_task_fini g = Some (?h\<lparr>tfds := tfds ?h - event_fds ?h, event_fd0 := - 1, event_fd1 := - 1\<rparr>)"
    unfolding event_task_fini_def R(1) option.case Let_def close_event_fds [OF h(1,2), unfolded Let_def] ..
  ultimately have "event_task_fini g = Some (g\<lparr>task_event := NULL, task_refs := R, tfds := tfds g0 \<union> dev_fds ext g, event_fd0 := - 1, event_fd1 := - 1\<rparr>)"
    unfolding h(3) by simp
  then show ?thesis using R(2) by blast
qed

lemma gateway_fini_ok:
  assumes "pcbs_part g0 g"
  shows "gateway_fini g = Some (g\<lparr>pcbs := pcbs g0, netif_added := False\<rparr>)"
proof -
  have "pcbs g - own_pcbs g = pcbs g0" "own_pcbs g \<subseteq> pcbs g" and d: "tcp_pcb g = udp_pcb g \<longrightarrow> tcp_pcb g = NULL"
    using assms by (auto simp: pcbs_part_def)
  then show ?thesis
    by (cases "tcp_pcb g = NULL"; cases "udp_pcb g = NULL";
        simp add: gateway_fini_def free_pcb_def own_pcbs_def Diff_insert2 [symmetric] insert_commute)
qed

lemma tunnel_fini_ok:
  assumes "config_ok cfg" "tun_fd_local g \<longrightarrow> ext < 0 \<and> 0 \<le> tun_fd g" "tfds g = F \<union> dev_fds ext g" "dev_fds ext g \<inter> F = {}"
  shows "\<exists>d xs. tunnel_fini cfg g = Some (g\<lparr>tun_fd := d, tun_fd_local := False, scripts_run := xs,
      tfds := F \<union> dev_fds ext (g\<lparr>tun_fd := d\<rparr>)\<rparr>)"
proof (cases "tun_fd_local g")
  case True
  then have F: "tfds g - {tun_fd g} = F" using assms(2-4) by (auto simp: dev_fds_def)
  have "\<exists>xs. if_set (hev_config_get_tunnel_pre_down_script cfg) (\<lambda>s g. (0, hev_exec_run s g)) g = Some (0, g\<lparr>scripts_run := xs\<rparr>)"
  proof (cases "hev_config_get_tunnel_pre_down_script cfg")
    case None
    then have "if_set (hev_config_get_tunnel_pre_down_script cfg) (\<lambda>s g. (0, hev_exec_run s g)) g = Some (0, g\<lparr>scripts_run := scripts_run g\<rparr>)"
      by (simp add: if_set_def)
    then show ?thesis by blast
  next
    case (Some w)
    then obtain u where "hev_config_get_tunnel_pre_down_script cfg = Some (Some u)"
      using config_accessors(5) [OF assms(1)] by (cases w) simp_all
    then show ?thesis by (auto simp: if_set_def hev_exec_run_def)
  qed
  then obtain xs where x: "if_set (hev_config_get_tunnel_pre_down_script cfg) (\<lambda>s g. (0, hev_exec_run s g)) g = Some (0, g\<lparr>scripts_run := xs\<rparr>)" ..
  have "tunnel_fini cfg g = Some (g\<lparr>tun_fd := - 1, tun_fd_local := False, scripts_run := xs, tfds := F\<rparr>)"
    unfolding tunnel_fini_def x using True F by (simp add: hev_tunnel_close_def close_fd_def)
  then show ?thesis by (intro exI [of _ "- 1"] exI [of _ xs]) (simp add: dev_fds_def)
next
  case False
  then have "g\<lparr>tun_fd := tun_fd g, tun_fd_local := False, scripts_run := scripts_run g, tfds := F \<union> dev_fds ext (g\<lparr>tun_fd := tun_fd g\<rparr>)\<rparr> = g"
    using assms(3) by (intro HevTunnel.equality) simp_all
  then show ?thesis using False unfolding tunnel_fini_def by metis
qed

lemma tunnel_fini_released:
  assumes "config_ok cfg" "part ext g0 g"
  shows "\<exists>g'. hev_socks5_tunnel_fini cfg g = Some g' \<and> released ext g0 g'"
proof -
  have p: "fds_part ext g0 g" "pcbs_part g0 g" "tasks_part g0 g" "dns_part g" using assms(2) by (simp_all add: part_def)
  let ?g1 = "g\<lparr>singleton := None\<rparr>"
  have t1: "tasks_part g0 ?g1" using p(3) by (simp add: tasks_part_def own_tasks_def)
  obtain R2 where 2: "lwip_timer_task_fini ?g1 = Some (?g1\<lparr>task_lwip_timer := NULL, task_refs := R2\<rparr>)"
      "tasks_part g0 (?g1\<lparr>task_lwip_timer := NULL, task_refs := R2\<rparr>)" using lwip_timer_task_fini_ok [OF t1] by blast
  let ?g2 = "?g1\<lparr>task_lwip_timer := NULL, task_refs := R2\<rparr>"
  obtain R3 where 3: "lwip_io_task_fini ?g2 = Some (?g2\<lparr>task_lwip_io := NULL, task_refs := R3\<rparr>)"
      "tasks_part g0 (?g2\<lparr>task_lwip_io := NULL, task_refs := R3\<rparr>)" using lwip_io_task_fini_ok [OF 2(2)] by blast
  let ?g3 = "?g2\<lparr>task_lwip_io := NULL, task_refs := R3\<rparr>"
  have f3: "fds_part ext g0 ?g3" using p(1) fds_part_cong [of ?g3 g] by simp
  obtain R4 where 4: "event_task_fini ?g3 = Some (?g3\<lparr>task_event := NULL, task_refs := R4, tfds := tfds g0 \<union> dev_fds ext ?g3,
        event_fd0 := - 1, event_fd1 := - 1\<rparr>)"
      "tasks_part g0 (?g3\<lparr>task_event := NULL, task_refs := R4\<rparr>)" using event_task_fini_ok [OF 3(2) f3] by blast
  let ?g4 = "?g3\<lparr>task_event := NULL, task_refs := R4, tfds := tfds g0 \<union> dev_fds ext ?g3, event_fd0 := - 1, event_fd1 := - 1\<rparr>"
  have r4: "R4 = task_refs g0" using 4(2) by (simp add: tasks_part_def own_tasks_def)
  have "pcbs_part g0 ?g4" using p(2) by (simp add: pcbs_part_def own_pcbs_def)
  then have 5: "gateway_fini ?g4 = Some (?g4\<lparr>pcbs := pcbs g0, netif_added := False\<rparr>)" by (rule gateway_fini_ok)
  let ?g5 = "?g4\<lparr>pcbs := pcbs g0, netif_added := False\<rparr>"
  have "tun_fd_local ?g5 \<longrightarrow> ext < 0 \<and> 0 \<le> tun_fd ?g5" "tfds ?g5 = tfds g0 \<union> dev_fds ext ?g5" "dev_fds ext ?g5 \<inter> tfds g0 = {}"
    using p(1) dev_fds_cong [of ?g5 g] dev_fds_cong [of ?g3 g] by (simp_all add: fds_part_def)
  from tunnel_fini_ok [OF assms(1) this] obtain d xs
    where 6: "tunnel_fini cfg ?g5 = Some (?g5\<lparr>tun_fd := d, tun_fd_local := False, scripts_run := xs,
      tfds := tfds g0 \<union> dev_fds ext (?g5\<lparr>tun_fd := d\<rparr>)\<rparr>)" by blast
  have 1: "mapped_dns_fini g = Some ?g1" using mapped_dns_fini_ok [OF p(4)] .
  show ?thesis
    unfolding hev_socks5_tunnel_fini_def 1 bind.simps 2(1) 3(1) 4(1) 5 6 option.case
    by (intro exI conjI, rule refl) (simp add: released_def dev_fds_def r4 hev_socks5_tunnel_stats_def)
qed

section \<open>Initialisation\<close>

text \<open>Opening and configuring the device changes nothing that belongs to the rest.\<close>

definition dev_only :: "HevTunnel \<Rightarrow> HevTunnel \<Rightarrow> bool" where
  "dev_only g g' \<longleftrightarrow>
     event_fd0 g' = event_fd0 g \<and> event_fd1 g' = event_fd1 g \<and> tcp_pcb g' = tcp_pcb g \<and> udp_pcb g' = udp_pcb g \<and>
     pcbs g' = pcbs g \<and> pcb_script g' = pcb_script g \<and> task_event g' = task_event g \<and> task_lwip_io g' = task_lwip_io g \<and>
     task_lwip_timer g' = task_lwip_timer g \<and> task_script g' = task_script g \<and> task_refs g' = task_refs g \<and> singleton g' = singleton g"

text \<open>Before the device is opened, and with it open under the descriptor \<open>d\<close>.\<close>

lemma fds_part_start:
  assumes "fds_fresh (tfds g) (fd_script g)" "tun_fd g < 0 \<or> 0 \<le> ext" "\<not> tun_fd_local g" "event_fd0 g = - 1" "event_fd1 g = - 1"
    and "tfds g = tfds g0"
  shows "fds_part ext g0 g"
proof -
  have "dev_fds ext g = {}" "event_fds g = {}" using assms(2,4,5) by (auto simp: dev_fds_def event_fds_def)
  then show ?thesis using assms by (simp add: fds_part_def)
qed

lemma fds_part_device:
  assumes "fds_fresh (tfds g) (fd_script g)" "ext < 0" "0 \<le> tun_fd g" "event_fd0 g = - 1" "event_fd1 g = - 1"
    and "tfds g = insert (tun_fd g) (tfds g0)" "tun_fd g \<notin> tfds g0"
  shows "fds_part ext g0 g"
proof -
  have "dev_fds ext g = {tun_fd g}" "event_fds g = {}" using assms(2-5) by (auto simp: dev_fds_def event_fds_def)
  then show ?thesis using assms by (simp add: fds_part_def)
qed

lemma tunnel_open_cases:
  assumes "fds_fresh (tfds g) (fd_script g)"
  shows "(\<exists>ds qs. hev_tunnel_open name mq g = (- 1, used g ds qs) \<and> fds_fresh (tfds g) ds) \<or>
    (\<exists>d ds qs n. hev_tunnel_open name mq g = (d, (used g ds qs)\<lparr>tun_name := n, tfds := insert d (tfds g)\<rparr>) \<and>
       0 \<le> d \<and> d \<notin> tfds g \<and> fds_fresh (insert d (tfds g)) ds)"
proof (cases "fd_script g")
  case Nil
  then have "hev_tunnel_open name mq g = (- 1, used g (fd_script g) (ioctl_script g))"
    by (simp add: hev_tunnel_open_def sys_fd_def used_same [symmetric])
  then show ?thesis using assms by blast
next
  case (Cons d ds)
  show ?thesis
  proof (cases "0 \<le> d")
    case False
    then have "hev_tunnel_open name mq g = (- 1, used g ds (ioctl_script g))"
      using Cons by (simp add: hev_tunnel_open_def sys_fd_def used_def)
    then show ?thesis using assms Cons fds_fresh_Cons(1) by metis
  next
    case True
    let ?g = "g\<lparr>fd_script := ds, tfds := insert d (tfds g)\<rparr>"
    have f: "d \<notin> tfds g" "fds_fresh (insert d (tfds g)) ds" "fds_fresh (tfds g) ds"
      using fds_fresh_Cons [of "tfds g" d ds] True assms Cons by simp_all
    obtain r qs where r: "sys_ioctl ?g = (r, used ?g (fd_script ?g) qs)" by (rule ioctl_cases)
    define ifr where "ifr = (case name of Some n \<Rightarrow> buf_strncpy (16 - 1) n (replicate 16 0) | None \<Rightarrow> replicate 16 0)"
    have o: "hev_tunnel_open name mq g =
        (if ioctl_res r < 0 then (ioctl_res r, close_fd d (used ?g ds qs))
         else (d, (used ?g ds qs)\<lparr>tun_name := ifname_of (used ?g ds qs) ifr\<rparr>))"
      using r True Cons unfolding hev_tunnel_open_def ifr_def by (simp add: sys_fd_def)
    show ?thesis
    proof (cases "ioctl_res r < 0")
      case True
      then have "hev_tunnel_open name mq g = (- 1, used g ds qs)"
        using o f(1) by (simp add: close_fd_def used_def ioctl_res_def split: if_splits)
      then show ?thesis using f(3) by blast
    next
      case False
      then have "hev_tunnel_open name mq g = (d, (used g ds qs)\<lparr>tun_name := ifname_of (used ?g ds qs) ifr, tfds := insert d (tfds g)\<rparr>)"
        using o by (simp add: used_def)
      then show ?thesis using True f(1,2) by blast
    qed
  qed
qed

lemma tunnel_init_ok:
  assumes "config_ok cfg" "fds_fresh (tfds g) (fd_script g)" "tun_fd g < 0" "\<not> tun_fd_local g" "event_fd0 g = - 1" "event_fd1 g = - 1"
  shows "\<exists>r g'. tunnel_init cfg rs ext g = Some (r, g') \<and> fds_part ext g g' \<and> dev_only g g' \<and> (0 \<le> r \<longrightarrow> 0 \<le> tun_fd g')"
proof (cases "0 \<le> ext")
  case True
  obtain r qs where r: "sys_ioctl g = (r, used g (fd_script g) qs)" by (rule ioctl_cases)
  let ?g = "if ioctl_res r < 0 then used g (fd_script g) qs else (used g (fd_script g) qs)\<lparr>tun_fd := ext\<rparr>"
  have "tunnel_init cfg rs ext g = Some (if ioctl_res r < 0 then - 1 else 0, ?g)" using True r by (simp add: tunnel_init_def)
  moreover have "fds_part ext g ?g" using assms True by (intro fds_part_start) (simp_all add: used_def)
  moreover have "dev_only g ?g" by (simp add: dev_only_def used_def)
  moreover have "0 \<le> (if ioctl_res r < 0 then - 1 else 0 :: int) \<longrightarrow> 0 \<le> tun_fd ?g" using True by simp
  ultimately show ?thesis by blast
next
  case False
  define nm where "nm = Option.bind (hev_config_get_tunnel_name cfg) id"
  define mq where "mq \<longleftrightarrow> hev_config_get_tunnel_multi_queue cfg \<noteq> 0"
  have i: "tunnel_init cfg rs ext g =
      (let (d, g) = hev_tunnel_open nm mq g; g = g\<lparr>tun_fd := d\<rparr>
       in if tun_fd g < 0 then Some (- 1, g)
          else and_then (tunnel_setup cfg rs g) (\<lambda>g. Some (0, g\<lparr>tun_fd_local := True\<rparr>)))"
    using False config_accessors(1) [OF assms(1)] unfolding nm_def mq_def tunnel_init_def by (auto split: option.split)
  from tunnel_open_cases [OF assms(2), of nm mq] show ?thesis
  proof
    assume "\<exists>ds qs. hev_tunnel_open nm mq g = (- 1, used g ds qs) \<and> fds_fresh (tfds g) ds"
    then obtain ds qs where o: "hev_tunnel_open nm mq g = (- 1, used g ds qs)" "fds_fresh (tfds g) ds" by blast
    let ?g = "(used g ds qs)\<lparr>tun_fd := - 1\<rparr>"
    have "tunnel_init cfg rs ext g = Some (- 1, ?g)" using i o by simp
    moreover have "fds_part ext g ?g" using assms o(2) by (intro fds_part_start) (simp_all add: used_def)
    moreover have "dev_only g ?g" by (simp add: dev_only_def used_def)
    ultimately show ?thesis by (intro exI [of _ "- 1"] exI [of _ ?g]) simp
  next
    assume "\<exists>d ds qs n. hev_tunnel_open nm mq g = (d, (used g ds qs)\<lparr>tun_name := n, tfds := insert d (tfds g)\<rparr>) \<and>
       0 \<le> d \<and> d \<notin> tfds g \<and> fds_fresh (insert d (tfds g)) ds"
    then obtain d ds qs n where o: "hev_tunnel_open nm mq g = (d, (used g ds qs)\<lparr>tun_name := n, tfds := insert d (tfds g)\<rparr>)"
        "0 \<le> d" "d \<notin> tfds g" "fds_fresh (insert d (tfds g)) ds" by blast
    let ?g = "(used g ds qs)\<lparr>tun_name := n, tfds := insert d (tfds g), tun_fd := d\<rparr>"
    obtain r es ps xs where u: "tunnel_setup cfg rs ?g = Some (r, (used ?g es ps)\<lparr>scripts_run := xs\<rparr>)" "fds_fresh (tfds ?g) es"
      using tunnel_setup_ok [OF assms(1), of ?g rs] o(4) by (auto simp: used_def)
    let ?h = "(used ?g es ps)\<lparr>scripts_run := xs\<rparr>"
    let ?k = "if r < 0 then ?h else ?h\<lparr>tun_fd_local := True\<rparr>"
    have "\<exists>r'. tunnel_init cfg rs ext g = Some (r', ?k)" using i o(1,2) u(1) by (simp add: and_then_def)
    moreover have "fds_part ext g ?k" using assms o(2,3) u(2) False by (intro fds_part_device) (simp_all add: used_def)
    moreover have "dev_only g ?k" by (simp add: dev_only_def used_def)
    moreover have "0 \<le> tun_fd ?k" using o(2) by (simp add: used_def)
    ultimately show ?thesis by blast
  qed
qed

text \<open>The blocks the system will hand out are new: three for lwIP, and those for tasks that are not NULL.\<close>

definition pcbs_fresh :: "HevTunnel \<Rightarrow> bool" where
  "pcbs_fresh g \<longleftrightarrow> (\<exists>a b c ps. pcb_script g = a # b # c # ps \<and> distinct [NULL, a, b, c] \<and> {a, b, c} \<inter> pcbs g = {})"

lemma gateway_init_ok:
  assumes "pcbs_fresh g" "pcbs g = pcbs g0"
  shows "\<exists>b c ps. gateway_init g =
      Some (0, g\<lparr>netif_added := True, pcb_script := ps, pcbs := pcbs g \<union> {b, c}, tcp_pcb := b, udp_pcb := c\<rparr>) \<and>
    b \<noteq> NULL \<and> c \<noteq> NULL \<and>
    pcbs_part g0 (g\<lparr>netif_added := True, pcb_script := ps, pcbs := pcbs g \<union> {b, c}, tcp_pcb := b, udp_pcb := c\<rparr>)"
proof -
  obtain a b c ps where p: "pcb_script g = a # b # c # ps" "distinct [NULL, a, b, c]" "{a, b, c} \<inter> pcbs g = {}"
    using assms(1) by (auto simp: pcbs_fresh_def)
  have "insert c (insert b (insert a (pcbs g)) - {a}) = pcbs g \<union> {b, c}" using p(2,3) by auto
  then have "gateway_init g = Some (0, g\<lparr>netif_added := True, pcb_script := ps, pcbs := pcbs g \<union> {b, c}, tcp_pcb := b, udp_pcb := c\<rparr>)"
    using p(1,2) by (simp add: gateway_init_def alloc_pcb_def tcp_listen_def)
  moreover have "pcbs_part g0 (g\<lparr>netif_added := True, pcb_script := ps, pcbs := pcbs g \<union> {b, c}, tcp_pcb := b, udp_pcb := c\<rparr>)"
    using p(2,3) assms(2) by (auto simp: pcbs_part_def own_pcbs_def)
  ultimately show ?thesis using p(2) by auto
qed

lemma tasks_part_add:
  assumes "tasks_part g0 g" "task_script g = t # ts" "t \<noteq> NULL" "set (own_tasks g') = insert t (set (own_tasks g))"
    and "distinct (own_tasks g')" "task_script g' = ts" "task_refs g' = (task_refs g)(t := 1)"
  shows "tasks_part g0 g'"
  using assms unfolding tasks_part_def by (auto simp: fun_eq_iff)

lemma tasks_part_skip:
  "tasks_part g0 g \<Longrightarrow> own_tasks g' = own_tasks g \<Longrightarrow> task_script g' = task_script g \<or> task_script g = NULL # task_script g' \<Longrightarrow>
     task_refs g' = task_refs g \<Longrightarrow> tasks_part g0 g'"
  unfolding tasks_part_def by auto

text \<open>One of the three tasks is made: \<open>set_task\<close> stores it.\<close>

lemma new_task_ok:
  assumes "tasks_part g0 g" "hev_task_new g = (t, g1)"
    and st: "\<And>g. task_script (set_task g) = task_script g" "\<And>g. task_refs (set_task g) = task_refs g"
    and own: "own_tasks (set_task g1) = (if t = NULL then own_tasks g else own_tasks g @ [t])"
  shows "tasks_part g0 (set_task g1)"
proof (cases "task_script g")
  case Nil
  then have "t = NULL" "g1 = g" using assms(2) by (simp_all add: hev_task_new_def)
  then show ?thesis using assms(1) st own by (intro tasks_part_skip [OF assms(1)]) simp_all
next
  case (Cons p ps)
  then have t: "t = p" "g1 = g\<lparr>task_script := ps, task_refs := (if p = NULL then task_refs g else (task_refs g)(p := 1))\<rparr>"
    using assms(2) by (auto simp: hev_task_new_def)
  show ?thesis
  proof (cases "p = NULL")
    case True
    then show ?thesis using t st own Cons by (intro tasks_part_skip [OF assms(1)]) simp_all
  next
    case False
    moreover have "distinct (own_tasks g)" "p \<notin> set (own_tasks g)"
      using assms(1) Cons False by (auto simp: tasks_part_def)
    ultimately show ?thesis using t st own Cons by (intro tasks_part_add [OF assms(1) Cons]) simp_all
  qed
qed

lemma hev_task_new_cases:
  obtains t ts R where "hev_task_new g = (t, g\<lparr>task_script := ts, task_refs := R\<rparr>)"
proof (cases "task_script g")
  case Nil
  then have "hev_task_new g = (NULL, g\<lparr>task_script := task_script g, task_refs := task_refs g\<rparr>)" by (simp add: hev_task_new_def)
  then show thesis by (rule that)
next
  case (Cons p ps)
  then show thesis using that by (simp add: hev_task_new_def)
qed

lemma part_tasks:
  assumes "part ext g0 g" "tasks_part g0 g'" "tfds g' = tfds g" "fd_script g' = fd_script g" "tun_fd g' = tun_fd g"
    "tun_fd_local g' = tun_fd_local g" "event_fd0 g' = event_fd0 g" "event_fd1 g' = event_fd1 g"
    "pcbs g' = pcbs g" "tcp_pcb g' = tcp_pcb g" "udp_pcb g' = udp_pcb g" "singleton g' = singleton g"
  shows "part ext g0 g'"
  using assms(1,2) fds_part_cong [OF assms(3-8), of ext g0] by (simp add: part_def pcbs_part_def own_pcbs_def dns_part_def assms(9-12))

lemma lwip_io_task_init_ok:
  assumes "part ext g0 g" "task_lwip_io g = NULL" "task_lwip_timer g = NULL"
  shows "\<exists>r t ts R. lwip_io_task_init g = Some (r, g\<lparr>task_script := ts, task_refs := R, task_lwip_io := t\<rparr>) \<and> (0 \<le> r \<longrightarrow> t \<noteq> NULL) \<and>
    part ext g0 (g\<lparr>task_script := ts, task_refs := R, task_lwip_io := t\<rparr>)"
proof -
  obtain t ts R where n: "hev_task_new g = (t, g\<lparr>task_script := ts, task_refs := R\<rparr>)" by (rule hev_task_new_cases)
  let ?g = "g\<lparr>task_script := ts, task_refs := R, task_lwip_io := t\<rparr>"
  have "tasks_part g0 ((\<lambda>g. g\<lparr>task_lwip_io := t\<rparr>) (g\<lparr>task_script := ts, task_refs := R\<rparr>))"
    by (rule new_task_ok [OF _ n]) (use assms in \<open>simp_all add: part_def own_tasks_def\<close>)
  then have "tasks_part g0 ?g" by simp
  then have "part ext g0 ?g" by (rule part_tasks [OF assms(1)]) simp_all
  moreover have "lwip_io_task_init g = Some (if t = NULL then - 1 else 0, ?g)" using n by (simp add: lwip_io_task_init_def)
  ultimately show ?thesis by (intro exI [of _ "if t = NULL then - 1 else 0"] exI [of _ t] exI [of _ ts] exI [of _ R]) simp
qed

lemma lwip_timer_task_init_ok:
  assumes "part ext g0 g" "task_lwip_timer g = NULL"
  shows "\<exists>r t ts R. lwip_timer_task_init g = Some (r, g\<lparr>task_script := ts, task_refs := R, task_lwip_timer := t\<rparr>) \<and> (0 \<le> r \<longrightarrow> t \<noteq> NULL) \<and>
    part ext g0 (g\<lparr>task_script := ts, task_refs := R, task_lwip_timer := t\<rparr>)"
proof -
  obtain t ts R where n: "hev_task_new g = (t, g\<lparr>task_script := ts, task_refs := R\<rparr>)" by (rule hev_task_new_cases)
  let ?g = "g\<lparr>task_script := ts, task_refs := R, task_lwip_timer := t\<rparr>"
  have "tasks_part g0 ((\<lambda>g. g\<lparr>task_lwip_timer := t\<rparr>) (g\<lparr>task_script := ts, task_refs := R\<rparr>))"
    by (rule new_task_ok [OF _ n]) (use assms in \<open>simp_all add: part_def own_tasks_def\<close>)
  then have "tasks_part g0 ?g" by simp
  then have "part ext g0 ?g" by (rule part_tasks [OF assms(1)]) simp_all
  moreover have "lwip_timer_task_init g = Some (if t = NULL then - 1 else 0, ?g)" using n by (simp add: lwip_timer_task_init_def)
  ultimately show ?thesis by (intro exI [of _ "if t = NULL then - 1 else 0"] exI [of _ t] exI [of _ ts] exI [of _ R]) simp
qed

lemma mapped_dns_init_ok:
  assumes "part ext g0 g" "0 \<le> hev_config_get_mapdns_cache_size cfg"
  shows "\<exists>r D. mapped_dns_init cfg mem_ok bs g = Some (r, g\<lparr>singleton := D\<rparr>) \<and> part ext g0 (g\<lparr>singleton := D\<rparr>)"
proof -
  have s: "g\<lparr>singleton := singleton g\<rparr> = g" by simp
  have p: "part ext g0 (g\<lparr>singleton := D\<rparr>)" if "\<And>d. D = Some d \<Longrightarrow> \<exists>c. dns_at d c" for D
    using assms(1) that fds_part_cong [of "g\<lparr>singleton := D\<rparr>" g]
    by (simp add: part_def pcbs_part_def own_pcbs_def tasks_part_def own_tasks_def dns_part_def)
  let ?n = "hev_mapped_dns_new mem_ok bs (hev_config_get_mapdns_network cfg) (hev_config_get_mapdns_netmask cfg) (hev_config_get_mapdns_cache_size cfg)"
  show ?thesis
  proof (cases "hev_config_get_mapdns_cache_size cfg = 0 \<or> ?n = None")
    case True
    then have "\<exists>r. mapped_dns_init cfg mem_ok bs g = Some (r, g)" by (auto simp: mapped_dns_init_def)
    then show ?thesis using assms(1) s by metis
  next
    case False
    then obtain d where d: "?n = Some d" by auto
    then have "mem_ok" by (cases mem_ok) (simp_all add: hev_mapped_dns_new_def)
    then have "\<exists>c. dns_at d c" using new_refines [of bs _ _ _ d] d assms(2) by auto
    moreover have "mapped_dns_init cfg mem_ok bs g = Some (0, g\<lparr>singleton := Some d\<rparr>)"
      using False d by (simp add: mapped_dns_init_def hev_mapped_dns_put_def)
    ultimately show ?thesis using p [of "Some d"] by auto
  qed
qed

lemma fds_part_pair:
  assumes "fds_part ext g0 g" "fd_script g = a # b # ds" "0 \<le> a" "0 \<le> b" "event_fd0 g = - 1" "event_fd1 g = - 1"
    and "g' = g\<lparr>fd_script := ds, tfds := insert a (insert b (tfds g)), event_fd0 := a, event_fd1 := b\<rparr>"
  shows "fds_part ext g0 g'"
proof -
  have e: "event_fds g = {}" "event_fds g' = {a, b}" "dev_fds ext g' = dev_fds ext g"
    using assms(3-7) by (auto simp: event_fds_def dev_fds_def)
  have f: "fds_fresh (tfds g) (a # b # ds)" "tfds g = tfds g0 \<union> dev_fds ext g"
    using assms(1) e(1) unfolding fds_part_def assms(2) by auto
  have "a \<notin> tfds g" "fds_fresh (insert a (tfds g)) (b # ds)" using fds_fresh_Cons [OF f(1)] assms(3) by simp_all
  then have "b \<notin> insert a (tfds g)" "fds_fresh (insert b (insert a (tfds g))) ds" "a \<notin> tfds g"
    using fds_fresh_Cons [of "insert a (tfds g)" b ds] assms(4) by simp_all
  then show ?thesis
    using assms(1,3,4,7) e f(2) unfolding fds_part_def by (auto simp: insert_commute)
qed

lemma sys_socketpair_ok:
  assumes "fds_part ext g0 g" "event_fd0 g = - 1" "event_fd1 g = - 1"
  shows "\<exists>r g'. sys_socketpair g = (r, g') \<and> fds_part ext g0 g' \<and> (0 \<le> r \<longrightarrow> 0 \<le> event_fd0 g' \<and> 0 \<le> event_fd1 g') \<and>
    g' = g\<lparr>tfds := tfds g', fd_script := fd_script g', ioctl_script := ioctl_script g', event_fd0 := event_fd0 g', event_fd1 := event_fd1 g'\<rparr>"
proof -
  obtain r qs where r: "sys_ioctl g = (r, used g (fd_script g) qs)" by (rule ioctl_cases)
  let ?u = "used g (fd_script g) qs"
  have u: "fds_part ext g0 ?u" "event_fd0 ?u = - 1" "event_fd1 ?u = - 1"
    using assms fds_part_cong [of ?u g] by (simp_all add: used_def)
  show ?thesis
  proof (cases "\<not> ioctl_res r < 0 \<and> (\<exists>a b ds. fd_script g = a # b # ds \<and> 0 \<le> a \<and> 0 \<le> b)")
    case True
    then obtain a b ds where f: "fd_script g = a # b # ds" "0 \<le> a" "0 \<le> b" by blast
    let ?g = "?u\<lparr>fd_script := ds, tfds := insert a (insert b (tfds ?u)), event_fd0 := a, event_fd1 := b\<rparr>"
    have "sys_socketpair g = (0, ?g)" using True r f by (simp add: sys_socketpair_def)
    moreover have "fds_part ext g0 ?g" using f u by (intro fds_part_pair [OF u(1)]) simp_all
    ultimately show ?thesis using f by (intro exI [of _ 0] exI [of _ ?g]) (simp add: used_def)
  next
    case False
    then have "sys_socketpair g = (- 1, ?u)"
      using r by (auto simp: sys_socketpair_def not_less split: list.split)
    then show ?thesis using u by (intro exI [of _ "- 1"] exI [of _ ?u]) (simp add: used_def)
  qed
qed

lemma event_task_init_ok:
  assumes "part ext g0 g" "event_fd0 g = - 1" "event_fd1 g = - 1" "task_event g = NULL" "task_lwip_io g = NULL" "task_lwip_timer g = NULL"
  shows "\<exists>r g'. event_task_init g = Some (r, g') \<and> part ext g0 g' \<and> task_lwip_io g' = NULL \<and> task_lwip_timer g' = NULL \<and>
    tun_fd g' = tun_fd g \<and> tcp_pcb g' = tcp_pcb g \<and> udp_pcb g' = udp_pcb g \<and>
    (0 \<le> r \<longrightarrow> task_event g' \<noteq> NULL \<and> 0 \<le> event_fd0 g' \<and> 0 \<le> event_fd1 g')"
proof -
  have p: "fds_part ext g0 g" "pcbs_part g0 g" "tasks_part g0 g" "dns_part g" using assms(1) by (simp_all add: part_def)
  from sys_socketpair_ok [OF p(1) assms(2,3)] obtain r F D Q a b where
    s: "sys_socketpair g = (r, g\<lparr>tfds := F, fd_script := D, ioctl_script := Q, event_fd0 := a, event_fd1 := b\<rparr>)"
      "fds_part ext g0 (g\<lparr>tfds := F, fd_script := D, ioctl_script := Q, event_fd0 := a, event_fd1 := b\<rparr>)"
      "0 \<le> r \<longrightarrow> 0 \<le> a \<and> 0 \<le> b" by metis
  let ?g1 = "g\<lparr>tfds := F, fd_script := D, ioctl_script := Q, event_fd0 := a, event_fd1 := b\<rparr>"
  obtain q Q2 where q: "sys_ioctl ?g1 = (q, used ?g1 (fd_script ?g1) Q2)" by (rule ioctl_cases)
  let ?g2 = "used ?g1 (fd_script ?g1) Q2"
  have p1: "part ext g0 ?g1" "part ext g0 ?g2"
    using s(2) p(2-4) fds_part_cong [of ?g2 ?g1 ext g0]
    by (simp_all add: part_def pcbs_part_def own_pcbs_def tasks_part_def own_tasks_def dns_part_def used_def)
  obtain t ts R where n: "hev_task_new ?g2 = (t, ?g2\<lparr>task_script := ts, task_refs := R\<rparr>)" by (rule hev_task_new_cases)
  let ?g3 = "?g2\<lparr>task_script := ts, task_refs := R, task_event := t\<rparr>"
  have "tasks_part g0 ((\<lambda>g. g\<lparr>task_event := t\<rparr>) (?g2\<lparr>task_script := ts, task_refs := R\<rparr>))"
    by (rule new_task_ok [OF _ n]) (use assms p1(2) in \<open>simp_all add: part_def own_tasks_def used_def\<close>)
  then have "tasks_part g0 ?g3" by simp
  then have p3: "part ext g0 ?g3" by (rule part_tasks [OF p1(2)]) simp_all
  have e: "event_task_init g =
      (if r < 0 then Some (- 1, ?g1) else if ioctl_res q < 0 then Some (- 1, ?g2) else Some (if t = NULL then - 1 else 0, ?g3))"
    using s(1) q n by (simp add: event_task_init_def)
  show ?thesis
  proof (cases "r < 0 \<or> ioctl_res q < 0")
    case True
    then have "event_task_init g = Some (- 1, if r < 0 then ?g1 else ?g2)" unfolding e by auto
    then show ?thesis using p1 assms(5,6) by (intro exI [of _ "- 1"] exI [of _ "if r < 0 then ?g1 else ?g2"]) (simp add: used_def)
  next
    case False
    then have "event_task_init g = Some (if t = NULL then - 1 else 0, ?g3)" using e by simp
    then show ?thesis using p3 assms(5,6) s(3) False
      by (intro exI [of _ "if t = NULL then - 1 else 0"] exI [of _ ?g3]) (simp add: used_def)
  qed
qed

text \<open>A chain of steps that keeps the account of what is held, and reaches \<open>P\<close> where it does not fail.\<close>

definition reaches :: "int \<Rightarrow> HevTunnel \<Rightarrow> (HevTunnel \<Rightarrow> bool) \<Rightarrow> (int \<times> HevTunnel) option \<Rightarrow> bool" where
  "reaches ext g0 P m \<longleftrightarrow> (\<exists>r g. m = Some (r, g) \<and> part ext g0 g \<and> (0 \<le> r \<longrightarrow> P g))"

lemma reachesI: "m = Some (r, g) \<Longrightarrow> part ext g0 g \<Longrightarrow> (0 \<le> r \<Longrightarrow> P g) \<Longrightarrow> reaches ext g0 P m"
  unfolding reaches_def by blast

lemma and_then_reaches:
  assumes "reaches ext g0 P m" "\<And>g. part ext g0 g \<Longrightarrow> P g \<Longrightarrow> reaches ext g0 Q (f g)"
  shows "reaches ext g0 Q (and_then m f)"
proof -
  obtain r g where m: "m = Some (r, g)" "part ext g0 g" "0 \<le> r \<longrightarrow> P g" using assms(1) by (auto simp: reaches_def)
  show ?thesis
  proof (cases "r < 0")
    case True
    then show ?thesis using m by (intro reachesI [of _ "- 1" g]) (simp_all add: and_then_def)
  next
    case False
    then show ?thesis using m assms(2) [of g] by (simp add: and_then_def)
  qed
qed

text \<open>The stages of \<^verbatim>\<open>hev_socks5_tunnel_init\<close>.\<close>

definition opened :: "HevTunnel \<Rightarrow> HevTunnel \<Rightarrow> bool" where
  "opened g0 g \<longleftrightarrow> 0 \<le> tun_fd g \<and> pcbs_fresh g \<and> pcbs g = pcbs g0 \<and> event_fd0 g = - 1 \<and> event_fd1 g = - 1 \<and>
     task_event g = NULL \<and> task_lwip_io g = NULL \<and> task_lwip_timer g = NULL"

definition listening :: "HevTunnel \<Rightarrow> bool" where
  "listening g \<longleftrightarrow> 0 \<le> tun_fd g \<and> tcp_pcb g \<noteq> NULL \<and> udp_pcb g \<noteq> NULL"

definition with_events :: "HevTunnel \<Rightarrow> bool" where
  "with_events g \<longleftrightarrow> listening g \<and> task_event g \<noteq> NULL \<and> 0 \<le> event_fd0 g \<and> 0 \<le> event_fd1 g"

definition tunnel_ready :: "HevTunnel \<Rightarrow> bool" where
  "tunnel_ready g \<longleftrightarrow> with_events g \<and> task_lwip_io g \<noteq> NULL \<and> task_lwip_timer g \<noteq> NULL"

text \<open>The state of the process before the tunnel was ever started, and what the system will answer.\<close>

definition clean :: "HevTunnel \<Rightarrow> bool" where
  "clean g \<longleftrightarrow> tun_fd g < 0 \<and> \<not> tun_fd_local g \<and> event_fd0 g = - 1 \<and> event_fd1 g = - 1 \<and> tcp_pcb g = NULL \<and> udp_pcb g = NULL \<and>
     task_event g = NULL \<and> task_lwip_io g = NULL \<and> task_lwip_timer g = NULL \<and> singleton g = None"

definition answers_ok :: "HevTunnel \<Rightarrow> bool" where
  "answers_ok g \<longleftrightarrow> fds_fresh (tfds g) (fd_script g) \<and> pcbs_fresh g \<and>
     distinct (filter (\<lambda>p. p \<noteq> NULL) (task_script g)) \<and> (\<forall>p\<in>set (task_script g). p \<noteq> NULL \<longrightarrow> task_refs g p = 0)"

lemma tunnel_init_reaches:
  assumes "config_ok cfg" "clean g" "answers_ok g"
  shows "reaches ext g (opened g) (tunnel_init cfg rs ext g)"
proof -
  obtain r g' where t: "tunnel_init cfg rs ext g = Some (r, g')" "fds_part ext g g'" "dev_only g g'" "0 \<le> r \<longrightarrow> 0 \<le> tun_fd g'"
    using tunnel_init_ok [OF assms(1), of g rs ext] assms(2,3) by (auto simp: clean_def answers_ok_def)
  have "pcbs_part g g'" "tasks_part g g'" "dns_part g'"
    using t(3) assms(2,3) by (simp_all add: dev_only_def clean_def answers_ok_def pcbs_part_def own_pcbs_def tasks_part_def own_tasks_def dns_part_def)
  then have "part ext g g'" using t(2) by (simp add: part_def)
  moreover have "opened g g'" if "0 \<le> r"
    using that t(3,4) assms(2,3) by (simp add: opened_def dev_only_def clean_def answers_ok_def pcbs_fresh_def)
  ultimately show ?thesis using t(1) by (intro reachesI)
qed

lemma tunnel_init_stages:
  assumes "config_ok cfg" "clean g" "answers_ok g" "0 \<le> hev_config_get_mapdns_cache_size cfg"
  shows "reaches ext g tunnel_ready (and_then (and_then (and_then (and_then (and_then
    (tunnel_init cfg rs ext g) gateway_init) event_task_init) lwip_io_task_init) lwip_timer_task_init) (mapped_dns_init cfg mem_ok bs))"
proof (intro and_then_reaches)
  show "reaches ext g (opened g) (tunnel_init cfg rs ext g)" by (rule tunnel_init_reaches [OF assms(1-3)])
next
  fix h assume h: "part ext g h" "opened g h"
  obtain b c ps where "gateway_init h = Some (0, h\<lparr>netif_added := True, pcb_script := ps, pcbs := pcbs h \<union> {b, c}, tcp_pcb := b, udp_pcb := c\<rparr>)"
      "b \<noteq> NULL" "c \<noteq> NULL" "pcbs_part g (h\<lparr>netif_added := True, pcb_script := ps, pcbs := pcbs h \<union> {b, c}, tcp_pcb := b, udp_pcb := c\<rparr>)"
    using gateway_init_ok [of h g] h(2) by (auto simp: opened_def)
  moreover define k where "k = h\<lparr>netif_added := True, pcb_script := ps, pcbs := pcbs h \<union> {b, c}, tcp_pcb := b, udp_pcb := c\<rparr>"
  moreover have "fds_part ext g k = fds_part ext g h" by (rule fds_part_cong) (simp_all add: k_def)
  ultimately show "reaches ext g (\<lambda>k. listening k \<and> event_fd0 k = - 1 \<and> event_fd1 k = - 1 \<and> task_event k = NULL \<and>
      task_lwip_io k = NULL \<and> task_lwip_timer k = NULL) (gateway_init h)"
    using h by (intro reachesI [of _ 0 k]) (simp_all add: part_def tasks_part_def own_tasks_def dns_part_def listening_def opened_def)
next
  fix h assume "part ext g h" "listening h \<and> event_fd0 h = - 1 \<and> event_fd1 h = - 1 \<and> task_event h = NULL \<and>
      task_lwip_io h = NULL \<and> task_lwip_timer h = NULL"
  then show "reaches ext g (\<lambda>k. with_events k \<and> task_lwip_io k = NULL \<and> task_lwip_timer k = NULL) (event_task_init h)"
    using event_task_init_ok [of ext g h] by (force simp: reaches_def with_events_def listening_def)
next
  fix h assume h: "part ext g h" "with_events h \<and> task_lwip_io h = NULL \<and> task_lwip_timer h = NULL"
  then show "reaches ext g (\<lambda>k. with_events k \<and> task_lwip_io k \<noteq> NULL \<and> task_lwip_timer k = NULL) (lwip_io_task_init h)"
    using lwip_io_task_init_ok [of ext g h] by (force simp: reaches_def with_events_def listening_def)
next
  fix h assume h: "part ext g h" "with_events h \<and> task_lwip_io h \<noteq> NULL \<and> task_lwip_timer h = NULL"
  then show "reaches ext g tunnel_ready (lwip_timer_task_init h)"
    using lwip_timer_task_init_ok [of ext g h] by (force simp: reaches_def tunnel_ready_def with_events_def listening_def)
next
  fix h assume h: "part ext g h" "tunnel_ready h"
  then show "reaches ext g tunnel_ready (mapped_dns_init cfg mem_ok bs h)"
    using mapped_dns_init_ok [OF h(1) assms(4), of mem_ok bs] by (force simp: reaches_def tunnel_ready_def with_events_def listening_def)
qed

section \<open>Running\<close>

text \<open>What the scheduler leaves when it returns: the three tasks have ended, and with each of them its reference; the listeners
  and descriptors of the tunnel are as they were; the cache of the mapped DNS is still well-formed.\<close>

definition ran :: "HevTunnel \<Rightarrow> HevTunnel \<Rightarrow> bool" where
  "ran g g' \<longleftrightarrow> dev_only (g\<lparr>singleton := singleton g', task_refs := (\<lambda>p. task_refs g p - (if p \<in> set (own_tasks g) then 1 else 0))\<rparr>) g' \<and>
     tfds g' = tfds g \<and> fd_script g' = fd_script g \<and> tun_fd g' = tun_fd g \<and> tun_fd_local g' = tun_fd_local g \<and>
     (dns_part g \<longrightarrow> dns_part g')"

lemma hev_task_ref_fields [simp]:
  "task_lwip_io (hev_task_ref p g) = task_lwip_io g" "task_lwip_timer (hev_task_ref p g) = task_lwip_timer g"
  by (simp_all add: hev_task_ref_def)

lemma run_part:
  assumes "part ext g0 g" "tunnel_ready g" "\<And>g. \<exists>g'. exec g = Some g' \<and> ran g g'"
  shows "\<exists>g'. hev_socks5_tunnel_run exec g = Some (0, g') \<and> part ext g0 g' \<and> tun_fd_local g' = tun_fd_local g"
proof -
  define h where "h = (hev_task_ref (task_lwip_timer g) (hev_task_ref (task_lwip_io g) (hev_task_ref (task_event g) g)))\<lparr>tn_run := True\<rparr>"
  obtain g' where g': "exec h = Some g'" "ran h g'" using assms(3) by blast
  have n: "task_event g \<noteq> NULL" "task_lwip_io g \<noteq> NULL" "task_lwip_timer g \<noteq> NULL"
    using assms(2) by (simp_all add: tunnel_ready_def with_events_def)
  then have own: "own_tasks g = [task_event g, task_lwip_io g, task_lwip_timer g]" by (simp add: own_tasks_def)
  have t: "tasks_part g0 g" using assms(1) by (simp add: part_def)
  have d: "distinct (own_tasks g)" using t by (simp add: tasks_part_def)
  have oh: "own_tasks h = own_tasks g" by (simp add: h_def own_tasks_def hev_task_ref_def)
  have "task_refs h = (\<lambda>p. task_refs g p + (if p \<in> set (own_tasks g) then 1 else 0))"
    using d unfolding own by (auto simp: h_def hev_task_ref_def fun_eq_iff)
  then have r: "task_refs g' = task_refs g" using g'(2) oh by (simp add: ran_def dev_only_def fun_eq_iff)
  have o': "own_tasks g' = own_tasks g" using g'(2) by (simp add: ran_def dev_only_def own_tasks_def h_def hev_task_ref_def)
  have "tasks_part g0 g'" using t r o' g'(2) by (simp add: tasks_part_def ran_def dev_only_def h_def hev_task_ref_def)
  moreover have "fds_part ext g0 g' = fds_part ext g0 g"
    using g'(2) by (intro fds_part_cong) (simp_all add: ran_def dev_only_def h_def hev_task_ref_def)
  moreover have "pcbs_part g0 g'"
    using assms(1) g'(2) by (simp add: part_def pcbs_part_def own_pcbs_def ran_def dev_only_def h_def hev_task_ref_def)
  moreover have "dns_part g'" using assms(1) g'(2) by (simp add: part_def ran_def dns_part_def h_def hev_task_ref_def)
  ultimately have "part ext g0 g'" using assms(1) by (simp add: part_def)
  moreover have "tun_fd_local g' = tun_fd_local g" using g'(2) by (simp add: ran_def h_def hev_task_ref_def)
  moreover have "hev_socks5_tunnel_run exec g = Some (0, g')"
    using g'(1) unfolding h_def hev_socks5_tunnel_run_def by (simp add: Let_def)
  ultimately show ?thesis by blast
qed

section \<open>What a start leaves\<close>

text \<open>The device the tunnel opened itself is closed again.\<close>

definition keeps_local :: "(HevTunnel \<Rightarrow> (int \<times> HevTunnel) option) \<Rightarrow> bool" where
  "keeps_local f \<longleftrightarrow> (\<forall>g r g'. f g = Some (r, g') \<longrightarrow> tun_fd_local g' = tun_fd_local g)"

lemma stages_keep_local:
  "keeps_local gateway_init" "keeps_local event_task_init" "keeps_local lwip_io_task_init" "keeps_local lwip_timer_task_init"
  "keeps_local (mapped_dns_init cfg mem_ok bs)"
proof -
  have t: "tun_fd_local g' = tun_fd_local g" if "hev_task_new g = (t, g')" for g g' t
    using that by (auto simp: hev_task_new_def split: list.splits)
  have a: "tun_fd_local g' = tun_fd_local g" if "alloc_pcb g = (t, g')" for g g' t
    using that by (auto simp: alloc_pcb_def split: list.splits)
  have i: "tun_fd_local g' = tun_fd_local g" if "sys_ioctl g = (t, g')" for g g' t
    using that by (auto simp: sys_ioctl_def split: list.splits)
  show "keeps_local gateway_init"
    by (auto simp: keeps_local_def gateway_init_def tcp_listen_def Let_def dest!: a split: prod.splits if_splits)
  show "keeps_local event_task_init"
    by (auto simp: keeps_local_def event_task_init_def sys_socketpair_def Let_def dest!: t i split: prod.splits if_splits list.splits)
  show "keeps_local lwip_io_task_init" "keeps_local lwip_timer_task_init"
    by (auto simp: keeps_local_def lwip_io_task_init_def lwip_timer_task_init_def Let_def dest!: t split: prod.splits)
  show "keeps_local (mapped_dns_init cfg mem_ok bs)"
    by (auto simp: keeps_local_def mapped_dns_init_def split: if_splits option.splits)
qed

lemma and_then_local:
  assumes "and_then r f = Some (y, g')" "0 \<le> y" "keeps_local f"
  shows "\<exists>x g. r = Some (x, g) \<and> 0 \<le> x \<and> tun_fd_local g' = tun_fd_local g"
  using assms by (fastforce simp: and_then_def keeps_local_def split: option.splits if_splits)

lemma tunnel_init_local:
  assumes "hev_socks5_tunnel_init cfg rs mem_ok bs ext g = Some (0, g1)" "ext < 0"
  shows "tun_fd_local g1"
proof -
  let ?r = "and_then (and_then (and_then (and_then (and_then (tunnel_init cfg rs ext g) gateway_init) event_task_init)
      lwip_io_task_init) lwip_timer_task_init) (mapped_dns_init cfg mem_ok bs)"
  obtain r where "?r = Some (r, g1)" "0 \<le> r"
    using assms(1) unfolding hev_socks5_tunnel_init_def by (auto split: option.splits if_splits)
  from and_then_local [OF this stages_keep_local(5)] obtain r g5 where
    5: "and_then (and_then (and_then (and_then (tunnel_init cfg rs ext g) gateway_init) event_task_init)
      lwip_io_task_init) lwip_timer_task_init = Some (r, g5)" "0 \<le> r" "tun_fd_local g1 = tun_fd_local g5" by blast
  from and_then_local [OF 5(1,2) stages_keep_local(4)] obtain r g4 where
    4: "and_then (and_then (and_then (tunnel_init cfg rs ext g) gateway_init) event_task_init)
      lwip_io_task_init = Some (r, g4)" "0 \<le> r" "tun_fd_local g5 = tun_fd_local g4" by blast
  from and_then_local [OF 4(1,2) stages_keep_local(3)] obtain r g3 where
    3: "and_then (and_then (tunnel_init cfg rs ext g) gateway_init) event_task_init = Some (r, g3)" "0 \<le> r"
      "tun_fd_local g4 = tun_fd_local g3" by blast
  from and_then_local [OF 3(1,2) stages_keep_local(2)] obtain r g2 where
    2: "and_then (tunnel_init cfg rs ext g) gateway_init = Some (r, g2)" "0 \<le> r" "tun_fd_local g3 = tun_fd_local g2" by blast
  from and_then_local [OF 2(1,2) stages_keep_local(1)] obtain r h where
    1: "tunnel_init cfg rs ext g = Some (r, h)" "0 \<le> r" "tun_fd_local g2 = tun_fd_local h" by blast
  have "tun_fd_local h"
    using 1(1,2) assms(2) by (auto simp: tunnel_init_def Let_def and_then_def split: option.splits prod.splits if_splits)
  then show ?thesis using 1 2 3 4 5 by simp
qed

lemma finis_keep_local:
  "mapped_dns_fini g = Some g' \<Longrightarrow> tun_fd_local g' = tun_fd_local g"
  "lwip_timer_task_fini g = Some g' \<Longrightarrow> tun_fd_local g' = tun_fd_local g"
  "lwip_io_task_fini g = Some g' \<Longrightarrow> tun_fd_local g' = tun_fd_local g"
  "event_task_fini g = Some g' \<Longrightarrow> tun_fd_local g' = tun_fd_local g"
  "gateway_fini g = Some g' \<Longrightarrow> tun_fd_local g' = tun_fd_local g"
  by (auto simp: mapped_dns_fini_def lwip_timer_task_fini_def lwip_io_task_fini_def event_task_fini_def gateway_fini_def task_fini_def
      hev_task_unref_def free_pcb_def close_fd_def Let_def split: option.splits if_splits)

lemma tunnel_fini_device:
  assumes "hev_socks5_tunnel_fini cfg g = Some g'" "tun_fd_local g"
  shows "tun_fd g' = - 1"
proof -
  obtain h k where "tunnel_fini cfg h = Some k" "tun_fd_local h" "tun_fd g' = tun_fd k"
    using assms unfolding hev_socks5_tunnel_fini_def
    by (auto simp: bind_eq_Some_conv finis_keep_local split: option.splits)
  then show ?thesis by (auto simp: tunnel_fini_def split: option.splits if_splits)
qed

lemma tunnel_init_cases:
  assumes "config_ok cfg" "0 \<le> hev_config_get_mapdns_cache_size cfg" "clean g" "answers_ok g"
  shows "\<exists>g1. hev_socks5_tunnel_init cfg rs mem_ok bs ext g = Some (- 1, g1) \<and> released ext g g1 \<or>
    hev_socks5_tunnel_init cfg rs mem_ok bs ext g = Some (0, g1) \<and> part ext g g1 \<and> tunnel_ready g1"
proof -
  obtain r g1 where i: "and_then (and_then (and_then (and_then (and_then (tunnel_init cfg rs ext g) gateway_init) event_task_init)
      lwip_io_task_init) lwip_timer_task_init) (mapped_dns_init cfg mem_ok bs) = Some (r, g1)" "part ext g g1" "0 \<le> r \<longrightarrow> tunnel_ready g1"
    using tunnel_init_stages [OF assms(1,3,4,2), of ext rs mem_ok bs] unfolding reaches_def by blast
  show ?thesis
    using tunnel_fini_released [OF assms(1) i(2)] i unfolding hev_socks5_tunnel_init_def by (cases "r < 0") auto
qed

text \<open>A start that succeeded, the run, and the end: nothing is left.\<close>

lemma tunnel_run_released:
  assumes "config_ok cfg" "hev_socks5_tunnel_init cfg rs mem_ok bs ext g = Some (0, g1)" "part ext g g1" "tunnel_ready g1"
    and "\<And>g. \<exists>g'. exec g = Some g' \<and> ran g g'"
  shows "\<exists>g2 g3. hev_socks5_tunnel_run exec g1 = Some (0, g2) \<and> hev_socks5_tunnel_fini cfg g2 = Some g3 \<and>
    released ext g g3 \<and> tfds g3 = tfds g"
proof -
  obtain g2 where 2: "hev_socks5_tunnel_run exec g1 = Some (0, g2)" "part ext g g2" "tun_fd_local g2 = tun_fd_local g1"
    using run_part [OF assms(3-5)] by blast
  obtain g3 where 3: "hev_socks5_tunnel_fini cfg g2 = Some g3" "released ext g g3" using tunnel_fini_released [OF assms(1) 2(2)] by blast
  have "dev_fds ext g3 = {}"
    using tunnel_init_local [OF assms(2)] tunnel_fini_device [OF 3(1)] 2(3) by (auto simp: dev_fds_def)
  then show ?thesis using 2 3 by (auto simp: released_def)
qed

section \<open>An example\<close>

definition no_names :: resolver where
  "no_names = \<lparr>pton4 = (\<lambda>_. None), pton6 = (\<lambda>_. None), getaddrinfo = (\<lambda>_ _. GaiNone)\<rparr>"

definition exec_example :: "HevTunnel \<Rightarrow> HevTunnel option" where
  "exec_example g = Some (g\<lparr>task_refs := (\<lambda>p. task_refs g p - (if p \<in> set (own_tasks g) then 1 else 0)), tn_run := False\<rparr>)"

lemma exec_example_ran: "\<exists>g'. exec_example g = Some g' \<and> ran g g'"
  by (simp add: exec_example_def ran_def dev_only_def own_tasks_def dns_part_def)

lemma tunnel_example_ok: "clean tunnel_example" "answers_ok tunnel_example"
  by (simp_all add: tunnel_example_def clean_def answers_ok_def fds_fresh_def pcbs_fresh_def)

lemma tunnel_example_tfds: "tfds tunnel_example = {0, 1, 2}"
  by (simp add: tunnel_example_def)

lemma config_defaults_accessors:
  "hev_config_get_tunnel_name config_defaults = None" "hev_config_get_tunnel_ipv4_address config_defaults = None"
  "hev_config_get_tunnel_ipv6_address config_defaults = None" "hev_config_get_tunnel_post_up_script config_defaults = None"
  "hev_config_get_tunnel_pre_down_script config_defaults = None" "hev_config_get_mapdns_cache_size config_defaults = 0"
  by (simp_all add: hev_config_get_mapdns_cache_size_def config_defaults_def array_ptr_def hev_config_get_tunnel_name_def hev_config_get_tunnel_ipv4_address_def
    hev_config_get_tunnel_ipv6_address_def hev_config_get_tunnel_post_up_script_def hev_config_get_tunnel_pre_down_script_def)

lemma tunnel_example_init: "\<exists>g1. hev_socks5_tunnel_init config_defaults rs True [] (- 1) tunnel_example = Some (0, g1)"
  by (simp add: hev_socks5_tunnel_init_def tunnel_example_def and_then_def tunnel_init_def hev_tunnel_open_def sys_fd_def sys_ioctl_def
    ioctl_res_def config_defaults_accessors tunnel_setup_def if_set_def hev_tunnel_set_mtu_def hev_tunnel_set_state_def close_fd_def
    gateway_init_def alloc_pcb_def tcp_listen_def event_task_init_def sys_socketpair_def hev_task_new_def lwip_io_task_init_def
    lwip_timer_task_init_def mapped_dns_init_def)

section \<open>What the life cycle does not handle\<close>

text \<open>The static variables keep the listeners that finalisation has freed: when a later start fails before it makes new ones,
  they are freed again.\<close>

lemma tunnel_second_start:
  assumes "pcbs_part g0 g" "udp_pcb g \<noteq> NULL" "gateway_fini g = Some g1"
    and "singleton g1 = None" "task_event g1 = NULL" "task_lwip_io g1 = NULL" "task_lwip_timer g1 = NULL"
    and "ioctl_script g1 = IoctlFailed # qs" "0 \<le> ext"
  shows "hev_socks5_tunnel_init cfg rs mem_ok bs ext g1 = None"
proof -
  have "g1 = g\<lparr>pcbs := pcbs g0, netif_added := False\<rparr>" using gateway_fini_ok [OF assms(1)] assms(3) by simp
  moreover have "udp_pcb g \<notin> pcbs g0" using assms(1,2) by (auto simp: pcbs_part_def own_pcbs_def)
  ultimately have "udp_pcb g1 \<noteq> NULL" "udp_pcb g1 \<notin> pcbs g1" using assms(2) by simp_all
  then show ?thesis
    using assms(4-9)
    by (simp add: hev_socks5_tunnel_init_def tunnel_init_def sys_ioctl_def ioctl_res_def and_then_def hev_socks5_tunnel_fini_def
      mapped_dns_fini_def hev_mapped_dns_get_def lwip_timer_task_fini_def lwip_io_task_fini_def event_task_fini_def task_fini_def
      gateway_fini_def free_pcb_def close_fd_def Let_def)
qed

text \<open>After a start that failed, or after finalisation, the request to stop waits as long as it is given.\<close>

lemma tunnel_stop_waits: "released ext g0 g \<Longrightarrow> hev_socks5_tunnel_stop (replicate n (event_fd1 g)) = None"
  by (induction n) (simp_all add: released_def)

text \<open>An address that \<^verbatim>\<open>inet_pton\<close> does not understand is ignored without an error.\<close>

lemma tunnel_ipv4_ignored:
  "pton4 rs addr = None \<Longrightarrow> fd_script g = d # ds \<Longrightarrow> 0 \<le> d \<Longrightarrow> fst (hev_tunnel_set_ipv4 rs addr g) = 0"
  by (simp add: hev_tunnel_set_ipv4_def sys_fd_def)

section \<open>Properties\<close>



end
