(* ===== verification/TunnelTasks.thy ===== *)
theory TunnelTasks
  imports Tunnel
begin

text \<open>
  What the tunnel does while it runs (\<^verbatim>\<open>hev-socks5-tunnel.c\<close>, \<^verbatim>\<open>hev-tunnel.h\<close>): the task that reads packets from the device and
  gives them to lwIP, the handler that writes lwIP's packets to the device, the task of lwIP's timers, and the handler of
  queries to the mapped DNS. \<open>pbufs_held\<close> counts the packet buffers the tunnel has to free or to hand on.
\<close>

section \<open>The device\<close>

datatype err_t = ERR_OK | ERR_MEM | ERR_BUF | ERR_TIMEOUT | ERR_RTE | ERR_INPROGRESS | ERR_VAL | ERR_WOULDBLOCK | ERR_USE
  | ERR_ALREADY | ERR_ISCONN | ERR_CONN | ERR_IF | ERR_ABRT | ERR_RST | ERR_CLSD | ERR_ARG

text \<open>What a pass of the loop meets: no buffer; a read that fails, and whether the event task stopped the tunnel while it waited;
  a packet, whether the tunnel was stopped while the task waited for the mutex, and whether lwIP takes the packet.\<close>

datatype tun_event = NoBuffer | ReadFailed bool | ReadPacket bytes bool bool

text \<open>The buffer is as long as \<^verbatim>\<open>pbuf_alloc\<close> makes it, which takes a 16-bit length; a read takes no more than that.\<close>

definition hev_tunnel_read :: "u32 \<Rightarrow> tun_event \<Rightarrow> HevTunnel \<Rightarrow> bytes option \<times> HevTunnel" where
  "hev_tunnel_read mtu e g =
     (case e of
        NoBuffer \<Rightarrow> (None, g)
      | ReadFailed stop \<Rightarrow>
          let g = g\<lparr>pbufs_held := pbufs_held g + 1\<rparr>;
              g = g\<lparr>tn_run := (tn_run g \<and> \<not> stop)\<rparr>
          in (None, g\<lparr>pbufs_held := pbufs_held g - 1\<rparr>)
      | ReadPacket p stop taken \<Rightarrow>
          let g = g\<lparr>pbufs_held := pbufs_held g + 1\<rparr>;
              buf = take (unat (ucast mtu :: u16)) p
          in if length buf = 0 then (None, g\<lparr>pbufs_held := pbufs_held g - 1\<rparr>) else (Some buf, g))"

text \<open>Locking the mutex, where the task may wait, and \<^verbatim>\<open>netif.input\<close>: lwIP takes the buffer, or the task frees it.\<close>

definition netif_input :: "bytes \<Rightarrow> tun_event \<Rightarrow> HevTunnel \<Rightarrow> HevTunnel" where
  "netif_input buf e g =
     (case e of
        ReadPacket _ stop taken \<Rightarrow>
          let g = g\<lparr>tn_run := (tn_run g \<and> \<not> stop)\<rparr>
          in if taken then g\<lparr>lwip_in := lwip_in g @ [buf], pbufs_held := pbufs_held g - 1\<rparr>
             else g\<lparr>pbufs_held := pbufs_held g - 1\<rparr>
      | _ \<Rightarrow> g)"

text \<open>The loop; \<open>None\<close> while it waits for another packet.\<close>

fun lwip_io_loop :: "u32 \<Rightarrow> tun_event list \<Rightarrow> HevTunnel \<Rightarrow> HevTunnel option" where
  "lwip_io_loop mtu [] g = (if tn_run g then None else Some g)"
| "lwip_io_loop mtu (e # es) g =
     (if \<not> tn_run g then Some g
      else
        case hev_tunnel_read mtu e g of
          (None, g) \<Rightarrow> lwip_io_loop mtu es g
        | (Some buf, g) \<Rightarrow>
            let g = g\<lparr>stat_tx_packets := stat_tx_packets g + 1\<rparr>;
                g = g\<lparr>stat_tx_bytes := stat_tx_bytes g + of_nat (length buf)\<rparr>
            in lwip_io_loop mtu es (netif_input buf e g))"

definition lwip_io_task_entry :: "HevConfig \<Rightarrow> tun_event list \<Rightarrow> HevTunnel \<Rightarrow> HevTunnel option" where
  "lwip_io_task_entry cfg es g = lwip_io_loop (hev_config_get_tunnel_mtu cfg) es g"

text \<open>What \<^verbatim>\<open>hev_tunnel_write\<close> gives to the kernel of a chain of buffers.\<close>

definition hev_tunnel_write :: "bytes list \<Rightarrow> bytes" where
  "hev_tunnel_write p = (if length p = 1 then hd p else concat (take 512 p))"

text \<open>\<open>s\<close> is the result of the write, \<open>again\<close> whether \<^verbatim>\<open>errno\<close> is \<^verbatim>\<open>EAGAIN\<close>.\<close>

definition netif_output_handler :: "bytes list \<Rightarrow> int \<Rightarrow> bool \<Rightarrow> HevTunnel \<Rightarrow> err_t \<times> HevTunnel" where
  "netif_output_handler p s again g =
     (if s \<le> 0 then (if again then ERR_WOULDBLOCK else ERR_IF, g)
      else (ERR_OK, g\<lparr>stat_rx_packets := stat_rx_packets g + 1, stat_rx_bytes := stat_rx_bytes g + of_int s,
              tun_out := tun_out g @ [hev_tunnel_write p]\<rparr>))"

section \<open>Timers\<close>

text \<open>\<open>ws\<close> says of every wait whether the tunnel was stopped in it. With sessions the task sleeps, without it waits to be woken: a wait ends
  with its time, when a session begins, or when the event task has stopped the tunnel and wakes it in \<^verbatim>\<open>hev_task_join\<close>.\<close>

fun lwip_timer_loop :: "bool list \<Rightarrow> u32 \<Rightarrow> HevTunnel \<Rightarrow> HevTunnel option" where
  "lwip_timer_loop ws i g =
     (if \<not> tn_run g then Some g
      else
        let g = g\<lparr>tcp_ticks := tcp_ticks g + 1\<rparr>;
            g = (if i AND 3 = 0 then g\<lparr>slow_ticks := slow_ticks g + 1\<rparr> else g)
        in case ws of
             [] \<Rightarrow> None
           | stop # ws \<Rightarrow> lwip_timer_loop ws (i + 1) (g\<lparr>tn_run := (tn_run g \<and> \<not> stop)\<rparr>))"

definition lwip_timer_task_entry :: "bool list \<Rightarrow> HevTunnel \<Rightarrow> HevTunnel option" where
  "lwip_timer_task_entry ws g = lwip_timer_loop ws 1 g"

section \<open>Queries to the mapped DNS\<close>

text \<open>\<open>p\<close> is the chain of buffers of the query, of which the first is read, and \<open>b\<close> the contents of the buffer for the reply, if
  there is memory for one.\<close>

definition dns_recv_handler :: "bytes list \<Rightarrow> bytes option \<Rightarrow> ptr \<Rightarrow> HevTunnel \<Rightarrow> HevTunnel option" where
  "dns_recv_handler p b pcb g =
     (case
        (case b of
           None \<Rightarrow> Some g
         | Some b \<Rightarrow>
             let g = g\<lparr>pbufs_held := pbufs_held g + 1\<rparr>
             in case singleton g of
                  None \<Rightarrow> None
                | Some dns \<Rightarrow>
                    (case hev_mapped_dns_handle dns (hd p) b of
                       None \<Rightarrow> None
                     | Some (res, dns, b) \<Rightarrow>
                         let g = g\<lparr>singleton := Some dns\<rparr>;
                             g = (if res < 0 then g else g\<lparr>dns_replies := dns_replies g @ [take (nat res) b]\<rparr>)
                         in Some (g\<lparr>pbufs_held := pbufs_held g - 1\<rparr>))) of
        None \<Rightarrow> None
      | Some g \<Rightarrow> free_pcb pcb (g\<lparr>pbufs_held := pbufs_held g - 1\<rparr>))"

section \<open>What the tasks have done when they return\<close>

declare lwip_timer_loop.simps [simp del]

fun stops :: "u32 \<Rightarrow> tun_event \<Rightarrow> bool" where
  "stops mtu NoBuffer = False"
| "stops mtu (ReadFailed stop) = stop"
| "stops mtu (ReadPacket p stop taken) = (stop \<and> take (unat (ucast mtu :: u16)) p \<noteq> [])"

definition packets :: "u32 \<Rightarrow> tun_event list \<Rightarrow> bytes list" where
  "packets mtu es = filter (\<lambda>p. p \<noteq> []) (concat (map (\<lambda>e. case e of ReadPacket p _ _ \<Rightarrow> [take (unat (ucast mtu :: u16)) p] | _ \<Rightarrow> []) es))"

definition accepted :: "u32 \<Rightarrow> tun_event list \<Rightarrow> bytes list" where
  "accepted mtu es = packets mtu (filter (\<lambda>e. case e of ReadPacket _ _ taken \<Rightarrow> taken | _ \<Rightarrow> False) es)"

lemma packets_Cons:
  "packets mtu (e # es) = packets mtu [e] @ packets mtu es" "accepted mtu (e # es) = accepted mtu [e] @ accepted mtu es"
  by (simp_all add: packets_def accepted_def)

text \<open>One pass of the loop.\<close>

definition io_pass :: "u32 \<Rightarrow> tun_event \<Rightarrow> HevTunnel \<Rightarrow> HevTunnel" where
  "io_pass mtu e g =
     (case hev_tunnel_read mtu e g of
        (None, g) \<Rightarrow> g
      | (Some buf, g) \<Rightarrow>
          netif_input buf e (g\<lparr>stat_tx_packets := stat_tx_packets g + 1, stat_tx_bytes := stat_tx_bytes g + of_nat (length buf)\<rparr>))"

lemma io_loop_pass: "tn_run g \<Longrightarrow> lwip_io_loop mtu (e # es) g = lwip_io_loop mtu es (io_pass mtu e g)"
  by (simp add: io_pass_def split: prod.split option.split)

lemma io_pass_fields:
  assumes "tn_run g"
  shows "tn_run (io_pass mtu e g) = (\<not> stops mtu e)" "pbufs_held (io_pass mtu e g) = pbufs_held g"
    "lwip_in (io_pass mtu e g) = lwip_in g @ accepted mtu [e]"
    "stat_tx_packets (io_pass mtu e g) = stat_tx_packets g + of_nat (length (packets mtu [e]))"
    "stat_tx_bytes (io_pass mtu e g) = stat_tx_bytes g + of_nat (sum_list (map length (packets mtu [e])))"
  using assms
  by (cases e; auto simp: io_pass_def hev_tunnel_read_def netif_input_def packets_def accepted_def Let_def split: bool.split)+

lemma io_loop_returns:
  assumes "tn_run g" "\<forall>x\<in>set pre. \<not> stops mtu x" "stops mtu e"
  shows "\<exists>g'. lwip_io_loop mtu (pre @ e # post) g = Some g' \<and> \<not> tn_run g' \<and> pbufs_held g' = pbufs_held g \<and>
    lwip_in g' = lwip_in g @ accepted mtu (pre @ [e]) \<and>
    stat_tx_packets g' = stat_tx_packets g + of_nat (length (packets mtu (pre @ [e]))) \<and>
    stat_tx_bytes g' = stat_tx_bytes g + of_nat (sum_list (map length (packets mtu (pre @ [e]))))"
  using assms
proof (induction pre arbitrary: g)
  case Nil
  have "lwip_io_loop mtu post (io_pass mtu e g) = Some (io_pass mtu e g)"
    using io_pass_fields(1) [OF Nil(1), of mtu e] Nil(3) by (cases post) simp_all
  then show ?case using io_pass_fields [OF Nil(1), of mtu e] io_loop_pass [OF Nil(1), of mtu e post] Nil(3) by simp
next
  case (Cons x pre)
  note f = io_pass_fields [OF Cons.prems(1), of mtu x]
  have "tn_run (io_pass mtu x g)" using f(1) Cons.prems(2) by simp
  from Cons.IH [OF this] obtain g' where "lwip_io_loop mtu (pre @ e # post) (io_pass mtu x g) = Some g'" "\<not> tn_run g'"
      "pbufs_held g' = pbufs_held (io_pass mtu x g)" "lwip_in g' = lwip_in (io_pass mtu x g) @ accepted mtu (pre @ [e])"
      "stat_tx_packets g' = stat_tx_packets (io_pass mtu x g) + of_nat (length (packets mtu (pre @ [e])))"
      "stat_tx_bytes g' = stat_tx_bytes (io_pass mtu x g) + of_nat (sum_list (map length (packets mtu (pre @ [e]))))"
    using Cons.prems(2,3) by auto
  then show ?case
    using f io_loop_pass [OF Cons.prems(1), of mtu x "pre @ e # post"] by (simp add: packets_Cons [of mtu x "pre @ [e]"])
qed

lemma and_3_eq: "(of_nat k :: u32) AND 3 = 0 \<longleftrightarrow> 4 dvd k"
proof -
  have "(of_nat k :: u32) AND 3 = take_bit 2 (of_nat k)" by (simp only: take_bit_eq_mask mask_eq_exp_minus_1) simp
  then have "unat ((of_nat k :: u32) AND 3) = take_bit 2 (unat (of_nat k :: u32))"
    by (simp only: unsigned_take_bit_eq)
  also have "\<dots> = k mod 4" by (simp add: take_bit_eq_mod unat_of_nat mod_mod_cancel)
  finally show ?thesis by (metis dvd_eq_mod_eq_0 unat_eq_zero)
qed

lemma timer_loop_returns:
  assumes "tn_run g" "0 < k"
  shows "\<exists>g'. lwip_timer_loop (replicate n False @ True # ws) (of_nat k) g = Some g' \<and> \<not> tn_run g' \<and>
    tcp_ticks g' = tcp_ticks g + n + 1 \<and> slow_ticks g' + (k - 1) div 4 = slow_ticks g + (k + n) div 4"
  using assms
proof (induction n arbitrary: k g)
  case 0
  have "k div 4 = (k - 1) div 4 + (if 4 dvd k then 1 else 0)" using 0(2) by (cases k) (auto simp: div_Suc dvd_eq_mod_eq_0)
  then show ?case using 0 by (subst lwip_timer_loop.simps) (simp add: lwip_timer_loop.simps [of ws] and_3_eq)
next
  case (Suc n)
  let ?g = "g\<lparr>tcp_ticks := tcp_ticks g + 1, slow_ticks := slow_ticks g + (if 4 dvd k then 1 else 0)\<rparr>"
  have "lwip_timer_loop (replicate (Suc n) False @ True # ws) (of_nat k) g =
      lwip_timer_loop (replicate n False @ True # ws) (of_nat (Suc k)) ?g"
    using Suc.prems by (subst lwip_timer_loop.simps) (simp add: and_3_eq add.commute)
  moreover have "k div 4 = (k - 1) div 4 + (if 4 dvd k then 1 else 0)"
    using Suc.prems(2) by (cases k) (auto simp: div_Suc dvd_eq_mod_eq_0)
  ultimately show ?case using Suc.IH [of ?g "Suc k"] Suc.prems(1) by auto
qed

section \<open>Properties\<close>

text \<open>
  C34. The tasks of the tunnel. Whatever arrives, once the tunnel is stopped the packet task returns; every packet read
  until then, cut to the size of a buffer, was offered to lwIP once and in order, the counters have grown by their number and
  bytes modulo \<open>2 ^ 64\<close>, and every buffer was handed on or freed. The timer task returns too, after \<open>n\<close> full waits with
  \<open>n + 1\<close> ticks of TCP, of which every fourth also ran the slow timers, also when its 32-bit counter wraps.
\<close>

theorem tunnel_tasks_ok:
  assumes "tn_run g" "\<forall>x\<in>set pre. \<not> stops mtu x" "stops mtu e" "mtu = hev_config_get_tunnel_mtu cfg"
  shows "(\<exists>g'. lwip_io_task_entry cfg (pre @ e # post) g = Some g' \<and> \<not> tn_run g' \<and> pbufs_held g' = pbufs_held g \<and>
      lwip_in g' = lwip_in g @ accepted mtu (pre @ [e]) \<and>
      stat_tx_packets g' = stat_tx_packets g + of_nat (length (packets mtu (pre @ [e]))) \<and>
      stat_tx_bytes g' = stat_tx_bytes g + of_nat (sum_list (map length (packets mtu (pre @ [e]))))) \<and>
    (\<exists>g'. lwip_timer_task_entry (replicate n False @ True # ws) g = Some g' \<and> \<not> tn_run g' \<and>
      tcp_ticks g' = tcp_ticks g + n + 1 \<and> slow_ticks g' = slow_ticks g + (n + 1) div 4)"
  using io_loop_returns [OF assms(1-3), of post] timer_loop_returns [OF assms(1), of 1 n ws] assms(4)
  by (auto simp: lwip_io_task_entry_def lwip_timer_task_entry_def)

theorem tunnel_tasks_ok_witness:
  "(\<exists>g'. lwip_io_task_entry config_defaults ([ReadPacket [69, 0] False True] @ ReadFailed True # []) (tunnel_example\<lparr>tn_run := True\<rparr>) = Some g' \<and>
      lwip_in g' = [[69, 0]] \<and> stat_tx_packets g' = 1 \<and> stat_tx_bytes g' = 2) \<and>
   (\<exists>g'. lwip_timer_task_entry (replicate 7 False @ True # []) (tunnel_example\<lparr>tn_run := True\<rparr>) = Some g' \<and>
      tcp_ticks g' = 8 \<and> slow_ticks g' = 2)"
proof -
  have m: "8500 = hev_config_get_tunnel_mtu config_defaults" by (simp add: hev_config_get_tunnel_mtu_def config_defaults_def)
  have p: "packets 8500 [ReadPacket [69, 0] False True, ReadFailed True] = [[69, 0]]"
      "accepted 8500 [ReadPacket [69, 0] False True, ReadFailed True] = [[69, 0]]"
    by (simp_all add: packets_def accepted_def)
  define g where "g = tunnel_example\<lparr>tn_run := True\<rparr>"
  have g: "tn_run g" "lwip_in g = []" "stat_tx_packets g = 0" "stat_tx_bytes g = 0" "tcp_ticks g = 0" "slow_ticks g = 0"
    by (simp_all add: g_def tunnel_example_def)
  show ?thesis
    unfolding g_def [symmetric]
    using tunnel_tasks_ok [OF g(1) _ _ m, of "[ReadPacket [69, 0] False True]" "ReadFailed True" "[]" 7 "[]"] p g(2-6)
    by fastforce
qed

text \<open>
  C35. A query to the mapped DNS. A datagram that asks for the address of one name gets exactly one reply, the query's id and
  question with the address of the name's entry in the cache, which is the cache after looking the name up; the control
  block of the query is removed and both buffers are freed. Whatever is asked and whether or not there is memory: when the handler
  returns, the block is removed, the buffers are freed, and at most one reply was sent, of at most 1500 bytes.
\<close>

theorem dns_recv_ok:
  assumes "dns_at d c" "0 < dns_max d" "dns_alloc d = node # rest" "fresh_block node d"
    and "ls \<noteq> []" "\<forall>l\<in>set ls. label_ok l" "length qid = 2" "length cnt = 6" "length (a_query qid fl cnt ls extra) \<le> 1500"
    and "length (wire_name ls) + 33 \<le> 1500" "length b = nat UDP_BUF_SIZE"
    and "singleton g = Some d" "pcb \<in> pcbs g" "pcb \<noteq> NULL"
  shows "(\<exists>g' d'. dns_recv_handler (a_query qid fl cnt ls extra # ps) (Some b) pcb g = Some g' \<and>
      dns_replies g' = dns_replies g @ [a_reply qid fl ls (dns_net d OR word_of_int (fst (cache_find (dns_max d) (tl (dotted ls)) c)))] \<and>
      singleton g' = Some d' \<and> dns_at d' (snd (cache_find (dns_max d) (tl (dotted ls)) c)) \<and>
      pcbs g' = pcbs g - {pcb} \<and> pbufs_held g' = pbufs_held g - 1) \<and>
    (\<forall>p g'. dns_recv_handler p (Some b) pcb g = Some g' \<or> dns_recv_handler p None pcb g = Some g' \<longrightarrow>
      pcbs g' = pcbs g - {pcb} \<and> pbufs_held g' = pbufs_held g - 1 \<and>
      (\<exists>rs. dns_replies g' = dns_replies g @ rs \<and> length rs \<le> 1 \<and> (\<forall>r\<in>set rs. length r \<le> 1500)))"
proof (intro conjI allI impI)
  have b: "length b = 1500" using assms(11) by (simp add: UDP_BUF_SIZE_def)
  obtain d' res' where h: "hev_mapped_dns_handle d (a_query qid fl cnt ls extra) b = Some (int (length (wire_name ls) + 33), d', res')"
      "dns_at d' (snd (cache_find (dns_max d) (tl (dotted ls)) c))"
      "take (length (wire_name ls) + 33) res' =
        a_reply qid fl ls (dns_net d OR word_of_int (fst (cache_find (dns_max d) (tl (dotted ls)) c)))"
    using dns_reply_ok [OF assms(1-8), of fl extra b] assms(9,10) b by auto
  have n: "nat (int (length (wire_name ls) + 33)) = length (wire_name ls) + 33" by simp
  show "\<exists>g' d'. dns_recv_handler (a_query qid fl cnt ls extra # ps) (Some b) pcb g = Some g' \<and>
      dns_replies g' = dns_replies g @ [a_reply qid fl ls (dns_net d OR word_of_int (fst (cache_find (dns_max d) (tl (dotted ls)) c)))] \<and>
      singleton g' = Some d' \<and> dns_at d' (snd (cache_find (dns_max d) (tl (dotted ls)) c)) \<and>
      pcbs g' = pcbs g - {pcb} \<and> pbufs_held g' = pbufs_held g - 1"
    using h(2,3) assms(12-14) unfolding dns_recv_handler_def
    by (simp add: h(1) free_pcb_def n del: of_nat_add)
  fix p g' assume r: "dns_recv_handler p (Some b) pcb g = Some g' \<or> dns_recv_handler p None pcb g = Some g'"
  then show "pcbs g' = pcbs g - {pcb}" "pbufs_held g' = pbufs_held g - 1"
    using assms(13,14) by (auto simp: dns_recv_handler_def free_pcb_def Let_def split: option.splits if_splits)
  show "\<exists>rs. dns_replies g' = dns_replies g @ rs \<and> length rs \<le> 1 \<and> (\<forall>r\<in>set rs. length r \<le> 1500)"
  proof (cases "dns_recv_handler p None pcb g = Some g'")
    case True
    then show ?thesis using assms(13,14) by (auto simp: dns_recv_handler_def free_pcb_def intro: exI [of _ "[]"])
  next
    case False
    then have s: "dns_recv_handler p (Some b) pcb g = Some g'" using r by blast
    then obtain res d2 b2 where m: "hev_mapped_dns_handle d (hd p) b = Some (res, d2, b2)"
      using assms(12) by (auto simp: dns_recv_handler_def Let_def split: option.splits)
    have "length b2 = 1500" using dns_handle_bounds [OF m] b by simp
    then have "\<forall>r\<in>set (if res < 0 then [] else [take (nat res) b2]). length r \<le> 1500" by simp
    moreover have "dns_replies g' = dns_replies g @ (if res < 0 then [] else [take (nat res) b2])"
      using s m assms(12-14) by (auto simp: dns_recv_handler_def free_pcb_def Let_def split: if_splits)
    ultimately show ?thesis by (intro exI [of _ "if res < 0 then [] else [take (nat res) b2]"]) simp
  qed
qed

theorem dns_recv_ok_witness:
  "\<exists>g'. dns_recv_handler [a_query [1, 2] 0x100 [0, 0, 0, 0, 0, 0] [[97]] []] (Some (replicate 1500 0)) 8
        (tunnel_example\<lparr>singleton := Some demo_dns, pcbs := {8}, pbufs_held := 1\<rparr>) = Some g' \<and>
     dns_replies g' = [a_reply [1, 2] 0x100 [[97]] 0x64400000] \<and> pcbs g' = {} \<and> pbufs_held g' = 0"
  using dns_recv_ok [where d = demo_dns and c = "[]" and node = 64 and rest = "[]" and ls = "[[97]]" and qid = "[1, 2]" and ps = "[]"
      and cnt = "[0, 0, 0, 0, 0, 0]" and fl = "0x100" and extra = "[]" and b = "replicate 1500 0" and pcb = 8
      and g = "tunnel_example\<lparr>singleton := Some demo_dns, pcbs := {8}, pbufs_held := 1\<rparr>"]
    demo_dns_facts
  by (auto simp: wire_name_def dotted_def label_ok_def a_query_def cache_find_def UDP_BUF_SIZE_def tunnel_example_def)

end
