(* ===== verification/TunnelAccept.thy ===== *)
theory TunnelAccept
  imports TunnelTasks SessionTCPLife SessionUDP
begin

text \<open>
  How sessions begin (\<^verbatim>\<open>hev-socks5-tunnel.c\<close>): the handlers lwIP calls for a new TCP connection and for the first datagram of
  a new source, and the part of lwIP's \<^verbatim>\<open>udp_input\<close> that finds the receiver of a datagram, which tries again after the
  handler returned. The session that is made is the state \<open>s\<close>, the tunnel is \<open>g\<close>; the waiting of a new task for its turn, and
  waking the timer task, are the scheduler's.
\<close>

section \<open>Definitions\<close>

text \<open>\<open>ip\<close> and \<open>port\<close> are the local address of the connection. Without memory for a task the session is dropped while the
  caller holds the mutex that the session's destructor locks: the handler does not return (\<open>None\<close>).\<close>

definition tcp_accept_handler ::
    "err_t \<Rightarrow> ip_addr_t \<Rightarrow> u16 \<Rightarrow> 'a HevSocks5SessionTCP_scheme \<Rightarrow> HevTunnel \<Rightarrow>
      (err_t \<times> 'a HevSocks5SessionTCP_scheme \<times> HevTunnel) option" where
  "tcp_accept_handler err ip port s g =
     (if err \<noteq> ERR_OK then Some (err, s, g)
      else if \<not> tn_run g then Some (ERR_RST, s, g)
      else
        case hev_socks5_session_tcp_new (singleton g) ip port s of
          None \<Rightarrow> None
        | Some (ok, dns, s) \<Rightarrow>
            let g = g\<lparr>singleton := dns\<rparr>
            in if \<not> ok then Some (ERR_MEM, s, g)
               else
                 case hev_task_new g of (task, g) \<Rightarrow>
                   if task = NULL then None else Some (ERR_OK, s, accept_session (node s) g))"

text \<open>What the control block of a datagram's source is connected to.\<close>

datatype udp_receiver = RecvDNS | RecvSession

definition is_mapdns :: "HevConfig \<Rightarrow> ip_addr_t \<Rightarrow> u16 \<Rightarrow> HevTunnel \<Rightarrow> bool" where
  "is_mapdns cfg addr port g =
     (case (hev_mapped_dns_get (singleton g), addr) of
        (Some _, IPADDR_V4 b) \<Rightarrow>
          hev_config_get_mapdns_port cfg = uint port \<and> hev_config_get_mapdns_address cfg = ntohl (ntohl_bytes b)
      | _ \<Rightarrow> False)"

text \<open>The handler of the listening control block for the first datagram to \<open>addr\<close> and \<open>port\<close>: it removes the new control block
  (\<open>None\<close> in the result) or connects it.\<close>

definition tunnel_udp_recv_handler ::
    "HevConfig \<Rightarrow> HevConfigServer \<Rightarrow> ptr \<Rightarrow> ip_addr_t \<Rightarrow> u16 \<Rightarrow> 'a HevSocks5SessionUDP_scheme \<Rightarrow> HevTunnel \<Rightarrow>
      (udp_receiver option \<times> 'a HevSocks5SessionUDP_scheme \<times> HevTunnel) option" where
  "tunnel_udp_recv_handler cfg srv npcb addr port s g =
     (if \<not> tn_run g then map_option (\<lambda>g. (None, s, g)) (free_pcb npcb g)
      else if is_mapdns cfg addr port g then Some (Some RecvDNS, s, g)
      else
        case hev_socks5_session_udp_new srv s of (ok, s) \<Rightarrow>
          if \<not> ok then map_option (\<lambda>g. (None, s, g)) (free_pcb npcb g)
          else
            case hev_task_new g of (task, g) \<Rightarrow>
              if task = NULL then None else Some (Some RecvSession, s, accept_session (unode s) g))"

text \<open>\<open>found\<close> is the control block whose remote address is the source of the datagram, if there is one, \<open>p\<close> the datagram's buffers
  behind the header and \<open>b\<close> memory for the reply of the mapped DNS. Datagrams to the address of the interface itself,
  which lwIP answers, are not considered.\<close>

partial_function (option) udp_input ::
    "HevConfig \<Rightarrow> HevConfigServer \<Rightarrow> bytes option \<Rightarrow> bytes list \<Rightarrow> ip_addr_t \<Rightarrow> u16 \<Rightarrow> (ptr \<times> udp_receiver) option \<Rightarrow>
      'a HevSocks5SessionUDP_scheme \<Rightarrow> HevTunnel \<Rightarrow>
      ((ptr \<times> udp_receiver) option \<times> 'a HevSocks5SessionUDP_scheme \<times> HevTunnel) option" where
  "udp_input cfg srv b p ip dest found s g =
     (case found of
        Some (q, RecvDNS) \<Rightarrow> map_option (\<lambda>g. (None, s, g)) (dns_recv_handler p b q g)
      | Some (q, RecvSession) \<Rightarrow>
          (case udp_recv_handler (Some p) (s\<lparr>local_ip := ip, local_port := dest, mapped_dns := singleton g\<rparr>) of
             None \<Rightarrow> None
           | Some s \<Rightarrow> Some (found, s, g\<lparr>singleton := mapped_dns s, pbufs_held := pbufs_held g - 1\<rparr>))
      | None \<Rightarrow>
          if udp_pcb g = NULL then Some (None, s, g\<lparr>pbufs_held := pbufs_held g - 1\<rparr>)
          else
            case alloc_pcb g of (npcb, g) \<Rightarrow>
              if npcb = NULL then Some (None, s, g\<lparr>pbufs_held := pbufs_held g - 1\<rparr>)
              else
                case tunnel_udp_recv_handler cfg srv npcb ip dest s g of
                  None \<Rightarrow> None
                | Some (r, s, g) \<Rightarrow> udp_input cfg srv b p ip dest (map_option (Pair npcb) r) s g)"

section \<open>A new session in the set\<close>

lemma accept_session_ok:
  assumes "sessions_at g ps" "p \<noteq> NULL" "p \<notin> set ps"
  shows "sessions_at (accept_session p g) (ps @ [p])"
    "terminated (accept_session p g) q \<longleftrightarrow> q \<noteq> p \<and> terminated g q \<or> full g (ps @ [p]) \<and> q = hd (ps @ [p])"
proof -
  let ?g = "g\<lparr>sessions := (sessions g)(p := \<lparr>se_timeout = - 1, se_woken = False\<rparr>)\<rparr>"
  have "sessions_at ?g ps" using assms(1) by (simp add: sessions_at_def)
  note i = insert_session_ok [OF this assms(2,3)]
  show "sessions_at (accept_session p g) (ps @ [p])" using i(1) by (simp add: accept_session_def)
  have "terminated ?g q \<longleftrightarrow> q \<noteq> p \<and> terminated g q" by (simp add: terminated_def)
  then show "terminated (accept_session p g) q \<longleftrightarrow> q \<noteq> p \<and> terminated g q \<or> full g (ps @ [p]) \<and> q = hd (ps @ [p])"
    using i(2) [of q] by (simp add: accept_session_def full_def)
qed

text \<open>Accepting changes only the session set: everything else of the tunnel stays.\<close>

lemma accept_session_more [simp]:
  "HevSocks5Tunnel.more (accept_session p g) = HevSocks5Tunnel.more g"
  by (simp add: accept_session_def hev_socks5_tunnel_insert_session_def hev_socks5_session_terminate_def set_list_def Let_def)

lemma tunnel_more:
  assumes "HevSocks5Tunnel.more g' = HevSocks5Tunnel.more (g :: HevTunnel)"
  shows "singleton g' = singleton g" "pcbs g' = pcbs g" "pbufs_held g' = pbufs_held g" "dns_replies g' = dns_replies g"
    "task_refs g' = task_refs g"
  using assms by (cases g; cases g'; simp)+


section \<open>TCP\<close>

text \<open>What a new TCP session asks the proxy for: the destination lwIP's connection was addressed to.\<close>

lemma session_tcp_new_request:
  assumes "hev_socks5_session_tcp_new dns ip port s = Some (True, dns', s1)"
  shows "\<exists>r a. hev_socks5_addr_from_lwip dns blank_addr ip port = Some (r, a, dns') \<and> 0 \<le> r \<and>
    up_addr s1 = Some (take (nat (hev_socks5_addr_len a)) (addr_bytes a)) \<and> timeout s1 = - 1 \<and> node s1 = node s \<and> queue s1 = []"
  using assms
  by (auto simp: hev_socks5_session_tcp_new_def hev_socks5_session_tcp_construct_def hev_socks5_client_tcp_construct_def
      hev_socks5_client_construct_def hev_socks5_construct_def session_tcp_zero_def client_zero_def sys_malloc_def Let_def
      split: option.splits if_splits list.splits)

lemma session_tcp_new_succeeds:
  assumes "hev_socks5_addr_from_lwip dns blank_addr ip port = Some (0, a, dns')" "0 \<le> hev_socks5_addr_len a" "mallocs s = []"
  shows "\<exists>s1. hev_socks5_session_tcp_new dns ip port s = Some (True, dns', s1)"
  using assms
  by (simp add: hev_socks5_session_tcp_new_def hev_socks5_session_tcp_construct_def hev_socks5_client_tcp_construct_def
      hev_socks5_client_construct_def hev_socks5_construct_def session_tcp_zero_def client_zero_def sys_malloc_def Let_def)

section \<open>UDP\<close>

lemma alloc_pcb_fresh:
  "pcb_script g = p # ps \<Longrightarrow> p \<noteq> NULL \<Longrightarrow> alloc_pcb g = (p, g\<lparr>pcb_script := ps, pcbs := insert p (pcbs g)\<rparr>)"
  by (simp add: alloc_pcb_def)

text \<open>While the tunnel is stopped, the handler takes back the control block that lwIP made for the datagram, and lwIP makes another
  one: \<^verbatim>\<open>udp_input\<close> returns only when it can make none any more.\<close>

lemma udp_input_stopped:
  assumes "\<not> tn_run g" "udp_pcb g \<noteq> NULL" "NULL \<notin> set (pcb_script g)" "set (pcb_script g) \<inter> pcbs g = {}"
  shows "udp_input cfg srv b p ip dest None s g = Some (None, s, g\<lparr>pcb_script := [], pbufs_held := pbufs_held g - 1\<rparr>)"
  using assms
proof (induction "pcb_script g" arbitrary: g)
  case Nil
  then show ?case by (subst udp_input.simps) (simp add: alloc_pcb_def)
next
  case (Cons q qs)
  have q: "q \<noteq> NULL" "q \<notin> pcbs g" using Cons.prems(3,4) Cons.hyps(2) [symmetric] by auto
  let ?g = "g\<lparr>pcb_script := qs\<rparr>"
  have a: "alloc_pcb g = (q, g\<lparr>pcb_script := qs, pcbs := insert q (pcbs g)\<rparr>)"
    using alloc_pcb_fresh [OF Cons.hyps(2) [symmetric] q(1)] .
  have h: "tunnel_udp_recv_handler cfg srv q ip dest s (g\<lparr>pcb_script := qs, pcbs := insert q (pcbs g)\<rparr>) = Some (None, s, ?g)"
    using Cons.prems(1) q by (simp add: tunnel_udp_recv_handler_def free_pcb_def)
  have "udp_input cfg srv b p ip dest None s g = udp_input cfg srv b p ip dest None s ?g"
    using Cons.prems(2) q(1) a h by (subst udp_input.simps) simp
  then show ?case using Cons.hyps(1) [of ?g] Cons.prems Cons.hyps(2) [symmetric] by auto
qed

text \<open>A new source while the tunnel runs: one control block, one session with the datagram as its first frame.\<close>

lemma session_udp_new_succeeds:
  assumes "mallocs s = []"
  shows "\<exists>s1. hev_socks5_session_udp_new srv s = (True, s1) \<and> frame_list s1 = [] \<and> frames s1 = 0 \<and> mallocs s1 = [] \<and>
    unode s1 = unode s \<and> timeout s1 = - 1"
  using assms
  by (simp add: hev_socks5_session_udp_new_def hev_socks5_session_udp_construct_def hev_socks5_client_udp_construct_def
      hev_socks5_client_construct_def hev_socks5_construct_def session_udp_zero_def client_zero_def sys_malloc_def Let_def)

lemma udp_recv_takes:
  assumes "frames s \<le> UDP_POOL_SIZE" "mallocs s = []"
    and "hev_socks5_addr_from_lwip (mapped_dns s) blank_addr (local_ip s) (local_port s) = Some (0, a, dns)"
  shows "\<exists>s1. udp_recv_handler (Some p) s = Some s1 \<and> frame_list s1 = frame_list s @ [(a, p)] \<and> frames s1 = frames s + 1 \<and>
    mapped_dns s1 = dns"
  using assms by (cases "local_ip s") (simp_all add: udp_recv_handler_def sys_malloc_def Let_def)

lemma udp_input_known:
  assumes "frames s \<le> UDP_POOL_SIZE" "mallocs s = []"
    and "hev_socks5_addr_from_lwip (singleton g) blank_addr ip dest = Some (0, a, dns)"
  shows "\<exists>s1. udp_input cfg srv b p ip dest (Some (q, RecvSession)) s g =
      Some (Some (q, RecvSession), s1, g\<lparr>singleton := dns, pbufs_held := pbufs_held g - 1\<rparr>) \<and>
    frame_list s1 = frame_list s @ [(a, p)] \<and> frames s1 = frames s + 1"
proof -
  let ?s = "s\<lparr>local_ip := ip, local_port := dest, mapped_dns := singleton g\<rparr>"
  obtain s1 where "udp_recv_handler (Some p) ?s = Some s1" "frame_list s1 = frame_list s @ [(a, p)]" "frames s1 = frames s + 1"
      "mapped_dns s1 = dns"
    using udp_recv_takes [of ?s a dns p] assms by auto
  then show ?thesis by (subst udp_input.simps) simp
qed

lemma udp_input_new:
  assumes "tn_run g" "udp_pcb g \<noteq> NULL" "pcb_script g = q # qs" "q \<noteq> NULL" "task_script g = t # ts" "t \<noteq> NULL"
    and "mallocs s = []" "\<not> is_mapdns cfg ip dest g"
  shows "\<exists>s1. frame_list s1 = [] \<and> frames s1 = 0 \<and> mallocs s1 = [] \<and> unode s1 = unode s \<and> timeout s1 = - 1 \<and>
    udp_input cfg srv b p ip dest None s g =
      udp_input cfg srv b p ip dest (Some (q, RecvSession)) s1
        (accept_session (unode s) (g\<lparr>pcb_script := qs, pcbs := insert q (pcbs g), task_script := ts, task_refs := (task_refs g)(t := 1)\<rparr>))"
proof -
  obtain s1 where s1: "hev_socks5_session_udp_new srv s = (True, s1)" "frame_list s1 = []" "frames s1 = 0" "mallocs s1 = []"
      "unode s1 = unode s" "timeout s1 = - 1"
    using session_udp_new_succeeds [OF assms(7)] by blast
  let ?g = "g\<lparr>pcb_script := qs, pcbs := insert q (pcbs g)\<rparr>"
  have "is_mapdns cfg ip dest ?g = is_mapdns cfg ip dest g" by (simp add: is_mapdns_def)
  then have "tunnel_udp_recv_handler cfg srv q ip dest s ?g =
      Some (Some RecvSession, s1, accept_session (unode s) (?g\<lparr>task_script := ts, task_refs := (task_refs g)(t := 1)\<rparr>))"
    using assms(1,5,6,8) s1(1,5) by (simp add: tunnel_udp_recv_handler_def hev_task_new_def)
  then have "udp_input cfg srv b p ip dest None s g =
      udp_input cfg srv b p ip dest (Some (q, RecvSession)) s1 (accept_session (unode s) (?g\<lparr>task_script := ts, task_refs := (task_refs g)(t := 1)\<rparr>))"
    using assms(2,4) alloc_pcb_fresh [OF assms(3,4)] by (subst udp_input.simps) simp
  then show ?thesis using s1 by auto
qed

section \<open>Properties\<close>




definition udp_blank :: HevSocks5SessionUDP where
  "udp_blank = \<lparr>rx = [], tx = [], sent = [], conns = [], dialled = [], socks = [], opts = [], sleeps = [],
     mallocs = [], open_fds = {}, blocks = 0, eagain = False, drx = (\<lambda>_. []),
     dtx = (\<lambda>_. []), dsent = (\<lambda>_. []), fd = - 1, timeout = - 1, udp_associated = False, stype = TYPE_NONE,
     addr_family = FAMILY_UNSPEC, auth_user = None, auth_pass = None, cclass = CLIENT_UDP, up_addr = None, udp_fd = - 1,
     frame_list = [], frames = 0, map_addr = [0, 0, 0, 0], map_port = 0, upcb = False, unode = 64,
     utunnel = demo_tunnel, local_ip = IPADDR_ANY, local_port = 0, mapped_dns = None,
     ucallbacks = [], pbuf_ok = [], send_ok = [], udp_out = [], utaken = []\<rparr>"


end
