(* ===== verification/TunnelMain.thy ===== *)
theory TunnelMain
  imports TunnelOk
begin

text \<open>
  The program around the tunnel: the two loggers (\<^verbatim>\<open>hev-logger.c\<close>, \<^verbatim>\<open>hev-socks5-logger.c\<close>), the process settings of
  \<^verbatim>\<open>hev-utils.c\<close>, the main function of \<^verbatim>\<open>hev-main.c\<close> and the service of \<^verbatim>\<open>hev-jni.c\<close> that runs it in a thread of its own.
\<close>

section \<open>Loggers\<close>

datatype log_target = LogStdout | LogStderr | LogFile bytes

record HevLogger =
  lg_fd :: int
  req_level :: int
  lg_target :: log_target

text \<open>A copy of a standard stream, or a file: either way the system gives a new descriptor or fails.\<close>

definition hev_logger_init :: "int \<Rightarrow> bytes \<Rightarrow> HevTunnel \<Rightarrow> int \<times> HevLogger \<times> HevTunnel" where
  "hev_logger_init level path g =
     (let target = (if strcmp path (str ''stdout'') = 0 then LogStdout
                    else if strcmp path (str ''stderr'') = 0 then LogStderr
                    else LogFile path);
          (d, g) = sys_fd g
      in (if d < 0 then - 1 else 0, \<lparr>lg_fd = d, req_level = level, lg_target = target\<rparr>, g))"

definition hev_logger_fini :: "HevLogger \<Rightarrow> HevTunnel \<Rightarrow> HevTunnel" where
  "hev_logger_fini lg g = close_fd (lg_fd lg) g"

definition hev_logger_enabled :: "int \<Rightarrow> HevLogger \<Rightarrow> bool" where
  "hev_logger_enabled level lg \<longleftrightarrow> req_level lg \<le> level \<and> 0 \<le> lg_fd lg"

definition level_tag :: "int \<Rightarrow> bytes" where
  "level_tag level =
     (if level = HEV_LOGGER_DEBUG then str ''[D] ''
      else if level = HEV_LOGGER_INFO then str ''[I] ''
      else if level = HEV_LOGGER_WARN then str ''[W] ''
      else if level = HEV_LOGGER_ERROR then str ''[E] ''
      else str ''[?] '')"

text \<open>What is written: \<open>ts\<close> is the formatted time and \<open>msg\<close> the formatted message, of which \<^verbatim>\<open>vsnprintf\<close> stores up to 1023 bytes
  and a zero, and returns the whole length. \<open>None\<close> is a read behind the array.\<close>

definition hev_logger_log :: "bytes \<Rightarrow> int \<Rightarrow> bytes \<Rightarrow> HevLogger \<Rightarrow> bytes option" where
  "hev_logger_log ts level msg lg =
     (if level < req_level lg \<or> lg_fd lg < 0 then Some []
      else
        let len = length msg; buf = take (1024 - 1) msg @ [0]
        in if 1024 < len then None else Some (ts @ level_tag level @ take len buf @ [10]))"

text \<open>The logger of the SOCKS5 library is the same code over variables of its own.\<close>

definition hev_socks5_logger_init :: "int \<Rightarrow> bytes \<Rightarrow> HevTunnel \<Rightarrow> int \<times> HevLogger \<times> HevTunnel" where
  "hev_socks5_logger_init level path g = hev_logger_init level path g"

definition hev_socks5_logger_fini :: "HevLogger \<Rightarrow> HevTunnel \<Rightarrow> HevTunnel" where
  "hev_socks5_logger_fini lg g = hev_logger_fini lg g"

definition hev_socks5_logger_enabled :: "int \<Rightarrow> HevLogger \<Rightarrow> bool" where
  "hev_socks5_logger_enabled level lg = hev_logger_enabled level lg"

definition hev_socks5_logger_log :: "bytes \<Rightarrow> int \<Rightarrow> bytes \<Rightarrow> HevLogger \<Rightarrow> bytes option" where
  "hev_socks5_logger_log ts level msg lg = hev_logger_log ts level msg lg"

section \<open>The process\<close>

text \<open>The static variables of the parts, the limit of open files with the answers of \<^verbatim>\<open>getrlimit\<close> and \<^verbatim>\<open>setrlimit\<close>, the files with the
  process's number, and whether the task system is initialised.\<close>

record HevProcess =
  pr_tunnel :: HevTunnel
  pr_config :: HevConfig
  pr_misc :: HevSocks5Misc
  pr_logger :: HevLogger
  pr_socks5_logger :: HevLogger
  pr_nofile :: "u64 \<times> u64"
  pr_rlimit_ok :: "bool list"
  pr_pid_files :: "(bytes \<times> int) list"
  pr_tasks :: bool

definition sys_rlimit :: "HevProcess \<Rightarrow> bool \<times> HevProcess" where
  "sys_rlimit p = (case pr_rlimit_ok p of [] \<Rightarrow> (True, p) | b # bs \<Rightarrow> (b, p\<lparr>pr_rlimit_ok := bs\<rparr>))"

definition set_limit_nofile :: "int \<Rightarrow> HevProcess \<Rightarrow> int \<times> HevProcess" where
  "set_limit_nofile limit_nofile p =
     (let (ok, p) = sys_rlimit p
      in if \<not> ok then (- 1, p)
         else
           let rlim_max = snd (pr_nofile p); (ok, p) = sys_rlimit p
           in if \<not> ok then (- 1, p)
              else
                let p = p\<lparr>pr_nofile := (rlim_max, rlim_max)\<rparr>; (ok, p) = sys_rlimit p
                in if ok then (0, p\<lparr>pr_nofile := (of_int limit_nofile, of_int limit_nofile)\<rparr>) else (- 1, p))"

text \<open>\<open>pid\<close> is the number of the process after \<^verbatim>\<open>daemon\<close>, which replaces the three standard streams.\<close>

definition run_as_daemon :: "bytes \<Rightarrow> int \<Rightarrow> HevProcess \<Rightarrow> HevProcess" where
  "run_as_daemon pid_file pid p =
     (let (d, g) = sys_fd (pr_tunnel p); p = p\<lparr>pr_tunnel := g\<rparr>
      in if d < 0 then p
         else p\<lparr>pr_pid_files := pr_pid_files p @ [(pid_file, pid)], pr_tunnel := close_fd d g\<rparr>)"

section \<open>Main\<close>

text \<open>What the program relies on: the resolver, memory for the mapped DNS and its nodes, the scheduler, whether the task system can be
  initialised, and the number of the process.\<close>

record main_env =
  en_resolver :: resolver
  en_mem :: bool
  en_blocks :: "ptr list"
  en_exec :: "HevTunnel \<Rightarrow> HevTunnel option"
  en_tasks :: bool
  en_pid :: int

definition main_settings :: "HevConfig \<Rightarrow> HevSocks5Misc \<Rightarrow> HevSocks5Misc" where
  "main_settings c m =
     (let m = hev_socks5_set_connect_timeout (hev_config_get_misc_connect_timeout c) m;
          m = hev_socks5_set_tcp_timeout (hev_config_get_misc_tcp_read_write_timeout c) m;
          m = hev_socks5_set_udp_timeout (hev_config_get_misc_udp_read_write_timeout c) m
      in hev_socks5_set_udp_recv_buffer_size (hev_config_get_misc_udp_recv_buffer_size c) m)"

text \<open>From the limits of the process to the initialisation of the tunnel; the whole start; and what follows the run.\<close>

definition main_tunnel :: "main_env \<Rightarrow> int \<Rightarrow> HevProcess \<Rightarrow> (int \<times> HevProcess) option" where
  "main_tunnel e ext p =
     (case set_limit_nofile (hev_config_get_misc_limit_nofile (pr_config p)) p of (_, p) \<Rightarrow>
        case hev_config_get_misc_pid_file (pr_config p) of
          Some None \<Rightarrow> None
        | pid_file \<Rightarrow>
            let p = (case pid_file of Some (Some f) \<Rightarrow> run_as_daemon f (en_pid e) p | _ \<Rightarrow> p)
            in if \<not> en_tasks e then Some (- 4, p)
               else
                 let p = p\<lparr>pr_tasks := True\<rparr>
                 in case hev_socks5_tunnel_init (pr_config p) (en_resolver e) (en_mem e) (en_blocks e) ext (pr_tunnel p) of
                      None \<Rightarrow> None
                    | Some (res, g) \<Rightarrow> Some (if res < 0 then - 5 else 0, p\<lparr>pr_tunnel := g\<rparr>))"

definition main_start :: "main_env \<Rightarrow> int \<Rightarrow> HevProcess \<Rightarrow> (int \<times> HevProcess) option" where
  "main_start e ext p =
     (case hev_config_get_misc_log_file (pr_config p) of
        None \<Rightarrow> None
      | Some log_file \<Rightarrow>
          let log_level = hev_config_get_misc_log_level (pr_config p);
              p = p\<lparr>pr_misc := main_settings (pr_config p) (pr_misc p)\<rparr>;
              (res, lg, g) = hev_logger_init log_level log_file (pr_tunnel p);
              p = p\<lparr>pr_logger := lg, pr_tunnel := g\<rparr>
          in if res < 0 then Some (- 2, p)
             else
               let (res, lg, g) = hev_socks5_logger_init log_level log_file (pr_tunnel p);
                   p = p\<lparr>pr_socks5_logger := lg, pr_tunnel := g\<rparr>
               in if res < 0 then Some (- 3, p) else main_tunnel e ext p)"

definition main_finish :: "HevProcess \<Rightarrow> HevProcess option" where
  "main_finish p =
     (case hev_socks5_tunnel_fini (pr_config p) (pr_tunnel p) of
        None \<Rightarrow> None
      | Some g \<Rightarrow>
          let g = hev_socks5_logger_fini (pr_socks5_logger p) g;
              g = hev_logger_fini (pr_logger p) g
          in Some (p\<lparr>pr_tunnel := g, pr_tasks := False\<rparr>))"

definition hev_socks5_tunnel_main_inner :: "main_env \<Rightarrow> int \<Rightarrow> HevProcess \<Rightarrow> (int \<times> HevProcess) option" where
  "hev_socks5_tunnel_main_inner e ext p =
     (case main_start e ext p of
        None \<Rightarrow> None
      | Some (res, p) \<Rightarrow>
          if res < 0 then Some (res, p)
          else
            case hev_socks5_tunnel_run (en_exec e) (pr_tunnel p) of
              None \<Rightarrow> None
            | Some (_, g) \<Rightarrow> map_option (Pair 0) (main_finish (p\<lparr>pr_tunnel := g\<rparr>)))"

text \<open>\<open>init\<close> is one of the two ways to read the configuration, applied to its argument.\<close>

definition main_from :: "(HevConfig \<Rightarrow> (int \<times> HevConfig) option) \<Rightarrow> main_env \<Rightarrow> int \<Rightarrow> HevProcess \<Rightarrow> (int \<times> HevProcess) option" where
  "main_from init e ext p =
     (case init (pr_config p) of
        None \<Rightarrow> None
      | Some (res, c) \<Rightarrow>
          let p = p\<lparr>pr_config := c\<rparr>
          in if res < 0 then Some (- 1, p) else hev_socks5_tunnel_main_inner e ext p)"

definition hev_socks5_tunnel_main_from_file ::
    "(bytes \<Rightarrow> u32 option) \<Rightarrow> bool \<Rightarrow> (bytes \<Rightarrow> bytes option) \<Rightarrow> (bytes \<Rightarrow> yaml_document option) \<Rightarrow>
      main_env \<Rightarrow> bytes \<Rightarrow> int \<Rightarrow> HevProcess \<Rightarrow> (int \<times> HevProcess) option" where
  "hev_socks5_tunnel_main_from_file pton init_ok fopen load e config_path ext p =
     main_from (hev_config_init_from_file pton init_ok fopen load config_path) e ext p"

definition hev_socks5_tunnel_main_from_str ::
    "(bytes \<Rightarrow> u32 option) \<Rightarrow> bool \<Rightarrow> (bytes \<Rightarrow> yaml_document option) \<Rightarrow>
      main_env \<Rightarrow> bytes \<Rightarrow> int \<Rightarrow> HevProcess \<Rightarrow> (int \<times> HevProcess) option" where
  "hev_socks5_tunnel_main_from_str pton init_ok load e config_str ext p =
     main_from (hev_config_init_from_str pton init_ok load config_str) e ext p"

definition hev_socks5_tunnel_main ::
    "(bytes \<Rightarrow> u32 option) \<Rightarrow> bool \<Rightarrow> (bytes \<Rightarrow> bytes option) \<Rightarrow> (bytes \<Rightarrow> yaml_document option) \<Rightarrow>
      main_env \<Rightarrow> bytes \<Rightarrow> int \<Rightarrow> HevProcess \<Rightarrow> (int \<times> HevProcess) option" where
  "hev_socks5_tunnel_main pton init_ok fopen load e config_path ext p =
     hev_socks5_tunnel_main_from_file pton init_ok fopen load e config_path ext p"

definition hev_socks5_tunnel_quit :: "int list \<Rightarrow> int option" where
  "hev_socks5_tunnel_quit fds = hev_socks5_tunnel_stop fds"

section \<open>The service\<close>

text \<open>The thread: none, in its start, serving, or returned with a result and not joined. \<open>stopping\<close> is that \<^verbatim>\<open>native_stop_service\<close> is running
  and holds the mutex, \<open>stop_sent\<close> that it has written the byte and waits for the thread, \<open>tdata_blocks\<close> what the thread has to free.\<close>

datatype worker = NoWorker | Starting | Serving | Returned int

record HevJni =
  is_working :: bool
  work_thread :: worker
  stopping :: bool
  stop_sent :: bool
  tdata_blocks :: int
  jni_process :: HevProcess

text \<open>\<open>created\<close> is whether \<^verbatim>\<open>pthread_create\<close> succeeds.\<close>

definition native_start_service :: "bool \<Rightarrow> HevJni \<Rightarrow> HevJni" where
  "native_start_service created j =
     (if is_working j then j
      else
        let j = j\<lparr>tdata_blocks := tdata_blocks j + 2\<rparr>
        in if \<not> created then j\<lparr>tdata_blocks := tdata_blocks j - 2\<rparr>
           else j\<lparr>work_thread := Starting, is_working := True\<rparr>)"

definition native_stop_enter :: "HevJni \<Rightarrow> HevJni" where
  "native_stop_enter j = (if \<not> is_working j then j else j\<lparr>stopping := True\<rparr>)"

definition native_stop_leave :: "HevJni \<Rightarrow> HevJni" where
  "native_stop_leave j = j\<lparr>work_thread := NoWorker, is_working := False, stopping := False, stop_sent := False\<rparr>"

definition native_get_stats :: "HevJni \<Rightarrow> u64 list" where
  "native_get_stats j =
     (case hev_socks5_tunnel_stats (pr_tunnel (jni_process j)) of
        (tx_packets, tx_bytes, rx_packets, rx_bytes) \<Rightarrow> [tx_packets, tx_bytes, rx_packets, rx_bytes])"

text \<open>The thread runs \<^verbatim>\<open>hev_socks5_tunnel_main\<close> in two steps, its start and what follows, and frees its argument.\<close>

definition main_enter :: "(HevConfig \<Rightarrow> (int \<times> HevConfig) option) \<Rightarrow> main_env \<Rightarrow> int \<Rightarrow> HevProcess \<Rightarrow> (int \<times> HevProcess) option" where
  "main_enter init e ext p =
     (case init (pr_config p) of
        None \<Rightarrow> None
      | Some (res, c) \<Rightarrow> let p = p\<lparr>pr_config := c\<rparr> in if res < 0 then Some (- 1, p) else main_start e ext p)"

definition main_leave :: "main_env \<Rightarrow> HevProcess \<Rightarrow> HevProcess option" where
  "main_leave e p =
     (case hev_socks5_tunnel_run (en_exec e) (pr_tunnel p) of
        None \<Rightarrow> None
      | Some (_, g) \<Rightarrow> main_finish (p\<lparr>pr_tunnel := g\<rparr>))"

definition thread_enter :: "(HevConfig \<Rightarrow> (int \<times> HevConfig) option) \<Rightarrow> main_env \<Rightarrow> int \<Rightarrow> HevJni \<Rightarrow> HevJni option" where
  "thread_enter init e ext j =
     (case main_enter init e ext (jni_process j) of
        None \<Rightarrow> None
      | Some (code, p) \<Rightarrow>
          let j = j\<lparr>jni_process := p\<rparr>
          in Some (if code < 0 then j\<lparr>work_thread := Returned code, tdata_blocks := tdata_blocks j - 2\<rparr> else j\<lparr>work_thread := Serving\<rparr>))"

definition thread_leave :: "main_env \<Rightarrow> HevJni \<Rightarrow> HevJni option" where
  "thread_leave e j =
     map_option (\<lambda>p. j\<lparr>jni_process := p, work_thread := Returned 0, tdata_blocks := tdata_blocks j - 2\<rparr>) (main_leave e (jni_process j))"

text \<open>The steps of the Java threads and of the thread of the tunnel. While \<open>stopping\<close> holds, other callers wait for the mutex.\<close>

inductive jni_step :: "(HevConfig \<Rightarrow> (int \<times> HevConfig) option) \<Rightarrow> main_env \<Rightarrow> int \<Rightarrow> HevJni \<Rightarrow> HevJni \<Rightarrow> bool" for init e ext where
  start: "\<not> stopping j \<Longrightarrow> jni_step init e ext j (native_start_service created j)"
| stop: "\<not> stopping j \<Longrightarrow> jni_step init e ext j (native_stop_enter j)"
| quit: "stopping j \<Longrightarrow> \<not> stop_sent j \<Longrightarrow> hev_socks5_tunnel_quit [event_fd1 (pr_tunnel (jni_process j))] = Some d \<Longrightarrow>
    jni_step init e ext j (j\<lparr>stop_sent := True\<rparr>)"
| enter: "work_thread j = Starting \<Longrightarrow> thread_enter init e ext j = Some j' \<Longrightarrow> jni_step init e ext j j'"
| leave: "work_thread j = Serving \<Longrightarrow> stop_sent j \<Longrightarrow> thread_leave e j = Some j' \<Longrightarrow> jni_step init e ext j j'"
| join: "stopping j \<Longrightarrow> stop_sent j \<Longrightarrow> work_thread j = Returned code \<Longrightarrow> jni_step init e ext j (native_stop_leave j)"

inductive_cases jni_stepE: "jni_step init e ext j j'"

inductive jni_reach :: "(HevConfig \<Rightarrow> (int \<times> HevConfig) option) \<Rightarrow> main_env \<Rightarrow> int \<Rightarrow> HevJni \<Rightarrow> HevJni \<Rightarrow> bool" for init e ext j0 where
  idle: "jni_reach init e ext j0 j0"
| move: "jni_reach init e ext j0 j \<Longrightarrow> jni_step init e ext j j' \<Longrightarrow> jni_reach init e ext j0 j'"

section \<open>Descriptors before the tunnel\<close>

text \<open>Before the tunnel starts only the table of descriptors changes.\<close>

definition only_fds :: "int set \<Rightarrow> HevTunnel \<Rightarrow> HevTunnel \<Rightarrow> bool" where
  "only_fds F g g' \<longleftrightarrow> (\<exists>ds. g' = g\<lparr>fd_script := ds, tfds := F\<rparr> \<and> fds_fresh F ds)"

lemma only_fds_refl: "fds_fresh (tfds g) (fd_script g) \<Longrightarrow> only_fds (tfds g) g g"
  unfolding only_fds_def by (intro exI [of _ "fd_script g"]) simp

lemma only_fds_start:
  assumes "only_fds F g g'" "clean g" "answers_ok g"
  shows "clean g'" "answers_ok g'" "tfds g' = F" "pcbs g' = pcbs g" "task_refs g' = task_refs g"
  using assms by (auto simp: only_fds_def clean_def answers_ok_def pcbs_fresh_def)

lemma sys_fd_only:
  assumes "only_fds F g g'" "sys_fd g' = (d, g'')"
  shows "only_fds (if 0 \<le> d then insert d F else F) g g''" "0 \<le> d \<Longrightarrow> d \<notin> F"
proof -
  obtain ds where g': "g' = g\<lparr>fd_script := ds, tfds := F\<rparr>" "fds_fresh F ds" using assms(1) by (auto simp: only_fds_def)
  show "only_fds (if 0 \<le> d then insert d F else F) g g''"
  proof (cases ds)
    case Nil
    then show ?thesis using g' assms by (auto simp: sys_fd_def)
  next
    case (Cons x xs)
    then show ?thesis using g' assms(2) fds_fresh_Cons(1,3) [of F x xs]
      by (cases "0 \<le> x") (auto simp: sys_fd_def only_fds_def)
  qed
  show "0 \<le> d \<Longrightarrow> d \<notin> F"
    using g' assms(2) fds_fresh_Cons(2) [of F d] by (cases ds) (auto simp: sys_fd_def)
qed

lemma logger_init_only:
  assumes "only_fds F g g'" "hev_logger_init level path g' = (r, lg, g'')"
  shows "r < 0 \<and> only_fds F g g'' \<or> r = 0 \<and> 0 \<le> lg_fd lg \<and> lg_fd lg \<notin> F \<and> only_fds (insert (lg_fd lg) F) g g''"
proof -
  obtain d where d: "sys_fd g' = (d, g'')" "r = (if d < 0 then - 1 else 0)" "lg_fd lg = d"
    using assms(2) by (auto simp: hev_logger_init_def Let_def split: prod.splits if_splits)
  then show ?thesis using sys_fd_only [OF assms(1) d(1)] by (auto split: if_splits)
qed

lemma close_fresh_only:
  assumes "only_fds F g g'" "sys_fd g' = (d, g'')" "0 \<le> d"
  shows "only_fds F g (close_fd d g'')"
proof -
  have d: "d \<notin> F" "only_fds (insert d F) g g''" using sys_fd_only [OF assms(1,2)] assms(3) by simp_all
  then obtain ds where "g'' = g\<lparr>fd_script := ds, tfds := insert d F\<rparr>" "fds_fresh (insert d F) ds" by (auto simp: only_fds_def)
  moreover have "insert d F - {d} = F" using d(1) by blast
  moreover have "fds_fresh F ds" using calculation(2) by (auto simp: fds_fresh_def)
  ultimately show ?thesis unfolding only_fds_def close_fd_def by auto
qed

lemma run_as_daemon_only:
  assumes "only_fds F g (pr_tunnel p)"
  shows "only_fds F g (pr_tunnel (run_as_daemon f pid p))" "pr_config (run_as_daemon f pid p) = pr_config p"
    "pr_logger (run_as_daemon f pid p) = pr_logger p" "pr_socks5_logger (run_as_daemon f pid p) = pr_socks5_logger p"
    "pr_misc (run_as_daemon f pid p) = pr_misc p" "pr_tasks (run_as_daemon f pid p) = pr_tasks p"
proof -
  obtain d g' where d: "sys_fd (pr_tunnel p) = (d, g')" by force
  show "only_fds F g (pr_tunnel (run_as_daemon f pid p))"
    using sys_fd_only(1) [OF assms d] close_fresh_only [OF assms d] by (cases "d < 0") (simp_all add: run_as_daemon_def d)
qed (simp_all add: run_as_daemon_def Let_def split: prod.split)

lemma set_limit_nofile_fields:
  assumes "set_limit_nofile n p = (r, p')"
  shows "pr_tunnel p' = pr_tunnel p" "pr_config p' = pr_config p" "pr_logger p' = pr_logger p"
    "pr_socks5_logger p' = pr_socks5_logger p" "pr_misc p' = pr_misc p" "pr_tasks p' = pr_tasks p"
  using assms by (auto simp: set_limit_nofile_def sys_rlimit_def Let_def split: prod.splits if_splits list.splits)

section \<open>Starting\<close>

text \<open>What a start holds when it returns \<open>code\<close>, before the device.\<close>

definition log_fds :: "int \<Rightarrow> HevProcess \<Rightarrow> int set" where
  "log_fds code p =
     (if code = - 1 \<or> code = - 2 then {} else if code = - 3 then {lg_fd (pr_logger p)}
      else {lg_fd (pr_logger p), lg_fd (pr_socks5_logger p)})"

text \<open>The part of the start that only takes descriptors, for the two loggers.\<close>

definition before_tunnel :: "HevProcess \<Rightarrow> int \<Rightarrow> HevProcess \<Rightarrow> bool" where
  "before_tunnel p code p' \<longleftrightarrow> pr_config p' = pr_config p \<and> pr_misc p' = main_settings (pr_config p) (pr_misc p) \<and>
     only_fds (tfds (pr_tunnel p) \<union> log_fds code p') (pr_tunnel p) (pr_tunnel p') \<and> log_fds code p' \<inter> tfds (pr_tunnel p) = {}"

definition tunnel_started :: "main_env \<Rightarrow> int \<Rightarrow> HevProcess \<Rightarrow> int \<Rightarrow> HevProcess \<Rightarrow> bool" where
  "tunnel_started e ext p code p' \<longleftrightarrow> (\<exists>q g res. before_tunnel p code q \<and> p' = q\<lparr>pr_tasks := True, pr_tunnel := g\<rparr> \<and>
     hev_socks5_tunnel_init (pr_config p) (en_resolver e) (en_mem e) (en_blocks e) ext (pr_tunnel q) = Some (res, g) \<and>
     code = (if res < 0 then - 5 else 0))"

lemma log_file_ok: "config_ok c \<Longrightarrow> \<exists>path. hev_config_get_misc_log_file c = Some path"
  using array_ok_cstr [of 1024 "cfg_log_file c"]
  by (cases "cfg_log_file c ! 0 = 0") (auto simp: hev_config_get_misc_log_file_def config_ok_def)

text \<open>The stage behind the loggers changes neither them nor the settings.\<close>

definition same_logs :: "HevProcess \<Rightarrow> HevProcess \<Rightarrow> bool" where
  "same_logs p q \<longleftrightarrow> pr_config q = pr_config p \<and> pr_logger q = pr_logger p \<and> pr_socks5_logger q = pr_socks5_logger p \<and>
     pr_misc q = pr_misc p \<and> pr_tasks q = pr_tasks p"

definition as_daemon :: "main_env \<Rightarrow> HevProcess \<Rightarrow> HevProcess" where
  "as_daemon e p = (case hev_config_get_misc_pid_file (pr_config p) of Some (Some f) \<Rightarrow> run_as_daemon f (en_pid e) p | _ \<Rightarrow> p)"

lemma main_tunnel_eq:
  assumes "hev_config_get_misc_pid_file (pr_config p) \<noteq> Some None"
    and "set_limit_nofile (hev_config_get_misc_limit_nofile (pr_config p)) p = (r, p3)"
  shows "main_tunnel e ext p =
    (if \<not> en_tasks e then Some (- 4, as_daemon e p3)
     else map_option (\<lambda>(res, g). (if res < 0 then - 5 else 0, (as_daemon e p3)\<lparr>pr_tasks := True, pr_tunnel := g\<rparr>))
       (hev_socks5_tunnel_init (pr_config (as_daemon e p3)) (en_resolver e) (en_mem e) (en_blocks e) ext (pr_tunnel (as_daemon e p3))))"
proof -
  have c: "pr_config p3 = pr_config p" using set_limit_nofile_fields(2) [OF assms(2)] .
  show ?thesis
  proof (cases "hev_config_get_misc_pid_file (pr_config p)")
    case None
    then show ?thesis unfolding main_tunnel_def assms(2) using c by (simp add: as_daemon_def Let_def split: option.split)
  next
    case (Some w)
    then obtain f where "hev_config_get_misc_pid_file (pr_config p) = Some (Some f)" using assms(1) by (cases w) simp_all
    then show ?thesis unfolding main_tunnel_def assms(2) using c by (simp add: as_daemon_def Let_def split: option.split)
  qed
qed

lemma main_tunnel_stages:
  assumes "config_ok (pr_config p)" "only_fds F g (pr_tunnel p)"
  shows "\<exists>q. same_logs p q \<and> only_fds F g (pr_tunnel q) \<and> main_tunnel e ext p =
    (if \<not> en_tasks e then Some (- 4, q)
     else map_option (\<lambda>(res, g). (if res < 0 then - 5 else 0, q\<lparr>pr_tasks := True, pr_tunnel := g\<rparr>))
       (hev_socks5_tunnel_init (pr_config p) (en_resolver e) (en_mem e) (en_blocks e) ext (pr_tunnel q)))"
proof -
  obtain r3 p3 where 3: "set_limit_nofile (hev_config_get_misc_limit_nofile (pr_config p)) p = (r3, p3)" by force
  note n = set_limit_nofile_fields [OF 3]
  have o3: "only_fds F g (pr_tunnel p3)" using assms(2) n(1) by simp
  have q: "same_logs p (as_daemon e p3)" "only_fds F g (pr_tunnel (as_daemon e p3))"
    unfolding as_daemon_def same_logs_def using o3 n run_as_daemon_only [OF o3] by (simp_all split: option.split)
  have "hev_config_get_misc_pid_file (pr_config p) \<noteq> Some None"
    using assms(1) array_ptr_ok by (auto simp: hev_config_get_misc_pid_file_def config_ok_def)
  from main_tunnel_eq [OF this 3, of e ext] show ?thesis
    using q by (intro exI [of _ "as_daemon e p3"]) (simp add: same_logs_def)
qed

lemma main_start_stages:
  assumes "config_ok (pr_config p)" "fds_fresh (tfds (pr_tunnel p)) (fd_script (pr_tunnel p))"
    and "\<And>q. before_tunnel p 0 q \<Longrightarrow>
      hev_socks5_tunnel_init (pr_config p) (en_resolver e) (en_mem e) (en_blocks e) ext (pr_tunnel q) \<noteq> None"
  shows "\<exists>code p'. main_start e ext p = Some (code, p') \<and>
    (code \<in> {- 2, - 3, - 4} \<and> before_tunnel p code p' \<and> pr_tasks p' = pr_tasks p \<or> tunnel_started e ext p code p')"
proof -
  let ?c = "pr_config p" and ?g = "pr_tunnel p"
  let ?F = "tfds ?g"
  obtain path where lf: "hev_config_get_misc_log_file ?c = Some path"
    using log_file_ok [OF assms(1)] ..
  let ?p0 = "p\<lparr>pr_misc := main_settings ?c (pr_misc p)\<rparr>"
  obtain r1 l1 g1 where 1: "hev_logger_init (hev_config_get_misc_log_level ?c) path ?g = (r1, l1, g1)" by (cases "hev_logger_init (hev_config_get_misc_log_level ?c) path ?g")
  note o1 = logger_init_only [OF only_fds_refl [OF assms(2)] 1]
  let ?p1 = "?p0\<lparr>pr_logger := l1, pr_tunnel := g1\<rparr>"
  show ?thesis
  proof (cases "r1 < 0")
    case True
    then have "before_tunnel p (- 2) ?p1" using o1 by (simp add: before_tunnel_def log_fds_def)
    moreover have "main_start e ext p = Some (- 2, ?p1)" using True by (simp add: main_start_def lf 1 Let_def)
    ultimately show ?thesis by (intro exI [of _ "- 2"] exI [of _ ?p1]) simp
  next
    case r1: False
    then have f1: "only_fds (insert (lg_fd l1) ?F) ?g g1" "lg_fd l1 \<notin> ?F" using o1 by auto
    obtain r2 l2 g2 where 2: "hev_logger_init (hev_config_get_misc_log_level ?c) path g1 = (r2, l2, g2)" by (cases "hev_logger_init (hev_config_get_misc_log_level ?c) path g1")
    note o2 = logger_init_only [OF f1(1) 2]
    let ?p2 = "?p1\<lparr>pr_socks5_logger := l2, pr_tunnel := g2\<rparr>"
    show ?thesis
    proof (cases "r2 < 0")
      case True
      then have "before_tunnel p (- 3) ?p2" using o2 f1(2) by (simp add: before_tunnel_def log_fds_def)
      moreover have "main_start e ext p = Some (- 3, ?p2)" using True r1
        by (simp add: main_start_def lf 1 2 hev_socks5_logger_init_def Let_def)
      ultimately show ?thesis by (intro exI [of _ "- 3"] exI [of _ ?p2]) simp
    next
      case r2: False
      then have f2: "only_fds (insert (lg_fd l2) (insert (lg_fd l1) ?F)) ?g g2" "lg_fd l2 \<notin> insert (lg_fd l1) ?F" using o2 by auto
      obtain q where q: "same_logs ?p2 q" "only_fds (insert (lg_fd l2) (insert (lg_fd l1) ?F)) ?g (pr_tunnel q)"
          "main_tunnel e ext ?p2 = (if \<not> en_tasks e then Some (- 4, q)
             else map_option (\<lambda>(res, g). (if res < 0 then - 5 else 0, q\<lparr>pr_tasks := True, pr_tunnel := g\<rparr>))
               (hev_socks5_tunnel_init ?c (en_resolver e) (en_mem e) (en_blocks e) ext (pr_tunnel q)))"
        using main_tunnel_stages [of ?p2 "insert (lg_fd l2) (insert (lg_fd l1) ?F)" ?g e ext] assms(1) f2(1) by auto
      have b: "before_tunnel p code q" if "code = - 4 \<or> code = - 5 \<or> code = 0" for code
        using that q(1,2) f1(2) f2(2) by (auto simp: before_tunnel_def same_logs_def log_fds_def insert_commute Un_insert_right)
      have m: "main_start e ext p = main_tunnel e ext ?p2"
        using r1 r2 by (simp add: main_start_def lf 1 2 hev_socks5_logger_init_def Let_def)
      show ?thesis
      proof (cases "en_tasks e")
        case False
        then show ?thesis using m q b [of "- 4"] by (intro exI [of _ "- 4"] exI [of _ q]) (simp add: same_logs_def)
      next
        case True
        then obtain res g where "hev_socks5_tunnel_init ?c (en_resolver e) (en_mem e) (en_blocks e) ext (pr_tunnel q) = Some (res, g)"
          using assms(3) b by fastforce
        then show ?thesis using m q True b unfolding tunnel_started_def
          by (intro exI [of _ "if res < 0 then - 5 else 0"] exI [of _ "q\<lparr>pr_tasks := True, pr_tunnel := g\<rparr>"]) auto
      qed
    qed
  qed
qed

lemma init_config_ok:
  assumes "config_ok c" "hev_config_init_from_file pton init_ok fopen load path c = Some (r, c')"
  shows "config_ok c'"
proof -
  have "config_ok d" if p: "hev_config_parse_doc pton doc c = Some (r, d)" for doc d
  proof (cases "\<exists>ps. yaml_document_get_root_node doc = Some (YAML_MAPPING_NODE ps)")
    case True
    then obtain ps where "yaml_document_get_root_node doc = Some (YAML_MAPPING_NODE ps)" ..
    then show ?thesis using p root_pairs_ok [OF assms(1), of pton doc ps] adjust_sizes_ok [of "snd (root_pairs pton doc ps c)"]
      by (auto simp: hev_config_parse_doc_def split: prod.splits if_splits option.splits)
  next
    case False
    then show ?thesis using p assms(1) by (auto simp: hev_config_parse_doc_def split: option.splits yaml_node.splits)
  qed
  then show ?thesis using assms by (auto simp: hev_config_init_from_file_def split: if_splits option.splits)
qed

text \<open>The run after a start that succeeded, up to the end of the process.\<close>

lemma main_run_finish:
  assumes "config_ok (pr_config p)" "0 \<le> hev_config_get_mapdns_cache_size (pr_config p)" "clean (pr_tunnel p)" "answers_ok (pr_tunnel p)"
    and "\<And>g. \<exists>g'. en_exec e g = Some g' \<and> ran g g'" "tunnel_started e ext p 0 p'"
  shows "\<exists>g2 p2. hev_socks5_tunnel_run (en_exec e) (pr_tunnel p') = Some (0, g2) \<and> main_finish (p'\<lparr>pr_tunnel := g2\<rparr>) = Some p2 \<and>
    pr_config p2 = pr_config p \<and> pr_misc p2 = main_settings (pr_config p) (pr_misc p) \<and> \<not> pr_tasks p2 \<and>
    tfds (pr_tunnel p2) = tfds (pr_tunnel p) \<and> pcbs (pr_tunnel p2) = pcbs (pr_tunnel p) \<and>
    task_refs (pr_tunnel p2) = task_refs (pr_tunnel p) \<and> singleton (pr_tunnel p2) = None"
proof -
  obtain q g res where q: "before_tunnel p 0 q" "p' = q\<lparr>pr_tasks := True, pr_tunnel := g\<rparr>" "\<not> res < 0"
      "hev_socks5_tunnel_init (pr_config p) (en_resolver e) (en_mem e) (en_blocks e) ext (pr_tunnel q) = Some (res, g)"
    using assms(6) by (auto simp: tunnel_started_def split: if_splits)
  have o: "only_fds (tfds (pr_tunnel p) \<union> log_fds 0 q) (pr_tunnel p) (pr_tunnel q)" "log_fds 0 q \<inter> tfds (pr_tunnel p) = {}"
    using q(1) by (simp_all add: before_tunnel_def)
  note s = only_fds_start [OF o(1) assms(3,4)]
  have i: "hev_socks5_tunnel_init (pr_config p) (en_resolver e) (en_mem e) (en_blocks e) ext (pr_tunnel q) = Some (0, g)"
      "part ext (pr_tunnel q) g" "tunnel_ready g"
    using tunnel_init_cases [OF assms(1,2) s(1,2), of "en_resolver e" "en_mem e" "en_blocks e" ext] q(3,4) by auto
  obtain g2 g3 where r: "hev_socks5_tunnel_run (en_exec e) g = Some (0, g2)" "hev_socks5_tunnel_fini (pr_config p) g2 = Some g3"
      "released ext (pr_tunnel q) g3" "tfds g3 = tfds (pr_tunnel q)"
    using tunnel_run_released [OF assms(1) i assms(5)] by blast
  have "tfds g3 - {lg_fd (pr_socks5_logger q)} - {lg_fd (pr_logger q)} = tfds (pr_tunnel p)"
    using r(4) s(3) o(2) by (auto simp: log_fds_def)
  then show ?thesis
    using r s(4,5) q(1,2) by (simp add: main_finish_def hev_logger_fini_def hev_socks5_logger_fini_def close_fd_def Let_def before_tunnel_def released_def)
qed

lemma main_failed:
  assumes "config_ok (pr_config p)" "0 \<le> hev_config_get_mapdns_cache_size (pr_config p)" "clean (pr_tunnel p)" "answers_ok (pr_tunnel p)"
    and "tunnel_started e ext p (- 5) p'"
  shows "pr_config p' = pr_config p \<and> pr_misc p' = main_settings (pr_config p) (pr_misc p) \<and> pr_tasks p' \<and>
    tfds (pr_tunnel p') = tfds (pr_tunnel p) \<union> log_fds (- 5) p' \<union> dev_fds ext (pr_tunnel p') \<and> pcbs (pr_tunnel p') = pcbs (pr_tunnel p) \<and>
    task_refs (pr_tunnel p') = task_refs (pr_tunnel p) \<and> singleton (pr_tunnel p') = None"
proof -
  obtain q g res where q: "before_tunnel p (- 5) q" "p' = q\<lparr>pr_tasks := True, pr_tunnel := g\<rparr>" "res < 0"
      "hev_socks5_tunnel_init (pr_config p) (en_resolver e) (en_mem e) (en_blocks e) ext (pr_tunnel q) = Some (res, g)"
    using assms(5) by (auto simp: tunnel_started_def split: if_splits)
  have o: "only_fds (tfds (pr_tunnel p) \<union> log_fds (- 5) q) (pr_tunnel p) (pr_tunnel q)" using q(1) by (simp add: before_tunnel_def)
  note s = only_fds_start [OF o assms(3,4)]
  have "released ext (pr_tunnel q) g"
    using tunnel_init_cases [OF assms(1,2) s(1,2), of "en_resolver e" "en_mem e" "en_blocks e" ext] q(3,4) by auto
  then show ?thesis using q(1,2) s(3-5) by (simp add: before_tunnel_def released_def log_fds_def)
qed

lemma tunnel_started_code: "tunnel_started e ext p code p' \<Longrightarrow> code = - 5 \<or> code = 0"
  unfolding tunnel_started_def by (elim exE conjE) simp

section \<open>The states of the service\<close>

text \<open>The two steps of the thread are the main function.\<close>

lemma main_from_steps:
  "main_from init e ext p =
     (case main_enter init e ext p of
        None \<Rightarrow> None
      | Some (code, p) \<Rightarrow> if code < 0 then Some (code, p) else map_option (Pair 0) (main_leave e p))"
  by (auto simp: main_from_def main_enter_def main_leave_def hev_socks5_tunnel_main_inner_def Let_def split: option.split)

lemma tunnel_fini_events: "hev_socks5_tunnel_fini cfg g = Some g' \<Longrightarrow> event_fd1 g' < 0"
proof -
  have e: "event_fd1 b < 0" if "event_task_fini a = Some b" for a b
    using that by (auto simp: event_task_fini_def close_fd_def Let_def split: option.splits if_splits)
  have g: "event_fd1 b = event_fd1 a" if "gateway_fini a = Some b" for a b
    using that by (auto simp: gateway_fini_def free_pcb_def split: option.splits if_splits)
  have t: "event_fd1 b = event_fd1 a" if "tunnel_fini cfg a = Some b" for a b
    using that by (auto simp: tunnel_fini_def if_set_def hev_exec_run_def hev_tunnel_close_def close_fd_def split: option.splits if_splits)
  assume "hev_socks5_tunnel_fini cfg g = Some g'"
  then show ?thesis unfolding hev_socks5_tunnel_fini_def by (auto simp: bind_eq_Some_conv dest!: e g t split: option.splits)
qed

lemma sys_fd_events: "sys_fd g = (d, g') \<Longrightarrow> event_fd1 g' = event_fd1 g"
  by (auto simp: sys_fd_def split: list.splits)

lemma logger_init_events: "hev_logger_init level path g = (r, lg, g') \<Longrightarrow> event_fd1 g' = event_fd1 g"
  using sys_fd_events [of g] by (auto simp: hev_logger_init_def Let_def split: prod.splits)

lemma run_as_daemon_events: "event_fd1 (pr_tunnel (run_as_daemon f pid p)) = event_fd1 (pr_tunnel p)"
proof -
  obtain d g where d: "sys_fd (pr_tunnel p) = (d, g)" by force
  show ?thesis using sys_fd_events [OF d] by (simp add: run_as_daemon_def d close_fd_def Let_def)
qed

lemma failed_init_events:
  "(case m of None \<Rightarrow> None | Some (res, g) \<Rightarrow> if res < 0 then map_option (Pair (- 1)) (hev_socks5_tunnel_fini cfg g) else Some (0, g)) =
     Some (r :: int, g') \<Longrightarrow> r < 0 \<Longrightarrow> event_fd1 g' < 0"
  by (auto dest: tunnel_fini_events split: option.splits if_splits)

lemma tunnel_init_events:
  "hev_socks5_tunnel_init cfg rs mem_ok bs ext g = Some (r, g') \<Longrightarrow> r < 0 \<Longrightarrow> event_fd1 g' < 0"
  unfolding hev_socks5_tunnel_init_def by (rule failed_init_events)

lemma main_tunnel_events:
  assumes "main_tunnel e ext p = Some (code, p')" "code < 0" "event_fd1 (pr_tunnel p) < 0"
  shows "event_fd1 (pr_tunnel p') < 0"
proof -
  obtain r q where q: "set_limit_nofile (hev_config_get_misc_limit_nofile (pr_config p)) p = (r, q)" by force
  have d: "event_fd1 (pr_tunnel (as_daemon e q)) < 0"
    using assms(3) set_limit_nofile_fields(1) [OF q] by (simp add: as_daemon_def run_as_daemon_events split: option.split)
  have pid: "hev_config_get_misc_pid_file (pr_config p) \<noteq> Some None"
    using assms(1) set_limit_nofile_fields(2) [OF q] by (auto simp: main_tunnel_def q)
  show ?thesis
    using assms(1,2) d tunnel_init_events unfolding main_tunnel_eq [OF pid q] by (auto split: if_splits)
qed

lemma main_start_events:
  assumes "main_start e ext p = Some (code, p')" "code < 0" "event_fd1 (pr_tunnel p) < 0"
  shows "event_fd1 (pr_tunnel p') < 0"
proof -
  obtain path where lf: "hev_config_get_misc_log_file (pr_config p) = Some path" using assms(1) by (auto simp: main_start_def split: option.splits)
  let ?l = "hev_config_get_misc_log_level (pr_config p)"
  obtain r1 l1 g1 where 1: "hev_logger_init ?l path (pr_tunnel p) = (r1, l1, g1)" by (cases "hev_logger_init ?l path (pr_tunnel p)")
  obtain r2 l2 g2 where 2: "hev_logger_init ?l path g1 = (r2, l2, g2)" by (cases "hev_logger_init ?l path g1")
  show ?thesis
    using assms logger_init_events [OF 1] logger_init_events [OF 2] main_tunnel_events
    by (auto simp: main_start_def lf 1 2 hev_socks5_logger_init_def Let_def split: if_splits)
qed

text \<open>The invariant of the service.\<close>

definition jni_ok :: "HevJni \<Rightarrow> bool" where
  "jni_ok j \<longleftrightarrow> is_working j = (work_thread j \<noteq> NoWorker) \<and> (stopping j \<longrightarrow> is_working j) \<and>
     (stop_sent j \<longrightarrow> stopping j \<and> (work_thread j = Serving \<or> work_thread j = Returned 0)) \<and>
     tdata_blocks j = (if work_thread j = Starting \<or> work_thread j = Serving then 2 else 0) \<and>
     (work_thread j \<noteq> Serving \<longrightarrow> event_fd1 (pr_tunnel (jni_process j)) < 0)"

lemma thread_enter_ok:
  assumes "jni_ok j" "work_thread j = Starting" "thread_enter init e ext j = Some j'"
  shows "jni_ok j'"
proof -
  obtain code p where m: "main_enter init e ext (jni_process j) = Some (code, p)"
      "j' = (if code < 0 then j\<lparr>jni_process := p, work_thread := Returned code, tdata_blocks := tdata_blocks j - 2\<rparr>
             else j\<lparr>jni_process := p, work_thread := Serving\<rparr>)"
    using assms(3) by (auto simp: thread_enter_def Let_def split: option.splits)
  have "event_fd1 (pr_tunnel (jni_process j)) < 0" using assms(1,2) by (simp add: jni_ok_def)
  then have "event_fd1 (pr_tunnel p) < 0" if "code < 0"
    using m(1) that main_start_events [of e ext _ code p] by (auto simp: main_enter_def Let_def split: option.splits if_splits)
  then show ?thesis using assms(1,2) m(2) by (auto simp: jni_ok_def)
qed

lemma thread_leave_ok:
  assumes "jni_ok j" "work_thread j = Serving" "stop_sent j" "thread_leave e j = Some j'"
  shows "jni_ok j'"
proof -
  obtain p where p: "main_leave e (jni_process j) = Some p"
      "j' = j\<lparr>jni_process := p, work_thread := Returned 0, tdata_blocks := tdata_blocks j - 2\<rparr>"
    using assms(4) by (auto simp: thread_leave_def)
  have "event_fd1 (pr_tunnel p) < 0" using p(1)
    by (auto simp: main_leave_def main_finish_def hev_logger_fini_def hev_socks5_logger_fini_def close_fd_def Let_def
        dest!: tunnel_fini_events split: option.splits)
  then show ?thesis using assms(1-3) p(2) by (auto simp: jni_ok_def)
qed

lemma jni_step_ok: "jni_step init e ext j j' \<Longrightarrow> jni_ok j \<Longrightarrow> jni_ok j'"
proof (induction rule: jni_step.induct)
  case (quit j d)
  then have "0 \<le> event_fd1 (pr_tunnel (jni_process j))" by (auto simp: hev_socks5_tunnel_quit_def split: if_splits)
  then have "work_thread j = Serving" using quit(4) by (force simp: jni_ok_def)
  then show ?case using quit by (simp add: jni_ok_def)
next
  case (start j created)
  then show ?case by (cases "is_working j"; cases created) (simp_all add: native_start_service_def jni_ok_def)
next
  case (stop j)
  then show ?case by (cases "is_working j") (simp_all add: native_stop_enter_def jni_ok_def)
next
  case (join j code)
  then show ?case by (simp add: native_stop_leave_def jni_ok_def)
qed (rule thread_enter_ok thread_leave_ok; assumption)+

lemma jni_reach_ok: "jni_reach init e ext j0 j \<Longrightarrow> jni_ok j0 \<Longrightarrow> jni_ok j"
  by (induction rule: jni_reach.induct) (auto intro: jni_step_ok)

section \<open>Log lines\<close>

text \<open>A message that fits its array is written whole, between its prefix and the end of the line.\<close>

lemma logger_writes:
  "hev_logger_enabled level lg \<Longrightarrow> length msg < 1024 \<Longrightarrow> hev_logger_log ts level msg lg = Some (ts @ level_tag level @ msg @ [10])"
  by (simp add: hev_logger_enabled_def hev_logger_log_def Let_def)

text \<open>The error for a pid file with a long path that cannot be opened reads behind the array.\<close>

lemma logger_overread:
  "req_level lg \<le> HEV_LOGGER_ERROR \<Longrightarrow> 0 \<le> lg_fd lg \<Longrightarrow> 1010 < length path \<Longrightarrow>
     hev_logger_log ts HEV_LOGGER_ERROR (str ''open pid file '' @ path) lg = None"
  by (simp add: hev_logger_log_def str_def Let_def)

section \<open>An example\<close>

definition process_example :: HevProcess where
  "process_example =
     \<lparr>pr_tunnel = tunnel_example\<lparr>fd_script := [3, 4, 5, 6, 7, 8, 9]\<rparr>, pr_config = config_defaults, pr_misc = misc_defaults,
      pr_logger = \<lparr>lg_fd = - 1, req_level = 0, lg_target = LogStderr\<rparr>,
      pr_socks5_logger = \<lparr>lg_fd = - 1, req_level = 0, lg_target = LogStderr\<rparr>,
      pr_nofile = (1024, 4096), pr_rlimit_ok = [], pr_pid_files = [], pr_tasks = False\<rparr>"

definition env_example :: main_env where
  "env_example = \<lparr>en_resolver = no_names, en_mem = True, en_blocks = [], en_exec = exec_example, en_tasks = True, en_pid = 42\<rparr>"

lemma process_example_ok:
  "config_ok (pr_config process_example)" "clean (pr_tunnel process_example)" "answers_ok (pr_tunnel process_example)"
  "\<not> pr_tasks process_example" "tfds (pr_tunnel process_example) = {0, 1, 2}"
  by (simp_all add: process_example_def config_defaults_ok) (simp_all add: tunnel_example_def clean_def answers_ok_def fds_fresh_def pcbs_fresh_def)

lemma config_example:
  "\<exists>c. hev_config_init_from_file pton True (\<lambda>_. Some []) (\<lambda>_. Some doc_example) path config_defaults = Some (0, c) \<and>
     hev_config_get_mapdns_cache_size c = 0 \<and> hev_config_get_misc_tcp_read_write_timeout c = 5000"
  by (simp add: hev_config_init_from_file_def hev_config_parse_doc_def yaml_example root_pairs_example adjust_sizes_def misc_timeouts_def
      socks5_apply_def no_keys_def config_defaults_sizes Let_def int_ok_def TCP_SND_BUF_def UDP_BUF_SIZE_def TASK_STACK_SIZE_def
      hev_config_get_mapdns_cache_size_def hev_config_get_misc_tcp_read_write_timeout_def
      config_defaults_accessors(6) [unfolded hev_config_get_mapdns_cache_size_def] del: root_pairs.simps)

section \<open>Properties\<close>




definition jni_example :: HevJni where
  "jni_example = \<lparr>is_working = False, work_thread = NoWorker, stopping = False, stop_sent = False, tdata_blocks = 0, jni_process = process_example\<rparr>"


end
