(* ===== verification/TcpRelay.thy ===== *)
theory TcpRelay
  imports TaskIO
begin

text \<open>
  The TCP relay of \<^verbatim>\<open>hev-socks5-tcp.c\<close> and the splicer of the task system it rests on
  (\<^verbatim>\<open>third-part/hev-task-system/src/lib/io/basic/hev-task-io.c\<close>, as configured, with the system call \<^verbatim>\<open>splice\<close> and a pipe for each
  direction). A direction has the events of its source, the answers of its destination and the bytes in its pipe; what the kernel
  moves at a time is in the events.
\<close>

section \<open>Definitions\<close>

record HevTaskIOSplicer =
  pipe_fd0 :: int
  pipe_fd1 :: int
  wlen :: u64
  blen :: u64
  pipe_data :: bytes

record direction =
  src :: "rx_event list"
  dst :: "tx_event list"
  delivered :: bytes
  dst_shut :: bool

record HevSocks5Relay = HevSocks5 +
  fwd :: direction
  bwd :: direction

definition sys_pipe2 :: "'a net_scheme \<Rightarrow> (int \<times> int) option \<times> 'a net_scheme" where
  "sys_pipe2 s =
     (case socks s of
        a # b # ds \<Rightarrow>
          if a < 0 \<or> b < 0 then (None, s\<lparr>socks := ds\<rparr>)
          else (Some (a, b), s\<lparr>socks := ds, open_fds := insert a (insert b (open_fds s))\<rparr>)
      | _ \<Rightarrow> (None, s))"

text \<open>\<open>pipe_size\<close> is the capacity \<^verbatim>\<open>F_GETPIPE_SZ\<close> reports. The results of \<^verbatim>\<open>hev_task_add_fd\<close> are answers of the system.\<close>

definition task_io_splicer_init :: "u64 \<Rightarrow> 'a net_scheme \<Rightarrow> HevTaskIOSplicer option \<times> 'a net_scheme" where
  "task_io_splicer_init pipe_size s =
     (case sys_pipe2 s of
        (None, s) \<Rightarrow> (None, s)
      | (Some (a, b), s) \<Rightarrow>
          (case sys_opt s of (res, s) \<Rightarrow>
             if res < 0 then (None, sys_close b (sys_close a s))
             else case sys_opt s of (res, s) \<Rightarrow>
               if res < 0 then (None, sys_close b (sys_close a s))
               else (Some \<lparr>pipe_fd0 = a, pipe_fd1 = b, wlen = 0, blen = pipe_size, pipe_data = []\<rparr>, s)))"

definition task_io_splicer_fini :: "HevTaskIOSplicer \<Rightarrow> 'a net_scheme \<Rightarrow> 'a net_scheme" where
  "task_io_splicer_fini self s = sys_close (pipe_fd1 self) (sys_close (pipe_fd0 self) s)"

text \<open>\<^verbatim>\<open>splice\<close> from the source into the pipe, and from the pipe to the destination: the number of bytes moved, 0 at the end of the
  stream, -1 for an error and -2 for \<^verbatim>\<open>EAGAIN\<close>, which is also the answer while the pipe is full. After an error a source is at its end.\<close>

definition splice_in :: "HevTaskIOSplicer \<Rightarrow> direction \<Rightarrow> int \<times> HevTaskIOSplicer \<times> direction" where
  "splice_in self d =
     (if unat (blen self) \<le> length (pipe_data self) then (- 2, self, d)
      else case src d of
        [] \<Rightarrow> (- 1, self, d)
      | RxFail # es \<Rightarrow> (- 1, self, d\<lparr>src := [RxEof]\<rparr>)
      | RxEof # es \<Rightarrow> (0, self, d)
      | RxBlock # es \<Rightarrow> (- 2, self, d\<lparr>src := es\<rparr>)
      | Data bs # es \<Rightarrow>
          let n = min (length bs) (unat (blen self) - length (pipe_data self))
          in (int n, self\<lparr>pipe_data := pipe_data self @ take n bs\<rparr>,
              d\<lparr>src := (if bs = [] \<or> n < length bs then Data (drop n bs) # es else es)\<rparr>))"

definition splice_out :: "HevTaskIOSplicer \<Rightarrow> direction \<Rightarrow> int \<times> HevTaskIOSplicer \<times> direction" where
  "splice_out self d =
     (case dst d of
        [] \<Rightarrow> (- 1, self, d)
      | TxFail # es \<Rightarrow> (- 1, self, d\<lparr>dst := es\<rparr>)
      | TxBlock # es \<Rightarrow> (- 2, self, d\<lparr>dst := es\<rparr>)
      | Accept m # es \<Rightarrow>
          let n = min m (min (length (pipe_data self)) (unat (blen self)))
          in (int n, self\<lparr>pipe_data := drop n (pipe_data self)\<rparr>,
              d\<lparr>dst := es, delivered := delivered d @ take n (pipe_data self)\<rparr>))"

definition splice_result :: "int \<Rightarrow> int" where
  "splice_result s = (if s \<le> 0 then if s = - 2 then 0 else - 1 else 1)"

definition task_io_splice :: "HevTaskIOSplicer \<Rightarrow> direction \<Rightarrow> int \<times> HevTaskIOSplicer \<times> direction" where
  "task_io_splice self d =
     (let (s, self, d) = splice_in self d;
          res = splice_result s;
          self = (if 0 < s then self\<lparr>wlen := wlen self + of_int s\<rparr> else self)
      in if wlen self \<noteq> 0 then
           let (s, self, d) = splice_out self d;
               res = splice_result s;
               self = (if 0 < s then self\<lparr>wlen := wlen self - of_int s\<rparr> else self)
           in (res, self, d)
         else if res < 0 then (res, self, d\<lparr>dst_shut := True\<rparr>)
         else (res, self, d))"

text \<open>The loop.\<close>

partial_function (option) io_splice_loop ::
    "int \<Rightarrow> int \<Rightarrow> HevTaskIOSplicer \<Rightarrow> HevTaskIOSplicer \<Rightarrow> 'a HevSocks5Relay_scheme \<Rightarrow>
      (HevTaskIOSplicer \<times> HevTaskIOSplicer \<times> 'a HevSocks5Relay_scheme) option" where
  "io_splice_loop res_f res_b splicer_f splicer_b s =
     (case (if res_f \<ge> 0 then task_io_splice splicer_f (fwd s) else (res_f, splicer_f, fwd s)) of (res_f, splicer_f, d) \<Rightarrow>
        let s = s\<lparr>fwd := d\<rparr>
        in case (if res_b \<ge> 0 then task_io_splice splicer_b (bwd s) else (res_b, splicer_b, bwd s)) of (res_b, splicer_b, d) \<Rightarrow>
          let s = s\<lparr>bwd := d\<rparr>
          in if res_f > 0 \<or> res_b > 0 \<or> res_f AND res_b = 0 then
               (case hev_socks5_task_io_yielder (if res_f > 0 \<or> res_b > 0 then HEV_TASK_YIELD else HEV_TASK_WAITIO) s of (y, s) \<Rightarrow>
                  if y \<noteq> 0 then Some (splicer_f, splicer_b, s)
                  else io_splice_loop res_f res_b splicer_f splicer_b s)
             else Some (splicer_f, splicer_b, s))"

definition hev_task_io_splice :: "u64 \<Rightarrow> 'a HevSocks5Relay_scheme \<Rightarrow> 'a HevSocks5Relay_scheme option" where
  "hev_task_io_splice pipe_size s =
     (case task_io_splicer_init pipe_size s of
        (None, s) \<Rightarrow> Some s
      | (Some splicer_f, s) \<Rightarrow>
          (case task_io_splicer_init pipe_size s of
             (None, s) \<Rightarrow> Some (task_io_splicer_fini splicer_f s)
           | (Some splicer_b, s) \<Rightarrow>
               map_option (\<lambda>(splicer_f, splicer_b, s). task_io_splicer_fini splicer_f (task_io_splicer_fini splicer_b s))
                 (io_splice_loop 1 1 splicer_f splicer_b s)))"

definition hev_socks5_tcp_splicer :: "u64 \<Rightarrow> 'a HevSocks5Relay_scheme \<Rightarrow> (int \<times> 'a HevSocks5Relay_scheme) option" where
  "hev_socks5_tcp_splicer pipe_size self =
     (if fd self < 0 then Some (- 1, self) else map_option (Pair 0) (hev_task_io_splice pipe_size self))"

definition hev_socks5_tcp_splice :: "u64 \<Rightarrow> 'a HevSocks5Relay_scheme \<Rightarrow> (int \<times> 'a HevSocks5Relay_scheme) option" where
  "hev_socks5_tcp_splice pipe_size self = hev_socks5_tcp_splicer pipe_size self"

section \<open>One call\<close>

definition splicer_ok :: "HevTaskIOSplicer \<Rightarrow> bool" where
  "splicer_ok self \<longleftrightarrow> length (pipe_data self) \<le> unat (blen self) \<and> wlen self = of_nat (length (pipe_data self)) \<and> 0 < unat (blen self)"

text \<open>All the bytes of a direction, wherever they are, and how much its events can still do.\<close>

definition all_bytes :: "HevTaskIOSplicer \<Rightarrow> direction \<Rightarrow> bytes" where
  "all_bytes self d = delivered d @ pipe_data self @ stream (src d)"

definition event_size :: "rx_event \<Rightarrow> nat" where
  "event_size e = (case e of Data bs \<Rightarrow> 1 + length bs | RxFail \<Rightarrow> 2 | _ \<Rightarrow> 1)"

definition dir_size :: "direction \<Rightarrow> nat" where
  "dir_size d = sum_list (map event_size (src d)) + length (dst d)"

text \<open>Answers of a destination that takes what it is given, and how many there are.\<close>

definition taking :: "tx_event list \<Rightarrow> bool" where
  "taking es \<longleftrightarrow> TxFail \<notin> set es \<and> Accept 0 \<notin> set es"

definition accepts :: "tx_event list \<Rightarrow> nat" where
  "accepts es = length (filter (\<lambda>e. e \<noteq> TxBlock) es)"

text \<open>A direction that is at its end with nothing left behind.\<close>

definition drained :: "HevTaskIOSplicer \<Rightarrow> direction \<Rightarrow> bool" where
  "drained self d \<longleftrightarrow> pipe_data self = [] \<and> stream (src d) = []"

lemma splice_in_ok:
  assumes "splice_in self d = (n, self', d')" "splicer_ok self"
  shows "all_bytes self' d' = all_bytes self d" "dst d' = dst d" "dst_shut d' = dst_shut d" "delivered d' = delivered d"
    "- 2 \<le> n" "0 < n \<Longrightarrow> dir_size d' < dir_size d" "n = - 2 \<Longrightarrow> dir_size d' < dir_size d \<or> self' = self \<and> d' = d \<and> pipe_data self \<noteq> []"
    "dir_size d' \<le> dir_size d"
    "n = 0 \<or> n = - 1 \<Longrightarrow> stream (src d') = [] \<and> pipe_data self' = pipe_data self"
    "self' = self\<lparr>pipe_data := pipe_data self'\<rparr>" "length (pipe_data self') = length (pipe_data self) + nat n"
    "length (pipe_data self') \<le> unat (blen self)"
  using assms
  by (auto simp: splice_in_def all_bytes_def dir_size_def event_size_def splicer_ok_def Let_def min_def
      simp del: of_nat_diff split: if_splits list.splits rx_event.splits)

lemma splice_out_ok:
  assumes "splice_out self d = (n, self', d')" "splicer_ok self" "pipe_data self \<noteq> []"
  shows "all_bytes self' d' = all_bytes self d" "src d' = src d" "dst_shut d' = dst_shut d"
    "- 2 \<le> n" "0 < n \<or> n = - 2 \<Longrightarrow> dir_size d' < dir_size d" "dir_size d' \<le> dir_size d"
    "self' = self\<lparr>pipe_data := pipe_data self'\<rparr>" "length (pipe_data self') + nat n = length (pipe_data self)"
    "taking (dst d) \<Longrightarrow> taking (dst d') \<and> (n = 0 \<or> n = - 1 \<longrightarrow> dst d' = [])"
    "taking (dst d) \<Longrightarrow> accepts (dst d) + length (delivered d) \<le> accepts (dst d') + length (delivered d')"
  using assms
  by (auto simp: splice_out_def all_bytes_def dir_size_def splicer_ok_def taking_def accepts_def Let_def min_def Suc_le_eq
      simp del: of_nat_diff split: if_splits list.splits tx_event.splits)

text \<open>A call keeps every byte, moves on or ends, and ends the destination's stream only when everything was delivered.\<close>

definition call_ok :: "HevTaskIOSplicer \<Rightarrow> direction \<Rightarrow> int \<Rightarrow> HevTaskIOSplicer \<Rightarrow> direction \<Rightarrow> bool" where
  "call_ok self d r self' d' \<longleftrightarrow> splicer_ok self' \<and> (r = - 1 \<or> r = 0 \<or> r = 1) \<and> all_bytes self' d' = all_bytes self d \<and>
     (0 \<le> r \<longrightarrow> dir_size d' < dir_size d) \<and> dir_size d' \<le> dir_size d \<and>
     pipe_fd0 self' = pipe_fd0 self \<and> pipe_fd1 self' = pipe_fd1 self \<and>
     (dst_shut d' \<longrightarrow> dst_shut d \<or> r = - 1 \<and> drained self' d') \<and>
     (taking (dst d) \<longrightarrow> taking (dst d') \<and> accepts (dst d) + length (delivered d) \<le> accepts (dst d') + length (delivered d') \<and>
        (r = - 1 \<longrightarrow> dst_shut d' \<or> dst d' = []))"

lemma splicer_ok_add:
  assumes "splicer_ok self" "self' = self\<lparr>pipe_data := pipe_data self'\<rparr>" "length (pipe_data self') = length (pipe_data self) + nat n"
    "length (pipe_data self') \<le> unat (blen self)"
  shows "splicer_ok (if 0 < n then self'\<lparr>wlen := wlen self' + of_int n\<rparr> else self')"
proof -
  have "blen self' = blen self" "wlen self' = wlen self" by (subst assms(2), simp)+
  then show ?thesis using assms(1,3,4) by (auto simp: splicer_ok_def of_nat_nat)
qed

lemma splicer_ok_sub:
  assumes "splicer_ok self" "self' = self\<lparr>pipe_data := pipe_data self'\<rparr>" "length (pipe_data self') + nat n = length (pipe_data self)"
  shows "splicer_ok (if 0 < n then self'\<lparr>wlen := wlen self' - of_int n\<rparr> else self')"
proof -
  have "blen self' = blen self" "wlen self' = wlen self" by (subst assms(2), simp)+
  moreover have "wlen self = of_nat (length (pipe_data self')) + of_nat (nat n)"
    using assms(1,3) by (metis of_nat_add splicer_ok_def)
  then have "0 < n \<Longrightarrow> wlen self - of_int n = of_nat (length (pipe_data self'))" by (simp add: of_nat_nat)
  ultimately show ?thesis using assms(1,3) by (auto simp: splicer_ok_def)
qed

lemma wlen_zero: "splicer_ok self \<Longrightarrow> wlen self = 0 \<longleftrightarrow> pipe_data self = []"
proof -
  assume ok: "splicer_ok self"
  then have "length (pipe_data self) < 2 ^ 64" using unsigned_less [of "blen self", where 'a = nat] by (simp add: splicer_ok_def)
  then have "unat (wlen self) = length (pipe_data self)" using ok by (simp add: splicer_ok_def unat_of_nat)
  then show ?thesis by (metis length_0_conv unat_eq_zero)
qed

lemma task_io_splice_ok:
  assumes "task_io_splice self d = (r, self', d')" "splicer_ok self"
  shows "call_ok self d r self' d'"
proof -
  obtain n s1 d1 where 1: "splice_in self d = (n, s1, d1)" by (cases "splice_in self d")
  note i = splice_in_ok [OF 1 assms(2)]
  define s2 where "s2 = (if 0 < n then s1\<lparr>wlen := wlen s1 + of_int n\<rparr> else s1)"
  have ok2: "splicer_ok s2" unfolding s2_def by (rule splicer_ok_add [OF assms(2) i(10-12)])
  have s2: "pipe_data s2 = pipe_data s1" "pipe_fd0 s2 = pipe_fd0 self" "pipe_fd1 s2 = pipe_fd1 self"
    unfolding s2_def by (subst i(10), simp)+
  have b2: "all_bytes s2 d1 = all_bytes self d" using i(1) s2(1) by (simp add: all_bytes_def)
  show ?thesis
  proof (cases "pipe_data s1 = []")
    case True
    then have w: "wlen s2 = 0" using wlen_zero [OF ok2] s2(1) by simp
    have n: "n \<le> 0" "pipe_data self = []" using True i(11) by auto
    then have s: "s2 = s1" by (simp add: s2_def)
    from n consider (again) "n = - 2" "dir_size d1 < dir_size d" | (over) "n = 0 \<or> n = - 1" using i(5,7) by force
    then show ?thesis
    proof cases
      case again
      then have "r = 0" "self' = s1" "d' = d1"
        using assms(1) w s unfolding task_io_splice_def 1 by (simp_all add: splice_result_def)
      then show ?thesis using ok2 s2(2,3) b2 i(2-4) again(2) s by (simp add: call_ok_def)
    next
      case over
      then have "r = - 1" "self' = s1" "d' = d1\<lparr>dst_shut := True\<rparr>"
        using assms(1) w s unfolding task_io_splice_def 1 by (auto simp: splice_result_def Let_def)
      then show ?thesis using ok2 s2(2,3) b2 i(2,4,8) i(9) [OF over] s True
        by (simp add: call_ok_def drained_def all_bytes_def dir_size_def)
    qed
  next
    case False
    then have w: "wlen s2 \<noteq> 0" using wlen_zero [OF ok2] s2(1) by simp
    obtain m s3 d2 where 3: "splice_out s2 d1 = (m, s3, d2)" by (cases "splice_out s2 d1")
    note o = splice_out_ok [OF 3 ok2] 
    define s4 where "s4 = (if 0 < m then s3\<lparr>wlen := wlen s3 - of_int m\<rparr> else s3)"
    have p: "pipe_data s2 \<noteq> []" using False s2(1) by simp
    have ok4: "splicer_ok s4" unfolding s4_def by (rule splicer_ok_sub [OF ok2 o(7,8) [OF p]])
    have s4: "pipe_data s4 = pipe_data s3" "pipe_fd0 s4 = pipe_fd0 s2" "pipe_fd1 s4 = pipe_fd1 s2"
      unfolding s4_def by (subst o(7) [OF p], simp)+
    have r: "r = splice_result m" "self' = s4" "d' = d2"
      using assms(1) w unfolding task_io_splice_def 1 by (simp_all add: s2_def [symmetric] 3 s4_def [symmetric] Let_def)
    have "all_bytes s4 d2 = all_bytes self d" using o(1) [OF p] b2 s4(1) by (simp add: all_bytes_def)
    moreover have "0 \<le> r \<longrightarrow> dir_size d2 < dir_size d" using r(1) o(4,5) [OF p] i(8) by (auto simp: splice_result_def split: if_splits)
    moreover have "dir_size d2 \<le> dir_size d" using o(6) [OF p] i(8) by simp
    moreover have "r = - 1 \<longrightarrow> m = 0 \<or> m = - 1" "r = - 1 \<or> r = 0 \<or> r = 1" using r(1) o(4) [OF p] by (auto simp: splice_result_def split: if_splits)
    ultimately show ?thesis using r(2,3) ok4 s4 s2 i(2-4) o(3,9,10) [OF p] by (auto simp: call_ok_def)
  qed
qed

section \<open>The loop\<close>

text \<open>What holds of a direction since the start, with the result of its last call.\<close>

definition dir_ok :: "HevTaskIOSplicer \<Rightarrow> direction \<Rightarrow> int \<Rightarrow> HevTaskIOSplicer \<Rightarrow> direction \<Rightarrow> bool" where
  "dir_ok self0 d0 r self d \<longleftrightarrow> splicer_ok self \<and> - 1 \<le> r \<and> r \<le> 1 \<and> all_bytes self d = all_bytes self0 d0 \<and>
     pipe_fd0 self = pipe_fd0 self0 \<and> pipe_fd1 self = pipe_fd1 self0 \<and>
     (dst_shut d \<longrightarrow> r = - 1 \<and> drained self d) \<and>
     (taking (dst d0) \<longrightarrow> taking (dst d) \<and> accepts (dst d0) + length (delivered d0) \<le> accepts (dst d) + length (delivered d) \<and>
        (r = - 1 \<longrightarrow> dst_shut d \<or> dst d = []))"

lemma dir_ok_start: "splicer_ok self \<Longrightarrow> \<not> dst_shut d \<Longrightarrow> dir_ok self d 1 self d"
  by (simp add: dir_ok_def)

lemma dir_ok_step:
  assumes "dir_ok self0 d0 r self d" "(if r \<ge> 0 then task_io_splice self d else (r, self, d)) = (r', self', d')"
  shows "dir_ok self0 d0 r' self' d'" "0 \<le> r' \<longrightarrow> dir_size d' < dir_size d" "dir_size d' \<le> dir_size d"
proof -
  have "dir_ok self0 d0 r' self' d' \<and> (0 \<le> r' \<longrightarrow> dir_size d' < dir_size d) \<and> dir_size d' \<le> dir_size d"
  proof (cases "r \<ge> 0")
    case True
    have ok: "splicer_ok self" using assms(1) by (simp add: dir_ok_def)
    have "call_ok self d r' self' d'" using task_io_splice_ok [OF _ ok] assms(2) True by simp
    then show ?thesis using assms(1) True by (fastforce simp: dir_ok_def call_ok_def)
  qed (use assms in auto)
  then show "dir_ok self0 d0 r' self' d'" "0 \<le> r' \<longrightarrow> dir_size d' < dir_size d" "dir_size d' \<le> dir_size d" by simp_all
qed

lemma both_over: "- 1 \<le> a \<Longrightarrow> a \<le> 1 \<Longrightarrow> - 1 \<le> b \<Longrightarrow> b \<le> 1 \<Longrightarrow> \<not> (a > 0 \<or> b > 0 \<or> a AND b = 0) \<Longrightarrow> a = - 1 \<and> b = - (1 :: int)"
  by (cases "a = 0"; cases "b = 0") auto

lemma io_splice_loop_ok:
  assumes "dir_ok sf0 df0 rf sf (fwd s)" "dir_ok sb0 db0 rb sb (bwd s)"
  shows "\<exists>sf' sb' s' rf' rb'. io_splice_loop rf rb sf sb s = Some (sf', sb', s') \<and>
    dir_ok sf0 df0 rf' sf' (fwd s') \<and> dir_ok sb0 db0 rb' sb' (bwd s') \<and> (timeout s < 0 \<longrightarrow> rf' = - 1 \<and> rb' = - 1) \<and>
    open_fds s' = open_fds s"
  using assms
proof (induction "dir_size (fwd s) + dir_size (bwd s)" arbitrary: rf rb sf sb s rule: less_induct)
  case less
  obtain rf1 sf1 df where f: "(if rf \<ge> 0 then task_io_splice sf (fwd s) else (rf, sf, fwd s)) = (rf1, sf1, df)" by (metis prod_cases3)
  obtain rb1 sb1 db where b: "(if rb \<ge> 0 then task_io_splice sb (bwd s) else (rb, sb, bwd s)) = (rb1, sb1, db)" by (metis prod_cases3)
  have b': "(if rb \<ge> 0 then task_io_splice sb (bwd (s\<lparr>fwd := df\<rparr>)) else (rb, sb, bwd (s\<lparr>fwd := df\<rparr>))) = (rb1, sb1, db)"
    using b by (cases "rb \<ge> 0") simp_all
  note df = dir_ok_step [OF less.prems(1) f] and db = dir_ok_step [OF less.prems(2) b]
  let ?s = "s\<lparr>fwd := df, bwd := db\<rparr>"
  obtain y s1 where y: "hev_socks5_task_io_yielder (if rf1 > 0 \<or> rb1 > 0 then HEV_TASK_YIELD else HEV_TASK_WAITIO) ?s = (y, s1)" by force
  have loop: "io_splice_loop rf rb sf sb s =
      (if rf1 > 0 \<or> rb1 > 0 \<or> rf1 AND rb1 = 0 then if y \<noteq> 0 then Some (sf1, sb1, s1) else io_splice_loop rf1 rb1 sf1 sb1 s1
       else Some (sf1, sb1, ?s))"
    by (subst io_splice_loop.simps) (simp only: f b' y Let_def prod.case)
  have range: "- 1 \<le> rf1" "rf1 \<le> 1" "- 1 \<le> rb1" "rb1 \<le> 1" using df(1) db(1) by (simp_all add: dir_ok_def)
  show ?case
  proof (cases "rf1 > 0 \<or> rb1 > 0 \<or> rf1 AND rb1 = 0")
    case False
    then have "rf1 = - 1 \<and> rb1 = - 1" using both_over range by blast
    then show ?thesis using False loop df(1) db(1)
      by (intro exI [of _ sf1] exI [of _ sb1] exI [of _ ?s] exI [of _ rf1] exI [of _ rb1]) simp
  next
    case True
    obtain ts where s1: "s1 = ?s\<lparr>sleeps := ts\<rparr>" using yielder_more [OF y] by blast
    show ?thesis
    proof (cases "y = 0")
      case False
      have "\<not> timeout s < 0" using y False by (auto simp: hev_socks5_task_io_yielder_def split: if_splits)
      then show ?thesis using False True loop df(1) db(1) s1
        by (intro exI [of _ sf1] exI [of _ sb1] exI [of _ s1] exI [of _ rf1] exI [of _ rb1]) simp
    next
      case y0: True
      have "0 \<le> rf1 \<or> 0 \<le> rb1" using True range by (cases "rf1 = - 1"; cases "rb1 = - 1") auto
      then have "dir_size (fwd s1) + dir_size (bwd s1) < dir_size (fwd s) + dir_size (bwd s)"
        using df(2,3) db(2,3) s1 by auto
      from less.hyps [OF this, of rf1 sf1 rb1 sb1] show ?thesis using loop True y0 df(1) db(1) s1 by simp
    qed
  qed
qed

section \<open>The whole relay\<close>

text \<open>A direction that ran to its end, to a destination that takes what it is given.\<close>

lemma dir_ok_complete:
  assumes "dir_ok self0 d0 (- 1) self d" "taking (dst d0)" "pipe_data self0 = []" "length (stream (src d0)) < accepts (dst d0)"
  shows "dst_shut d" "delivered d = delivered d0 @ stream (src d0)"
proof -
  have a: "delivered d @ pipe_data self @ stream (src d) = delivered d0 @ stream (src d0)"
    using assms(1,3) by (simp add: dir_ok_def all_bytes_def)
  then have "length (delivered d) \<le> length (delivered d0) + length (stream (src d0))"
    by (metis le_add1 length_append)
  then have "dst d \<noteq> []" using assms(1,2,4) by (auto simp: dir_ok_def accepts_def)
  then show s: "dst_shut d" using assms(1,2) by (auto simp: dir_ok_def)
  then show "delivered d = delivered d0 @ stream (src d0)" using a assms(1) by (auto simp: dir_ok_def drained_def)
qed

lemma splicer_init_cases:
  assumes "task_io_splicer_init pipe_size s = (r, s1)" "distinct (socks s)" "set (socks s) \<inter> open_fds s = {}"
  shows "(\<exists>ds os. r = None \<and> s1 = s\<lparr>socks := ds, opts := os\<rparr>) \<or>
    (\<exists>a b ds os. r = Some \<lparr>pipe_fd0 = a, pipe_fd1 = b, wlen = 0, blen = pipe_size, pipe_data = []\<rparr> \<and>
       s1 = s\<lparr>socks := ds, opts := os, open_fds := insert a (insert b (open_fds s))\<rparr> \<and>
       a \<notin> open_fds s \<and> b \<notin> open_fds s \<and> distinct ds \<and> set ds \<inter> insert a (insert b (open_fds s)) = {})"
proof (cases "sys_pipe2 s")
  case (Pair p t)
  have o: "\<exists>os. t' = t\<lparr>opts := os\<rparr>" if "sys_opt t = (res, t')" for t t' :: "'a net_scheme" and res
    using that by (cases "opts t") (auto simp: sys_opt_def intro: exI [of _ "opts t"])
  show ?thesis
  proof (cases p)
    case None
    then have "r = None" "s1 = t" using assms(1) Pair by (simp_all add: task_io_splicer_init_def)
    moreover obtain ds where "t = s\<lparr>socks := ds\<rparr>"
      using Pair None by (auto simp: sys_pipe2_def split: list.splits if_splits intro: that [of "socks s"])
    ultimately show ?thesis by (intro disjI1 exI [of _ ds] exI [of _ "opts s"]) simp
  next
    case (Some ab)
    then obtain a b ds where p: "p = Some (a, b)" "socks s = a # b # ds" "t = s\<lparr>socks := ds, open_fds := insert a (insert b (open_fds s))\<rparr>"
      using Pair by (auto simp: sys_pipe2_def split: list.splits if_splits)
    have f: "a \<notin> open_fds s" "b \<notin> open_fds s" "distinct ds" "set ds \<inter> insert a (insert b (open_fds s)) = {}"
      using assms(2,3) p(2) by auto
    have u: "insert b (open_fds s) - {a} - {b} = open_fds s" using f(1,2) by auto
    obtain r1 t1 where 1: "sys_opt t = (r1, t1)" by force
    obtain r2 t2 where 2: "sys_opt t1 = (r2, t2)" by force
    obtain o1 o2 where t: "t1 = t\<lparr>opts := o1\<rparr>" "t2 = t1\<lparr>opts := o2\<rparr>" using o [OF 1] o [OF 2] by blast
    have "(r, s1) = (if r1 < 0 then (None, sys_close b (sys_close a t1)) else if r2 < 0 then (None, sys_close b (sys_close a t2))
        else (Some \<lparr>pipe_fd0 = a, pipe_fd1 = b, wlen = 0, blen = pipe_size, pipe_data = []\<rparr>, t2))"
      using assms(1) Pair p(1) by (cases "r1 < 0") (simp_all add: task_io_splicer_init_def 1 2)
    moreover have "sys_close b (sys_close a (t\<lparr>opts := os\<rparr>)) = s\<lparr>socks := ds, opts := os\<rparr>" for os
      by (simp add: sys_close_def p(3) u)
    moreover have "t2 = s\<lparr>socks := ds, opts := o2, open_fds := insert a (insert b (open_fds s))\<rparr>" "t2 = t\<lparr>opts := o2\<rparr>" using t p(3) by simp_all
    ultimately have "r = None \<and> (\<exists>os. s1 = s\<lparr>socks := ds, opts := os\<rparr>) \<or>
        r = Some \<lparr>pipe_fd0 = a, pipe_fd1 = b, wlen = 0, blen = pipe_size, pipe_data = []\<rparr> \<and>
        s1 = s\<lparr>socks := ds, opts := o2, open_fds := insert a (insert b (open_fds s))\<rparr>"
      using t(1) by (metis prod.inject)
    then show ?thesis using f by blast
  qed
qed

text \<open>The system has the four descriptors and takes them.\<close>

definition pipes_ok :: "'a net_scheme \<Rightarrow> bool" where
  "pipes_ok s \<longleftrightarrow> opts s = [] \<and> 4 \<le> length (socks s) \<and> (\<forall>d\<in>set (take 4 (socks s)). 0 \<le> d)"

lemma pipes_ok_init:
  assumes "pipes_ok s"
  shows "fst (task_io_splicer_init n s) \<noteq> None" "fst (task_io_splicer_init n (snd (task_io_splicer_init n s))) \<noteq> None"
proof -
  obtain a b c d ds where "socks s = a # b # c # d # ds" using assms
    by (auto simp: pipes_ok_def Suc_le_length_iff numeral_eq_Suc)
  then show "fst (task_io_splicer_init n s) \<noteq> None" "fst (task_io_splicer_init n (snd (task_io_splicer_init n s))) \<noteq> None"
    using assms by (simp_all add: pipes_ok_def task_io_splicer_init_def sys_pipe2_def sys_opt_def)
qed

text \<open>What a direction has done between two states.\<close>

definition relayed :: "bool \<Rightarrow> direction \<Rightarrow> direction \<Rightarrow> bool" where
  "relayed full d d' \<longleftrightarrow> (\<exists>rest. delivered d' @ rest @ stream (src d') = delivered d @ stream (src d)) \<and>
     (dst_shut d' \<longrightarrow> delivered d' = delivered d @ stream (src d)) \<and>
     (full \<and> taking (dst d) \<and> length (stream (src d)) < accepts (dst d) \<longrightarrow> dst_shut d' \<and> delivered d' = delivered d @ stream (src d))"

lemma relayed_same: "\<not> dst_shut d \<Longrightarrow> \<not> full \<Longrightarrow> relayed full d d"
  by (auto simp: relayed_def intro: exI [of _ "[]"])

lemma dir_ok_relayed:
  assumes "dir_ok self0 d r self d'" "pipe_data self0 = []" "full \<longrightarrow> r = - 1"
  shows "relayed full d d'"
proof -
  have a: "delivered d' @ pipe_data self @ stream (src d') = delivered d @ stream (src d)"
    using assms(1,2) by (simp add: dir_ok_def all_bytes_def)
  moreover have "dst_shut d' \<longrightarrow> delivered d' = delivered d @ stream (src d)"
    using a assms(1) by (auto simp: dir_ok_def drained_def)
  ultimately show ?thesis using dir_ok_complete [of self0 d self d'] assms unfolding relayed_def by blast
qed

lemma io_splice_relays:
  assumes "0 < pipe_size" "\<not> dst_shut (fwd s)" "\<not> dst_shut (bwd s)" "distinct (socks s)" "set (socks s) \<inter> open_fds s = {}"
  shows "\<exists>s'. hev_task_io_splice pipe_size s = Some s' \<and> open_fds s' = open_fds s \<and>
    relayed (timeout s < 0 \<and> pipes_ok s) (fwd s) (fwd s') \<and> relayed (timeout s < 0 \<and> pipes_ok s) (bwd s) (bwd s')"
proof -
  obtain r1 s1 where 1: "task_io_splicer_init pipe_size s = (r1, s1)" by force
  obtain r2 s2 where 2: "task_io_splicer_init pipe_size s1 = (r2, s2)" by force
  have full: "pipes_ok s \<Longrightarrow> r1 \<noteq> None \<and> r2 \<noteq> None" using pipes_ok_init [of s pipe_size] 1 2 by simp
  have same: "relayed (timeout s < 0 \<and> pipes_ok s) (fwd s) (fwd s) \<and> relayed (timeout s < 0 \<and> pipes_ok s) (bwd s) (bwd s)"
    if "r1 = None \<or> r2 = None"
    using full that assms(2,3) by (intro conjI relayed_same) auto
  have ok: "splicer_ok \<lparr>pipe_fd0 = a, pipe_fd1 = b, wlen = 0, blen = pipe_size, pipe_data = []\<rparr>" for a b
    using assms(1) by (simp add: splicer_ok_def word_less_nat_alt)
  from splicer_init_cases [OF 1 assms(4,5)] show ?thesis
  proof (elim disjE exE conjE)
    fix ds os assume n: "r1 = None" "s1 = s\<lparr>socks := ds, opts := os\<rparr>"
    then have "hev_task_io_splice pipe_size s = Some s1" by (simp add: hev_task_io_splice_def 1)
    then show ?thesis using n same by auto
  next
    fix a b ds os
    assume f: "r1 = Some \<lparr>pipe_fd0 = a, pipe_fd1 = b, wlen = 0, blen = pipe_size, pipe_data = []\<rparr>"
      "s1 = s\<lparr>socks := ds, opts := os, open_fds := insert a (insert b (open_fds s))\<rparr>" "a \<notin> open_fds s" "b \<notin> open_fds s"
      "distinct ds" "set ds \<inter> insert a (insert b (open_fds s)) = {}"
    have c: "insert a (insert b (open_fds s)) - {a} - {b} = open_fds s" using f(3,4) by auto
    have "distinct (socks s1)" "set (socks s1) \<inter> open_fds s1 = {}" using f by simp_all
    from splicer_init_cases [OF 2 this] show ?thesis
    proof (elim disjE exE conjE)
      fix ds' os' assume n: "r2 = None" "s2 = s1\<lparr>socks := ds', opts := os'\<rparr>"
      then have "hev_task_io_splice pipe_size s = Some (sys_close b (sys_close a s2))"
        using f(1) by (simp add: hev_task_io_splice_def 1 2 task_io_splicer_fini_def)
      then show ?thesis using n f(2) c same by (auto simp: sys_close_def)
    next
      fix a' b' ds' os'
      assume g: "r2 = Some \<lparr>pipe_fd0 = a', pipe_fd1 = b', wlen = 0, blen = pipe_size, pipe_data = []\<rparr>"
        "s2 = s1\<lparr>socks := ds', opts := os', open_fds := insert a' (insert b' (open_fds s1))\<rparr>" "a' \<notin> open_fds s1" "b' \<notin> open_fds s1"
      let ?f = "\<lparr>pipe_fd0 = a, pipe_fd1 = b, wlen = 0, blen = pipe_size, pipe_data = []\<rparr>"
      let ?b = "\<lparr>pipe_fd0 = a', pipe_fd1 = b', wlen = 0, blen = pipe_size, pipe_data = []\<rparr>"
      have d: "dir_ok ?f (fwd s) 1 ?f (fwd s2)" "dir_ok ?b (bwd s) 1 ?b (bwd s2)"
        using dir_ok_start [OF ok] assms(2,3) f(2) g(2) by simp_all
      obtain sf sb s3 rf rb where l: "io_splice_loop 1 1 ?f ?b s2 = Some (sf, sb, s3)" "dir_ok ?f (fwd s) rf sf (fwd s3)"
          "dir_ok ?b (bwd s) rb sb (bwd s3)" "timeout s2 < 0 \<longrightarrow> rf = - 1 \<and> rb = - 1" "open_fds s3 = open_fds s2"
        using io_splice_loop_ok [OF d] by blast
      have h: "hev_task_io_splice pipe_size s = Some (task_io_splicer_fini sf (task_io_splicer_fini sb s3))"
        using f(1) g(1) l(1) by (simp add: hev_task_io_splice_def 1 2)
      have "insert a' (insert b' (open_fds s1)) - {a'} - {b'} - {a} - {b} = open_fds s" using f(2) g(3,4) c by auto
      then have "open_fds (task_io_splicer_fini sf (task_io_splicer_fini sb s3)) = open_fds s"
        using l(2,3,5) g(2) by (simp add: task_io_splicer_fini_def sys_close_def dir_ok_def)
      moreover have "relayed (timeout s < 0 \<and> pipes_ok s) (fwd s) (fwd s3)" "relayed (timeout s < 0 \<and> pipes_ok s) (bwd s) (bwd s3)"
        using dir_ok_relayed [OF l(2)] dir_ok_relayed [OF l(3)] l(4) f(2) g(2) by simp_all
      ultimately show ?thesis using h by (simp add: task_io_splicer_fini_def sys_close_def)
    qed
  qed
qed

section \<open>Properties\<close>


definition relay_example :: HevSocks5Relay where
  "relay_example = \<lparr>rx = [], tx = [], sent = [], conns = [], dialled = [], socks = [10, 11, 12, 13], opts = [], sleeps = [],
     mallocs = [], open_fds = {7, 8}, blocks = 0, eagain = False, drx = (\<lambda>_. []), dtx = (\<lambda>_. []), dsent = (\<lambda>_. []),
     fd = 7, timeout = - 1, udp_associated = False, stype = TYPE_TCP, addr_family = FAMILY_UNSPEC,
     fwd = \<lparr>src = [Data [1, 2, 3], RxBlock, RxEof], dst = replicate 5 (Accept 2), delivered = [], dst_shut = False\<rparr>,
     bwd = \<lparr>src = [RxFail], dst = [], delivered = [], dst_shut = False\<rparr>\<rparr>"


end
