(* ===== verification/Spec2Isabelle.thy ===== *)
theory Spec2Isabelle
  imports Prelude HevList HevRBTree RBZipper HevRBTreeRefine HevRBTreeErase HevRBTreeOps
    HevRBTreeIndex HevRingBuffer HevMappedDNS HevMappedDNSWire Socks5Addr TaskIO Socks5Client Socks5ClientOk
    Socks5Auth Socks5Server Socks5ServerOk Socks5UDP Socks5UDPOk LwipAddr SessionSet
    SessionTCP SessionTCPOk Session SessionTCPLife SessionUDP SessionUDPOk
    HevConfig Tunnel TunnelOk TunnelTasks TunnelAccept TunnelMain TcpRelay
begin

text \<open>
  A verification development of the native part of the application: the tunnel under \<^verbatim>\<open>src/app/src/main/jni/src\<close>, which takes the
  packets of a VPN device, ends the TCP connections and UDP flows in them with lwIP, and carries each of them to a SOCKS5 proxy.

  \<^bold>\<open>The program.\<close> The Android service (\<^verbatim>\<open>hev-jni.c\<close>) starts \<^verbatim>\<open>hev_socks5_tunnel_main\<close> (\<^verbatim>\<open>hev-main.c\<close>) in a thread. It reads the
  configuration (\<^verbatim>\<open>hev-config.c\<close>), opens the loggers and sets up the tunnel (\<^verbatim>\<open>hev-socks5-tunnel.c\<close>): the device
  (\<^verbatim>\<open>hev-tunnel-linux.c\<close>), lwIP's listeners, three tasks and the mapped DNS (\<^verbatim>\<open>hev-mapped-dns.c\<close>), a cache that gives every name that is asked
  for an address of its own. The packet task gives packets to lwIP. For a new connection or flow lwIP calls a handler, which makes a
  session (\<^verbatim>\<open>hev-socks5-session-tcp.c\<close>, \<^verbatim>\<open>-udp.c\<close>) with a task of its own and puts it into the set of sessions; an address of the mapped
  network is turned back into the name. The session is a SOCKS5 client (\<^verbatim>\<open>core/src/hev-socks5-client.c\<close>): it connects to the proxy, runs the
  handshake and then relays until either side ends. The library \<^verbatim>\<open>core/src\<close> holds the SOCKS5 server as well, with its users and the TCP and
  UDP relays. A byte written to the event pair stops everything.

  \<^bold>\<open>The theories\<close>, in the order of their imports:

  \<^item> \<^verbatim>\<open>Prelude\<close>: bytes, words, memory as lists, the loops of \<^verbatim>\<open>partial_function\<close> and the lemmas the rest shares.
  \<^item> \<^verbatim>\<open>HevList\<close>: the intrusive list of \<^verbatim>\<open>misc/hev-list.c\<close> over a heap of nodes, and that its operations are those of the sequence it holds
    (a locale, interpreted for the heap).
  \<^item> \<^verbatim>\<open>HevRBTree\<close> (the operations of \<^verbatim>\<open>core/src/hev-rbtree.c\<close> over a heap, line by line), \<^verbatim>\<open>RBZipper\<close> (red-black trees with a hole), \<^verbatim>\<open>HevRBTreeRefine\<close>,
    \<^verbatim>\<open>HevRBTreeErase\<close> (one turn of the loops of insertion and erasure on them), \<^verbatim>\<open>HevRBTreeOps\<close> (the whole operations end and keep a red-black
    tree), \<^verbatim>\<open>HevRBTreeIndex\<close> (searching it by a key).
  \<^item> \<^verbatim>\<open>HevRingBuffer\<close>: the ring buffer of \<^verbatim>\<open>misc/hev-ring-buffer.c\<close> at its width, as a stream with bytes in flight.
  \<^item> \<^verbatim>\<open>HevMappedDNS\<close>, \<^verbatim>\<open>HevMappedDNSWire\<close>: the cache over tree, list and records, that it is a least-recently-used cache of pairs, and the
    messages it reads and writes.
  \<^item> \<^verbatim>\<open>Socks5Addr\<close>, \<^verbatim>\<open>TaskIO\<close>: addresses and their conversions, the settings, the base object and the blocking calls of the task system.
  \<^item> \<^verbatim>\<open>Socks5Client\<close>, \<^verbatim>\<open>Socks5ClientOk\<close>; \<^verbatim>\<open>Socks5Auth\<close>; \<^verbatim>\<open>Socks5Server\<close>, \<^verbatim>\<open>Socks5ServerOk\<close>; \<^verbatim>\<open>Socks5UDP\<close>, \<^verbatim>\<open>Socks5UDPOk\<close>; \<^verbatim>\<open>TcpRelay\<close>: the
    files of \<^verbatim>\<open>core/src\<close>, definitions first and what they do in the theory ending in \<^verbatim>\<open>Ok\<close>.
  \<^item> \<^verbatim>\<open>LwipAddr\<close> (\<^verbatim>\<open>misc/hev-utils.c\<close>), \<^verbatim>\<open>SessionSet\<close>, \<^verbatim>\<open>SessionTCP\<close>, \<^verbatim>\<open>SessionTCPOk\<close>, \<^verbatim>\<open>Session\<close>, \<^verbatim>\<open>SessionTCPLife\<close>, \<^verbatim>\<open>SessionUDP\<close>,
    \<^verbatim>\<open>SessionUDPOk\<close>: the set of sessions as a step relation, the two kinds of session with lwIP's callbacks, and their whole lives.
  \<^item> \<^verbatim>\<open>HevConfig\<close>: every function of \<^verbatim>\<open>hev-config.c\<close> over a document of the YAML library.
  \<^item> \<^verbatim>\<open>Tunnel\<close>, \<^verbatim>\<open>TunnelOk\<close>: the static variables of the tunnel, the device, initialisation and finalisation; \<^verbatim>\<open>TunnelTasks\<close>: the packet and timer
    tasks and the handler of DNS queries; \<^verbatim>\<open>TunnelAccept\<close>: the handlers for new connections and datagrams; \<^verbatim>\<open>TunnelMain\<close>: loggers, the main
    function and the service.
  \<^item> This theory: client and server, composed.

  \<^bold>\<open>How code is modelled.\<close> Every C function is a definition of the same name (\<open>tunnel_udp_recv_handler\<close> is the tunnel's
  \<^verbatim>\<open>udp_recv_handler\<close>, whose name a session's handler has too); every structure and group of static variables a record; an object of a class
  that extends another extends its record. Pointers are 64-bit words and \<open>NULL\<close> is 0; sizes and counters keep their width where they may
  wrap, and are integers where the code checks them. What the kernel, the clock, \<^verbatim>\<open>malloc\<close>, lwIP and other tasks answer is a script in the
  state, one list for each kind of call; theorems hold for every script, and an exhausted script is a failed call unless the text of the
  theory says otherwise. Class hooks (the bind hook, the relay's descriptor), the resolver, \<^verbatim>\<open>inet_pton\<close>, the YAML parser and the scheduler
  are arguments. \<open>None\<close> is a result the code does not have: it would read or write outside its memory, use what is freed, overflow a
  signed number, or not return. A theorem that a function returns \<open>Some\<close> says that none of this happens.

  Loops over data structures and scripts that may not end are \<^verbatim>\<open>partial_function (option)\<close>; that they return is proved, by a measure on
  the tree, the list or the script. There is no fuel.

  \<^bold>\<open>What the lemmas show.\<close>

  \<^item> Data structures: insertion, erasure, replacing and walking keep a red-black tree with the right sequence of nodes; the list and the ring
    buffer are the sequences they hold; the mapped DNS is a least-recently-used cache, its replies are exact and name and address go back and
    forth.
  \<^item> Protocol: a client's handshake succeeds only after the replies that accept it, against a server that accepts it does succeed, and
    client and server understand each other; the server serves only who is in its database, a map of names to passwords; addresses and UDP
    frames survive both directions.
  \<^item> Relaying: no byte of a TCP session or of the TCP relay is lost, repeated or reordered, whatever lwIP calls in between; datagrams of a UDP
    session are forwarded once and in order; the relays end.
  \<^item> Sessions and the tunnel: the set holds the live sessions in the order of their activity, the limit asks the right one to end, stopping
    asks all; a session gives back everything on every path; a new connection or datagram becomes a session for its destination or
    changes nothing; the tasks return when the tunnel is stopped; initialisation and the main function give everything back, with the
    exceptions their theorems state.
  \<^item> What the code does not handle is proved as well, in lemmas about the inputs in question (names of 249 bytes and more, truncated frames,
    short queries, a stop while a datagram arrives, a failed start, long log lines).

  \<^bold>\<open>Interfaces.\<close> Where one part relies on another the contract is a locale: the intrusive list, the index ordered by a key (for names in the mapped DNS
  and for users), the byte ring, the bind hook of the classes with its extensions for clients, servers and sessions, and the hook for the
  descriptor of a UDP relay. Each is interpreted for the definitions of the program, and the clients' lemmas come from the interpretation.

  \<^bold>\<open>Not modelled.\<close> The devices of other systems (\<^verbatim>\<open>hev-tunnel-freebsd.c\<close>, \<^verbatim>\<open>-macos.c\<close>, \<^verbatim>\<open>-netbsd.c\<close>, \<^verbatim>\<open>-windows.c\<close>), which are not built for
  Android; the registration of classes and interfaces and reference counts beyond one owner; the registration with the Java virtual
  machine; the application in Kotlin; and the libraries under \<^verbatim>\<open>third-part\<close> (task system, lwIP, YAML), of which only those functions are
  modelled that the program's logic rests on, together with the part that calls them. A script of the configuration is recorded, not run. The
  override of the UDP relay's address is a definition of its own that the handshake of a UDP session does not dispatch to.
\<close>

section \<open>Client and server\<close>

lemma creds_msg_creds:
  "auth_user c = Some name \<Longrightarrow> auth_pass c = Some pass \<Longrightarrow> length name < 256 \<Longrightarrow> length pass < 256 \<Longrightarrow>
     creds_msg c = creds name pass"
  by (simp add: creds_msg_def creds_def)

lemma response_bytes_ok: "saddr_ok sa \<Longrightarrow> response_ok (response_bytes 0 sa)"
  by (auto simp: response_ok_def response_bytes_def saddr_ok_def)

lemma client_request_understood:
  assumes "up_addr c = Some a" "cclass c = CLIENT_TCP" "stype c = TYPE_TCP" "request_addrlen a = Some (length a)" "2 \<le> length a"
    and "hev_socks5_addr_into_sockaddr6 rs \<lparr>atype = a ! 0, abody = mem_put (replicate 259 0) 0 (tl a)\<rparr> junk fam = (0, sa, f)"
  shows "request_bytes rs junk fam 1 sa (request_msg c)"
proof -
  obtain x y buf where a: "a = x # y # buf" using assms(5) by (cases a; cases "tl a") auto
  have "request_msg c = [5, 1, 0, x, y] @ buf"
    using assms(1-4) a by (simp add: request_msg_def request_cmd_def upstream_bytes_def)
  moreover have "server_addrlen x y = Some (length buf)"
    using assms(4) a by (auto simp: request_addrlen_def server_addrlen_def split: if_splits)
  ultimately show ?thesis
    unfolding request_bytes_def
    by (intro exI [of _ 0] exI [of _ x] exI [of _ y] exI [of _ buf] exI [of _ f]) (use assms(6) a in simp)
qed

text \<open>
  C40. Client and server agree. What a TCP client with credentials sends in a pipelined handshake, a server that has
  them in its database understands: it connects to the address the client asked for and succeeds, and what it sends
  back is \<open>reply\<close>. That reply makes the client's handshake succeed, and what the client sends is the query the
  server was given.
\<close>

theorem client_server_agree:
  fixes c :: HevSocks5Client and s :: HevSocks5Server
  assumes client: "cclass c = CLIENT_TCP" "stype c = TYPE_TCP" "auth_user c = Some name" "auth_pass c = Some pass"
      "up_addr c = Some a" "request_addrlen a = Some (length a)" "2 \<le> length a"
    and creds: "name \<noteq> []" "length name < 256" "pass \<noteq> []" "length pass < 256"
    and server: "sobj s = OBJ_AUTH" "auth_at (authdb s) db" "db name = Some pass"
      "socks s = d # ds" "0 \<le> d" "opts s = []" "conns s = Connected # cs"
    and addr: "hev_socks5_addr_into_sockaddr6 rs \<lparr>atype = a ! 0, abody = mem_put (replicate 259 0) 0 (tl a)\<rparr>
        (rq_addr junk) (addr_family s) = (0, sa, f)" "saddr_ok sa"
    and wire: "ready 3 query s" "query = methods_msg c @ creds_msg c @ request_msg c" "ready 3 reply c"
      "reply = [HEV_SOCKS5_VERSION_5, HEV_SOCKS5_AUTH_METHOD_USER] @ [HEV_SOCKS5_AUTH_VERSION_1, 0] @ response_bytes 0 sa"
  shows "\<exists>s' c'. hev_socks5_server_handshake m rs hev_socks5_bind junk s = Some (0, s') \<and> sent s' = sent s @ reply \<and>
    hev_socks5_client_handshake m rs' bnd True c = Some (0, c') \<and> sent c' = sent c @ query"
proof -
  have mo: "methods_msg c = methods_offer [2]" using client(3,4) by (simp add: methods_msg_def methods_offer_def)
  have cr: "creds_msg c = creds name pass" using creds_msg_creds [OF client(3,4) creds(2,4)] .
  have rq: "request_bytes rs (rq_addr junk) (addr_family s) 1 sa (request_msg c)"
    using client_request_understood [OF client(5,1,2,6,7) addr(1)] .
  have w: "ready 3 (methods_offer [2] @ creds name pass @ request_msg c @ []) s" using wire(1,2) mo cr by simp
  have "2 \<in> set [2 :: byte]" "length [2 :: byte] < 256" by simp_all
  from server_handshake_ready [OF w this server(1-3) creds rq addr(2) server(4-7), of m] obtain s' where
    s': "hev_socks5_server_handshake m rs hev_socks5_bind junk s = Some (0, s')"
      "sent s' = sent s @ [5, 2] @ [1, 0] @ response_bytes 0 sa" by blast
  have "ready 3 (auth_reply 2 @ response_bytes 0 sa @ []) c" using wire(3,4) by (simp add: auth_reply_def)
  moreover have "can_request c" using client
    by (simp add: can_request_def request_cmd_def get_upstream_addr_def hev_socks5_client_tcp_get_upstream_addr_def)
  moreover have "stype c \<noteq> TYPE_UDP_IN_UDP" using client(2) by simp
  ultimately have "\<exists>c'. hev_socks5_client_handshake m rs' bnd True c = Some (0, c') \<and> sent c' = sent c @ query"
    using handshake_ready [OF _ _ response_bytes_ok [OF addr(2)], of 2 "[]" c m rs' bnd True] wire(2) by auto
  then show ?thesis using s' wire(4) by auto
qed

definition demo_reply :: bytes where
  "demo_reply = [5, 2, 1, 0] @ response_bytes 0 \<lparr>sin6_port = [0, 80], sin6_addr = v4mapped_prefix @ [10, 0, 0, 9]\<rparr>"

theorem client_server_agree_witness:
  "\<exists>s' c'. hev_socks5_server_handshake misc_defaults no_resolver hev_socks5_bind demo_junk demo_server = Some (0, s') \<and>
    hev_socks5_client_handshake misc_defaults no_resolver hev_socks5_bind True (demo_client\<lparr>rx := [Data demo_reply]\<rparr>) = Some (0, c')"
proof -
  let ?c = "demo_client\<lparr>rx := [Data demo_reply]\<rparr>"
  let ?a = "[1, 10, 0, 0, 9, 0, 80]"
  have c: "cclass ?c = CLIENT_TCP" "stype ?c = TYPE_TCP" "auth_user ?c = Some [117]"
      "auth_pass ?c = Some [112, 119]" "up_addr ?c = Some ?a" "request_addrlen ?a = Some (length ?a)" "2 \<le> length ?a"
    by (simp_all add: demo_client_def request_addrlen_def)
  have s: "sobj demo_server = OBJ_AUTH" "auth_at (authdb demo_server) [[117] \<mapsto> [112, 119]]"
      "socks demo_server = [9]" "(0 :: int) \<le> 9" "opts demo_server = []" "conns demo_server = [Connected]"
    using demo_db_at by (simp_all add: demo_server_def)
  have n: "[117] \<noteq> ([] :: bytes)" "length ([117] :: bytes) < 256" "[112, 119] \<noteq> ([] :: bytes)" "length ([112, 119] :: bytes) < 256"
      "[[117] \<mapsto> [112, 119]] ([117] :: bytes) = Some ([112, 119] :: bytes)" by simp_all
  let ?sa = "\<lparr>sin6_port = [0, 80], sin6_addr = v4mapped_prefix @ [10, 0, 0, 9]\<rparr>"
  have "addr_ok \<lparr>atype = 1, abody = mem_put (replicate 259 0) 0 (tl ?a)\<rparr>" "saddr_ok (rq_addr demo_junk)"
    by (simp_all add: addr_ok_def saddr_ok_def demo_junk_def)
  note into = into_sockaddr6_ipv4 [OF this]
  have a: "hev_socks5_addr_into_sockaddr6 no_resolver \<lparr>atype = ?a ! 0, abody = mem_put (replicate 259 0) 0 (tl ?a)\<rparr>
        (rq_addr demo_junk) (addr_family demo_server) = (0, ?sa, FAMILY_IPV4)" "saddr_ok ?sa"
    using into by (simp_all add: hev_socks5_addr_into_sockaddr6_def ipv4_port_def ipv4_addr_def mem_get_def mem_put_def saddr_ok_def demo_junk_def)
  have w: "ready 3 (methods_msg ?c @ creds_msg ?c @ request_msg ?c) demo_server"
    by (auto simp: ready_def flowing_def demo_server_def demo_client_def methods_msg_def creds_msg_def request_msg_def request_cmd_def
        upstream_bytes_def request_addrlen_def)
  have r: "ready 3 demo_reply ?c" "demo_reply = [5, 2] @ [1, 0] @ response_bytes 0 ?sa"
    by (auto simp: ready_def flowing_def demo_client_def demo_reply_def response_bytes_def)
  show ?thesis
    using client_server_agree [OF c n(1-4) s(1,2) n(5) s(3-6) a w refl r, of misc_defaults no_resolver hev_socks5_bind] by blast
qed

end
